(* ===== verification/Prelude.thy ===== *)
theory Prelude
  imports Main "HOL-Library.List_Lexorder" "HOL-Library.Char_ord"
begin

text \<open>
  The shared layer of the development: the result type in which every thrown exception of the
  TypeScript sources is a value, the JavaScript array and string operations the components use,
  the row operations their SQL statements stand for, and the interfaces (locales) that several
  components satisfy: operations that keep an invariant, and encoders with their decoders.
\<close>

named_theorems res_simps \<open>inversion of successful results\<close>
named_theorems row_simps \<open>row updates of a table\<close>

section \<open>Results\<close>

text \<open>
  Every exception the modelled code throws. \<open>Error\<close> is a plain \<open>new Error(message)\<close>;
  the other constructors are the error classes the sources define or the runtime raises.
\<close>

datatype contract_code =
    INVALID_TYPE
  | INVALID_KEYS
  | UNSUPPORTED_VERSION
  | INVALID_IDENTIFIER
  | INVALID_TEXT
  | INVALID_LENGTH
  | INVALID_VALUE

datatype adapter_code = CLOSED | PROVIDER_ERROR | INVALID_SEMANTIC_OUTPUT

datatype js_error =
    Error string
  | SemanticContractError contract_code string
  | PiAdapterError adapter_code string
  | TuiSideChatStateError string
  | StateGoalError string
  | TypeError
  | RangeError
  | SyntaxError
  | SqlConstraint string
  | AggregateError "js_error list" string

type_synonym 'a res = "js_error + 'a"

fun bindR :: "'a res \<Rightarrow> ('a \<Rightarrow> 'b res) \<Rightarrow> 'b res" where
  "bindR (Inl e) f = Inl e"
| "bindR (Inr x) f = f x"

text \<open>\<open>array.map(f)\<close> with a callback that may throw: the first exception wins.\<close>

fun mapR :: "('a \<Rightarrow> 'b res) \<Rightarrow> 'a list \<Rightarrow> 'b list res" where
  "mapR f [] = Inr []"
| "mapR f (x # xs) = bindR (f x) (\<lambda>y. bindR (mapR f xs) (\<lambda>ys. Inr (y # ys)))"

definition is_ok :: "'a res \<Rightarrow> bool" where
  "is_ok r = (case r of Inl _ \<Rightarrow> False | Inr _ \<Rightarrow> True)"

lemma is_ok_iff: "is_ok r \<longleftrightarrow> (\<exists>x. r = Inr x)"
  by (cases r) (auto simp: is_ok_def)

lemma bindR_Inr_iff [res_simps]:
  "bindR r f = Inr y \<longleftrightarrow> (\<exists>x. r = Inr x \<and> f x = Inr y)"
  by (cases r) auto

lemma bindR_Inl_iff: "bindR r f = Inl e \<longleftrightarrow> r = Inl e \<or> (\<exists>x. r = Inr x \<and> f x = Inl e)"
  by (cases r) auto

lemma bindR_cong [fundef_cong]:
  "r = r' \<Longrightarrow> (\<And>x. r' = Inr x \<Longrightarrow> f x = g x) \<Longrightarrow> bindR r f = bindR r' g"
  by (cases r') auto

lemma mapR_cong [fundef_cong]:
  "xs = ys \<Longrightarrow> (\<And>x. x \<in> set ys \<Longrightarrow> f x = g x) \<Longrightarrow> mapR f xs = mapR g ys"
  by (induction ys arbitrary: xs) auto

lemma if_Inl_Inr [res_simps]: "(if b then Inl e else r) = Inr y \<longleftrightarrow> \<not> b \<and> r = Inr y"
  by auto

lemma mapR_Inr_iff: "mapR f xs = Inr ys \<longleftrightarrow> list_all2 (\<lambda>x y. f x = Inr y) xs ys"
proof (induction xs arbitrary: ys)
  case Nil
  then show ?case by auto
next
  case (Cons x xs)
  then show ?case by (cases ys) (auto simp: res_simps)
qed

lemma mapR_length: "mapR f xs = Inr ys \<Longrightarrow> length ys = length xs"
  by (simp add: mapR_Inr_iff list_all2_lengthD)

lemma mapR_InrD: "mapR f xs = Inr ys \<Longrightarrow> y \<in> set ys \<Longrightarrow> \<exists>x \<in> set xs. f x = Inr y"
  by (induction xs arbitrary: ys) (auto simp: res_simps)

lemma mapR_map_Inr: "(\<And>x. x \<in> set xs \<Longrightarrow> f (g x) = Inr x) \<Longrightarrow> mapR f (map g xs) = Inr xs"
  by (induction xs) auto

lemma mapR_all_Inr: "(\<And>x. x \<in> set xs \<Longrightarrow> f x = Inr (g x)) \<Longrightarrow> mapR f xs = Inr (map g xs)"
  by (induction xs) auto

lemma mapR_eq_map: "mapR f xs = Inr ys \<Longrightarrow> (\<And>x y. f x = Inr y \<Longrightarrow> h y = x) \<Longrightarrow> map h ys = xs"
  by (induction xs arbitrary: ys) (auto simp: res_simps)

text \<open>
  An optional property: missing, present with the value \<open>undefined\<close>, or present with a value.
\<close>

datatype 'a optional = Absent | Undefined | Present 'a

section \<open>Arrays\<close>

text \<open>\<open>array.findIndex(p)\<close>; \<open>None\<close> is the index -1.\<close>

fun findIndex :: "('a \<Rightarrow> bool) \<Rightarrow> 'a list \<Rightarrow> nat option" where
  "findIndex p [] = None"
| "findIndex p (x # xs) = (if p x then Some 0 else map_option Suc (findIndex p xs))"

lemma findIndex_None: "findIndex p xs = None \<longleftrightarrow> (\<forall>x \<in> set xs. \<not> p x)"
  by (induction xs) auto

lemma findIndex_Some: "findIndex p xs = Some i \<Longrightarrow> i < length xs \<and> p (xs ! i) \<and> (\<forall>j<i. \<not> p (xs ! j))"
proof (induction xs arbitrary: i)
  case Nil
  then show ?case by simp
next
  case (Cons x xs)
  then show ?case by (auto split: if_splits simp: nth_Cons split: nat.splits)
qed

lemma findIndex_unique:
  "i < length xs \<Longrightarrow> p (xs ! i) \<Longrightarrow> (\<And>j. j < length xs \<Longrightarrow> p (xs ! j) \<Longrightarrow> j = i) \<Longrightarrow>
     findIndex p xs = Some i"
  by (metis findIndex_None findIndex_Some nth_mem option.exhaust)

lemma list_all_update: "list_all P xs \<Longrightarrow> P y \<Longrightarrow> list_all P (xs[i := y])"
  by (metis list_all_iff set_update_subsetI subset_code(1) subsetI insert_iff set_update_subset_insert)

lemma nth_update_any: "j < length xs \<Longrightarrow> xs[i := x] ! j = (if i = j then x else xs ! j)"
  by (auto simp: nth_list_update)

section \<open>Rows\<close>

text \<open>
  A table is the list of its rows. \<open>update_where\<close> is SQL's \<open>UPDATE ... SET ... WHERE\<close> and
  \<open>count_where\<close> the number of rows it changes; \<open>insert_or_ignore\<close> is
  \<open>INSERT OR IGNORE\<close> and \<open>upsert\<close> is \<open>INSERT OR REPLACE\<close> on a table with the given key.
\<close>

definition update_where :: "('r \<Rightarrow> bool) \<Rightarrow> ('r \<Rightarrow> 'r) \<Rightarrow> 'r list \<Rightarrow> 'r list" where
  "update_where p f rows = map (\<lambda>r. if p r then f r else r) rows"

definition count_where :: "('r \<Rightarrow> bool) \<Rightarrow> 'r list \<Rightarrow> nat" where
  "count_where p rows = length (filter p rows)"

definition insert_or_ignore :: "('r \<Rightarrow> 'k) \<Rightarrow> 'r \<Rightarrow> 'r list \<Rightarrow> 'r list" where
  "insert_or_ignore key r rows = (if key r \<in> key ` set rows then rows else rows @ [r])"

definition upsert :: "('r \<Rightarrow> 'k) \<Rightarrow> 'r \<Rightarrow> 'r list \<Rightarrow> 'r list" where
  "upsert key r rows = filter (\<lambda>x. key x \<noteq> key r) rows @ [r]"

abbreviation key_unique :: "('r \<Rightarrow> 'k) \<Rightarrow> 'r list \<Rightarrow> bool" where
  "key_unique key rows \<equiv> distinct (map key rows)"

lemma update_where_Nil [row_simps, simp]: "update_where p f [] = []"
  by (simp add: update_where_def)

lemma update_where_Cons [row_simps, simp]:
  "update_where p f (r # rs) = (if p r then f r else r) # update_where p f rs"
  by (simp add: update_where_def)

lemma update_where_append [row_simps, simp]:
  "update_where p f (rs @ qs) = update_where p f rs @ update_where p f qs"
  by (simp add: update_where_def)

lemma length_update_where [row_simps, simp]: "length (update_where p f rows) = length rows"
  by (simp add: update_where_def)

lemma set_update_where [row_simps]:
  "set (update_where p f rows) = (\<lambda>r. if p r then f r else r) ` set rows"
  by (simp add: update_where_def)

lemma map_update_where:
  "(\<And>r. p r \<Longrightarrow> g (f r) = g r) \<Longrightarrow> map g (update_where p f rows) = map g rows"
  by (auto simp: update_where_def)

lemma update_where_id: "(\<And>r. r \<in> set rows \<Longrightarrow> \<not> p r) \<Longrightarrow> update_where p f rows = rows"
  by (simp add: update_where_def map_idI)

lemma count_where_0: "count_where p rows = 0 \<longleftrightarrow> (\<forall>r \<in> set rows. \<not> p r)"
  by (simp add: count_where_def filter_empty_conv)

lemma key_unique_filter: "key_unique key rows \<Longrightarrow> key_unique key (filter p rows)"
  by (rule distinct_map_filter)

lemma key_unique_inj:
  "key_unique key rows \<Longrightarrow> r \<in> set rows \<Longrightarrow> q \<in> set rows \<Longrightarrow> key r = key q \<Longrightarrow> r = q"
  by (simp add: distinct_map inj_on_def)

lemma filter_key_unique:
  assumes "key_unique key rows" and "r \<in> set rows"
  shows "filter (\<lambda>x. key x = key r) rows = [r]"
  using assms
proof (induction rows)
  case Nil
  then show ?case by simp
next
  case (Cons x rows)
  show ?case
  proof (cases "x = r")
    case True
    with Cons.prems have "filter (\<lambda>x. key x = key r) rows = []"
      by (auto simp: filter_empty_conv image_iff)
    with True show ?thesis by simp
  next
    case False
    with Cons.prems have "r \<in> set rows" and "key x \<noteq> key r" by (auto simp: image_iff)
    with Cons show ?thesis by simp
  qed
qed

lemma count_where_key:
  assumes "key_unique key rows" and "\<And>r. r \<in> set rows \<Longrightarrow> p r \<Longrightarrow> key r = k"
  shows "count_where p rows = (if \<exists>r \<in> set rows. p r then 1 else 0)"
proof (cases "\<exists>r \<in> set rows. p r")
  case False
  then show ?thesis by (simp add: count_where_0)
next
  case True
  then obtain r where r: "r \<in> set rows" "p r" by blast
  have "filter p rows = filter p (filter (\<lambda>x. key x = key r) rows)"
    using assms(2) r by (auto intro: filter_cong)
  also have "\<dots> = [r]" using filter_key_unique [OF assms(1) r(1)] r(2) by simp
  finally show ?thesis using True by (simp add: count_where_def)
qed

lemma key_unique_upsert: "key_unique key rows \<Longrightarrow> key_unique key (upsert key r rows)"
  by (auto simp: upsert_def distinct_map_filter)

lemma key_unique_insert_or_ignore:
  "key_unique key rows \<Longrightarrow> key_unique key (insert_or_ignore key r rows)"
  by (auto simp: insert_or_ignore_def)

lemma find_key_unique:
  "key_unique key rows \<Longrightarrow> r \<in> set rows \<Longrightarrow> List.find (\<lambda>x. key x = key r) rows = Some r"
  by (induction rows) (auto simp: image_iff)

lemma find_SomeD: "List.find p xs = Some x \<Longrightarrow> x \<in> set xs \<and> p x"
  by (induction xs) (auto split: if_splits)

lemma find_NoneD: "List.find p xs = None \<longleftrightarrow> (\<forall>x \<in> set xs. \<not> p x)"
  by (induction xs) auto

section \<open>Strings\<close>

text \<open>
  JavaScript strings are lists of code units; the model keeps the code units below 256.
  \<open>trim\<close> removes the white space of the ECMAScript specification in that range.
\<close>

definition js_space :: "char \<Rightarrow> bool" where
  "js_space c = (of_char c \<in> {9, 10, 11, 12, 13, 32, 160 :: nat})"

definition trim :: "string \<Rightarrow> string" where
  "trim s = rev (dropWhile js_space (rev (dropWhile js_space s)))"

definition startsWith :: "string \<Rightarrow> string \<Rightarrow> bool" where
  "startsWith s p = (take (length p) s = p)"

fun join :: "string \<Rightarrow> string list \<Rightarrow> string" where
  "join sep [] = []"
| "join sep [x] = x"
| "join sep (x # y # ys) = x @ sep @ join sep (y # ys)"

text \<open>\<open>text.indexOf(pat, from)\<close>: the least position at or after \<open>from\<close> where \<open>pat\<close> starts.\<close>

fun index_from :: "nat \<Rightarrow> string \<Rightarrow> string \<Rightarrow> nat option" where
  "index_from i pat [] = (if pat = [] then Some i else None)"
| "index_from i pat (c # cs) =
     (if startsWith (c # cs) pat then Some i else index_from (Suc i) pat cs)"

definition indexOf :: "string \<Rightarrow> string \<Rightarrow> nat \<Rightarrow> nat option" where
  "indexOf t pat from = index_from (min from (length t)) pat (drop from t)"

lemma startsWith_append [simp]: "startsWith (p @ s) p"
  by (simp add: startsWith_def)

lemma startsWithD: "startsWith s p \<Longrightarrow> s = p @ drop (length p) s"
  by (metis append_take_drop_id startsWith_def)

lemma startsWith_iff: "startsWith s p \<longleftrightarrow> (\<exists>r. s = p @ r)"
  by (metis startsWithD startsWith_append)

lemma index_from_Some:
  "index_from i pat t = Some k \<Longrightarrow>
     i \<le> k \<and> k - i \<le> length t \<and> startsWith (drop (k - i) t) pat \<and>
     (\<forall>j < k - i. \<not> startsWith (drop j t) pat)"
proof (induction i pat t rule: index_from.induct)
  case (1 i pat)
  then show ?case by (auto split: if_splits simp: startsWith_def)
next
  case (2 i pat c cs)
  show ?case
  proof (cases "startsWith (c # cs) pat")
    case True
    with "2.prems" show ?thesis by simp
  next
    case False
    with 2 have ih: "Suc i \<le> k \<and> k - Suc i \<le> length cs \<and> startsWith (drop (k - Suc i) cs) pat \<and>
        (\<forall>j < k - Suc i. \<not> startsWith (drop j cs) pat)"
      by simp
    then obtain m where m: "k = Suc (i + m)" by (metis add_Suc le_Suc_ex)
    have "\<not> startsWith (drop j (c # cs)) pat" if "j < k - i" for j
      using ih m False that by (cases j) auto
    then show ?thesis using ih m by simp
  qed
qed

lemma index_from_None:
  "index_from i pat t = None \<longleftrightarrow> (\<forall>j \<le> length t. \<not> startsWith (drop j t) pat)"
proof (induction i pat t rule: index_from.induct)
  case (1 i pat)
  then show ?case by (auto simp: startsWith_def)
next
  case (2 i pat c cs)
  show ?case
  proof (cases "startsWith (c # cs) pat")
    case True
    then show ?thesis by (auto intro: exI [of _ 0])
  next
    case False
    with 2 have "index_from (Suc i) pat cs = None \<longleftrightarrow> (\<forall>j \<le> length cs. \<not> startsWith (drop j cs) pat)"
      by simp
    moreover have "(\<forall>j \<le> length (c # cs). \<not> startsWith (drop j (c # cs)) pat) \<longleftrightarrow>
        (\<forall>j \<le> length cs. \<not> startsWith (drop j cs) pat)"
      using False by (auto simp: All_less_Suc2 less_Suc_eq_le [symmetric])
    ultimately show ?thesis using False by simp
  qed
qed

section \<open>Interfaces\<close>

text \<open>
  A client that issues operations one after another. An operation that throws leaves the state
  as it was, because the modelled operations build a new state or run in one transaction.
\<close>

fun exec_ops :: "('s \<Rightarrow> 'op \<Rightarrow> 's res) \<Rightarrow> 's \<Rightarrow> 'op list \<Rightarrow> 's" where
  "exec_ops step s [] = s"
| "exec_ops step s (x # xs) =
     exec_ops step (case step s x of Inl _ \<Rightarrow> s | Inr s' \<Rightarrow> s') xs"

lemma exec_ops_append: "exec_ops step s (xs @ ys) = exec_ops step (exec_ops step s xs) ys"
  by (induction xs arbitrary: s) auto

locale invariant_machine =
  fixes step :: "'s \<Rightarrow> 'op \<Rightarrow> 's res"
    and inv :: "'s \<Rightarrow> bool"
  assumes step_inv: "inv s \<Longrightarrow> step s x = Inr s' \<Longrightarrow> inv s'"
begin

lemma exec_inv: "inv s \<Longrightarrow> inv (exec_ops step s xs)"
  by (induction xs arbitrary: s) (auto split: sum.splits dest: step_inv)

end

text \<open>Operations that only move a state upwards in a preorder, under the invariant.\<close>

locale monotone_machine = invariant_machine step inv
  for step :: "'s \<Rightarrow> 'op \<Rightarrow> 's res" and inv :: "'s \<Rightarrow> bool" +
  fixes below :: "'s \<Rightarrow> 's \<Rightarrow> bool"
  assumes below_refl: "below s s"
    and below_trans: "below s t \<Longrightarrow> below t u \<Longrightarrow> below s u"
    and step_below: "inv s \<Longrightarrow> step s x = Inr s' \<Longrightarrow> below s s'"
begin

lemma exec_below: "inv s \<Longrightarrow> below s (exec_ops step s xs)"
proof (induction xs arbitrary: s)
  case Nil
  then show ?case by (simp add: below_refl)
next
  case (Cons x xs)
  show ?case
  proof (cases "step s x")
    case (Inl e)
    with Cons show ?thesis by simp
  next
    case (Inr s')
    with Cons.prems have "inv s'" and "below s s'" by (auto dest: step_inv step_below)
    with Cons.IH [of s'] Inr show ?thesis by (auto intro: below_trans)
  qed
qed

end

text \<open>An encoder with its decoder: what is written is read back, and nothing ill-formed is read.\<close>

locale codec =
  fixes encode :: "'a \<Rightarrow> 'b"
    and decode :: "'b \<Rightarrow> 'a res"
    and wf :: "'a \<Rightarrow> bool"
  assumes decode_encode: "wf x \<Longrightarrow> decode (encode x) = Inr x"
    and decode_wf: "decode y = Inr x \<Longrightarrow> wf x"
begin

lemma encode_inject: "wf x \<Longrightarrow> wf y \<Longrightarrow> encode x = encode y \<Longrightarrow> x = y"
  by (metis decode_encode sum.inject(2))

lemma decode_stable: "decode y = Inr x \<Longrightarrow> decode (encode x) = Inr x"
  by (blast intro: decode_encode decode_wf)

lemma decode_mapR: "(\<And>x. x \<in> set xs \<Longrightarrow> wf x) \<Longrightarrow> mapR decode (map encode xs) = Inr xs"
  by (simp add: mapR_map_Inr decode_encode)

lemma mapR_decode_wf: "mapR decode ys = Inr xs \<Longrightarrow> x \<in> set xs \<Longrightarrow> wf x"
  by (metis decode_wf mapR_InrD)

end

end
