(* ===== verification/Json.thy ===== *)
theory Json
  imports Prelude
begin

text \<open>
  JavaScript values as the sources exchange them, \<open>JSON.stringify\<close>, \<open>JSON.parse\<close>,
  \<open>String(value)\<close> and the canonical serialisation of \<open>packages/core/src/canonical.ts\<close>.
  Numbers are the integers and one value for \<open>NaN\<close> and the infinities; strings hold code units
  below 256; an object is its list of own properties in enumeration order. The text of a
  fraction, of an exponent or of a wider code unit is outside the model, and the parser
  rejects it.
\<close>

section \<open>Values\<close>

datatype json =
    JUndef
  | JNull
  | JBool bool
  | JNum int
  | JNonFinite
  | JStr string
  | JArr "json list"
  | JObj "(string \<times> json) list"

text \<open>\<open>value.key\<close> on an object: a missing property reads as \<open>undefined\<close>.\<close>

definition get_prop :: "(string \<times> json) list \<Rightarrow> string \<Rightarrow> json" where
  "get_prop kvs k = (case map_of kvs k of None \<Rightarrow> JUndef | Some v \<Rightarrow> v)"

fun obj_put :: "(string \<times> json) list \<Rightarrow> string \<Rightarrow> json \<Rightarrow> (string \<times> json) list" where
  "obj_put [] k v = [(k, v)]"
| "obj_put ((k', v') # kvs) k v = (if k' = k then (k, v) # kvs else (k', v') # obj_put kvs k v)"

text \<open>JSON data: no \<open>undefined\<close>, finite numbers, distinct property names.\<close>

fun is_json :: "json \<Rightarrow> bool" and is_json_list :: "json list \<Rightarrow> bool"
  and is_json_members :: "(string \<times> json) list \<Rightarrow> bool" where
  "is_json JUndef = False"
| "is_json JNonFinite = False"
| "is_json (JArr vs) = is_json_list vs"
| "is_json (JObj kvs) = (distinct (map fst kvs) \<and> is_json_members kvs)"
| "is_json JNull = True"
| "is_json (JBool b) = True"
| "is_json (JNum n) = True"
| "is_json (JStr s) = True"
| "is_json_list [] = True"
| "is_json_list (v # vs) = (is_json v \<and> is_json_list vs)"
| "is_json_members [] = True"
| "is_json_members ((k, v) # kvs) = (is_json v \<and> is_json_members kvs)"

lemma is_json_list_iff: "is_json_list vs \<longleftrightarrow> (\<forall>v \<in> set vs. is_json v)"
  by (induction vs) auto

lemma is_json_members_iff: "is_json_members kvs \<longleftrightarrow> (\<forall>kv \<in> set kvs. is_json (snd kv))"
  by (induction kvs) auto

section \<open>Text of numbers and strings\<close>

fun nat_str :: "nat \<Rightarrow> string" where
  "nat_str n =
     (if n < 10 then [char_of (48 + n)] else nat_str (n div 10) @ [char_of (48 + n mod 10)])"

declare nat_str.simps [simp del]

definition int_str :: "int \<Rightarrow> string" where
  "int_str i = (if i < 0 then CHR ''-'' # nat_str (nat (- i)) else nat_str (nat i))"

definition hex_digit :: "nat \<Rightarrow> char" where
  "hex_digit d = (if d < 10 then char_of (48 + d) else char_of (87 + d))"

text \<open>The escapes of \<open>JSON.stringify\<close>: the short ones, and \<open>\u00XX\<close> for other control codes.\<close>

definition short_escape :: "char \<Rightarrow> char option" where
  "short_escape c =
     (if c = CHR 0x22 then Some (CHR 0x22)
      else if c = CHR 0x5C then Some (CHR 0x5C)
      else if c = CHR 0x08 then Some (CHR ''b'')
      else if c = CHR 0x0C then Some (CHR ''f'')
      else if c = CHR 0x0A then Some (CHR ''n'')
      else if c = CHR 0x0D then Some (CHR ''r'')
      else if c = CHR 0x09 then Some (CHR ''t'')
      else None)"

definition escape_char :: "char \<Rightarrow> string" where
  "escape_char c =
     (case short_escape c of
        Some e \<Rightarrow> [CHR 0x5C, e]
      | None \<Rightarrow>
          if of_char c < (32 :: nat) then
            [CHR 0x5C, CHR ''u'', CHR ''0'', CHR ''0'',
             hex_digit (of_char c div 16), hex_digit (of_char c mod 16)]
          else [c])"

definition quote_str :: "string \<Rightarrow> string" where
  "quote_str s = CHR 0x22 # concat (map escape_char s) @ [CHR 0x22]"

section \<open>JSON.stringify\<close>

text \<open>
  Inside an array \<open>undefined\<close> prints as \<open>null\<close>; a property whose value is \<open>undefined\<close> is left
  out; \<open>NaN\<close> and the infinities print as \<open>null\<close>.
\<close>

fun stringify :: "json \<Rightarrow> string" and stringify_list :: "json list \<Rightarrow> string list"
  and stringify_members :: "(string \<times> json) list \<Rightarrow> string list" where
  "stringify JUndef = ''null''"
| "stringify JNull = ''null''"
| "stringify (JBool b) = (if b then ''true'' else ''false'')"
| "stringify (JNum n) = int_str n"
| "stringify JNonFinite = ''null''"
| "stringify (JStr s) = quote_str s"
| "stringify (JArr vs) = ''['' @ join '','' (stringify_list vs) @ '']''"
| "stringify (JObj kvs) = ''{'' @ join '','' (stringify_members kvs) @ ''}''"
| "stringify_list [] = []"
| "stringify_list (v # vs) = stringify v # stringify_list vs"
| "stringify_members [] = []"
| "stringify_members ((k, v) # kvs) =
     (if v = JUndef then stringify_members kvs
      else (quote_str k @ '':'' @ stringify v) # stringify_members kvs)"

section \<open>JSON.parse\<close>

definition json_space :: "char \<Rightarrow> bool" where
  "json_space c = (c \<in> {CHR '' '', CHR 0x09, CHR 0x0A, CHR 0x0D})"

abbreviation skip_ws :: "string \<Rightarrow> string" where
  "skip_ws \<equiv> dropWhile json_space"

definition is_digit :: "char \<Rightarrow> bool" where
  "is_digit c = (48 \<le> (of_char c :: nat) \<and> of_char c \<le> (57 :: nat))"

definition digit_val :: "char \<Rightarrow> nat" where
  "digit_val c = of_char c - 48"

definition digits_val :: "string \<Rightarrow> nat" where
  "digits_val ds = foldl (\<lambda>n c. 10 * n + digit_val c) 0 ds"

text \<open>A number is an optional minus sign and digits without a superfluous leading zero.\<close>

definition parse_nat :: "string \<Rightarrow> (nat \<times> string) option" where
  "parse_nat s =
     (let ds = takeWhile is_digit s; r = dropWhile is_digit s
      in if ds = [] \<or> (length ds > 1 \<and> hd ds = CHR ''0'') then None
         else Some (digits_val ds, r))"

definition parse_num :: "string \<Rightarrow> (json \<times> string) option" where
  "parse_num s =
     (case s of
        [] \<Rightarrow> None
      | c # cs \<Rightarrow>
          if c = CHR ''-'' then map_option (\<lambda>(n, r). (JNum (- int n), r)) (parse_nat cs)
          else map_option (\<lambda>(n, r). (JNum (int n), r)) (parse_nat (c # cs)))"

definition hex_val :: "char \<Rightarrow> nat option" where
  "hex_val c =
     (if is_digit c then Some (digit_val c)
      else if 97 \<le> (of_char c :: nat) \<and> of_char c \<le> (102 :: nat) then Some (of_char c - 87)
      else if 65 \<le> (of_char c :: nat) \<and> of_char c \<le> (70 :: nat) then Some (of_char c - 55)
      else None)"

definition unescape :: "char \<Rightarrow> char option" where
  "unescape c =
     (if c = CHR 0x22 then Some (CHR 0x22)
      else if c = CHR 0x5C then Some (CHR 0x5C)
      else if c = CHR ''/'' then Some (CHR ''/'')
      else if c = CHR ''b'' then Some (CHR 0x08)
      else if c = CHR ''f'' then Some (CHR 0x0C)
      else if c = CHR ''n'' then Some (CHR 0x0A)
      else if c = CHR ''r'' then Some (CHR 0x0D)
      else if c = CHR ''t'' then Some (CHR 0x09)
      else None)"

text \<open>An escape sequence after its backslash; only \<open>\u00XX\<close> stays below 256.\<close>

definition parse_escape :: "string \<Rightarrow> (char \<times> string) option" where
  "parse_escape s =
     (case s of
        [] \<Rightarrow> None
      | e # r \<Rightarrow>
          if e = CHR ''u'' then
            (case r of
               z1 # z2 # h # l # r' \<Rightarrow>
                 (case (hex_val h, hex_val l) of
                    (Some a, Some b) \<Rightarrow>
                      if z1 = CHR ''0'' \<and> z2 = CHR ''0'' then Some (char_of (16 * a + b), r')
                      else None
                  | _ \<Rightarrow> None)
             | _ \<Rightarrow> None)
          else map_option (\<lambda>d. (d, r)) (unescape e))"

lemma parse_escape_shorter: "parse_escape s = Some (d, r) \<Longrightarrow> length r < length s"
  by (auto simp: parse_escape_def split: list.splits if_splits option.splits)

text \<open>The characters of a string literal after its opening quote, up to the closing one.\<close>

function parse_chars :: "string \<Rightarrow> (string \<times> string) option" where
  "parse_chars [] = None"
| "parse_chars (c # cs) =
     (if c = CHR 0x22 then Some ([], cs)
      else if of_char c < (32 :: nat) then None
      else if c = CHR 0x5C then
        (case parse_escape cs of
           None \<Rightarrow> None
         | Some (d, r) \<Rightarrow> map_option (\<lambda>(s, r'). (d # s, r')) (parse_chars r))
      else map_option (\<lambda>(s, r). (c # s, r)) (parse_chars cs))"
  by pat_completeness auto
termination
  by (relation "measure length") (auto dest: parse_escape_shorter)

text \<open>
  Values, the elements of an array and the members of an object. The first argument bounds the
  recursion; \<open>JSON_parse\<close> gives it one more than the length of the text, which is enough
  because every recursive call has consumed a character (\<open>parse_stringify\<close> below). A repeated
  property name overwrites the earlier value, as in JavaScript.
\<close>

fun parse_value :: "nat \<Rightarrow> string \<Rightarrow> (json \<times> string) option"
  and parse_elems :: "nat \<Rightarrow> string \<Rightarrow> (json list \<times> string) option"
  and parse_members :: "nat \<Rightarrow> (string \<times> json) list \<Rightarrow> string \<Rightarrow> ((string \<times> json) list \<times> string) option"
where
  "parse_value 0 s = None"
| "parse_value (Suc n) s =
     (case skip_ws s of
        [] \<Rightarrow> None
      | c # cs \<Rightarrow>
          if c = CHR 0x22 then map_option (\<lambda>(t, r). (JStr t, r)) (parse_chars cs)
          else if c = CHR ''['' then
            (if take 1 (skip_ws cs) = '']'' then Some (JArr [], drop 1 (skip_ws cs))
             else map_option (\<lambda>(vs, r). (JArr vs, r)) (parse_elems n cs))
          else if c = CHR ''{'' then
            (if take 1 (skip_ws cs) = ''}'' then Some (JObj [], drop 1 (skip_ws cs))
             else map_option (\<lambda>(kvs, r). (JObj kvs, r)) (parse_members n [] cs))
          else if startsWith (c # cs) ''null'' then Some (JNull, drop 4 (c # cs))
          else if startsWith (c # cs) ''true'' then Some (JBool True, drop 4 (c # cs))
          else if startsWith (c # cs) ''false'' then Some (JBool False, drop 5 (c # cs))
          else parse_num (c # cs))"
| "parse_elems 0 s = None"
| "parse_elems (Suc n) s =
     (case parse_value n s of
        None \<Rightarrow> None
      | Some (v, r) \<Rightarrow>
          (case skip_ws r of
             [] \<Rightarrow> None
           | c # cs \<Rightarrow>
               if c = CHR '','' then map_option (\<lambda>(vs, r'). (v # vs, r')) (parse_elems n cs)
               else if c = CHR '']'' then Some ([v], cs)
               else None))"
| "parse_members 0 acc s = None"
| "parse_members (Suc n) acc s =
     (case skip_ws s of
        [] \<Rightarrow> None
      | q # s1 \<Rightarrow>
          if q \<noteq> CHR 0x22 then None
          else
            (case parse_chars s1 of
               None \<Rightarrow> None
             | Some (k, s2) \<Rightarrow>
                 if take 1 (skip_ws s2) \<noteq> '':'' then None
                 else
                   (case parse_value n (drop 1 (skip_ws s2)) of
                      None \<Rightarrow> None
                    | Some (v, s3) \<Rightarrow>
                        (case skip_ws s3 of
                           [] \<Rightarrow> None
                         | c # cs \<Rightarrow>
                             if c = CHR '','' then parse_members n (obj_put acc k v) cs
                             else if c = CHR ''}'' then Some (obj_put acc k v, cs)
                             else None))))"

definition JSON_parse :: "string \<Rightarrow> json res" where
  "JSON_parse s =
     (case parse_value (Suc (length s)) s of
        None \<Rightarrow> Inl SyntaxError
      | Some (v, r) \<Rightarrow> if skip_ws r = [] then Inr v else Inl SyntaxError)"

section \<open>What is printed is parsed back\<close>

lemma is_digit_char_of: "(n :: nat) < 10 \<Longrightarrow> is_digit (char_of (48 + n))"
  by (simp add: is_digit_def)

lemma digit_val_char_of: "(n :: nat) < 10 \<Longrightarrow> digit_val (char_of (48 + n)) = n"
  by (simp add: digit_val_def)

lemma nat_str_digits: "\<forall>c \<in> set (nat_str n). is_digit c"
proof (induction n rule: nat_str.induct)
  case (1 n)
  then show ?case
    by (subst nat_str.simps) (auto simp: is_digit_char_of)
qed

lemma digits_val_snoc: "digits_val (ds @ [c]) = 10 * digits_val ds + digit_val c"
  by (simp add: digits_val_def)

lemma digits_val_nat_str: "digits_val (nat_str n) = n"
proof (induction n rule: nat_str.induct)
  case (1 n)
  show ?case
  proof (cases "n < 10")
    case True
    then show ?thesis
      by (subst nat_str.simps) (simp add: digits_val_def digit_val_char_of)
  next
    case False
    with 1 show ?thesis
      by (subst nat_str.simps) (simp add: digits_val_snoc digit_val_char_of)
  qed
qed

lemma nat_str_nonempty [simp]: "nat_str n \<noteq> []"
  by (subst nat_str.simps) simp

lemma nat_str_no_leading_zero: "0 < n \<Longrightarrow> hd (nat_str n) \<noteq> CHR ''0''"
proof (induction n rule: nat_str.induct)
  case (1 n)
  show ?case
  proof (cases "n < 10")
    case True
    have "char_of (48 + n) \<noteq> CHR ''0''"
    proof
      assume "char_of (48 + n) = CHR ''0''"
      then have "of_char (char_of (48 + n) :: char) = (48 :: nat)" by simp
      with True 1 show False by simp
    qed
    with True show ?thesis by (subst nat_str.simps) simp
  next
    case False
    then have "0 < n div 10" by simp
    with False 1 show ?thesis by (subst nat_str.simps) simp
  qed
qed

lemma nat_str_0: "nat_str 0 = ''0''"
  by code_simp

definition no_digit :: "string \<Rightarrow> bool" where
  "no_digit r = (case r of [] \<Rightarrow> True | c # _ \<Rightarrow> \<not> is_digit c)"

lemma parse_nat_str:
  assumes "no_digit r"
  shows "parse_nat (nat_str n @ r) = Some (n, r)"
proof -
  note assms = assms [unfolded no_digit_def]
  have t: "takeWhile is_digit (nat_str n @ r) = nat_str n"
    using nat_str_digits [of n] assms by (cases r) (auto simp: takeWhile_append)
  have d: "dropWhile is_digit (nat_str n @ r) = r"
    using nat_str_digits [of n] assms by (cases r) (auto simp: dropWhile_append)
  have "\<not> (length (nat_str n) > 1 \<and> hd (nat_str n) = CHR ''0'')"
    using nat_str_no_leading_zero [of n] by (cases "n = 0") (auto simp: nat_str_0)
  then show ?thesis by (simp add: parse_nat_def t d digits_val_nat_str Let_def)
qed

lemma hd_nat_str_is_digit: "is_digit (hd (nat_str n))"
  using nat_str_digits [of n] hd_in_set [OF nat_str_nonempty] by blast

lemma parse_num_int_str: "no_digit r \<Longrightarrow> parse_num (int_str i @ r) = Some (JNum i, r)"
proof -
  assume r: "no_digit r"
  obtain c cs where c: "nat_str (nat i) = c # cs" and "is_digit c"
    by (metis hd_nat_str_is_digit list.exhaust list.sel(1) nat_str_nonempty)
  then have "c \<noteq> CHR ''-''" by (auto simp: is_digit_def)
  with c parse_nat_str [OF r, of "nat i"] parse_nat_str [OF r, of "nat (- i)"] show ?thesis
    by (auto simp: parse_num_def int_str_def)
qed


lemma hex_val_hex_digit: "d < 16 \<Longrightarrow> hex_val (hex_digit d) = Some d"
  by (auto simp: hex_digit_def hex_val_def is_digit_def digit_val_def)

lemma parse_escape_control:
  assumes "of_char c < (32 :: nat)"
  shows "parse_escape (CHR ''u'' # CHR ''0'' # CHR ''0'' #
           hex_digit (of_char c div 16) # hex_digit (of_char c mod 16) # r) = Some (c, r)"
proof -
  have "16 * (of_char c div 16) + of_char c mod 16 = (of_char c :: nat)" by simp
  moreover have "char_of (of_char c :: nat) = c" by simp
  ultimately show ?thesis
    using assms by (simp add: parse_escape_def hex_val_hex_digit del: of_char_mod_256)
qed

lemma parse_chars_plain:
  "c \<noteq> CHR 0x22 \<Longrightarrow> c \<noteq> CHR 0x5C \<Longrightarrow> \<not> of_char c < (32 :: nat) \<Longrightarrow>
     parse_chars (c # r) = map_option (\<lambda>(s, r'). (c # s, r')) (parse_chars r)"
  by simp

lemma parse_chars_short:
  "unescape e = Some c \<Longrightarrow> e \<noteq> CHR ''u'' \<Longrightarrow>
     parse_chars (CHR 0x5C # e # r) = map_option (\<lambda>(s, r'). (c # s, r')) (parse_chars r)"
  by (simp add: parse_escape_def)

lemma short_escape_Some: "short_escape c = Some e \<Longrightarrow> unescape e = Some c \<and> e \<noteq> CHR ''u''"
  by (auto simp: short_escape_def unescape_def split: if_splits)

lemma short_escape_None: "short_escape c = None \<Longrightarrow> c \<noteq> CHR 0x22 \<and> c \<noteq> CHR 0x5C"
  by (auto simp: short_escape_def)

lemma parse_chars_escape:
  "parse_chars (escape_char c @ r) = map_option (\<lambda>(s, r'). (c # s, r')) (parse_chars r)"
proof (cases "short_escape c")
  case (Some e)
  with short_escape_Some [OF Some] show ?thesis
    by (simp add: escape_char_def parse_chars_short del: parse_chars.simps)
next
  case None
  note plain = short_escape_None [OF None]
  show ?thesis
  proof (cases "of_char c < (32 :: nat)")
    case True
    with None show ?thesis by (simp add: escape_char_def parse_escape_control)
  next
    case False
    with None plain show ?thesis
      by (simp add: escape_char_def parse_chars_plain del: parse_chars.simps)
  qed
qed

lemma parse_chars_concat:
  "parse_chars (concat (map escape_char s) @ CHR 0x22 # r) = Some (s, r)"
  by (induction s) (auto simp: parse_chars_escape)

text \<open>The first character of a printed value decides how it is parsed.\<close>

lemma quote_str_parts: "quote_str s @ r = CHR 0x22 # concat (map escape_char s) @ CHR 0x22 # r"
  by (simp add: quote_str_def)

fun need :: "json \<Rightarrow> nat" and need_list :: "json list \<Rightarrow> nat"
  and need_members :: "(string \<times> json) list \<Rightarrow> nat" where
  "need (JArr vs) = Suc (need_list vs)"
| "need (JObj kvs) = Suc (need_members kvs)"
| "need v = 1"
| "need_list [] = 0"
| "need_list (v # vs) = Suc (max (need v) (need_list vs))"
| "need_members [] = 0"
| "need_members ((k, v) # kvs) = Suc (max (need v) (need_members kvs))"

lemma obj_put_new: "k \<notin> fst ` set kvs \<Longrightarrow> obj_put kvs k v = kvs @ [(k, v)]"
  by (induction kvs) auto

lemma int_str_hd:
  obtains c cs where "int_str i = c # cs" and "c = CHR ''-'' \<or> is_digit c"
proof (cases "i < 0")
  case True
  then show ?thesis using that by (simp add: int_str_def)
next
  case False
  obtain c cs where "nat_str (nat i) = c # cs" by (meson list.exhaust nat_str_nonempty)
  moreover from this have "is_digit c" using hd_nat_str_is_digit [of "nat i"] by simp
  ultimately show ?thesis using that False by (simp add: int_str_def)
qed

lemma digit_not_special:
  "is_digit c \<Longrightarrow> \<not> json_space c \<and> c \<noteq> CHR 0x22 \<and> c \<noteq> CHR ''['' \<and> c \<noteq> CHR ''{'' \<and>
     c \<noteq> CHR ''n'' \<and> c \<noteq> CHR ''t'' \<and> c \<noteq> CHR ''f'' \<and> c \<noteq> CHR '']'' \<and> c \<noteq> CHR ''}''"
  by (auto simp: is_digit_def json_space_def)

lemma parse_value_int:
  assumes "no_digit r" and "0 < n"
  shows "parse_value n (int_str i @ r) = Some (JNum i, r)"
proof -
  obtain c cs where c: "int_str i = c # cs" and k: "c = CHR ''-'' \<or> is_digit c"
    by (rule int_str_hd)
  obtain m where n: "n = Suc m" using assms(2) by (cases n) auto
  have sp: "\<not> json_space c" using k by (auto simp: json_space_def is_digit_def)
  have ne: "c \<noteq> CHR 0x22" "c \<noteq> CHR ''[''" "c \<noteq> CHR ''{''"
    "c \<noteq> CHR ''n''" "c \<noteq> CHR ''t''" "c \<noteq> CHR ''f''"
    using k by (auto simp: is_digit_def)
  have "parse_value n (int_str i @ r) = parse_num (int_str i @ r)"
    using sp ne by (simp add: n c startsWith_def)
  then show ?thesis using parse_num_int_str [OF assms(1)] by simp
qed

text \<open>No printed value starts with white space or with a closing bracket.\<close>

lemma stringify_hd:
  "\<exists>c cs. stringify v = c # cs \<and> \<not> json_space c \<and> c \<noteq> CHR '']'' \<and> c \<noteq> CHR ''}''"
proof (cases v)
  case (JNum i)
  obtain c cs where c: "int_str i = c # cs" and "c = CHR ''-'' \<or> is_digit c" by (rule int_str_hd)
  then have "\<not> json_space c \<and> c \<noteq> CHR '']'' \<and> c \<noteq> CHR ''}''"
  proof (elim disjE)
    assume "c = CHR ''-''"
    then show ?thesis by (simp add: json_space_def)
  next
    assume "is_digit c"
    then show ?thesis by (simp add: digit_not_special)
  qed
  with JNum c show ?thesis by simp
qed (simp_all add: json_space_def quote_str_def)


lemma join_Cons: "join sep (x # xs) = (if xs = [] then x else x @ sep @ join sep xs)"
  by (cases xs) auto

lemma stringify_list_Nil_iff [simp]: "stringify_list vs = [] \<longleftrightarrow> vs = []"
  by (cases vs) auto

lemma stringify_members_Nil_iff: "is_json_members kvs \<Longrightarrow> stringify_members kvs = [] \<longleftrightarrow> kvs = []"
  by (cases kvs) (auto split: if_splits)

lemma skip_ws_stringify: "skip_ws (stringify v @ r) = stringify v @ r"
  using stringify_hd [of v] by auto

lemma take_1_stringify_neq:
  "take 1 (stringify v @ r) \<noteq> '']''" "take 1 (stringify v @ r) \<noteq> ''}''"
  using stringify_hd [of v] by auto

lemma no_digit_sep [simp]:
  "no_digit (CHR '','' # r)" "no_digit (CHR '']'' # r)" "no_digit (CHR ''}'' # r)"
  by (simp_all add: is_digit_def no_digit_def)

lemma json_space_sep [simp]:
  "\<not> json_space (CHR '','')" "\<not> json_space (CHR '']'')" "\<not> json_space (CHR ''}'')"
  "\<not> json_space (CHR '':'')" "\<not> json_space (CHR 0x22)" "\<not> json_space (CHR ''['')"
  "\<not> json_space (CHR ''{'')"
  by (simp_all add: json_space_def)

lemma parse_elems_step:
  assumes v: "\<And>r. no_digit r \<Longrightarrow> parse_value n (stringify v @ r) = Some (v, r)"
    and vs: "vs \<noteq> [] \<Longrightarrow> parse_elems n (join '','' (stringify_list vs) @ '']'' @ r) = Some (vs, r)"
  shows "parse_elems (Suc n) (join '','' (stringify_list (v # vs)) @ '']'' @ r) = Some (v # vs, r)"
  using v vs by (cases "vs = []") (simp_all add: join_Cons)

lemma parse_members_step:
  assumes v: "\<And>r. no_digit r \<Longrightarrow> parse_value n (stringify v @ r) = Some (v, r)"
    and kvs: "kvs \<noteq> [] \<Longrightarrow>
      parse_members n (acc @ [(k, v)]) (join '','' (stringify_members kvs) @ ''}'' @ r)
        = Some ((acc @ [(k, v)]) @ kvs, r)"
    and new: "k \<notin> fst ` set acc" and ok: "is_json v" "is_json_members kvs"
  shows "parse_members (Suc n) acc (join '','' (stringify_members ((k, v) # kvs)) @ ''}'' @ r)
    = Some (acc @ (k, v) # kvs, r)"
proof -
  have "v \<noteq> JUndef" using ok(1) by auto
  then show ?thesis
    using v kvs ok(2) by (cases "kvs = []")
      (simp_all add: join_Cons stringify_members_Nil_iff quote_str_parts parse_chars_concat
         obj_put_new [OF new])
qed

lemma need_pos [simp]: "0 < need v"
  by (cases v) auto

lemma parse_stringify:
  "is_json v \<Longrightarrow> need v \<le> n \<Longrightarrow> no_digit r \<Longrightarrow> parse_value n (stringify v @ r) = Some (v, r)"
  "is_json_list vs \<Longrightarrow> vs \<noteq> [] \<Longrightarrow> need_list vs \<le> n \<Longrightarrow>
     parse_elems n (join '','' (stringify_list vs) @ '']'' @ r) = Some (vs, r)"
  "is_json_members kvs \<Longrightarrow> kvs \<noteq> [] \<Longrightarrow> distinct (map fst (acc @ kvs)) \<Longrightarrow> need_members kvs \<le> n \<Longrightarrow>
     parse_members n acc (join '','' (stringify_members kvs) @ ''}'' @ r) = Some (acc @ kvs, r)"
proof (induction v and vs and kvs arbitrary: n r and n r and n acc r
    rule: need_need_list_need_members.induct)
  case (1 vs)
  then obtain m where n: "n = Suc m" and m: "need_list vs \<le> m" by (cases n) auto
  show ?case
  proof (cases vs)
    case Nil
    then show ?thesis by (simp add: n)
  next
    case (Cons w ws)
    then have "take 1 (skip_ws (join '','' (stringify_list vs) @ '']'' @ r)) \<noteq> '']''"
      using take_1_stringify_neq(1) [of w] skip_ws_stringify [of w]
      by (simp add: join_Cons del: take_eq_Nil)
    with Cons 1 m show ?thesis by (simp add: n)
  qed
next
  case (2 kvs)
  then obtain m where n: "n = Suc m" and m: "need_members kvs \<le> m" by (cases n) auto
  show ?case
  proof (cases kvs)
    case Nil
    then show ?thesis by (simp add: n)
  next
    case (Cons kv kvs')
    moreover obtain k w where kv: "kv = (k, w)" by force
    ultimately have "take 1 (skip_ws (join '','' (stringify_members kvs) @ ''}'' @ r)) \<noteq> ''}''"
      using "2.prems"(1) by (auto simp: join_Cons quote_str_def)
    with Cons 2 m show ?thesis by (simp add: n)
  qed
next
  case "3_4"
  then show ?case by (simp add: parse_value_int del: parse_value.simps)
next
  case (5 v vs)
  then obtain m where n: "n = Suc m" and "need v \<le> m" "need_list vs \<le> m" by (cases n) auto
  with 5 show ?case unfolding n by (intro parse_elems_step) auto
next
  case (7 k v kvs)
  then obtain m where n: "n = Suc m" and m: "need v \<le> m" "need_members kvs \<le> m"
    by (cases n) auto
  have "kvs \<noteq> [] \<Longrightarrow> parse_members m (acc @ [(k, v)]) (join '','' (stringify_members kvs) @ ''}'' @ r)
        = Some ((acc @ [(k, v)]) @ kvs, r)"
    using 7 m by (intro "7.IH"(2)) auto
  moreover have "\<And>r. no_digit r \<Longrightarrow> parse_value m (stringify v @ r) = Some (v, r)"
    using 7 m by (intro "7.IH"(1)) auto
  ultimately show ?case using 7 unfolding n by (intro parse_members_step) auto
qed (auto simp: gr0_conv_Suc Suc_le_eq startsWith_def quote_str_parts parse_chars_concat json_space_def)


lemma stringify_nonempty [simp]: "stringify v \<noteq> []"
  using stringify_hd [of v] by auto

lemma stringify_length_pos: "1 \<le> length (stringify v)"
  by (simp add: Suc_le_eq)

lemma int_str_nonempty [simp]: "int_str i \<noteq> []"
  using stringify_nonempty [of "JNum i"] by simp

lemma quote_str_nonempty [simp]: "quote_str s \<noteq> []"
  by (simp add: quote_str_def)

lemma need_le_length:
  "is_json v \<Longrightarrow> need v \<le> length (stringify v)"
  "is_json_list vs \<Longrightarrow> need_list vs \<le> Suc (length (join '','' (stringify_list vs)))"
  "is_json_members kvs \<Longrightarrow> need_members kvs \<le> Suc (length (join '','' (stringify_members kvs)))"
proof (induction v and vs and kvs rule: need_need_list_need_members.induct)
  case (5 v vs)
  then show ?case using stringify_length_pos [of v] by (auto simp: join_Cons)
next
  case (7 k v kvs)
  then show ?case
    using stringify_length_pos [of v]
    by (auto simp: join_Cons stringify_members_Nil_iff)
qed (simp_all add: Suc_le_eq)

lemma JSON_parse_stringify: "is_json v \<Longrightarrow> JSON_parse (stringify v) = Inr v"
proof -
  assume v: "is_json v"
  then have "parse_value (Suc (length (stringify v))) (stringify v @ []) = Some (v, [])"
    by (intro parse_stringify(1)) (auto simp: no_digit_def intro: le_SucI need_le_length(1))
  then show ?thesis by (simp add: JSON_parse_def del: parse_value.simps)
qed

text \<open>The parser only builds JSON data: finite numbers, no \<open>undefined\<close>, distinct names.\<close>

lemma keys_obj_put: "set (map fst (obj_put kvs k v)) = insert k (set (map fst kvs))"
  by (induction kvs k v rule: obj_put.induct) (simp_all add: insert_commute)

lemma distinct_obj_put: "distinct (map fst kvs) \<Longrightarrow> distinct (map fst (obj_put kvs k v))"
proof (induction kvs k v rule: obj_put.induct)
  case (2 k' v' kvs k v)
  then show ?case using keys_obj_put [of kvs k v] by auto
qed simp

lemma is_json_members_obj_put:
  "is_json_members kvs \<Longrightarrow> is_json v \<Longrightarrow> is_json_members (obj_put kvs k v)"
  by (induction kvs) auto

lemma parse_num_is_json: "parse_num s = Some (v, r) \<Longrightarrow> is_json v"
  by (auto simp: parse_num_def split: list.splits if_splits)

lemma parse_is_json:
  "(\<forall>s v r. parse_value n s = Some (v, r) \<longrightarrow> is_json v) \<and>
   (\<forall>s vs r. parse_elems n s = Some (vs, r) \<longrightarrow> is_json_list vs) \<and>
   (\<forall>acc s kvs r. parse_members n acc s = Some (kvs, r) \<longrightarrow>
      is_json_members acc \<and> distinct (map fst acc) \<longrightarrow>
      is_json_members kvs \<and> distinct (map fst kvs))"
proof (induction n)
  case 0
  then show ?case by simp
next
  case (Suc n)
  then have V: "\<And>s v r. parse_value n s = Some (v, r) \<Longrightarrow> is_json v"
    and E: "\<And>s vs r. parse_elems n s = Some (vs, r) \<Longrightarrow> is_json_list vs"
    and M: "\<And>acc s kvs r. parse_members n acc s = Some (kvs, r) \<Longrightarrow> is_json_members acc \<Longrightarrow>
        distinct (map fst acc) \<Longrightarrow> is_json_members kvs \<and> distinct (map fst kvs)"
    by blast+
  have "is_json v" if "parse_value (Suc n) s = Some (v, r)" for s v r
    using that M [of "[]"]
    by (auto split: list.splits if_splits dest: parse_num_is_json E)
  moreover have "is_json_list vs" if "parse_elems (Suc n) s = Some (vs, r)" for s vs r
    using that V E by (auto split: option.splits list.splits if_splits)
  moreover have "is_json_members kvs \<and> distinct (map fst kvs)"
    if "parse_members (Suc n) acc s = Some (kvs, r)" and "is_json_members acc"
      and "distinct (map fst acc)" for acc s kvs r
    using that M V
    by (auto split: option.splits list.splits if_splits
        simp: is_json_members_obj_put distinct_obj_put)
  ultimately show ?case by blast
qed

lemma parse_value_is_json: "parse_value n s = Some (v, r) \<Longrightarrow> is_json v"
  using parse_is_json [of n] by blast

lemma JSON_parse_is_json: "JSON_parse s = Inr v \<Longrightarrow> is_json v"
  by (auto simp: JSON_parse_def simp del: parse_value.simps split: option.splits if_splits
      dest: parse_value_is_json)

interpretation json_text: codec stringify JSON_parse is_json
  by unfold_locales (auto intro: JSON_parse_stringify JSON_parse_is_json)

section \<open>Canonical JSON\<close>

text \<open>
  \<open>canonical\<close> prints an object with its property names sorted by code unit. It throws on a
  number that is not finite and on \<open>undefined\<close>, also as the value of a property.
\<close>

lemma size_snd_sorted:
  "kv \<in> set (sort_key fst kvs) \<Longrightarrow> size (snd kv) < Suc (size_list (size_prod (\<lambda>_. 0) size) kvs)"
  by (induction kvs) (auto simp: set_insort_key less_Suc_eq_le le_SucI trans_le_add2)

function canonical :: "json \<Rightarrow> string res" where
  "canonical JNull = Inr ''null''"
| "canonical (JStr s) = Inr (quote_str s)"
| "canonical (JBool b) = Inr (if b then ''true'' else ''false'')"
| "canonical JNonFinite = Inl (Error ''Canonical values require finite numbers'')"
| "canonical (JNum n) = Inr (int_str n)"
| "canonical (JArr vs) = bindR (mapR canonical vs) (\<lambda>ts. Inr (''['' @ join '','' ts @ '']''))"
| "canonical JUndef = Inl (Error ''Canonical values must be JSON-compatible'')"
| "canonical (JObj kvs) =
     bindR (mapR (\<lambda>kv. bindR (canonical (snd kv)) (\<lambda>t. Inr (quote_str (fst kv) @ '':'' @ t)))
              (sort_key fst kvs))
       (\<lambda>ts. Inr (''{'' @ join '','' ts @ ''}''))"
  by pat_completeness auto
termination
  by (relation "measure size")
    (auto simp: less_Suc_eq_le size_list_estimation' dest!: size_snd_sorted)


text \<open>The value that canonical text denotes: the same data with every object's names sorted.\<close>

fun sort_json :: "json \<Rightarrow> json" and sort_json_list :: "json list \<Rightarrow> json list"
  and sort_json_members :: "(string \<times> json) list \<Rightarrow> (string \<times> json) list" where
  "sort_json (JArr vs) = JArr (sort_json_list vs)"
| "sort_json (JObj kvs) = JObj (sort_key fst (sort_json_members kvs))"
| "sort_json v = v"
| "sort_json_list [] = []"
| "sort_json_list (v # vs) = sort_json v # sort_json_list vs"
| "sort_json_members [] = []"
| "sort_json_members ((k, v) # kvs) = (k, sort_json v) # sort_json_members kvs"

lemma sort_json_list_map: "sort_json_list vs = map sort_json vs"
  by (induction vs) auto

lemma sort_json_members_map: "sort_json_members kvs = map (\<lambda>kv. (fst kv, sort_json (snd kv))) kvs"
  by (induction kvs) auto

lemma stringify_list_map: "stringify_list vs = map stringify vs"
  by (induction vs) auto

lemma stringify_members_map:
  "is_json_members kvs \<Longrightarrow>
     stringify_members kvs = map (\<lambda>kv. quote_str (fst kv) @ '':'' @ stringify (snd kv)) kvs"
  by (induction kvs) auto

lemma map_insort_key:
  "(\<And>x. f (g x) = f x) \<Longrightarrow> map g (insort_key f x xs) = insort_key f (g x) (map g xs)"
  by (induction xs) auto

lemma map_sort_key: "(\<And>x. f (g x) = f x) \<Longrightarrow> map g (sort_key f xs) = sort_key f (map g xs)"
  by (induction xs) (auto simp: map_insort_key)

lemma is_json_sort: "is_json v \<Longrightarrow> is_json (sort_json v)"
proof (induction v)
  case (JArr vs)
  then show ?case by (auto simp: is_json_list_iff sort_json_list_map)
next
  case (JObj kvs)
  then have "is_json (sort_json w)" if "(k, w) \<in> set kvs" for k w
    using that by (force simp: is_json_members_iff)
  with JObj show ?case
    by (auto simp: is_json_members_iff sort_json_members_map distinct_map inj_on_def)
qed auto

lemma canonical_stringify: "is_json v \<Longrightarrow> canonical v = Inr (stringify (sort_json v))"
proof (induction v rule: canonical.induct)
  case (6 vs)
  then have "mapR canonical vs = Inr (map (\<lambda>v. stringify (sort_json v)) vs)"
    by (intro mapR_all_Inr) (auto simp: is_json_list_iff)
  then show ?case by (simp add: sort_json_list_map stringify_list_map comp_def)
next
  case (8 kvs)
  let ?s = "\<lambda>kv. (fst kv, sort_json (snd kv))"
  let ?p = "\<lambda>kv. quote_str (fst kv) @ '':'' @ stringify (snd kv)"
  have ok: "is_json (snd kv)" if "kv \<in> set kvs" for kv
    using that 8 by (auto simp: is_json_members_iff)
  have "mapR (\<lambda>kv. bindR (canonical (snd kv)) (\<lambda>t. Inr (quote_str (fst kv) @ '':'' @ t)))
      (sort_key fst kvs) = Inr (map (\<lambda>kv. ?p (?s kv)) (sort_key fst kvs))"
    using "8.IH" ok by (intro mapR_all_Inr) auto
  moreover have "sort_key fst (sort_json_members kvs) = map ?s (sort_key fst kvs)"
    by (simp add: sort_json_members_map map_sort_key)
  moreover have "is_json_members (map ?s (sort_key fst kvs))"
    using ok by (auto simp: is_json_members_iff intro: is_json_sort)
  ultimately show ?case by (simp add: stringify_members_map comp_def)
qed auto

lemma canonical_inject:
  "is_json v \<Longrightarrow> is_json w \<Longrightarrow> canonical v = canonical w \<longleftrightarrow> sort_json v = sort_json w"
  using json_text.encode_inject [of "sort_json v" "sort_json w"]
  by (auto simp: canonical_stringify is_json_sort)

lemma canonical_parses: "is_json v \<Longrightarrow> bindR (canonical v) JSON_parse = Inr (sort_json v)"
  by (simp add: canonical_stringify JSON_parse_stringify is_json_sort)

text \<open>Conversely, on objects with distinct names the text exists for JSON data only.\<close>

fun distinct_keys :: "json \<Rightarrow> bool" where
  "distinct_keys (JArr vs) = (\<forall>v \<in> set vs. distinct_keys v)"
| "distinct_keys (JObj kvs) = (distinct (map fst kvs) \<and> (\<forall>kv \<in> set kvs. distinct_keys (snd kv)))"
| "distinct_keys v = True"

lemma canonical_Inr_is_json: "canonical v = Inr s \<Longrightarrow> distinct_keys v \<Longrightarrow> is_json v"
proof (induction v arbitrary: s rule: canonical.induct)
  case (6 vs)
  then obtain ts where ts: "mapR canonical vs = Inr ts" by (auto simp: res_simps)
  have "\<exists>t. canonical v = Inr t" if "v \<in> set vs" for v
    using ts that by (induction vs arbitrary: ts) (auto simp: res_simps)
  with 6 show ?case by (fastforce simp: is_json_list_iff)
next
  case (8 kvs)
  let ?f = "\<lambda>kv. bindR (canonical (snd kv)) (\<lambda>t. Inr (quote_str (fst kv) @ '':'' @ t))"
  have entry: "\<exists>t. canonical (snd kv) = Inr t" if "mapR ?f xs = Inr ts" "kv \<in> set xs" for kv xs ts
    using that by (induction xs arbitrary: ts) (auto simp: res_simps)
  from "8.prems" obtain ts where "mapR ?f (sort_key fst kvs) = Inr ts" by (auto simp: res_simps)
  then have "\<exists>t. canonical (snd kv) = Inr t" if "kv \<in> set kvs" for kv
    using entry [of "sort_key fst kvs" ts kv] that by simp
  with 8 show ?case by (fastforce simp: is_json_members_iff)
qed auto

section \<open>String conversion\<close>

text \<open>
  \<open>String(value)\<close>. An array joins the conversions of its elements, with the empty string for
  \<open>null\<close> and \<open>undefined\<close>. A plain object gives \<open>[object Object]\<close>, except that an own property
  named \<open>toString\<close>, which is data and not a function, makes the conversion throw.
\<close>

fun js_String :: "json \<Rightarrow> string res" where
  "js_String JUndef = Inr ''undefined''"
| "js_String JNull = Inr ''null''"
| "js_String (JBool b) = Inr (if b then ''true'' else ''false'')"
| "js_String (JNum n) = Inr (int_str n)"
| "js_String JNonFinite = Inr ''NaN''"
| "js_String (JStr s) = Inr s"
| "js_String (JArr vs) =
     bindR (mapR (\<lambda>v. if v = JNull \<or> v = JUndef then Inr [] else js_String v) vs)
       (\<lambda>ts. Inr (join '','' ts))"
| "js_String (JObj kvs) =
     (if ''toString'' \<in> set (map fst kvs) then Inl TypeError else Inr ''[object Object]'')"

lemma get_prop_in: "get_prop kvs k \<noteq> JUndef \<Longrightarrow> k \<in> set (map fst kvs)"
  by (force simp: get_prop_def split: option.splits dest: map_of_SomeD)

end
