(* ===== verification/Contract.thy ===== *)
theory Contract
  imports Json
begin

text \<open>
  The semantic contract of \<open>packages/semantic-contract/src\<close>: the values a model response and a
  turn request may have (\<open>types.ts\<close>), the parser that admits them (\<open>parse.ts\<close>) and its safe
  variants (\<open>errors.ts\<close>). The record and datatype constructors are the object literals the
  parser returns; \<open>enc_output\<close> and \<open>enc_request\<close> read them back as JavaScript values.
  The work kind and the turn mode stay raw values, because the parser tests
  \<open>String(value)\<close> and keeps the value itself.
\<close>

section \<open>Values\<close>

datatype semantic_target =
    SelectionTarget string
  | DocumentsTarget "string list" "string option"
  | SymbolTarget string
  | ErrorTarget string
  | BehaviorTarget string
  | UiTarget string string

record work_intent =
  wi_kind :: json
  wi_objective :: string
  wi_target :: semantic_target
  wi_evidenceGoals :: "string list"
  wi_constraints :: "string list"
  wi_doneWhen :: string

record completion_claim =
  cc_observationRef :: string
  cc_claim :: string

datatype intent =
    WorkIntent work_intent
  | ClarifyIntent string string
  | CompleteIntent string "completion_claim list"

record proposed_edit =
  pe_documentId :: string
  pe_oldText :: string
  pe_newText :: string

record patch_proposal =
  pp_edits :: "proposed_edit list"
  pp_assumptions :: "string list"
  pp_verificationGoals :: "string list"

datatype semantic_output =
    IntentOutput intent
  | PatchOutput patch_proposal

record disclosed_ids =
  di_selectionIds :: "string list"
  di_documentIds :: "string list"
  di_observationIds :: "string list"

record turn_request =
  tr_mode :: json
  tr_objective :: string
  tr_disclosed :: disclosed_ids

section \<open>Primitive checks\<close>

definition MAX_SOURCE_TEXT :: nat where
  "MAX_SOURCE_TEXT = 1048576"

definition MAX_LIST :: nat where
  "MAX_LIST = 64"

definition alnum :: "char \<Rightarrow> bool" where
  "alnum c = ((CHR ''0'' \<le> c \<and> c \<le> CHR ''9'') \<or> (CHR ''A'' \<le> c \<and> c \<le> CHR ''Z'')
     \<or> (CHR ''a'' \<le> c \<and> c \<le> CHR ''z''))"

definition id_suffix :: "string \<Rightarrow> bool" where
  "id_suffix s = (case s of [] \<Rightarrow> False
     | c # cs \<Rightarrow> alnum c \<and> length cs \<le> 126 \<and>
         list_all (\<lambda>c. alnum c \<or> c = CHR ''_'' \<or> c = CHR ''-'') cs)"

definition fail :: "contract_code \<Rightarrow> string \<Rightarrow> 'a res" where
  "fail code message = Inl (SemanticContractError code message)"

fun object_of :: "json \<Rightarrow> (string \<times> json) list res" where
  "object_of (JObj kvs) = Inr kvs"
| "object_of v = fail INVALID_TYPE ''Semantic value must be an object''"

definition exact :: "(string \<times> json) list \<Rightarrow> string list \<Rightarrow> string list \<Rightarrow> unit res" where
  "exact kvs required opt =
     (if list_ex (\<lambda>k. k \<notin> set (map fst kvs)) required
         \<or> list_ex (\<lambda>k. k \<notin> set (required @ opt)) (map fst kvs)
      then fail INVALID_KEYS ''Semantic value has invalid keys''
      else Inr ())"

fun text_of :: "nat option \<Rightarrow> bool \<Rightarrow> json \<Rightarrow> string res" where
  "text_of limit nonEmpty (JStr s) =
     (if nonEmpty \<and> s = [] then fail INVALID_LENGTH ''Declared text must not be empty''
      else if (case limit of None \<Rightarrow> False | Some n \<Rightarrow> n < length s)
        then fail INVALID_LENGTH ''Declared text exceeds maximum length''
      else Inr s)"
| "text_of limit nonEmpty v = fail INVALID_TEXT ''Declared text must be a string''"

fun list_of :: "(json \<Rightarrow> 'a res) \<Rightarrow> bool \<Rightarrow> json \<Rightarrow> 'a list res" where
  "list_of p nonEmpty (JArr vs) =
     (if nonEmpty \<and> vs = [] then fail INVALID_LENGTH ''Semantic list must not be empty''
      else if MAX_LIST < length vs then fail INVALID_LENGTH ''Semantic list exceeds maximum length''
      else mapR p vs)"
| "list_of p nonEmpty v = fail INVALID_TYPE ''Semantic list must be an array''"

definition valid_id :: "string \<Rightarrow> string \<Rightarrow> bool" where
  "valid_id prefix s = (startsWith s prefix \<and> id_suffix (drop (length prefix) s))"

fun opaque :: "string \<Rightarrow> json \<Rightarrow> string res" where
  "opaque prefix (JStr s) =
     (if valid_id prefix s then Inr s
      else fail INVALID_IDENTIFIER ''Opaque identifier has invalid format'')"
| "opaque prefix v = fail INVALID_IDENTIFIER ''Opaque identifier has invalid format''"

definition projectId :: "json \<Rightarrow> string res" where
  "projectId = opaque ''prj_''"

definition selectionId :: "json \<Rightarrow> string res" where
  "selectionId = opaque ''sel_''"

definition documentId :: "json \<Rightarrow> string res" where
  "documentId = opaque ''doc_''"

definition observationId :: "json \<Rightarrow> string res" where
  "observationId = opaque ''obs_''"

definition artifactId :: "json \<Rightarrow> string res" where
  "artifactId = opaque ''art_''"

definition texts :: "json \<Rightarrow> string list res" where
  "texts = list_of (text_of None False) False"

section \<open>The parser\<close>

definition target_of :: "json \<Rightarrow> semantic_target res" where
  "target_of value =
     bindR (object_of value) (\<lambda>c.
       let kind = get_prop c ''kind'' in
       if kind = JStr ''selection'' then
         bindR (exact c [''kind'', ''selectionId''] []) (\<lambda>_.
         bindR (selectionId (get_prop c ''selectionId'')) (\<lambda>s. Inr (SelectionTarget s)))
       else if kind = JStr ''documents'' then
         bindR (exact c [''kind'', ''documentIds''] [''hint'']) (\<lambda>_.
         bindR (list_of documentId True (get_prop c ''documentIds'')) (\<lambda>ds.
         if get_prop c ''hint'' = JUndef then Inr (DocumentsTarget ds None)
         else bindR (text_of None False (get_prop c ''hint'')) (\<lambda>h.
           Inr (DocumentsTarget ds (Some h)))))
       else if kind = JStr ''symbol'' then
         bindR (exact c [''kind'', ''hint''] []) (\<lambda>_.
         bindR (text_of None True (get_prop c ''hint'')) (\<lambda>h. Inr (SymbolTarget h)))
       else if kind = JStr ''error'' then
         bindR (exact c [''kind'', ''fingerprint''] []) (\<lambda>_.
         bindR (text_of None True (get_prop c ''fingerprint'')) (\<lambda>f. Inr (ErrorTarget f)))
       else if kind = JStr ''behavior'' then
         bindR (exact c [''kind'', ''description''] []) (\<lambda>_.
         bindR (text_of None True (get_prop c ''description'')) (\<lambda>d. Inr (BehaviorTarget d)))
       else if kind = JStr ''ui'' then
         bindR (exact c [''kind'', ''role'', ''name''] []) (\<lambda>_.
         bindR (text_of None True (get_prop c ''role'')) (\<lambda>r.
         bindR (text_of None True (get_prop c ''name'')) (\<lambda>n. Inr (UiTarget r n))))
       else fail INVALID_VALUE ''Semantic target kind is unsupported'')"

definition work_intent_of :: "(string \<times> json) list \<Rightarrow> intent res" where
  "work_intent_of c =
     bindR (exact c [''kind'', ''objective'', ''target'', ''evidenceGoals'', ''constraints'',
                     ''doneWhen''] []) (\<lambda>_.
     bindR (text_of None True (get_prop c ''objective'')) (\<lambda>obj.
     bindR (target_of (get_prop c ''target'')) (\<lambda>t.
     bindR (texts (get_prop c ''evidenceGoals'')) (\<lambda>gs.
     bindR (texts (get_prop c ''constraints'')) (\<lambda>cs.
     bindR (text_of None True (get_prop c ''doneWhen'')) (\<lambda>d.
     Inr (WorkIntent \<lparr>wi_kind = get_prop c ''kind'', wi_objective = obj, wi_target = t,
       wi_evidenceGoals = gs, wi_constraints = cs, wi_doneWhen = d\<rparr>)))))))"

definition claim_of :: "json \<Rightarrow> completion_claim res" where
  "claim_of value =
     bindR (object_of value) (\<lambda>c.
     bindR (exact c [''observationRef'', ''claim''] []) (\<lambda>_.
     bindR (observationId (get_prop c ''observationRef'')) (\<lambda>r.
     bindR (text_of None True (get_prop c ''claim'')) (\<lambda>t.
     Inr \<lparr>cc_observationRef = r, cc_claim = t\<rparr>))))"

definition work_kinds :: "string list" where
  "work_kinds = [''inspect'', ''modify'', ''review'', ''verify'']"

definition intent_of :: "json \<Rightarrow> intent res" where
  "intent_of value =
     bindR (object_of value) (\<lambda>c.
     bindR (js_String (get_prop c ''kind'')) (\<lambda>k.
     if k \<in> set work_kinds then work_intent_of c
     else if get_prop c ''kind'' = JStr ''clarify'' then
       bindR (exact c [''kind'', ''question'', ''reason''] []) (\<lambda>_.
       bindR (text_of None True (get_prop c ''question'')) (\<lambda>q.
       bindR (text_of None True (get_prop c ''reason'')) (\<lambda>r. Inr (ClarifyIntent q r))))
     else if get_prop c ''kind'' = JStr ''complete'' then
       bindR (exact c [''kind'', ''summary'', ''claims''] []) (\<lambda>_.
       bindR (text_of None True (get_prop c ''summary'')) (\<lambda>s.
       bindR (list_of claim_of True (get_prop c ''claims'')) (\<lambda>cs. Inr (CompleteIntent s cs))))
     else fail INVALID_VALUE ''Intent kind is unsupported''))"

definition edit_of :: "json \<Rightarrow> proposed_edit res" where
  "edit_of value =
     bindR (object_of value) (\<lambda>c.
     bindR (exact c [''documentId'', ''oldText'', ''newText''] []) (\<lambda>_.
     bindR (documentId (get_prop c ''documentId'')) (\<lambda>d.
     bindR (text_of (Some MAX_SOURCE_TEXT) True (get_prop c ''oldText'')) (\<lambda>old.
     bindR (text_of (Some MAX_SOURCE_TEXT) False (get_prop c ''newText'')) (\<lambda>new.
     Inr \<lparr>pe_documentId = d, pe_oldText = old, pe_newText = new\<rparr>)))))"

definition proposal_of :: "json \<Rightarrow> patch_proposal res" where
  "proposal_of value =
     bindR (object_of value) (\<lambda>c.
     bindR (exact c [''edits'', ''assumptions'', ''verificationGoals''] []) (\<lambda>_.
     bindR (list_of edit_of True (get_prop c ''edits'')) (\<lambda>es.
     bindR (texts (get_prop c ''assumptions'')) (\<lambda>as.
     bindR (texts (get_prop c ''verificationGoals'')) (\<lambda>vs.
     Inr \<lparr>pp_edits = es, pp_assumptions = as, pp_verificationGoals = vs\<rparr>)))))"

definition parseSemanticOutput :: "json \<Rightarrow> semantic_output res" where
  "parseSemanticOutput value =
     bindR (object_of value) (\<lambda>c.
     bindR (exact c [''protocolVersion'', ''kind'', ''payload''] []) (\<lambda>_.
     if get_prop c ''protocolVersion'' \<noteq> JNum 2
       then fail UNSUPPORTED_VERSION ''Unsupported semantic protocol version''
     else if get_prop c ''kind'' = JStr ''intent''
       then bindR (intent_of (get_prop c ''payload'')) (\<lambda>i. Inr (IntentOutput i))
     else if get_prop c ''kind'' = JStr ''patchProposal''
       then bindR (proposal_of (get_prop c ''payload'')) (\<lambda>p. Inr (PatchOutput p))
     else fail INVALID_VALUE ''Semantic output kind is unsupported''))"

definition turn_modes :: "string list" where
  "turn_modes = [''prompt'', ''steer'', ''followUp'']"

definition parseSemanticTurnRequest :: "json \<Rightarrow> turn_request res" where
  "parseSemanticTurnRequest value =
     bindR (object_of value) (\<lambda>c.
     bindR (exact c [''protocolVersion'', ''mode'', ''objective'', ''disclosed''] []) (\<lambda>_.
     if get_prop c ''protocolVersion'' \<noteq> JNum 2
       then fail UNSUPPORTED_VERSION ''Unsupported semantic protocol version''
     else bindR (js_String (get_prop c ''mode'')) (\<lambda>m.
     if m \<notin> set turn_modes then fail INVALID_VALUE ''Semantic turn mode is unsupported''
     else bindR (object_of (get_prop c ''disclosed'')) (\<lambda>d.
     bindR (exact d [''selectionIds'', ''documentIds'', ''observationIds''] []) (\<lambda>_.
     bindR (text_of None True (get_prop c ''objective'')) (\<lambda>obj.
     bindR (list_of selectionId False (get_prop d ''selectionIds'')) (\<lambda>ss.
     bindR (list_of documentId False (get_prop d ''documentIds'')) (\<lambda>ds.
     bindR (list_of observationId False (get_prop d ''observationIds'')) (\<lambda>os.
     Inr \<lparr>tr_mode = get_prop c ''mode'', tr_objective = obj,
       tr_disclosed = \<lparr>di_selectionIds = ss, di_documentIds = ds, di_observationIds = os\<rparr>\<rparr>)))))))))"

text \<open>The safe variants turn every exception into an error value of the contract.\<close>

fun safe :: "'a res \<Rightarrow> (contract_code \<times> string) + 'a" where
  "safe (Inr x) = Inr x"
| "safe (Inl (SemanticContractError c m)) = Inl (c, m)"
| "safe (Inl _) = Inl (INVALID_TYPE, ''Semantic value could not be parsed'')"

definition safeParseSemanticOutput :: "json \<Rightarrow> (contract_code \<times> string) + semantic_output" where
  "safeParseSemanticOutput v = safe (parseSemanticOutput v)"

definition safeParseSemanticTurnRequest :: "json \<Rightarrow> (contract_code \<times> string) + turn_request" where
  "safeParseSemanticTurnRequest v = safe (parseSemanticTurnRequest v)"

section \<open>Well-formed values\<close>

fun wf_target :: "semantic_target \<Rightarrow> bool" where
  "wf_target (SelectionTarget s) = valid_id ''sel_'' s"
| "wf_target (DocumentsTarget ds h) =
     (ds \<noteq> [] \<and> length ds \<le> MAX_LIST \<and> list_all (valid_id ''doc_'') ds)"
| "wf_target (SymbolTarget h) = (h \<noteq> [])"
| "wf_target (ErrorTarget f) = (f \<noteq> [])"
| "wf_target (BehaviorTarget d) = (d \<noteq> [])"
| "wf_target (UiTarget r n) = (r \<noteq> [] \<and> n \<noteq> [])"

definition wf_claim :: "completion_claim \<Rightarrow> bool" where
  "wf_claim c = (valid_id ''obs_'' (cc_observationRef c) \<and> cc_claim c \<noteq> [])"

definition wf_work :: "work_intent \<Rightarrow> bool" where
  "wf_work w = (js_String (wi_kind w) \<in> Inr ` set work_kinds \<and> wi_objective w \<noteq> []
     \<and> wf_target (wi_target w) \<and> length (wi_evidenceGoals w) \<le> MAX_LIST
     \<and> length (wi_constraints w) \<le> MAX_LIST \<and> wi_doneWhen w \<noteq> [])"

fun wf_intent :: "intent \<Rightarrow> bool" where
  "wf_intent (WorkIntent w) = wf_work w"
| "wf_intent (ClarifyIntent q r) = (q \<noteq> [] \<and> r \<noteq> [])"
| "wf_intent (CompleteIntent s cs) =
     (s \<noteq> [] \<and> cs \<noteq> [] \<and> length cs \<le> MAX_LIST \<and> list_all wf_claim cs)"

definition wf_edit :: "proposed_edit \<Rightarrow> bool" where
  "wf_edit e = (valid_id ''doc_'' (pe_documentId e) \<and> pe_oldText e \<noteq> []
     \<and> length (pe_oldText e) \<le> MAX_SOURCE_TEXT \<and> length (pe_newText e) \<le> MAX_SOURCE_TEXT)"

definition wf_proposal :: "patch_proposal \<Rightarrow> bool" where
  "wf_proposal p = (pp_edits p \<noteq> [] \<and> length (pp_edits p) \<le> MAX_LIST \<and> list_all wf_edit (pp_edits p)
     \<and> length (pp_assumptions p) \<le> MAX_LIST \<and> length (pp_verificationGoals p) \<le> MAX_LIST)"

fun wf_output :: "semantic_output \<Rightarrow> bool" where
  "wf_output (IntentOutput i) = wf_intent i"
| "wf_output (PatchOutput p) = wf_proposal p"

definition wf_disclosed :: "disclosed_ids \<Rightarrow> bool" where
  "wf_disclosed d =
     (length (di_selectionIds d) \<le> MAX_LIST \<and> list_all (valid_id ''sel_'') (di_selectionIds d)
     \<and> length (di_documentIds d) \<le> MAX_LIST \<and> list_all (valid_id ''doc_'') (di_documentIds d)
     \<and> length (di_observationIds d) \<le> MAX_LIST \<and> list_all (valid_id ''obs_'') (di_observationIds d))"

definition wf_request :: "turn_request \<Rightarrow> bool" where
  "wf_request r = (js_String (tr_mode r) \<in> Inr ` set turn_modes \<and> tr_objective r \<noteq> []
     \<and> wf_disclosed (tr_disclosed r))"

section \<open>The JavaScript values behind the constructors\<close>

abbreviation jstrs :: "string list \<Rightarrow> json" where
  "jstrs ss \<equiv> JArr (map JStr ss)"

fun enc_target :: "semantic_target \<Rightarrow> json" where
  "enc_target (SelectionTarget s) = JObj [(''kind'', JStr ''selection''), (''selectionId'', JStr s)]"
| "enc_target (DocumentsTarget ds h) =
     JObj ([(''kind'', JStr ''documents''), (''documentIds'', jstrs ds)]
       @ (case h of None \<Rightarrow> [] | Some t \<Rightarrow> [(''hint'', JStr t)]))"
| "enc_target (SymbolTarget h) = JObj [(''kind'', JStr ''symbol''), (''hint'', JStr h)]"
| "enc_target (ErrorTarget f) = JObj [(''kind'', JStr ''error''), (''fingerprint'', JStr f)]"
| "enc_target (BehaviorTarget d) = JObj [(''kind'', JStr ''behavior''), (''description'', JStr d)]"
| "enc_target (UiTarget r n) = JObj [(''kind'', JStr ''ui''), (''role'', JStr r), (''name'', JStr n)]"

definition enc_claim :: "completion_claim \<Rightarrow> json" where
  "enc_claim c = JObj [(''observationRef'', JStr (cc_observationRef c)), (''claim'', JStr (cc_claim c))]"

fun enc_intent :: "intent \<Rightarrow> json" where
  "enc_intent (WorkIntent w) = JObj [(''kind'', wi_kind w), (''objective'', JStr (wi_objective w)),
     (''target'', enc_target (wi_target w)), (''evidenceGoals'', jstrs (wi_evidenceGoals w)),
     (''constraints'', jstrs (wi_constraints w)), (''doneWhen'', JStr (wi_doneWhen w))]"
| "enc_intent (ClarifyIntent q r) =
     JObj [(''kind'', JStr ''clarify''), (''question'', JStr q), (''reason'', JStr r)]"
| "enc_intent (CompleteIntent s cs) =
     JObj [(''kind'', JStr ''complete''), (''summary'', JStr s), (''claims'', JArr (map enc_claim cs))]"

definition enc_edit :: "proposed_edit \<Rightarrow> json" where
  "enc_edit e = JObj [(''documentId'', JStr (pe_documentId e)), (''oldText'', JStr (pe_oldText e)),
     (''newText'', JStr (pe_newText e))]"

definition enc_proposal :: "patch_proposal \<Rightarrow> json" where
  "enc_proposal p = JObj [(''edits'', JArr (map enc_edit (pp_edits p))),
     (''assumptions'', jstrs (pp_assumptions p)), (''verificationGoals'', jstrs (pp_verificationGoals p))]"

fun enc_output :: "semantic_output \<Rightarrow> json" where
  "enc_output (IntentOutput i) =
     JObj [(''protocolVersion'', JNum 2), (''kind'', JStr ''intent''), (''payload'', enc_intent i)]"
| "enc_output (PatchOutput p) =
     JObj [(''protocolVersion'', JNum 2), (''kind'', JStr ''patchProposal''), (''payload'', enc_proposal p)]"

definition enc_disclosed :: "disclosed_ids \<Rightarrow> json" where
  "enc_disclosed d = JObj [(''selectionIds'', jstrs (di_selectionIds d)),
     (''documentIds'', jstrs (di_documentIds d)), (''observationIds'', jstrs (di_observationIds d))]"

definition enc_request :: "turn_request \<Rightarrow> json" where
  "enc_request r = JObj [(''protocolVersion'', JNum 2), (''mode'', tr_mode r),
     (''objective'', JStr (tr_objective r)), (''disclosed'', enc_disclosed (tr_disclosed r))]"

section \<open>Inversion of the primitive checks\<close>

named_theorems contract_inv \<open>what a successful check says of the value\<close>

lemma fail_neq [contract_inv, simp]: "fail c m \<noteq> Inr x"
  by (simp add: fail_def)

lemma object_of_Inr [contract_inv]: "object_of v = Inr kvs \<longleftrightarrow> v = JObj kvs"
  by (cases v) (auto simp: fail_def)

lemma exact_Inr:
  "exact kvs req opt = Inr u \<longleftrightarrow>
     set req \<subseteq> set (map fst kvs) \<and> set (map fst kvs) \<subseteq> set req \<union> set opt"
  by (auto simp: exact_def fail_def list_ex_iff)

lemma exact_opt:
  assumes "exact kvs req [k] = Inr u"
  shows "set (map fst kvs) = set (req @ (if k \<in> set (map fst kvs) then [k] else []))"
proof -
  define S where "S = set (map fst kvs)"
  with assms have "set req \<subseteq> S" and "S \<subseteq> insert k (set req)" by (simp_all add: exact_Inr)
  then show ?thesis unfolding S_def [symmetric] by (cases "k \<in> S") auto
qed

lemma exact_all: "exact kvs req [] = Inr u \<longleftrightarrow> set (map fst kvs) = set req"
  by (auto simp: exact_Inr)

lemma text_of_Inr [contract_inv]:
  "text_of limit ne v = Inr s \<longleftrightarrow>
     v = JStr s \<and> (ne \<longrightarrow> s \<noteq> []) \<and> (case limit of None \<Rightarrow> True | Some n \<Rightarrow> length s \<le> n)"
  by (cases v) (auto simp: fail_def not_less split: option.splits)

lemma opaque_Inr: "opaque p v = Inr s \<longleftrightarrow> v = JStr s \<and> valid_id p s"
  by (cases v) (auto simp: fail_def)

lemmas id_Inr [contract_inv] =
  opaque_Inr [of "''prj_''", folded projectId_def] opaque_Inr [of "''sel_''", folded selectionId_def]
  opaque_Inr [of "''doc_''", folded documentId_def] opaque_Inr [of "''obs_''", folded observationId_def]
  opaque_Inr [of "''art_''", folded artifactId_def]

lemma list_of_Inr:
  "list_of p ne v = Inr xs \<longleftrightarrow>
     (\<exists>vs. v = JArr vs \<and> (ne \<longrightarrow> vs \<noteq> []) \<and> length vs \<le> MAX_LIST \<and> mapR p vs = Inr xs)"
  by (cases v) (auto simp: fail_def not_less)

lemma mapR_exact:
  assumes "\<And>v x. p v = Inr x \<longleftrightarrow> v = e x \<and> good x"
  shows "mapR p vs = Inr xs \<longleftrightarrow> vs = map e xs \<and> list_all good xs"
proof (induction vs arbitrary: xs)
  case Nil
  then show ?case by auto
next
  case (Cons v vs)
  then show ?case by (cases xs) (auto simp: res_simps assms)
qed

lemma list_of_exact:
  assumes "\<And>v x. p v = Inr x \<longleftrightarrow> v = e x \<and> good x"
  shows "list_of p ne v = Inr xs \<longleftrightarrow>
     v = JArr (map e xs) \<and> (ne \<longrightarrow> xs \<noteq> []) \<and> length xs \<le> MAX_LIST \<and> list_all good xs"
  by (auto simp: list_of_Inr mapR_exact [of p e good, OF assms])

lemma list_of_good:
  assumes "list_of p ne v = Inr xs" and "\<And>v x. p v = Inr x \<Longrightarrow> good x"
  shows "(ne \<longrightarrow> xs \<noteq> []) \<and> length xs \<le> MAX_LIST \<and> list_all good xs"
proof -
  from assms(1) obtain vs where vs: "ne \<longrightarrow> vs \<noteq> []" "length vs \<le> MAX_LIST" "mapR p vs = Inr xs"
    by (auto simp: list_of_Inr)
  from vs(3) have "length xs = length vs" by (rule mapR_length)
  with vs assms(2) show ?thesis by (auto simp: list_all_iff dest: mapR_InrD)
qed

lemmas list_of_ids [contract_inv] =
  list_of_exact [of selectionId JStr "valid_id ''sel_''", OF id_Inr(2)]
  list_of_exact [of documentId JStr "valid_id ''doc_''", OF id_Inr(3)]
  list_of_exact [of observationId JStr "valid_id ''obs_''", OF id_Inr(4)]

lemma texts_Inr [contract_inv]: "texts v = Inr xs \<longleftrightarrow> v = jstrs xs \<and> length xs \<le> MAX_LIST"
  using list_of_exact [of "text_of None False" JStr "\<lambda>_. True" False v xs]
  by (auto simp: texts_def text_of_Inr list_all_iff)

section \<open>The parser reads back what it admits\<close>

lemma js_String_kind: "js_String v \<in> Inr ` A \<longleftrightarrow> (\<exists>k \<in> A. js_String v = Inr k)"
  by auto

lemma target_of_enc: "wf_target t \<Longrightarrow> target_of (enc_target t) = Inr t"
  by (cases t)
    (auto simp: target_of_def get_prop_def exact_def contract_inv res_simps Let_def fail_def
       selectionId_def documentId_def list_all_iff mapR_map_Inr not_less split: option.splits)

lemma target_of_wf: "target_of v = Inr t \<Longrightarrow> wf_target t"
  by (auto simp: target_of_def Let_def contract_inv res_simps split: if_splits)

lemma texts_jstrs: "length xs \<le> MAX_LIST \<Longrightarrow> texts (jstrs xs) = Inr xs"
  by (simp add: texts_Inr)

lemma claim_of_enc: "wf_claim c \<Longrightarrow> claim_of (enc_claim c) = Inr c"
  by (auto simp: wf_claim_def claim_of_def enc_claim_def get_prop_def exact_def observationId_def fail_def)

lemma claim_of_wf: "claim_of v = Inr c \<Longrightarrow> wf_claim c"
  by (auto simp: wf_claim_def claim_of_def contract_inv res_simps)

interpretation claims: codec enc_claim claim_of wf_claim
  by unfold_locales (auto intro: claim_of_enc claim_of_wf)

lemma edit_of_enc: "wf_edit e \<Longrightarrow> edit_of (enc_edit e) = Inr e"
  by (auto simp: wf_edit_def edit_of_def enc_edit_def get_prop_def exact_def documentId_def fail_def)

lemma edit_of_wf: "edit_of v = Inr e \<Longrightarrow> wf_edit e"
  by (auto simp: wf_edit_def edit_of_def contract_inv res_simps)

interpretation edits: codec enc_edit edit_of wf_edit
  by unfold_locales (auto intro: edit_of_enc edit_of_wf)

lemma intent_of_enc: "wf_intent i \<Longrightarrow> intent_of (enc_intent i) = Inr i"
proof (cases i)
  case (WorkIntent w)
  assume "wf_intent i"
  with WorkIntent show ?thesis
    by (auto simp: wf_work_def intent_of_def work_intent_of_def get_prop_def exact_def fail_def
        target_of_enc texts_jstrs)
next
  case (CompleteIntent s cs)
  assume "wf_intent i"
  with CompleteIntent show ?thesis
    by (auto simp: intent_of_def get_prop_def exact_def fail_def work_kinds_def list_all_iff
        claims.decode_mapR not_less)
qed (auto simp: intent_of_def get_prop_def exact_def fail_def work_kinds_def)

lemma intent_of_wf: "intent_of v = Inr i \<Longrightarrow> wf_intent i"
  using list_of_good [of claim_of True _ _ wf_claim, OF _ claim_of_wf]
  by (fastforce simp: intent_of_def work_intent_of_def wf_work_def contract_inv res_simps
      split: if_splits dest: target_of_wf)

lemma proposal_of_enc: "wf_proposal p \<Longrightarrow> proposal_of (enc_proposal p) = Inr p"
  by (auto simp: wf_proposal_def proposal_of_def enc_proposal_def get_prop_def exact_def fail_def
      texts_jstrs list_all_iff edits.decode_mapR not_less)

lemma proposal_of_wf: "proposal_of v = Inr p \<Longrightarrow> wf_proposal p"
  using list_of_good [of edit_of True _ _ wf_edit, OF _ edit_of_wf]
  by (fastforce simp: wf_proposal_def proposal_of_def contract_inv res_simps)

lemma parse_output_enc: "wf_output x \<Longrightarrow> parseSemanticOutput (enc_output x) = Inr x"
  by (cases x)
    (auto simp: parseSemanticOutput_def get_prop_def exact_def fail_def intent_of_enc proposal_of_enc)

lemma parse_output_wf: "parseSemanticOutput v = Inr x \<Longrightarrow> wf_output x"
  by (auto simp: parseSemanticOutput_def contract_inv res_simps split: if_splits
      dest: intent_of_wf proposal_of_wf)

interpretation semantic_outputs: codec enc_output parseSemanticOutput wf_output
  by unfold_locales (auto intro: parse_output_enc parse_output_wf)

lemma parse_request_enc: "wf_request r \<Longrightarrow> parseSemanticTurnRequest (enc_request r) = Inr r"
  by (auto simp: parseSemanticTurnRequest_def wf_request_def wf_disclosed_def enc_request_def
      enc_disclosed_def get_prop_def exact_def fail_def list_all_iff mapR_map_Inr not_less
      selectionId_def documentId_def observationId_def)

lemma parse_request_wf: "parseSemanticTurnRequest v = Inr r \<Longrightarrow> wf_request r"
  by (auto simp: parseSemanticTurnRequest_def wf_request_def wf_disclosed_def contract_inv res_simps
      split: if_splits)

interpretation turn_requests: codec enc_request parseSemanticTurnRequest wf_request
  by unfold_locales (auto intro: parse_request_enc parse_request_wf)

section \<open>The parser loses nothing\<close>

text \<open>
  An accepted JSON value and the value the parser returns have the same normal form: the parser
  drops no property and changes none, it can only reorder them.
\<close>

lemma sort_key_unique:
  assumes "distinct (map fst xs)" and "distinct (map fst ys)" and "set xs = set ys"
  shows "sort_key fst xs = sort_key fst (ys :: (string \<times> 'v) list)"
proof (rule map_sorted_distinct_set_unique [of fst])
  show "inj_on fst (set (sort_key fst xs) \<union> set (sort_key fst ys))"
    using assms by (simp add: distinct_map)
qed (use assms in \<open>auto simp: distinct_map\<close>)

lemma set_eq_get_prop:
  assumes "distinct (map fst kvs)" and "set (map fst kvs) = set ks"
  shows "set kvs = set (map (\<lambda>k. (k, get_prop kvs k)) ks)"
proof -
  have "get_prop kvs (fst kv) = snd kv" if "kv \<in> set kvs" for kv
  proof -
    have "map_of kvs (fst kv) = Some (snd kv)" using that assms(1) by simp
    then show ?thesis by (simp only: get_prop_def option.case)
  qed
  then have "set kvs = (\<lambda>k. (k, get_prop kvs k)) ` fst ` set kvs"
    by (force simp: image_iff)
  with assms(2) show ?thesis by simp
qed

lemma sort_json_fields:
  assumes "is_json (JObj kvs)" and "set (map fst kvs) = set ks" and "distinct ks"
    and "sort_json_members kvs' = map (\<lambda>k. (k, sort_json (get_prop kvs k))) ks"
  shows "sort_json (JObj kvs) = sort_json (JObj kvs')"
proof -
  let ?s = "\<lambda>kv. (fst kv, sort_json (snd kv))"
  have "sort_json_members kvs' = map ?s (map (\<lambda>k. (k, get_prop kvs k)) ks)"
    using assms(4) by simp
  moreover have "set (map ?s kvs) = set (map ?s (map (\<lambda>k. (k, get_prop kvs k)) ks))"
    using set_eq_get_prop [of kvs ks] assms(1,2) by (simp only: set_map is_json.simps)
  ultimately have "sort_key fst (map ?s kvs) = sort_key fst (sort_json_members kvs')"
    using assms(1,3) by (intro sort_key_unique) (simp_all add: comp_def)
  then show ?thesis by (simp add: sort_json_members_map)
qed

lemma sort_json_exact:
  assumes "is_json (JObj kvs)" and "exact kvs ks [] = Inr u" and "distinct ks"
    and "sort_json_members kvs' = map (\<lambda>k. (k, sort_json (get_prop kvs k))) ks"
  shows "sort_json (JObj kvs) = sort_json (JObj kvs')"
  using assms by (intro sort_json_fields) (simp_all add: exact_all)

lemma is_json_get_prop: "is_json (JObj kvs) \<Longrightarrow> k \<in> set (map fst kvs) \<Longrightarrow> is_json (get_prop kvs k)"
  by (force simp: get_prop_def is_json_members_iff split: option.splits
      dest: map_of_SomeD simp: map_of_eq_None_iff)

lemma sort_json_jstrs [simp]: "sort_json (jstrs xs) = jstrs xs"
  by (simp add: sort_json_list_map comp_def)

lemma mapR_sort_json:
  assumes "mapR p vs = Inr xs" and "\<And>v x. v \<in> set vs \<Longrightarrow> p v = Inr x \<Longrightarrow> sort_json v = sort_json (e x)"
  shows "map sort_json vs = map (\<lambda>x. sort_json (e x)) xs"
  using assms by (induction vs arbitrary: xs) (auto simp: res_simps)

lemma list_of_sort:
  assumes "list_of p ne v = Inr xs" and "is_json v"
    and "\<And>v x. p v = Inr x \<Longrightarrow> is_json v \<Longrightarrow> sort_json v = sort_json (e x)"
  shows "sort_json v = sort_json (JArr (map e xs))"
proof -
  from assms(1) obtain vs where vs: "v = JArr vs" "mapR p vs = Inr xs" by (auto simp: list_of_Inr)
  with assms(2,3) have "map sort_json vs = map (\<lambda>x. sort_json (e x)) xs"
    by (intro mapR_sort_json [of p]) (auto simp: is_json_list_iff)
  with vs(1) show ?thesis by (simp add: sort_json_list_map comp_def)
qed

lemma target_of_sort:
  assumes "target_of v = Inr t" and "is_json v"
  shows "sort_json v = sort_json (enc_target t)"
proof -
  from assms(1) obtain c where v: "v = JObj c" by (auto simp: target_of_def contract_inv res_simps)
  note fields = sort_json_fields [OF assms(2) [unfolded v]]
  show ?thesis
  proof (cases t)
    case (DocumentsTarget ds h)
    with assms(1) have x: "exact c [''kind'', ''documentIds''] [''hint''] = Inr ()"
      and k: "get_prop c ''kind'' = JStr ''documents''" "get_prop c ''documentIds'' = jstrs ds"
      and h: "get_prop c ''hint'' = (case h of None \<Rightarrow> JUndef | Some s \<Rightarrow> JStr s)"
      by (auto simp: v target_of_def Let_def contract_inv res_simps split: if_splits)
    have "''hint'' \<in> set (map fst c) \<longleftrightarrow> h \<noteq> None"
      using h get_prop_in [of c "''hint''"] is_json_get_prop [OF assms(2) [unfolded v], of "''hint''"]
      by (cases h) auto
    with x have "set (map fst c) = set ([''kind'', ''documentIds''] @ (if h = None then [] else [''hint'']))"
      using exact_opt [OF x] by simp
    from fields [OF this] show ?thesis unfolding v DocumentsTarget enc_target.simps
      by (cases h) (simp_all add: k h del: sort_json.simps(2) add: sort_json_jstrs)
  qed ((insert assms(1), auto simp: v target_of_def Let_def contract_inv res_simps
          simp del: sort_json.simps(2) split: if_splits)[1],
       rule sort_json_exact [OF assms(2) [unfolded v]], assumption, simp, simp)+
qed

lemma exact_is_json:
  "is_json (JObj kvs) \<Longrightarrow> exact kvs req opt = Inr u \<Longrightarrow> k \<in> set req \<Longrightarrow> is_json (get_prop kvs k)"
  by (rule is_json_get_prop) (auto simp only: exact_Inr)

lemma claim_of_sort: "claim_of v = Inr x \<Longrightarrow> is_json v \<Longrightarrow> sort_json v = sort_json (enc_claim x)"
  by (auto simp: claim_of_def enc_claim_def contract_inv res_simps simp del: sort_json.simps(2) is_json.simps)
    (rule sort_json_exact, assumption, assumption, simp, simp)

lemma edit_of_sort: "edit_of v = Inr x \<Longrightarrow> is_json v \<Longrightarrow> sort_json v = sort_json (enc_edit x)"
  by (auto simp: edit_of_def enc_edit_def contract_inv res_simps simp del: sort_json.simps(2) is_json.simps)
    (rule sort_json_exact, assumption, assumption, simp, simp)

lemma work_intent_of_sort:
  assumes "work_intent_of c = Inr i" and c: "is_json (JObj c)"
  shows "sort_json (JObj c) = sort_json (enc_intent i)"
proof -
  let ?ks = "[''kind'', ''objective'', ''target'', ''evidenceGoals'', ''constraints'', ''doneWhen'']"
  from assms(1) obtain w where i: "i = WorkIntent w"
    by (auto simp: work_intent_of_def res_simps)
  from assms(1) have x: "exact c ?ks [] = Inr ()"
    and t: "target_of (get_prop c ''target'') = Inr (wi_target w)"
    and k: "get_prop c ''kind'' = wi_kind w" "get_prop c ''objective'' = JStr (wi_objective w)"
      "get_prop c ''evidenceGoals'' = jstrs (wi_evidenceGoals w)"
      "get_prop c ''constraints'' = jstrs (wi_constraints w)" "get_prop c ''doneWhen'' = JStr (wi_doneWhen w)"
    by (auto simp: i work_intent_of_def contract_inv res_simps)
  have "is_json (get_prop c ''target'')" by (rule exact_is_json [OF c x]) simp
  from target_of_sort [OF t this] show ?thesis
    unfolding i enc_intent.simps
    by (intro sort_json_exact [OF c x]) (simp_all add: k del: sort_json.simps(2))
qed

lemma intent_of_sort:
  assumes "intent_of v = Inr i" and v: "is_json v"
  shows "sort_json v = sort_json (enc_intent i)"
proof -
  from assms(1) obtain c k where c: "v = JObj c" and k: "js_String (get_prop c ''kind'') = Inr k"
    by (auto simp: intent_of_def contract_inv res_simps)
  note c_json = v [unfolded c]
  show ?thesis
  proof (cases "k \<in> set work_kinds")
    case True
    with assms(1) k have "work_intent_of c = Inr i" by (simp add: intent_of_def c)
    then show ?thesis unfolding c by (rule work_intent_of_sort [OF _ c_json])
  next
    case work: False
    show ?thesis
    proof (cases "get_prop c ''kind'' = JStr ''clarify''")
      case True
      with assms(1) k work obtain q r where i: "i = ClarifyIntent q r"
        and x: "exact c [''kind'', ''question'', ''reason''] [] = Inr ()"
        and f: "get_prop c ''question'' = JStr q" "get_prop c ''reason'' = JStr r"
        by (auto simp: intent_of_def c contract_inv res_simps)
      show ?thesis unfolding c i enc_intent.simps
        by (rule sort_json_exact [OF c_json x]) (simp_all add: f True)
    next
      case False
      with assms(1) k work obtain s cs where i: "i = CompleteIntent s cs"
        and x: "exact c [''kind'', ''summary'', ''claims''] [] = Inr ()"
        and f: "get_prop c ''kind'' = JStr ''complete''" "get_prop c ''summary'' = JStr s"
        and cs: "list_of claim_of True (get_prop c ''claims'') = Inr cs"
        by (auto simp: intent_of_def c contract_inv res_simps split: if_splits)
      have "is_json (get_prop c ''claims'')" by (rule exact_is_json [OF c_json x]) simp
      from list_of_sort [OF cs this claim_of_sort] show ?thesis unfolding c i enc_intent.simps
        by (intro sort_json_exact [OF c_json x]) (simp_all add: f del: sort_json.simps(1,2))
    qed
  qed
qed

lemma proposal_of_sort:
  assumes "proposal_of v = Inr p" and v: "is_json v"
  shows "sort_json v = sort_json (enc_proposal p)"
proof -
  from assms(1) obtain c where c: "v = JObj c"
    and x: "exact c [''edits'', ''assumptions'', ''verificationGoals''] [] = Inr ()"
    and es: "list_of edit_of True (get_prop c ''edits'') = Inr (pp_edits p)"
    and f: "get_prop c ''assumptions'' = jstrs (pp_assumptions p)"
      "get_prop c ''verificationGoals'' = jstrs (pp_verificationGoals p)"
    by (auto simp: proposal_of_def contract_inv res_simps)
  have "is_json (get_prop c ''edits'')" by (rule exact_is_json [OF v [unfolded c] x]) simp
  from list_of_sort [OF es this edit_of_sort] show ?thesis unfolding c enc_proposal_def
    by (intro sort_json_exact [OF v [unfolded c] x])
      (simp_all add: f del: sort_json.simps(1,2) add: sort_json_jstrs)
qed

lemma parse_output_sort:
  assumes "parseSemanticOutput v = Inr x" and v: "is_json v"
  shows "sort_json v = sort_json (enc_output x)"
proof -
  from assms(1) obtain c where c: "v = JObj c"
    and k: "exact c [''protocolVersion'', ''kind'', ''payload''] [] = Inr ()"
      "get_prop c ''protocolVersion'' = JNum 2"
    by (auto simp: parseSemanticOutput_def contract_inv res_simps split: if_splits)
  have p: "is_json (get_prop c ''payload'')" by (rule exact_is_json [OF v [unfolded c] k(1)]) simp
  note fields = sort_json_exact [OF v [unfolded c] k(1)]
  show ?thesis
  proof (cases x)
    case (IntentOutput i)
    with assms(1) k have kind: "get_prop c ''kind'' = JStr ''intent''"
      and "intent_of (get_prop c ''payload'') = Inr i"
      by (auto simp: parseSemanticOutput_def c res_simps split: if_splits)
    from intent_of_sort [OF this(2) p] show ?thesis unfolding c IntentOutput enc_output.simps
      by (intro fields) (simp_all add: k(2) kind del: sort_json.simps(2))
  next
    case (PatchOutput q)
    with assms(1) k have kind: "get_prop c ''kind'' = JStr ''patchProposal''"
      and "proposal_of (get_prop c ''payload'') = Inr q"
      by (auto simp: parseSemanticOutput_def c res_simps split: if_splits)
    from proposal_of_sort [OF this(2) p] show ?thesis unfolding c PatchOutput enc_output.simps
      by (intro fields) (simp_all add: k(2) kind del: sort_json.simps(2))
  qed
qed

lemma parse_request_sort:
  assumes "parseSemanticTurnRequest v = Inr r" and v: "is_json v"
  shows "sort_json v = sort_json (enc_request r)"
proof -
  from assms(1) obtain c d where c: "v = JObj c"
    and x: "exact c [''protocolVersion'', ''mode'', ''objective'', ''disclosed''] [] = Inr ()"
    and f: "get_prop c ''protocolVersion'' = JNum 2" "get_prop c ''mode'' = tr_mode r"
      "get_prop c ''objective'' = JStr (tr_objective r)"
    and d: "get_prop c ''disclosed'' = JObj d"
    and y: "exact d [''selectionIds'', ''documentIds'', ''observationIds''] [] = Inr ()"
    and g: "get_prop d ''selectionIds'' = jstrs (di_selectionIds (tr_disclosed r))"
      "get_prop d ''documentIds'' = jstrs (di_documentIds (tr_disclosed r))"
      "get_prop d ''observationIds'' = jstrs (di_observationIds (tr_disclosed r))"
    by (auto simp: parseSemanticTurnRequest_def contract_inv res_simps split: if_splits)
  have "is_json (JObj d)" unfolding d [symmetric]
    by (rule exact_is_json [OF v [unfolded c] x]) simp
  then have "sort_json (JObj d) = sort_json (enc_disclosed (tr_disclosed r))"
    unfolding enc_disclosed_def by (rule sort_json_exact [OF _ y]) (simp_all add: g del: sort_json.simps(1))
  then show ?thesis unfolding c enc_request_def
    by (intro sort_json_exact [OF v [unfolded c] x]) (simp_all add: f d del: sort_json.simps(2))
qed

section \<open>The parser ignores the order of properties\<close>

lemma sort_json_leaf [simp]:
  "sort_json v = JStr s \<longleftrightarrow> v = JStr s" "sort_json v = JNum n \<longleftrightarrow> v = JNum n"
  "sort_json v = JUndef \<longleftrightarrow> v = JUndef" "sort_json v = JNull \<longleftrightarrow> v = JNull"
  by (cases v; simp)+

lemma keys_sorted [simp]: "fst ` set (sort_json_members kvs) = fst ` set kvs"
  by (force simp: sort_json_members_map image_iff)

lemma get_prop_sorted:
  assumes "distinct (map fst kvs)"
  shows "get_prop (sort_key fst (sort_json_members kvs)) k = sort_json (get_prop kvs k)"
proof -
  let ?s = "\<lambda>kv. (fst kv, sort_json (snd kv))"
  have "map_of (sort_key fst (map ?s kvs)) = map_of (map ?s kvs)"
    using assms by (subst map_of_inject_set) (auto simp: comp_def distinct_map inj_on_def)
  moreover have "map_of (map ?s kvs) k = map_option sort_json (map_of kvs k)"
    by (induction kvs) auto
  ultimately show ?thesis by (simp add: get_prop_def sort_json_members_map split: option.split)
qed

lemma exact_sorted [simp]:
  "exact (sort_key fst (sort_json_members kvs)) req opt = exact kvs req opt"
  by (simp add: exact_def list_ex_iff)

lemma text_of_sort [simp]: "text_of limit ne (sort_json v) = text_of limit ne v"
  by (cases v) auto

lemma ids_sort [simp]:
  "selectionId (sort_json v) = selectionId v" "documentId (sort_json v) = documentId v"
  "observationId (sort_json v) = observationId v"
  by (cases v; simp add: selectionId_def documentId_def observationId_def)+

lemma mapR_map_cong: "(\<And>x. x \<in> set xs \<Longrightarrow> f (g x) = f x) \<Longrightarrow> mapR f (map g xs) = mapR f xs"
  by (induction xs) auto

lemma list_of_order:
  "(\<And>w. is_json w \<Longrightarrow> p (sort_json w) = p w) \<Longrightarrow> is_json v \<Longrightarrow> list_of p ne (sort_json v) = list_of p ne v"
  by (cases v) (auto simp: sort_json_list_map is_json_list_iff intro!: mapR_map_cong)

lemma texts_sort [simp]: "is_json v \<Longrightarrow> texts (sort_json v) = texts v"
  by (simp add: texts_def list_of_order)

lemma object_of_sort: "object_of (sort_json v) =
    bindR (object_of v) (\<lambda>c. Inr (sort_key fst (sort_json_members c)))"
  by (cases v) (auto simp: fail_def)

lemma js_String_sort [simp]: "js_String (sort_json v) = js_String v"
proof (induction v rule: js_String.induct)
  case (7 vs)
  then show ?case by (simp add: sort_json_list_map mapR_map_cong)
qed auto

text \<open>A text without comma that no other value has is the conversion of nested one-element arrays.\<close>

definition plain_word :: "string \<Rightarrow> bool" where
  "plain_word k = (k \<noteq> [] \<and> CHR '','' \<notin> set k \<and> k \<noteq> ''undefined'' \<and> k \<noteq> ''NaN'' \<and> k \<noteq> ''[object Object]'')"

lemma join_no_comma: "CHR '','' \<notin> set (join '','' ts) \<Longrightarrow> length ts \<le> 1"
  by (induction "'',''" ts rule: join.induct) auto

lemma js_String_plain:
  "js_String v = Inr k \<Longrightarrow> plain_word k \<Longrightarrow> is_json v \<and> sort_json v = v"
proof (induction v arbitrary: k rule: js_String.induct)
  case (7 vs)
  then obtain ts where ts: "mapR (\<lambda>v. if v = JNull \<or> v = JUndef then Inr [] else js_String v) vs = Inr ts"
    and k: "k = join '','' ts" by (auto simp: res_simps)
  with "7.prems" have "length ts \<le> 1" by (intro join_no_comma) (simp add: plain_word_def)
  with mapR_length [OF ts] k "7.prems" obtain w where w: "vs = [w]"
    by (cases vs) (auto simp: plain_word_def)
  with ts k "7.prems" have "js_String w = Inr k" and "w \<noteq> JNull" "w \<noteq> JUndef"
    by (auto simp: plain_word_def res_simps split: if_splits)
  with 7 w show ?case by simp
qed (auto simp: plain_word_def split: if_splits)

lemma plain_words: "k \<in> set work_kinds \<Longrightarrow> plain_word k" "k \<in> set turn_modes \<Longrightarrow> plain_word k"
  by (auto simp: work_kinds_def turn_modes_def plain_word_def)

lemma target_of_order: "is_json v \<Longrightarrow> target_of (sort_json v) = target_of v"
proof (cases v)
  case (JObj c)
  assume "is_json v"
  with JObj have d: "distinct (map fst c)" and j: "is_json (JObj c)" by auto
  have "list_of documentId True (sort_json (get_prop c ''documentIds'')) = list_of documentId True (get_prop c ''documentIds'')"
    if "exact c [''kind'', ''documentIds''] [''hint''] = Inr u" for u
    using exact_is_json [OF j that, of "''documentIds''"] by (simp add: list_of_order)
  then show ?thesis
    by (cases "get_prop c ''hint'' = JUndef")
      (auto simp: JObj target_of_def Let_def get_prop_sorted [OF d] intro!: bindR_cong)
qed (auto simp: target_of_def)

lemma claim_of_order: "is_json v \<Longrightarrow> claim_of (sort_json v) = claim_of v"
  by (cases v) (auto simp: claim_of_def get_prop_sorted)

lemma edit_of_order: "is_json v \<Longrightarrow> edit_of (sort_json v) = edit_of v"
  by (cases v) (auto simp: edit_of_def get_prop_sorted)

lemma work_intent_of_order:
  assumes j: "is_json (JObj c)" and k: "js_String (get_prop c ''kind'') = Inr k" "k \<in> set work_kinds"
  shows "work_intent_of (sort_key fst (sort_json_members c)) = work_intent_of c"
proof (cases "exact c [''kind'', ''objective'', ''target'', ''evidenceGoals'', ''constraints'', ''doneWhen''] []")
  case (Inr u)
  from j have d: "distinct (map fst c)" by simp
  note f = exact_is_json [OF j Inr]
  have "sort_json (get_prop c ''kind'') = get_prop c ''kind''"
    using js_String_plain [OF k(1) plain_words(1) [OF k(2)]] by simp
  then show ?thesis
    using f [of "''target''"] f [of "''evidenceGoals''"] f [of "''constraints''"]
    by (simp add: work_intent_of_def get_prop_sorted [OF d] Inr target_of_order)
qed (simp add: work_intent_of_def)

lemma intent_of_order: "is_json v \<Longrightarrow> intent_of (sort_json v) = intent_of v"
proof (cases v)
  case (JObj c)
  assume "is_json v"
  with JObj have d: "distinct (map fst c)" and j: "is_json (JObj c)" by auto
  have "list_of claim_of True (sort_json (get_prop c ''claims'')) = list_of claim_of True (get_prop c ''claims'')"
    if "exact c [''kind'', ''summary'', ''claims''] [] = Inr u" for u
    using exact_is_json [OF j that, of "''claims''"] by (simp add: list_of_order claim_of_order)
  then show ?thesis
    using work_intent_of_order [OF j]
    by (auto simp: JObj intent_of_def get_prop_sorted [OF d] intro!: bindR_cong)
qed (auto simp: intent_of_def)

lemma proposal_of_order: "is_json v \<Longrightarrow> proposal_of (sort_json v) = proposal_of v"
proof (cases v)
  case (JObj c)
  assume "is_json v"
  with JObj have d: "distinct (map fst c)" and j: "is_json (JObj c)" by auto
  show ?thesis
  proof (cases "exact c [''edits'', ''assumptions'', ''verificationGoals''] []")
    case (Inr u)
    note f = exact_is_json [OF j Inr]
    show ?thesis using f [of "''edits''"] f [of "''assumptions''"] f [of "''verificationGoals''"]
      by (simp add: JObj proposal_of_def get_prop_sorted [OF d] Inr list_of_order edit_of_order)
  qed (simp add: JObj proposal_of_def)
qed (auto simp: proposal_of_def)

lemma parse_output_order: "is_json v \<Longrightarrow> parseSemanticOutput (sort_json v) = parseSemanticOutput v"
proof (cases v)
  case (JObj c)
  assume "is_json v"
  with JObj have d: "distinct (map fst c)" and j: "is_json (JObj c)" by auto
  show ?thesis
  proof (cases "exact c [''protocolVersion'', ''kind'', ''payload''] []")
    case (Inr u)
    show ?thesis using exact_is_json [OF j Inr, of "''payload''"]
      by (simp add: JObj parseSemanticOutput_def get_prop_sorted [OF d] Inr intent_of_order proposal_of_order)
  qed (simp add: JObj parseSemanticOutput_def)
qed (auto simp: parseSemanticOutput_def)

lemma disclosed_order:
  assumes "is_json (JObj d)"
  shows "bindR (exact d [''selectionIds'', ''documentIds'', ''observationIds''] []) (\<lambda>_.
      bindR (list_of selectionId False (sort_json (get_prop d ''selectionIds''))) (\<lambda>ss.
      bindR (list_of documentId False (sort_json (get_prop d ''documentIds''))) (\<lambda>ds.
      bindR (list_of observationId False (sort_json (get_prop d ''observationIds''))) (\<lambda>os. f ss ds os))))
    = bindR (exact d [''selectionIds'', ''documentIds'', ''observationIds''] []) (\<lambda>_.
      bindR (list_of selectionId False (get_prop d ''selectionIds'')) (\<lambda>ss.
      bindR (list_of documentId False (get_prop d ''documentIds'')) (\<lambda>ds.
      bindR (list_of observationId False (get_prop d ''observationIds'')) (\<lambda>os. f ss ds os))))"
proof (cases "exact d [''selectionIds'', ''documentIds'', ''observationIds''] []")
  case (Inr u)
  note f = exact_is_json [OF assms Inr]
  show ?thesis
    using f [of "''selectionIds''"] f [of "''documentIds''"] f [of "''observationIds''"]
    by (simp add: Inr list_of_order)
qed simp

lemma parse_request_order:
  assumes v: "is_json v"
  shows "parseSemanticTurnRequest (sort_json v) = parseSemanticTurnRequest v"
proof (cases v)
  case (JObj c)
  with v have dc: "distinct (map fst c)" and j: "is_json (JObj c)" by auto
  show ?thesis
  proof (cases "exact c [''protocolVersion'', ''mode'', ''objective'', ''disclosed''] []")
    case (Inr u)
    have mode: "sort_json (get_prop c ''mode'') = get_prop c ''mode''"
      if "js_String (get_prop c ''mode'') = Inr m" "m \<in> set turn_modes" for m
      using js_String_plain [OF that(1) plain_words(2) [OF that(2)]] by simp
    show ?thesis
    proof (cases "get_prop c ''disclosed''")
      case (JObj d)
      have "is_json (JObj d)" using exact_is_json [OF j Inr, of "''disclosed''"] JObj by simp
      then show ?thesis
        using mode
        by (auto simp: \<open>v = JObj c\<close> parseSemanticTurnRequest_def get_prop_sorted [OF dc] Inr JObj
            get_prop_sorted list_of_order intro!: bindR_cong)
          (use disclosed_order [OF \<open>is_json (JObj d)\<close>] in \<open>auto simp: list_of_order exact_is_json\<close>)
    qed (auto simp: \<open>v = JObj c\<close> parseSemanticTurnRequest_def get_prop_sorted [OF dc] Inr
        intro!: bindR_cong)
  qed (simp add: JObj parseSemanticTurnRequest_def)
qed (auto simp: parseSemanticTurnRequest_def)

lemma enc_target_json: "is_json (enc_target t)"
  by (cases t) (auto simp: is_json_list_iff split: option.split)

lemma enc_output_json: "wf_output x \<Longrightarrow> is_json (enc_output x)"
proof (cases x)
  case (IntentOutput i)
  assume "wf_output x"
  with IntentOutput show ?thesis
    by (cases i) (auto simp: is_json_list_iff enc_claim_def enc_target_json wf_work_def
        dest: js_String_plain plain_words(1))
next
  case (PatchOutput p)
  then show ?thesis by (simp add: is_json_list_iff enc_proposal_def enc_edit_def)
qed

lemma enc_request_json: "wf_request r \<Longrightarrow> is_json (enc_request r)"
  by (auto simp: is_json_list_iff enc_request_def enc_disclosed_def wf_request_def
      dest: js_String_plain plain_words(2))

section \<open>Properties\<close>

text \<open>C29: the parser of model responses accepts exactly the well-formed responses, and loses
  nothing. On a JSON value it returns \<open>x\<close> if and only if \<open>x\<close> satisfies every bound of the
  contract (identifier syntax, list lengths up to 64, texts up to 1 MiB, non-empty fields, known
  kinds) and the input is the value of \<open>x\<close> up to the order of properties.\<close>

theorem parseSemanticOutput_iff:
  assumes "is_json v"
  shows "parseSemanticOutput v = Inr x \<longleftrightarrow> wf_output x \<and> sort_json v = sort_json (enc_output x)"
proof
  assume "parseSemanticOutput v = Inr x"
  then show "wf_output x \<and> sort_json v = sort_json (enc_output x)"
    using assms by (auto intro: parse_output_wf parse_output_sort)
next
  assume x: "wf_output x \<and> sort_json v = sort_json (enc_output x)"
  then have "parseSemanticOutput v = parseSemanticOutput (enc_output x)"
    using parse_output_order [OF assms] parse_output_order [OF enc_output_json, of x] by simp
  with x show "parseSemanticOutput v = Inr x" by (simp add: parse_output_enc)
qed

theorem parseSemanticOutput_iff_witness:
  "parseSemanticOutput (JObj [(''kind'', JStr ''intent''), (''protocolVersion'', JNum 2),
      (''payload'', JObj [(''reason'', JStr ''r''), (''question'', JStr ''q''), (''kind'', JStr ''clarify'')])])
    = Inr (IntentOutput (ClarifyIntent ''q'' ''r''))"
  using parseSemanticOutput_iff [of "JObj [(''kind'', JStr ''intent''), (''protocolVersion'', JNum 2),
      (''payload'', JObj [(''reason'', JStr ''r''), (''question'', JStr ''q''), (''kind'', JStr ''clarify'')])]"
      "IntentOutput (ClarifyIntent ''q'' ''r'')"]
  by simp

text \<open>The parser of turn requests accepts exactly the well-formed requests and loses nothing, in
  the same sense.\<close>

theorem parseSemanticTurnRequest_iff:
  assumes "is_json v"
  shows "parseSemanticTurnRequest v = Inr r \<longleftrightarrow> wf_request r \<and> sort_json v = sort_json (enc_request r)"
proof
  assume "parseSemanticTurnRequest v = Inr r"
  then show "wf_request r \<and> sort_json v = sort_json (enc_request r)"
    using assms by (auto intro: parse_request_wf parse_request_sort)
next
  assume r: "wf_request r \<and> sort_json v = sort_json (enc_request r)"
  then have "parseSemanticTurnRequest v = parseSemanticTurnRequest (enc_request r)"
    using parse_request_order [OF assms] parse_request_order [OF enc_request_json, of r] by simp
  with r show "parseSemanticTurnRequest v = Inr r" by (simp add: parse_request_enc)
qed

theorem parseSemanticTurnRequest_iff_witness:
  "parseSemanticTurnRequest (JObj [(''mode'', JStr ''steer''), (''protocolVersion'', JNum 2),
      (''disclosed'', JObj [(''documentIds'', JArr [JStr ''doc_a'']), (''selectionIds'', JArr []),
         (''observationIds'', JArr [])]), (''objective'', JStr ''go'')])
    = Inr \<lparr>tr_mode = JStr ''steer'', tr_objective = ''go'',
        tr_disclosed = \<lparr>di_selectionIds = [], di_documentIds = [''doc_a''], di_observationIds = []\<rparr>\<rparr>"
  using parseSemanticTurnRequest_iff [of "JObj [(''mode'', JStr ''steer''), (''protocolVersion'', JNum 2),
      (''disclosed'', JObj [(''documentIds'', JArr [JStr ''doc_a'']), (''selectionIds'', JArr []),
         (''observationIds'', JArr [])]), (''objective'', JStr ''go'')]"
      "\<lparr>tr_mode = JStr ''steer'', tr_objective = ''go'',
        tr_disclosed = \<lparr>di_selectionIds = [], di_documentIds = [''doc_a''], di_observationIds = []\<rparr>\<rparr>"]
  by (simp add: wf_request_def wf_disclosed_def enc_request_def enc_disclosed_def turn_modes_def
      valid_id_def id_suffix_def alnum_def startsWith_def MAX_LIST_def)

end
