(* ===== verification/Compiler.thy ===== *)
theory Compiler
  imports Contract
begin

text \<open>
  The semantic compiler of \<open>packages/core/src\<close>: digests (\<open>canonical.ts\<close>), the capability catalog
  (\<open>catalog.ts\<close>), the policy (\<open>policy.ts\<close>), the compilation of a model response into a recipe
  decision (\<open>compiler.ts\<close>) and the normalisation of observations (\<open>observation.ts\<close>).
  The platform's SHA-256 is the parameter \<open>digest\<close>, from the canonical text to its bytes.
\<close>

section \<open>Digests\<close>

text \<open>\<open>byte.toString(16).padStart(2, "0")\<close> on an element of a \<open>Uint8Array\<close>.\<close>

definition byte_hex :: "nat \<Rightarrow> string" where
  "byte_hex b =
     (let t = (if b < 16 then [hex_digit b] else [hex_digit (b div 16), hex_digit (b mod 16)]) in
      replicate (2 - length t) (CHR ''0'') @ t)"

definition hex_text :: "nat list \<Rightarrow> string" where
  "hex_text bytes = concat (map byte_hex bytes)"

definition sha256 :: "(string \<Rightarrow> nat list) \<Rightarrow> json \<Rightarrow> string res" where
  "sha256 digest v = bindR (canonical v) (\<lambda>t. Inr (hex_text (digest t)))"

section \<open>Capabilities and policy\<close>

datatype capability_id = SearchText | SearchSymbol | ReadRanges | ApplyPatch | GetDiagnostics

datatype capability_effect = ReadEffect | WriteEffect

datatype cache_directive = CacheRevision | CacheNone

record capability_manifest =
  cm_id :: capability_id
  cm_version :: string
  cm_effect :: capability_effect
  cm_cache :: cache_directive
  cm_timeoutMs :: int
  cm_maxAttempts :: int

datatype policy_decision =
    Allow string
  | ApprovalRequired string
  | Deny string string

datatype write_mode = WriteDeny | WriteApproval

fun capability_name :: "capability_id \<Rightarrow> string" where
  "capability_name SearchText = ''searchText''"
| "capability_name SearchSymbol = ''searchSymbol''"
| "capability_name ReadRanges = ''readRanges''"
| "capability_name ApplyPatch = ''applyPatch''"
| "capability_name GetDiagnostics = ''getDiagnostics''"

definition CAPABILITY_CATALOG_VERSION :: string where
  "CAPABILITY_CATALOG_VERSION = ''3xhaustpi-capabilities-v1''"

definition POLICY_VERSION :: string where
  "POLICY_VERSION = ''3xhaustpi-policy-v1''"

definition CAPABILITIES :: "capability_manifest list" where
  "CAPABILITIES =
     [\<lparr>cm_id = SearchText, cm_version = ''1'', cm_effect = ReadEffect, cm_cache = CacheRevision,
        cm_timeoutMs = 5000, cm_maxAttempts = 2\<rparr>,
      \<lparr>cm_id = SearchSymbol, cm_version = ''1'', cm_effect = ReadEffect, cm_cache = CacheRevision,
        cm_timeoutMs = 5000, cm_maxAttempts = 2\<rparr>,
      \<lparr>cm_id = ReadRanges, cm_version = ''1'', cm_effect = ReadEffect, cm_cache = CacheRevision,
        cm_timeoutMs = 5000, cm_maxAttempts = 2\<rparr>,
      \<lparr>cm_id = ApplyPatch, cm_version = ''1'', cm_effect = WriteEffect, cm_cache = CacheNone,
        cm_timeoutMs = 15000, cm_maxAttempts = 1\<rparr>,
      \<lparr>cm_id = GetDiagnostics, cm_version = ''1'', cm_effect = ReadEffect, cm_cache = CacheRevision,
        cm_timeoutMs = 20000, cm_maxAttempts = 1\<rparr>]"

definition getCapabilityManifest :: "capability_id \<Rightarrow> capability_manifest res" where
  "getCapabilityManifest i = (case List.find (\<lambda>m. cm_id m = i) CAPABILITIES of
     None \<Rightarrow> Inl (Error ''Unknown capability manifest'') | Some m \<Rightarrow> Inr m)"

definition evaluateCapabilityPolicy :: "capability_id \<Rightarrow> write_mode \<Rightarrow> policy_decision res" where
  "evaluateCapabilityPolicy capability writeMode =
     bindR (getCapabilityManifest capability) (\<lambda>m.
     if cm_effect m = ReadEffect then Inr (Allow POLICY_VERSION)
     else if writeMode = WriteDeny then Inr (Deny POLICY_VERSION ''workspace writes are disabled'')
     else Inr (ApprovalRequired POLICY_VERSION))"

section \<open>Compilation\<close>

record compile_context =
  cx_projectId :: string
  cx_turnId :: string
  cx_projectRevision :: string
  cx_observationDigests :: "string list"
  cx_catalogVersion :: "string option"
  cx_policyVersion :: "string option"

record capability_invocation =
  iv_invocationId :: string
  iv_logicalCallId :: string
  iv_capability :: capability_id
  iv_capabilityVersion :: string
  iv_effect :: capability_effect
  iv_cache :: cache_directive
  iv_timeoutMs :: int
  iv_maxAttempts :: int
  iv_idempotencyKey :: string
  iv_input :: json
  iv_projectRevision :: string
  iv_observationDigests :: "string list"
  iv_policy :: policy_decision

datatype recipe_phase = EvidencePhase | VerificationPhase

datatype recipe_decision =
    ReadPlan json recipe_phase "capability_invocation list"
  | MutationProposal patch_proposal string policy_decision
  | Clarify string string
  | CompletionSuggestion string "completion_claim list"
  | Blocked string

definition assertVersions :: "compile_context \<Rightarrow> unit res" where
  "assertVersions cx =
     (if cx_catalogVersion cx \<notin> {None, Some CAPABILITY_CATALOG_VERSION}
        then Inl (Error ''Capability catalog version mismatch'')
      else if cx_policyVersion cx \<notin> {None, Some POLICY_VERSION}
        then Inl (Error ''Policy version mismatch'')
      else Inr ())"

definition invocation_seed :: "capability_id \<Rightarrow> string \<Rightarrow> json \<Rightarrow> compile_context \<Rightarrow> json" where
  "invocation_seed capability version input cx =
     JObj [(''capability'', JStr (capability_name capability)), (''capabilityVersion'', JStr version),
       (''input'', input), (''projectId'', JStr (cx_projectId cx)),
       (''projectRevision'', JStr (cx_projectRevision cx)), (''turnId'', JStr (cx_turnId cx)),
       (''observationDigests'', jstrs (cx_observationDigests cx)),
       (''catalogVersion'', JStr CAPABILITY_CATALOG_VERSION), (''policyVersion'', JStr POLICY_VERSION)]"

definition invocation :: "(string \<Rightarrow> nat list) \<Rightarrow> capability_id \<Rightarrow> json \<Rightarrow> compile_context \<Rightarrow> write_mode
    \<Rightarrow> capability_invocation res" where
  "invocation digest capability input cx writeMode =
     bindR (getCapabilityManifest capability) (\<lambda>m.
     bindR (sha256 digest (invocation_seed capability (cm_version m) input cx)) (\<lambda>d.
     bindR (evaluateCapabilityPolicy capability writeMode) (\<lambda>p.
     Inr \<lparr>iv_invocationId = ''inv_'' @ take 32 d, iv_logicalCallId = ''call_'' @ drop 32 d,
       iv_capability = capability, iv_capabilityVersion = cm_version m, iv_effect = cm_effect m,
       iv_cache = cm_cache m, iv_timeoutMs = cm_timeoutMs m, iv_maxAttempts = cm_maxAttempts m,
       iv_idempotencyKey = ''sha256:'' @ d, iv_input = input,
       iv_projectRevision = cx_projectRevision cx,
       iv_observationDigests = cx_observationDigests cx, iv_policy = p\<rparr>)))"

fun targetCapability :: "semantic_target \<Rightarrow> string \<Rightarrow> bool \<Rightarrow> (capability_id \<times> json) option" where
  "targetCapability (SelectionTarget s) p verify =
     Some (ReadRanges, JObj [(''projectId'', JStr p), (''selectionId'', JStr s)])"
| "targetCapability (DocumentsTarget ds h) p verify =
     Some (if verify then GetDiagnostics else ReadRanges,
       JObj [(''projectId'', JStr p), (''documentIds'', jstrs ds)])"
| "targetCapability (SymbolTarget h) p verify =
     Some (SearchSymbol, JObj [(''projectId'', JStr p), (''query'', JStr h)])"
| "targetCapability (ErrorTarget f) p verify =
     Some (SearchText, JObj [(''projectId'', JStr p), (''query'', JStr f)])"
| "targetCapability (BehaviorTarget d) p verify =
     Some (SearchText, JObj [(''projectId'', JStr p), (''query'', JStr d)])"
| "targetCapability (UiTarget r n) p verify = None"

text \<open>The loop over the claims stops at the first reference that was not disclosed.\<close>

fun check_claims :: "string list \<Rightarrow> completion_claim list \<Rightarrow> unit res" where
  "check_claims disclosed [] = Inr ()"
| "check_claims disclosed (c # cs) =
     (if cc_observationRef c \<notin> set disclosed
        then Inl (Error (''Completion claim references undisclosed observation '' @ cc_observationRef c))
      else check_claims disclosed cs)"

definition compileSemanticOutput :: "(string \<Rightarrow> nat list) \<Rightarrow> json \<Rightarrow> compile_context \<Rightarrow> write_mode
    \<Rightarrow> recipe_decision res" where
  "compileSemanticOutput digest candidate cx writeMode =
     bindR (assertVersions cx) (\<lambda>_.
     bindR (parseSemanticOutput candidate) (\<lambda>out.
     case out of
       PatchOutput p \<Rightarrow>
         bindR (sha256 digest (JObj [(''payload'', enc_proposal p),
             (''projectId'', JStr (cx_projectId cx)), (''projectRevision'', JStr (cx_projectRevision cx)),
             (''observations'', jstrs (cx_observationDigests cx))])) (\<lambda>d.
         bindR (evaluateCapabilityPolicy ApplyPatch writeMode) (\<lambda>pol.
         Inr (MutationProposal p (''sha256:'' @ d) pol)))
     | IntentOutput (ClarifyIntent q r) \<Rightarrow> Inr (Clarify q r)
     | IntentOutput (CompleteIntent s cs) \<Rightarrow>
         bindR (check_claims (cx_observationDigests cx) cs) (\<lambda>_. Inr (CompletionSuggestion s cs))
     | IntentOutput (WorkIntent w) \<Rightarrow>
         (let verify = (wi_kind w = JStr ''verify'') in
          case targetCapability (wi_target w) (cx_projectId cx) verify of
            None \<Rightarrow> Inr (Blocked ''unsupported-target'')
          | Some (capability, input) \<Rightarrow>
              bindR (invocation digest capability input cx writeMode) (\<lambda>i.
              Inr (ReadPlan (wi_kind w) (if verify then VerificationPhase else EvidencePhase) [i])))))"

section \<open>Observations\<close>

datatype outcome_status = Succeeded | FailedOutcome | BlockedOutcome | TimedOut | CancelledOutcome

fun status_name :: "outcome_status \<Rightarrow> string" where
  "status_name Succeeded = ''succeeded''"
| "status_name FailedOutcome = ''failed''"
| "status_name BlockedOutcome = ''blocked''"
| "status_name TimedOut = ''timed-out''"
| "status_name CancelledOutcome = ''cancelled''"

record observation_outcome =
  oc_status :: outcome_status
  oc_summary :: string
  oc_facts :: json
  oc_artifactRefs :: "string list"

record observation =
  ob_observationId :: string
  ob_invocationId :: string
  ob_status :: outcome_status
  ob_summary :: string
  ob_facts :: json
  ob_artifactRefs :: "string list"
  ob_projectRevision :: string

definition MAX_SUMMARY :: nat where "MAX_SUMMARY = 4096"
definition MAX_FACTS :: nat where "MAX_FACTS = 1048576"
definition MAX_ARTIFACTS :: nat where "MAX_ARTIFACTS = 64"

definition normalizeObservation :: "(string \<Rightarrow> nat list) \<Rightarrow> capability_invocation \<Rightarrow>
    observation_outcome \<Rightarrow> observation res" where
  "normalizeObservation digest iv oc =
     (if oc_summary oc = [] \<or> MAX_SUMMARY < length (oc_summary oc)
        then Inl (Error ''Observation summary is outside bounds'')
      else bindR (canonical (oc_facts oc)) (\<lambda>facts.
      if MAX_FACTS < length facts then Inl (Error ''Observation facts exceed bounds'')
      else if MAX_ARTIFACTS < length (oc_artifactRefs oc)
        then Inl (Error ''Observation artifacts exceed bounds'')
      else bindR (mapR artifactId (map JStr (oc_artifactRefs oc))) (\<lambda>refs.
      bindR (sha256 digest (JObj [(''invocationId'', JStr (iv_invocationId iv)),
          (''status'', JStr (status_name (oc_status oc))), (''summary'', JStr (oc_summary oc)),
          (''facts'', oc_facts oc), (''artifactRefs'', jstrs refs),
          (''projectRevision'', JStr (iv_projectRevision iv))])) (\<lambda>d.
      Inr \<lparr>ob_observationId = ''obs_'' @ take 32 d, ob_invocationId = iv_invocationId iv,
        ob_status = oc_status oc, ob_summary = oc_summary oc, ob_facts = oc_facts oc,
        ob_artifactRefs = refs, ob_projectRevision = iv_projectRevision iv\<rparr>))))"

section \<open>Digest lemmas\<close>

text \<open>What the platform's digest promises: 32 bytes.\<close>

definition sha256_bytes :: "nat list \<Rightarrow> bool" where
  "sha256_bytes bs = (length bs = 32 \<and> list_all (\<lambda>b. b < 256) bs)"

definition hex_char :: "char \<Rightarrow> bool" where
  "hex_char c = (c \<in> set (map hex_digit [0..<16]))"

lemma byte_hex_pair: "b < 256 \<Longrightarrow> byte_hex b = [hex_digit (b div 16), hex_digit (b mod 16)]"
proof -
  have "CHR ''0'' = (char_of (48 :: nat) :: char)" by code_simp
  then show ?thesis by (simp add: byte_hex_def Let_def hex_digit_def)
qed

lemma hex_digit_inj: "a < 16 \<Longrightarrow> b < 16 \<Longrightarrow> hex_digit a = hex_digit b \<Longrightarrow> a = b"
  by (metis hex_val_hex_digit option.inject)

lemma hex_digit_hex_char: "d < 16 \<Longrightarrow> hex_char (hex_digit d)"
  by (auto simp: hex_char_def)

lemma hex_char_alnum: "hex_char c \<Longrightarrow> alnum c"
proof -
  have "\<forall>d \<in> set [0..<16]. alnum (hex_digit d)" by code_simp
  then show "hex_char c \<Longrightarrow> alnum c" by (auto simp: hex_char_def)
qed

lemma hex_text_chars: "list_all (\<lambda>b. b < 256) bs \<Longrightarrow> list_all hex_char (hex_text bs)"
  by (induction bs) (auto simp: hex_text_def byte_hex_pair hex_digit_hex_char)

lemma hex_text_length: "list_all (\<lambda>b. b < 256) bs \<Longrightarrow> length (hex_text bs) = 2 * length bs"
  by (induction bs) (auto simp: hex_text_def byte_hex_pair)

lemma hex_text_inj:
  "list_all (\<lambda>b. b < 256) bs \<Longrightarrow> list_all (\<lambda>b. b < 256) cs \<Longrightarrow> hex_text bs = hex_text cs \<Longrightarrow> bs = cs"
proof (induction bs arbitrary: cs)
  case Nil
  then show ?case by (cases cs) (auto simp: hex_text_def byte_hex_pair)
next
  case (Cons b bs)
  then obtain c cs' where cs: "cs = c # cs'" by (cases cs) (auto simp: hex_text_def byte_hex_pair)
  have eq: "b div 16 = c div 16" "b mod 16 = c mod 16" and "hex_text bs = hex_text cs'"
    using Cons.prems by (auto simp: cs hex_text_def byte_hex_pair intro!: hex_digit_inj)
  moreover have "b = c" by (metis eq div_mult_mod_eq)
  ultimately show ?case using Cons by (auto simp: cs)
qed

lemma sha256_json: "is_json v \<Longrightarrow> sha256 digest v = Inr (hex_text (digest (stringify (sort_json v))))"
  by (simp add: sha256_def canonical_stringify)

lemma hex_prefix_valid_id:
  assumes "sha256_bytes bs" and "length prefix = 4"
  shows "valid_id prefix (prefix @ take 32 (hex_text bs))"
proof -
  have len: "length (hex_text bs) = 64" and chars: "list_all hex_char (hex_text bs)"
    using assms(1) hex_text_length hex_text_chars by (auto simp: sha256_bytes_def)
  then obtain c cs where t: "take 32 (hex_text bs) = c # cs" by (cases "take 32 (hex_text bs)") auto
  have "set (c # cs) \<subseteq> set (hex_text bs)" unfolding t [symmetric] by (rule set_take_subset)
  with chars have "list_all hex_char (c # cs)" by (auto simp: list_all_iff)
  moreover from t len have "length (c # cs) = 32" by (metis length_take min.absorb2 numeral_le_iff semiring_norm)
  ultimately show ?thesis using assms(2)
    by (auto simp: valid_id_def id_suffix_def t list_all_iff hex_char_alnum)
qed

section \<open>What compilation may return\<close>

text \<open>Every capability has a manifest, so the lookup and the policy never throw.\<close>

definition manifest_of :: "capability_id \<Rightarrow> capability_manifest" where
  "manifest_of i = (case getCapabilityManifest i of Inr m \<Rightarrow> m | Inl _ \<Rightarrow> hd CAPABILITIES)"

lemma getCapabilityManifest_ok: "getCapabilityManifest i = Inr (manifest_of i)"
  by (cases i) (simp_all add: manifest_of_def getCapabilityManifest_def CAPABILITIES_def)

lemma manifest_of_id: "cm_id (manifest_of i) = i"
  by (cases i) (simp_all add: manifest_of_def getCapabilityManifest_def CAPABILITIES_def)

lemma manifest_effect: "cm_effect (manifest_of i) = (if i = ApplyPatch then WriteEffect else ReadEffect)"
  by (cases i) (simp_all add: manifest_of_def getCapabilityManifest_def CAPABILITIES_def)

lemma policy_cases:
  "evaluateCapabilityPolicy i wm =
     Inr (if i \<noteq> ApplyPatch then Allow POLICY_VERSION
          else if wm = WriteDeny then Deny POLICY_VERSION ''workspace writes are disabled''
          else ApprovalRequired POLICY_VERSION)"
  by (simp add: evaluateCapabilityPolicy_def getCapabilityManifest_ok manifest_effect)

lemma targetCapability_read: "targetCapability t p v = Some (c, input) \<Longrightarrow> c \<noteq> ApplyPatch"
  by (cases t) (auto split: if_splits)

lemma is_json_jstrs [simp]: "is_json_list (map JStr xs)"
  by (simp add: is_json_list_iff)

lemma targetCapability_json: "targetCapability t p v = Some (c, input) \<Longrightarrow> is_json input"
  by (cases t) auto

lemma invocation_seed_json: "is_json input \<Longrightarrow> is_json (invocation_seed c ver input cx)"
  by (simp add: invocation_seed_def)

lemma check_claims_Inr: "check_claims ds cs = Inr u \<longleftrightarrow> (\<forall>c \<in> set cs. cc_observationRef c \<in> set ds)"
  by (induction cs) auto

lemma enc_proposal_json: "is_json (enc_proposal p)"
  by (simp add: enc_proposal_def is_json_list_iff enc_edit_def)

abbreviation invocation_key :: "(string \<Rightarrow> nat list) \<Rightarrow> capability_id \<Rightarrow> json \<Rightarrow> compile_context \<Rightarrow> string" where
  "invocation_key digest c input cx \<equiv>
     hex_text (digest (stringify (sort_json (invocation_seed c (cm_version (manifest_of c)) input cx))))"

lemma invocation_ok:
  assumes "is_json input"
  shows "\<exists>i. invocation digest c input cx wm = Inr i \<and> iv_capability i = c
     \<and> iv_effect i = cm_effect (manifest_of c) \<and> iv_input i = input
     \<and> evaluateCapabilityPolicy c wm = Inr (iv_policy i)
     \<and> iv_projectRevision i = cx_projectRevision cx \<and> iv_observationDigests i = cx_observationDigests cx
     \<and> iv_idempotencyKey i = ''sha256:'' @ invocation_key digest c input cx"
  using assms
  by (simp add: invocation_def getCapabilityManifest_ok sha256_json invocation_seed_json policy_cases)

text \<open>
  The safety contract of a decision: a read plan holds read capabilities the policy allows,
  bound to the turn's revision and observations; a mutation is never allowed outright; and
  a completion cites disclosed observations only.
\<close>

fun decision_safe :: "compile_context \<Rightarrow> write_mode \<Rightarrow> recipe_decision \<Rightarrow> bool" where
  "decision_safe cx wm (ReadPlan k ph is) =
     (is \<noteq> [] \<and> list_all (\<lambda>i. iv_effect i = ReadEffect \<and> iv_capability i \<noteq> ApplyPatch
        \<and> iv_policy i = Allow POLICY_VERSION \<and> iv_projectRevision i = cx_projectRevision cx
        \<and> iv_observationDigests i = cx_observationDigests cx) is)"
| "decision_safe cx wm (MutationProposal p d pol) =
     (wf_proposal p \<and> pol = (if wm = WriteDeny then Deny POLICY_VERSION ''workspace writes are disabled''
        else ApprovalRequired POLICY_VERSION))"
| "decision_safe cx wm (CompletionSuggestion s cs) =
     (cs \<noteq> [] \<and> list_all (\<lambda>c. cc_observationRef c \<in> set (cx_observationDigests cx)) cs)"
| "decision_safe cx wm (Clarify q r) = (q \<noteq> [] \<and> r \<noteq> [])"
| "decision_safe cx wm (Blocked r) = True"

lemma compile_work:
  assumes "targetCapability (wi_target w) (cx_projectId cx) (wi_kind w = JStr ''verify'') = Some (c, input)"
    and "assertVersions cx = Inr ()" and "parseSemanticOutput v = Inr (IntentOutput (WorkIntent w))"
  shows "\<exists>i. invocation digest c input cx wm = Inr i \<and>
     compileSemanticOutput digest v cx wm =
       Inr (ReadPlan (wi_kind w) (if wi_kind w = JStr ''verify'' then VerificationPhase else EvidencePhase) [i])"
  using invocation_ok [OF targetCapability_json [OF assms(1)], of digest c cx wm] assms
  by (auto simp: compileSemanticOutput_def)

lemma compile_decision_safe:
  assumes "compileSemanticOutput digest v cx wm = Inr d"
  shows "decision_safe cx wm d"
proof -
  from assms obtain out where vs: "assertVersions cx = Inr ()" and out: "parseSemanticOutput v = Inr out"
    by (auto simp: compileSemanticOutput_def res_simps)
  from parse_output_wf [OF out] have good: "wf_output out" .
  show ?thesis
  proof (cases out)
    case (PatchOutput p)
    with assms vs out good show ?thesis
      by (auto simp: compileSemanticOutput_def res_simps policy_cases)
  next
    case (IntentOutput i)
    show ?thesis
    proof (cases i)
      case (WorkIntent w)
      note w = out [unfolded IntentOutput WorkIntent]
      show ?thesis
      proof (cases "targetCapability (wi_target w) (cx_projectId cx) (wi_kind w = JStr ''verify'')")
        case None
        with assms vs w show ?thesis by (auto simp: compileSemanticOutput_def)
      next
        case (Some ci)
        then obtain c input where ci: "targetCapability (wi_target w) (cx_projectId cx)
            (wi_kind w = JStr ''verify'') = Some (c, input)" by (cases ci) auto
        from compile_work [OF ci vs w, of digest wm] invocation_ok [OF targetCapability_json [OF ci], of digest c cx wm]
          targetCapability_read [OF ci] assms
        show ?thesis by (auto simp: manifest_effect policy_cases)
      qed
    next
      case (ClarifyIntent q r)
      with assms vs out good IntentOutput show ?thesis by (auto simp: compileSemanticOutput_def)
    next
      case (CompleteIntent s cs)
      with assms vs out good IntentOutput show ?thesis
        by (auto simp: compileSemanticOutput_def res_simps check_claims_Inr list_all_iff)
    qed
  qed
qed

text \<open>The compiler throws only on a version mismatch, a rejected response or an undisclosed claim.\<close>

lemma compile_total:
  "(\<exists>d. compileSemanticOutput digest v cx wm = Inr d) \<longleftrightarrow>
     assertVersions cx = Inr () \<and>
     (\<exists>out. parseSemanticOutput v = Inr out \<and>
        (\<forall>s cs. out = IntentOutput (CompleteIntent s cs) \<longrightarrow>
           (\<forall>c \<in> set cs. cc_observationRef c \<in> set (cx_observationDigests cx))))"
    (is "?L \<longleftrightarrow> ?R")
proof
  assume ?L
  then obtain d where d: "compileSemanticOutput digest v cx wm = Inr d" by blast
  then obtain out where vs: "assertVersions cx = Inr ()" and out: "parseSemanticOutput v = Inr out"
    by (auto simp: compileSemanticOutput_def res_simps)
  have "\<forall>c \<in> set cs. cc_observationRef c \<in> set (cx_observationDigests cx)"
    if "out = IntentOutput (CompleteIntent s cs)" for s cs
    using d vs out that by (auto simp: compileSemanticOutput_def res_simps check_claims_Inr)
  with vs out show ?R by blast
next
  assume ?R
  then obtain out where vs: "assertVersions cx = Inr ()" and out: "parseSemanticOutput v = Inr out"
    and cs: "\<forall>s cs. out = IntentOutput (CompleteIntent s cs) \<longrightarrow>
       (\<forall>c \<in> set cs. cc_observationRef c \<in> set (cx_observationDigests cx))" by blast
  show ?L
  proof (cases "\<exists>w. out = IntentOutput (WorkIntent w)")
    case True
    then obtain w where w: "out = IntentOutput (WorkIntent w)" by blast
    show ?thesis
    proof (cases "targetCapability (wi_target w) (cx_projectId cx) (wi_kind w = JStr ''verify'')")
      case None
      with vs out w show ?thesis by (simp add: compileSemanticOutput_def)
    next
      case (Some ci)
      then show ?thesis using compile_work [of w cx "fst ci" "snd ci" v] vs out w by fastforce
    qed
  next
    case False
    have checked: "check_claims (cx_observationDigests cx) cs' = Inr ()"
      if "out = IntentOutput (CompleteIntent s cs')" for s cs'
      using cs that by (simp add: check_claims_Inr)
    show ?thesis using vs out checked False
      by (auto simp: compileSemanticOutput_def sha256_json enc_proposal_json policy_cases
          split: semantic_output.split intent.split)
  qed
qed

section \<open>Idempotency keys\<close>

text \<open>Two objects with the same normal form agree, property by property, up to normal form.\<close>

lemma sort_json_obj_fields:
  assumes "sort_json (JObj xs) = sort_json (JObj ys)" and "distinct (map fst xs)" and "distinct (map fst ys)"
  shows "map_option sort_json (map_of xs k) = map_option sort_json (map_of ys k)"
proof -
  let ?s = "\<lambda>kv. (fst kv, sort_json (snd kv))"
  have "sort_key fst (map ?s xs) = sort_key fst (map ?s ys)"
    using assms(1) by (simp add: sort_json_members_map)
  from arg_cong [OF this, of set] have "set (map ?s xs) = set (map ?s ys)" by simp
  then have same: "map_of (map ?s xs) = map_of (map ?s ys)"
    using assms(2,3) by (subst map_of_inject_set) (simp_all add: comp_def)
  have "map_of (map ?s zs) k = map_option sort_json (map_of zs k)" for zs
    by (induction zs) auto
  then show ?thesis using fun_cong [OF same, of k] by (simp only:)
qed

lemma invocation_seed_inject:
  assumes "sort_json (invocation_seed c ver input cx) = sort_json (invocation_seed c' ver' input' cx')"
  shows "capability_name c = capability_name c' \<and> ver = ver' \<and> sort_json input = sort_json input'
     \<and> cx_projectId cx = cx_projectId cx' \<and> cx_projectRevision cx = cx_projectRevision cx'
     \<and> cx_turnId cx = cx_turnId cx' \<and> cx_observationDigests cx = cx_observationDigests cx'"
proof -
  note f = sort_json_obj_fields [OF assms [unfolded invocation_seed_def]]
  have strs: "map JStr xs = map JStr ys \<longleftrightarrow> xs = ys" for xs ys
    by (metis json.inject(3) list.inj_map_strong)
  show ?thesis
    using f [of "''capability''"] f [of "''capabilityVersion''"] f [of "''input''"] f [of "''projectId''"]
      f [of "''projectRevision''"] f [of "''turnId''"] f [of "''observationDigests''"]
    by (simp add: strs sort_json_list_map comp_def)
qed

lemma capability_name_inject: "capability_name c = capability_name c' \<longleftrightarrow> c = c'"
  by (cases c; cases c') auto

section \<open>Properties\<close>

text \<open>C10: every decision of the compiler is safe. A read plan is never empty and holds only read
  capabilities that the policy allows, bound to the revision and the observations of the turn;
  a patch becomes a proposal that always waits for approval or is denied, never allowed; a
  completion is suggested only when every claim cites an observation disclosed in the turn.\<close>

theorem compileSemanticOutput_safe:
  "compileSemanticOutput digest v cx wm = Inr d \<Longrightarrow> decision_safe cx wm d"
  by (rule compile_decision_safe)

definition sample_context :: compile_context where
  "sample_context = \<lparr>cx_projectId = ''prj_a'', cx_turnId = ''turn_1'', cx_projectRevision = ''r1'',
     cx_observationDigests = [''obs_a''], cx_catalogVersion = None, cx_policyVersion = None\<rparr>"

definition sample_patch :: json where
  "sample_patch = JObj [(''protocolVersion'', JNum 2), (''kind'', JStr ''patchProposal''),
     (''payload'', JObj [(''edits'', JArr [JObj [(''documentId'', JStr ''doc_a''),
        (''oldText'', JStr ''x''), (''newText'', JStr ''y'')]]),
        (''assumptions'', JArr []), (''verificationGoals'', JArr [])])]"

lemma sample_patch_parses:
  "parseSemanticOutput sample_patch = Inr (PatchOutput \<lparr>pp_edits =
     [\<lparr>pe_documentId = ''doc_a'', pe_oldText = ''x'', pe_newText = ''y''\<rparr>], pp_assumptions = [],
      pp_verificationGoals = []\<rparr>)"
  by (simp add: sample_patch_def parseSemanticOutput_def exact_def get_prop_def proposal_of_def
      edit_of_def texts_def documentId_def valid_id_def id_suffix_def alnum_def startsWith_def
      MAX_LIST_def MAX_SOURCE_TEXT_def)

theorem compileSemanticOutput_safe_witness:
  "\<exists>p d. compileSemanticOutput (\<lambda>_. [0, 255]) sample_patch sample_context WriteApproval
      = Inr (MutationProposal p d (ApprovalRequired POLICY_VERSION)) \<and> wf_proposal p"
proof -
  obtain p d pol where c: "compileSemanticOutput (\<lambda>_. [0, 255]) sample_patch sample_context WriteApproval
      = Inr (MutationProposal p d pol)"
    using sample_patch_parses
    by (simp add: compileSemanticOutput_def assertVersions_def sample_context_def sha256_json
        enc_proposal_json policy_cases)
  from compileSemanticOutput_safe [OF this] c show ?thesis by auto
qed

text \<open>The compiler is total up to its three documented failures: it returns a decision exactly
  when the pinned versions match, the response is accepted by the contract, and, for a completion,
  every claim cites a disclosed observation. In particular the digests never fail.\<close>

theorem compileSemanticOutput_total:
  "is_ok (compileSemanticOutput digest v cx wm) \<longleftrightarrow>
     assertVersions cx = Inr () \<and>
     (case parseSemanticOutput v of
        Inl _ \<Rightarrow> False
      | Inr out \<Rightarrow>
          (case out of
             IntentOutput (CompleteIntent s cs) \<Rightarrow>
               list_all (\<lambda>c. cc_observationRef c \<in> set (cx_observationDigests cx)) cs
           | _ \<Rightarrow> True))"
  unfolding is_ok_iff compile_total
  by (auto simp: list_all_iff split: sum.split semantic_output.split intent.split)

text \<open>An idempotency key identifies the call. Two invocations the compiler builds have the same
  key only if they run the same capability on the same input, for the same project, revision, turn
  and observations, provided the digest has no collision between the two canonical seeds and
  yields bytes.\<close>

theorem invocation_key_identifies:
  assumes "is_json input" and "is_json input'"
    and "invocation digest c input cx wm = Inr i" and "invocation digest c' input' cx' wm' = Inr i'"
    and "\<And>t. list_all (\<lambda>b. b < 256) (digest t)"
    and "digest (stringify (sort_json (invocation_seed c (iv_capabilityVersion i) input cx)))
           = digest (stringify (sort_json (invocation_seed c' (iv_capabilityVersion i') input' cx'))) \<Longrightarrow>
         stringify (sort_json (invocation_seed c (iv_capabilityVersion i) input cx))
           = stringify (sort_json (invocation_seed c' (iv_capabilityVersion i') input' cx'))"
    and "iv_idempotencyKey i = iv_idempotencyKey i'"
  shows "iv_capability i = iv_capability i' \<and> sort_json (iv_input i) = sort_json (iv_input i')
     \<and> cx_projectId cx = cx_projectId cx' \<and> cx_projectRevision cx = cx_projectRevision cx'
     \<and> cx_turnId cx = cx_turnId cx' \<and> cx_observationDigests cx = cx_observationDigests cx'"
proof -
  let ?s = "invocation_seed c (iv_capabilityVersion i) input cx"
  let ?s' = "invocation_seed c' (iv_capabilityVersion i') input' cx'"
  have i: "iv_capability i = c" "iv_input i = input" "iv_idempotencyKey i = ''sha256:'' @ hex_text (digest (stringify (sort_json ?s)))"
    using assms(1,3) by (auto simp: invocation_def getCapabilityManifest_ok sha256_json invocation_seed_json policy_cases)
  have i': "iv_capability i' = c'" "iv_input i' = input'" "iv_idempotencyKey i' = ''sha256:'' @ hex_text (digest (stringify (sort_json ?s')))"
    using assms(2,4) by (auto simp: invocation_def getCapabilityManifest_ok sha256_json invocation_seed_json policy_cases)
  from assms(7) i i' have "digest (stringify (sort_json ?s)) = digest (stringify (sort_json ?s'))"
    by (intro hex_text_inj assms(5)) simp
  then have "stringify (sort_json ?s) = stringify (sort_json ?s')" by (rule assms(6))
  then have "sort_json ?s = sort_json ?s'"
    using json_text.encode_inject is_json_sort [OF invocation_seed_json] assms(1,2) by blast
  from invocation_seed_inject [OF this] show ?thesis by (simp add: i i' capability_name_inject)
qed

definition sample_input :: json where
  "sample_input = JObj [(''projectId'', JStr ''prj_a''), (''query'', JStr ''q'')]"

lemma sample_input_json: "is_json sample_input"
  by (simp add: sample_input_def)

theorem invocation_key_identifies_witness:
  "\<exists>i i'. invocation (map of_char) SearchText sample_input sample_context WriteDeny = Inr i
     \<and> invocation (map of_char) SearchText sample_input sample_context WriteApproval = Inr i'
     \<and> iv_capability i = iv_capability i'"
proof -
  note j = sample_input_json
  obtain i i' where i: "invocation (map of_char) SearchText sample_input sample_context WriteDeny = Inr i"
      "iv_idempotencyKey i = ''sha256:'' @ invocation_key (map of_char) SearchText sample_input sample_context"
    and i': "invocation (map of_char) SearchText sample_input sample_context WriteApproval = Inr i'"
      "iv_idempotencyKey i' = ''sha256:'' @ invocation_key (map of_char) SearchText sample_input sample_context"
    using invocation_ok [OF j] by metis
  have bytes: "list_all (\<lambda>b. b < 256) (map of_char t :: nat list)" for t :: string
    by (induction t) auto
  have inj: "map (of_char :: char \<Rightarrow> nat) xs = map of_char ys \<Longrightarrow> xs = ys" for xs ys
    by (metis list.inj_map_strong of_char_eq_iff)
  show ?thesis
    using invocation_key_identifies [OF j j i(1) i'(1) bytes inj] i i' by simp
qed

text \<open>An observation that is accepted gets an identifier that the response contract admits as an
  observation reference, keeps the invocation's revision, and is within the bounds on summary,
  facts and artifacts; its artifact references are valid identifiers. The digest is assumed to
  be 32 bytes long.\<close>

theorem normalizeObservation_valid:
  assumes "normalizeObservation digest iv oc = Inr ob" and "\<And>t. sha256_bytes (digest t)"
  shows "observationId (JStr (ob_observationId ob)) = Inr (ob_observationId ob)
     \<and> ob_projectRevision ob = iv_projectRevision iv \<and> ob_invocationId ob = iv_invocationId iv
     \<and> ob_facts ob = oc_facts oc \<and> ob_artifactRefs ob = oc_artifactRefs oc
     \<and> length (ob_summary ob) \<in> {1..4096} \<and> length (ob_artifactRefs ob) \<le> 64
     \<and> list_all (valid_id ''art_'') (ob_artifactRefs ob)
     \<and> (\<exists>t. canonical (ob_facts ob) = Inr t \<and> length t \<le> 1048576)"
proof -
  from assms(1) obtain t refs d where *: "canonical (oc_facts oc) = Inr t" "length t \<le> MAX_FACTS"
      "length (oc_artifactRefs oc) \<le> MAX_ARTIFACTS" "oc_summary oc \<noteq> []" "length (oc_summary oc) \<le> MAX_SUMMARY"
      "mapR artifactId (map JStr (oc_artifactRefs oc)) = Inr refs"
    and ob: "ob = \<lparr>ob_observationId = ''obs_'' @ take 32 (hex_text (digest d)), ob_invocationId = iv_invocationId iv,
        ob_status = oc_status oc, ob_summary = oc_summary oc, ob_facts = oc_facts oc,
        ob_artifactRefs = refs, ob_projectRevision = iv_projectRevision iv\<rparr>"
    by (auto simp: normalizeObservation_def sha256_def res_simps not_less)
  have refs: "map JStr (oc_artifactRefs oc) = map JStr refs \<and> list_all (valid_id ''art_'') refs"
    using *(6) mapR_exact [of artifactId JStr "valid_id ''art_''", OF id_Inr(5)] by simp
  have r: "refs = oc_artifactRefs oc" by (metis json.inject(3) list.inj_map_strong refs)
  have "valid_id ''obs_'' (''obs_'' @ take 32 (hex_text (digest d)))"
    by (rule hex_prefix_valid_id) (simp_all add: assms(2))
  then have "observationId (JStr (ob_observationId ob)) = Inr (ob_observationId ob)"
    unfolding ob observationId_def by (simp only: opaque.simps observation.select_convs if_True)
  moreover have "length (ob_summary ob) \<in> {1..4096}"
    using *(4,5) by (simp add: ob MAX_SUMMARY_def Suc_le_eq)
  moreover have "length (ob_artifactRefs ob) \<le> 64" using *(3) by (simp add: ob r MAX_ARTIFACTS_def)
  moreover have "\<exists>t. canonical (ob_facts ob) = Inr t \<and> length t \<le> 1048576"
    using *(1,2) by (simp add: ob MAX_FACTS_def)
  ultimately show ?thesis using refs r by (simp add: ob)
qed

definition sample_outcome :: observation_outcome where
  "sample_outcome = \<lparr>oc_status = Succeeded, oc_summary = ''ok'', oc_facts = JObj [],
     oc_artifactRefs = [''art_a'']\<rparr>"

theorem normalizeObservation_valid_witness:
  "\<exists>iv ob. normalizeObservation (\<lambda>_. replicate 32 7) iv sample_outcome = Inr ob
     \<and> observationId (JStr (ob_observationId ob)) = Inr (ob_observationId ob)"
proof -
  obtain iv where "invocation (\<lambda>_. replicate 32 7) SearchText sample_input sample_context WriteDeny = Inr iv"
    using invocation_ok [OF sample_input_json] by blast
  obtain ob where ob: "normalizeObservation (\<lambda>_. replicate 32 7) iv sample_outcome = Inr ob"
    by (simp add: normalizeObservation_def sample_outcome_def MAX_SUMMARY_def MAX_FACTS_def
        MAX_ARTIFACTS_def sha256_json artifactId_def valid_id_def id_suffix_def alnum_def startsWith_def)
  moreover have "sha256_bytes (replicate 32 7)" by (simp add: sha256_bytes_def list_all_iff)
  ultimately show ?thesis using normalizeObservation_valid [OF ob] by blast
qed

definition verify_response :: "json \<Rightarrow> json" where
  "verify_response kind = JObj [(''protocolVersion'', JNum 2), (''kind'', JStr ''intent''),
     (''payload'', JObj [(''kind'', kind), (''objective'', JStr ''o''),
        (''target'', JObj [(''kind'', JStr ''documents''), (''documentIds'', JArr [JStr ''doc_a''])]),
        (''evidenceGoals'', JArr []), (''constraints'', JArr []), (''doneWhen'', JStr ''d'')])]"

lemma verify_response_parses:
  assumes "js_String kind = Inr ''verify''"
  shows "parseSemanticOutput (verify_response kind) = Inr (IntentOutput (WorkIntent \<lparr>wi_kind = kind,
     wi_objective = ''o'', wi_target = DocumentsTarget [''doc_a''] None, wi_evidenceGoals = [],
     wi_constraints = [], wi_doneWhen = ''d''\<rparr>))"
  using assms
  by (simp add: verify_response_def parseSemanticOutput_def exact_def get_prop_def intent_of_def
      work_intent_of_def work_kinds_def target_of_def texts_def documentId_def valid_id_def
      id_suffix_def alnum_def startsWith_def MAX_LIST_def)

text \<open>The kind of a work intent is compared after \<open>String(...)\<close>, so an array that contains the
  kind's name passes the contract although the declared type admits strings only, and it is kept
  as an array. The compiler compares the kind itself: the same request for a verification reads
  ranges as evidence when its kind is the array, and collects diagnostics when it is the string.\<close>

theorem array_kind_changes_the_recipe:
  "\<exists>i j. compileSemanticOutput digest (verify_response (JArr [JStr ''verify''])) sample_context wm
        = Inr (ReadPlan (JArr [JStr ''verify'']) EvidencePhase [i]) \<and> iv_capability i = ReadRanges
     \<and> compileSemanticOutput digest (verify_response (JStr ''verify'')) sample_context wm
        = Inr (ReadPlan (JStr ''verify'') VerificationPhase [j]) \<and> iv_capability j = GetDiagnostics"
proof -
  let ?input = "JObj [(''projectId'', JStr ''prj_a''), (''documentIds'', jstrs [''doc_a''])]"
  have j: "is_json ?input" by simp
  have v: "assertVersions sample_context = Inr ()" by (simp add: assertVersions_def sample_context_def)
  have p: "cx_projectId sample_context = ''prj_a''" by (simp add: sample_context_def)
  from invocation_ok [OF j, of digest ReadRanges sample_context wm]
    invocation_ok [OF j, of digest GetDiagnostics sample_context wm]
  show ?thesis
    by (auto simp: compileSemanticOutput_def v p verify_response_parses)
qed

end
