(* ===== verification/Coordinator.thy ===== *)
theory Coordinator
  imports Compiler
begin

text \<open>
  The turn coordinator of \<open>packages/core/src/coordinator.ts\<close>: one active turn, a queue of waiting
  turns, an index of the requests seen, and an outbox with one record per turn sent to the
  provider. Every operation builds a new state; the asynchronous ones wait for a digest only.
  \<open>enc_state\<close> is the JavaScript object of a state, which \<open>serializeCoordinatorState\<close> prints.
\<close>

section \<open>State\<close>

datatype outbox_state = ObQueued | ObDispatching | ObAccepted | ObSettled | ObIndeterminate

record coordinator_turn =
  ct_turnId :: string
  ct_fingerprint :: string
  ct_request :: turn_request
  ct_recipeCheckpoint :: "json option"

record outbox_record =
  or_requestId :: string
  or_turnId :: string
  or_generation :: int
  or_payloadDigest :: string
  or_state :: outbox_state
  or_dispatchAttempts :: int
  or_providerRequestId :: "string optional"
  or_responseDigest :: "string optional"

record coordinator_state =
  cs_sessionId :: string
  cs_projectId :: string
  cs_generation :: int
  cs_queue :: "coordinator_turn list"
  cs_activeTurn :: "coordinator_turn option"
  cs_seen :: "(string \<times> string) list"
  cs_outbox :: "outbox_record list"

record failure_evidence =
  fe_conclusivelyRejected :: bool
  fe_providerIdempotencyProven :: bool

section \<open>Operations\<close>

definition id_char :: "char \<Rightarrow> bool" where
  "id_char c = (alnum c \<or> c \<in> {CHR ''.'', CHR ''_'', CHR '':'', CHR ''-''})"

definition valid_identifier :: "string \<Rightarrow> bool" where
  "valid_identifier s = (3 \<le> length s \<and> length s \<le> 128 \<and> list_all id_char s)"

definition valid_digest :: "string \<Rightarrow> bool" where
  "valid_digest s = (startsWith s ''sha256:'' \<and> drop 7 s \<noteq> [] \<and> list_all id_char (drop 7 s))"

definition assertIdentifier :: "string \<Rightarrow> string \<Rightarrow> unit res" where
  "assertIdentifier s label = (if valid_identifier s then Inr () else Inl (Error (label @ '' is invalid'')))"

text \<open>\<open>Number.isSafeInteger(value) && value >= 1\<close>.\<close>

definition valid_generation :: "int \<Rightarrow> bool" where
  "valid_generation g = (1 \<le> g \<and> g \<le> 9007199254740991)"

definition assertGeneration :: "int \<Rightarrow> unit res" where
  "assertGeneration g = (if valid_generation g then Inr () else Inl (Error ''Coordinator generation is invalid''))"

definition updateOutbox :: "coordinator_state \<Rightarrow> string \<Rightarrow> int \<Rightarrow> (outbox_record \<Rightarrow> outbox_record res)
    \<Rightarrow> coordinator_state res" where
  "updateOutbox s requestId generation update =
     bindR (assertGeneration generation) (\<lambda>_.
     case findIndex (\<lambda>r. or_requestId r = requestId) (cs_outbox s) of
       None \<Rightarrow> Inl (Error ''Provider outbox request is unavailable'')
     | Some i \<Rightarrow>
         (let current = cs_outbox s ! i in
          if generation \<noteq> cs_generation s \<or> or_generation current \<noteq> generation
            then Inl (Error ''Provider outbox generation is stale'')
          else bindR (update current) (\<lambda>r. Inr (s\<lparr>cs_outbox := (cs_outbox s)[i := r]\<rparr>))))"

definition createCoordinatorState :: "string \<Rightarrow> json \<Rightarrow> int \<Rightarrow> coordinator_state res" where
  "createCoordinatorState sessionId project generation =
     bindR (assertIdentifier sessionId ''Session id'') (\<lambda>_.
     bindR (assertGeneration generation) (\<lambda>_.
     bindR (projectId project) (\<lambda>p.
     Inr \<lparr>cs_sessionId = sessionId, cs_projectId = p, cs_generation = generation, cs_queue = [],
       cs_activeTurn = None, cs_seen = [], cs_outbox = []\<rparr>)))"

definition fingerprint_of :: "string \<Rightarrow> string" where
  "fingerprint_of d = ''sha256:'' @ d"

definition turn_id_of :: "string \<Rightarrow> string" where
  "turn_id_of fingerprint = ''turn_'' @ take 32 (drop 7 fingerprint)"

text \<open>The result holds the state, whether the turn is new, and its identifier.\<close>

definition enqueueTurn :: "(string \<Rightarrow> nat list) \<Rightarrow> coordinator_state \<Rightarrow> json
    \<Rightarrow> (coordinator_state \<times> bool \<times> string) res" where
  "enqueueTurn digest s requestInput =
     bindR (parseSemanticTurnRequest requestInput) (\<lambda>request.
     bindR (sha256 digest (enc_request request)) (\<lambda>d.
     let fingerprint = fingerprint_of d in
     case map_of (cs_seen s) fingerprint of
       Some duplicate \<Rightarrow> Inr (s, False, duplicate)
     | None \<Rightarrow>
         (let turnId = turn_id_of fingerprint in
          Inr (s\<lparr>cs_queue := cs_queue s @ [\<lparr>ct_turnId = turnId, ct_fingerprint = fingerprint,
                   ct_request = request, ct_recipeCheckpoint = None\<rparr>],
                 cs_seen := cs_seen s @ [(fingerprint, turnId)]\<rparr>, True, turnId))))"

definition startNextTurn :: "coordinator_state \<Rightarrow> (coordinator_state \<times> coordinator_turn option) res" where
  "startNextTurn s =
     (if cs_activeTurn s \<noteq> None then Inl (Error ''A coordinator turn is already active'')
      else case cs_queue s of
        [] \<Rightarrow> Inr (s, None)
      | t # ts \<Rightarrow> Inr (s\<lparr>cs_queue := ts, cs_activeTurn := Some t\<rparr>, Some t))"

definition checkpointProviderTurn :: "(string \<Rightarrow> nat list) \<Rightarrow> coordinator_state \<Rightarrow> string \<Rightarrow> json \<Rightarrow> string
    \<Rightarrow> (coordinator_state \<times> outbox_record) res" where
  "checkpointProviderTurn digest s turnId recipeCheckpoint payloadDigest =
     (case cs_activeTurn s of
        None \<Rightarrow> Inl (Error ''Provider checkpoint turn is not active'')
      | Some active \<Rightarrow>
          if ct_turnId active \<noteq> turnId then Inl (Error ''Provider checkpoint turn is not active'')
          else if \<not> valid_digest payloadDigest then Inl (Error ''Provider payload digest is invalid'')
          else if list_ex (\<lambda>r. or_turnId r = turnId) (cs_outbox s)
            then Inl (Error ''Provider outbox already exists for the active turn'')
          else bindR (sha256 digest (JObj [(''sessionId'', JStr (cs_sessionId s)), (''turnId'', JStr turnId),
                 (''generation'', JNum (cs_generation s)), (''payloadDigest'', JStr payloadDigest)])) (\<lambda>d.
            let out = \<lparr>or_requestId = ''out_'' @ take 32 d, or_turnId = turnId,
                  or_generation = cs_generation s, or_payloadDigest = payloadDigest,
                  or_state = ObQueued, or_dispatchAttempts = 0, or_providerRequestId = Absent,
                  or_responseDigest = Absent\<rparr> in
            Inr (s\<lparr>cs_activeTurn := Some (active\<lparr>ct_recipeCheckpoint := Some recipeCheckpoint\<rparr>),
                   cs_outbox := cs_outbox s @ [out]\<rparr>, out)))"

text \<open>The callbacks given to \<open>updateOutbox\<close>, then the operations that pass them.\<close>

definition dispatch_record :: "outbox_record \<Rightarrow> outbox_record res" where
  "dispatch_record r =
     (if or_state r \<noteq> ObQueued then Inl (Error ''Provider outbox is not queued'')
      else Inr (r\<lparr>or_state := ObDispatching, or_dispatchAttempts := or_dispatchAttempts r + 1\<rparr>))"

definition accept_record :: "string \<Rightarrow> outbox_record \<Rightarrow> outbox_record res" where
  "accept_record providerRequestId r =
     (if or_state r \<noteq> ObDispatching then Inl (Error ''Provider outbox is not dispatching'')
      else Inr (r\<lparr>or_state := ObAccepted, or_providerRequestId := Present providerRequestId\<rparr>))"

definition settle_record :: "string \<Rightarrow> outbox_record \<Rightarrow> outbox_record res" where
  "settle_record responseDigest r =
     (if or_state r \<noteq> ObAccepted then Inl (Error ''Provider outbox is not accepted'')
      else Inr (r\<lparr>or_state := ObSettled, or_responseDigest := Present responseDigest\<rparr>))"

definition fail_record :: "failure_evidence \<Rightarrow> outbox_record \<Rightarrow> outbox_record res" where
  "fail_record evidence r =
     (if or_state r \<noteq> ObDispatching \<and> or_state r \<noteq> ObAccepted
        then Inl (Error ''Provider outbox is not in flight'')
      else if fe_conclusivelyRejected evidence \<or> fe_providerIdempotencyProven evidence
        then Inr (r\<lparr>or_state := ObQueued, or_providerRequestId := Undefined,
                   or_responseDigest := Undefined\<rparr>)
      else Inr (r\<lparr>or_state := ObIndeterminate\<rparr>))"

lemmas record_ops = dispatch_record_def accept_record_def settle_record_def fail_record_def

definition markOutboxDispatching :: "coordinator_state \<Rightarrow> string \<Rightarrow> int \<Rightarrow> coordinator_state res" where
  "markOutboxDispatching s requestId generation = updateOutbox s requestId generation dispatch_record"

definition markOutboxAccepted :: "coordinator_state \<Rightarrow> string \<Rightarrow> int \<Rightarrow> string \<Rightarrow> coordinator_state res" where
  "markOutboxAccepted s requestId generation providerRequestId =
     bindR (assertIdentifier providerRequestId ''Provider request id'') (\<lambda>_.
     updateOutbox s requestId generation (accept_record providerRequestId))"

definition markOutboxSettled :: "coordinator_state \<Rightarrow> string \<Rightarrow> int \<Rightarrow> string \<Rightarrow> coordinator_state res" where
  "markOutboxSettled s requestId generation responseDigest =
     (if \<not> valid_digest responseDigest then Inl (Error ''Provider response digest is invalid'')
      else updateOutbox s requestId generation (settle_record responseDigest))"

definition handleOutboxFailure :: "coordinator_state \<Rightarrow> string \<Rightarrow> int \<Rightarrow> failure_evidence
    \<Rightarrow> coordinator_state res" where
  "handleOutboxFailure s requestId generation evidence =
     updateOutbox s requestId generation (fail_record evidence)"

definition replace_record :: "int \<Rightarrow> outbox_record \<Rightarrow> outbox_record" where
  "replace_record generation r =
     (if or_state r = ObDispatching \<or> or_state r = ObAccepted then r\<lparr>or_state := ObIndeterminate\<rparr>
      else if or_state r = ObQueued then r\<lparr>or_generation := generation\<rparr>
      else r)"

definition replaceCoordinatorGeneration :: "coordinator_state \<Rightarrow> coordinator_state res" where
  "replaceCoordinatorGeneration s =
     (let generation = cs_generation s + 1 in
      bindR (assertGeneration generation) (\<lambda>_.
      Inr (s\<lparr>cs_generation := generation,
             cs_outbox := map (replace_record generation) (cs_outbox s)\<rparr>)))"

definition completeActiveTurn :: "coordinator_state \<Rightarrow> coordinator_state res" where
  "completeActiveTurn s =
     (case cs_activeTurn s of
        None \<Rightarrow> Inl (Error ''No coordinator turn is active'')
      | Some active \<Rightarrow>
          if list_ex (\<lambda>r. or_turnId r = ct_turnId active \<and> or_state r \<noteq> ObSettled) (cs_outbox s)
            then Inl (Error ''Provider outbox must settle before completing the active turn'')
          else Inr (s\<lparr>cs_activeTurn := None\<rparr>))"

section \<open>Serialisation\<close>

fun outbox_state_name :: "outbox_state \<Rightarrow> string" where
  "outbox_state_name ObQueued = ''queued''"
| "outbox_state_name ObDispatching = ''dispatching''"
| "outbox_state_name ObAccepted = ''accepted''"
| "outbox_state_name ObSettled = ''settled''"
| "outbox_state_name ObIndeterminate = ''indeterminate''"

definition outbox_state_names :: "string list" where
  "outbox_state_names = [''queued'', ''dispatching'', ''accepted'', ''settled'', ''indeterminate'']"

fun enc_optional :: "string \<Rightarrow> string optional \<Rightarrow> (string \<times> json) list" where
  "enc_optional k Absent = []"
| "enc_optional k Undefined = [(k, JUndef)]"
| "enc_optional k (Present s) = [(k, JStr s)]"

definition enc_turn :: "coordinator_turn \<Rightarrow> json" where
  "enc_turn t = JObj ([(''turnId'', JStr (ct_turnId t)), (''fingerprint'', JStr (ct_fingerprint t)),
     (''request'', enc_request (ct_request t))]
     @ (case ct_recipeCheckpoint t of None \<Rightarrow> [] | Some c \<Rightarrow> [(''recipeCheckpoint'', c)]))"

definition enc_outbox :: "outbox_record \<Rightarrow> json" where
  "enc_outbox r = JObj ([(''requestId'', JStr (or_requestId r)), (''turnId'', JStr (or_turnId r)),
     (''generation'', JNum (or_generation r)), (''payloadDigest'', JStr (or_payloadDigest r)),
     (''state'', JStr (outbox_state_name (or_state r))), (''dispatchAttempts'', JNum (or_dispatchAttempts r))]
     @ enc_optional ''providerRequestId'' (or_providerRequestId r)
     @ enc_optional ''responseDigest'' (or_responseDigest r))"

definition enc_state :: "coordinator_state \<Rightarrow> json" where
  "enc_state s = JObj ([(''schemaVersion'', JNum 1), (''sessionId'', JStr (cs_sessionId s)),
     (''projectId'', JStr (cs_projectId s)), (''generation'', JNum (cs_generation s)),
     (''queue'', JArr (map enc_turn (cs_queue s)))]
     @ (case cs_activeTurn s of None \<Rightarrow> [] | Some t \<Rightarrow> [(''activeTurn'', enc_turn t)])
     @ [(''seen'', JObj (map (\<lambda>e. (fst e, JStr (snd e))) (cs_seen s))),
        (''outbox'', JArr (map enc_outbox (cs_outbox s)))])"

definition serializeCoordinatorState :: "coordinator_state \<Rightarrow> string res" where
  "serializeCoordinatorState s = canonical (enc_state s)"

text \<open>
  \<open>value.key\<close> on any value: \<open>null\<close> and \<open>undefined\<close> throw, and a primitive or an array has none
  of the properties that are read here.
\<close>

fun read_prop :: "json \<Rightarrow> string \<Rightarrow> json res" where
  "read_prop JUndef k = Inl TypeError"
| "read_prop JNull k = Inl TypeError"
| "read_prop (JObj kvs) k = Inr (get_prop kvs k)"
| "read_prop v k = Inr JUndef"

definition falsy :: "json \<Rightarrow> bool" where
  "falsy v = (v \<in> {JUndef, JNull, JBool False, JNum 0, JNonFinite, JStr []})"

fun is_str :: "json \<Rightarrow> bool" where
  "is_str (JStr s) = True"
| "is_str v = False"

text \<open>\<open>{...turn, request: parse(turn.request)}\<close>; only an object can hold a request that parses.\<close>

definition restore_turn :: "json \<Rightarrow> json res" where
  "restore_turn turn =
     bindR (read_prop turn ''request'') (\<lambda>q.
     bindR (parseSemanticTurnRequest q) (\<lambda>r.
     case turn of JObj kvs \<Rightarrow> Inr (JObj (obj_put kvs ''request'' (enc_request r)))
       | _ \<Rightarrow> Inr (JObj [(''request'', enc_request r)])))"

definition restore_seen_entry :: "string \<times> json \<Rightarrow> (string \<times> json) res" where
  "restore_seen_entry e = (case snd e of JStr t \<Rightarrow> Inr (fst e, JStr t)
     | _ \<Rightarrow> Inl (Error ''Coordinator duplicate index is invalid''))"

definition restore_outbox :: "json \<Rightarrow> json res" where
  "restore_outbox r =
     bindR (read_prop r ''requestId'') (\<lambda>i.
     bindR (read_prop r ''turnId'') (\<lambda>t.
     bindR (read_prop r ''state'') (\<lambda>st.
     if \<not> is_str i \<or> \<not> is_str t \<or> st \<notin> set (map JStr outbox_state_names)
       then Inl (Error ''Coordinator outbox checkpoint is invalid'')
     else Inr r)))"

fun entries_of :: "json \<Rightarrow> (string \<times> json) list" where
  "entries_of (JObj kvs) = kvs"
| "entries_of (JArr vs) = zip (map nat_str [0..<length vs]) vs"
| "entries_of v = []"

definition map_array :: "(json \<Rightarrow> json res) \<Rightarrow> json \<Rightarrow> json list res" where
  "map_array f v = (case v of JArr vs \<Rightarrow> mapR f vs | _ \<Rightarrow> Inr [])"

text \<open>The restored object; the fields the code does not check are kept as the text has them.\<close>

definition restoreCoordinatorState :: "string \<Rightarrow> json res" where
  "restoreCoordinatorState serialized =
     bindR (JSON_parse serialized) (\<lambda>c.
     bindR (read_prop c ''schemaVersion'') (\<lambda>version.
     bindR (read_prop c ''sessionId'') (\<lambda>session.
     case (version = JNum 1, session) of
       (True, JStr sessionId) \<Rightarrow>
         bindR (read_prop c ''projectId'') (\<lambda>p.
         bindR (projectId p) (\<lambda>project.
         bindR (read_prop c ''generation'') (\<lambda>g.
         bindR (assertIdentifier sessionId ''Session id'') (\<lambda>_.
         bindR (assertGeneration (case g of JNum n \<Rightarrow> n | _ \<Rightarrow> 0)) (\<lambda>_.
         bindR (read_prop c ''queue'') (\<lambda>q.
         bindR (map_array restore_turn q) (\<lambda>queue.
         bindR (read_prop c ''activeTurn'') (\<lambda>a.
         bindR (if falsy a then Inr [] else bindR (restore_turn a) (\<lambda>t. Inr [(''activeTurn'', t)])) (\<lambda>active.
         bindR (read_prop c ''seen'') (\<lambda>sn.
         bindR (mapR restore_seen_entry (entries_of sn)) (\<lambda>seen.
         bindR (read_prop c ''outbox'') (\<lambda>ob.
         bindR (map_array restore_outbox ob) (\<lambda>outbox.
         Inr (JObj ([(''schemaVersion'', JNum 1), (''sessionId'', JStr sessionId), (''projectId'', JStr project),
           (''generation'', g), (''queue'', JArr queue), (''seen'', JObj seen), (''outbox'', JArr outbox)]
           @ active)))))))))))))))
     | _ \<Rightarrow> Inl (Error ''Coordinator checkpoint version is unsupported''))))"

section \<open>Operations as one machine\<close>

datatype coord_op =
    OpEnqueue json
  | OpStart
  | OpCheckpoint string json string
  | OpDispatch string int
  | OpAccept string int string
  | OpSettle string int string
  | OpFail string int failure_evidence
  | OpReplace
  | OpComplete

fun coord_step :: "(string \<Rightarrow> nat list) \<Rightarrow> coordinator_state \<Rightarrow> coord_op \<Rightarrow> coordinator_state res" where
  "coord_step digest s (OpEnqueue v) = bindR (enqueueTurn digest s v) (\<lambda>r. Inr (fst r))"
| "coord_step digest s OpStart = bindR (startNextTurn s) (\<lambda>r. Inr (fst r))"
| "coord_step digest s (OpCheckpoint t c d) =
     bindR (checkpointProviderTurn digest s t c d) (\<lambda>r. Inr (fst r))"
| "coord_step digest s (OpDispatch i g) = markOutboxDispatching s i g"
| "coord_step digest s (OpAccept i g p) = markOutboxAccepted s i g p"
| "coord_step digest s (OpSettle i g d) = markOutboxSettled s i g d"
| "coord_step digest s (OpFail i g e) = handleOutboxFailure s i g e"
| "coord_step digest s OpReplace = replaceCoordinatorGeneration s"
| "coord_step digest s OpComplete = completeActiveTurn s"

fun present_with :: "('a \<Rightarrow> bool) \<Rightarrow> 'a optional \<Rightarrow> bool" where
  "present_with p (Present x) = p x"
| "present_with p v = False"

text \<open>
  A record belongs to the current generation as long as it is queued or in flight; it has been
  dispatched once it has left the queue; an accepted record has the provider's identifier and a
  settled one the digest of the response.
\<close>

definition record_ok :: "int \<Rightarrow> outbox_record \<Rightarrow> bool" where
  "record_ok g r = (1 \<le> or_generation r \<and> or_generation r \<le> g
     \<and> (or_state r \<in> {ObQueued, ObDispatching, ObAccepted} \<longrightarrow> or_generation r = g)
     \<and> 0 \<le> or_dispatchAttempts r \<and> (or_state r \<noteq> ObQueued \<longrightarrow> 1 \<le> or_dispatchAttempts r)
     \<and> valid_digest (or_payloadDigest r)
     \<and> (or_state r \<in> {ObAccepted, ObSettled} \<longrightarrow> present_with valid_identifier (or_providerRequestId r))
     \<and> (or_state r = ObSettled \<longrightarrow> present_with valid_digest (or_responseDigest r)))"

definition turn_ok :: "(string \<times> string) list \<Rightarrow> coordinator_turn \<Rightarrow> bool" where
  "turn_ok seen t = (wf_request (ct_request t) \<and> map_of seen (ct_fingerprint t) = Some (ct_turnId t))"

fun open_turns :: "coordinator_state \<Rightarrow> coordinator_turn list" where
  "open_turns s = (case cs_activeTurn s of None \<Rightarrow> cs_queue s | Some t \<Rightarrow> t # cs_queue s)"

text \<open>
  The invariant. The active turn followed by the queue is always a suffix of the requests in the
  order in which they were first seen: turns run first in, first out, none is skipped and none
  is queued twice. There is at most one outbox record per turn.
\<close>

definition coord_inv :: "coordinator_state \<Rightarrow> bool" where
  "coord_inv s = (valid_identifier (cs_sessionId s) \<and> valid_id ''prj_'' (cs_projectId s)
     \<and> valid_generation (cs_generation s) \<and> distinct (map fst (cs_seen s))
     \<and> list_all (turn_ok (cs_seen s)) (open_turns s)
     \<and> drop (length (cs_seen s) - length (open_turns s)) (map fst (cs_seen s)) = map ct_fingerprint (open_turns s)
     \<and> list_all (record_ok (cs_generation s)) (cs_outbox s)
     \<and> distinct (map or_turnId (cs_outbox s)))"

declare open_turns.simps [simp del]

lemma open_turns_outbox [simp]:
  "open_turns (s\<lparr>cs_outbox := x\<rparr>) = open_turns s" "open_turns (s\<lparr>cs_generation := g\<rparr>) = open_turns s"
  "open_turns (s\<lparr>cs_generation := g, cs_outbox := x\<rparr>) = open_turns s"
  by (simp_all add: open_turns.simps split: option.split)

lemma assert_Inr [res_simps]:
  "assertGeneration g = Inr u \<longleftrightarrow> valid_generation g"
  "assertIdentifier i l = Inr u \<longleftrightarrow> valid_identifier i"
  by (auto simp: assertGeneration_def assertIdentifier_def)

lemma updateOutbox_Inr:
  "updateOutbox s rid g f = Inr s' \<longleftrightarrow>
     (\<exists>i r. findIndex (\<lambda>r. or_requestId r = rid) (cs_outbox s) = Some i \<and> valid_generation g
        \<and> g = cs_generation s \<and> or_generation (cs_outbox s ! i) = g \<and> f (cs_outbox s ! i) = Inr r
        \<and> s' = s\<lparr>cs_outbox := (cs_outbox s)[i := r]\<rparr>)"
  by (auto simp: updateOutbox_def Let_def res_simps split: option.splits)

lemma updateOutbox_inv:
  assumes "coord_inv s" and "updateOutbox s rid g f = Inr s'"
    and "\<And>r r'. record_ok (cs_generation s) r \<Longrightarrow> f r = Inr r' \<Longrightarrow>
       record_ok (cs_generation s) r' \<and> or_turnId r' = or_turnId r"
  shows "coord_inv s'"
proof -
  from assms(2) obtain i r where i: "findIndex (\<lambda>r. or_requestId r = rid) (cs_outbox s) = Some i"
    and r: "f (cs_outbox s ! i) = Inr r" and s': "s' = s\<lparr>cs_outbox := (cs_outbox s)[i := r]\<rparr>"
    by (auto simp: updateOutbox_Inr)
  from findIndex_Some [OF i] have len: "i < length (cs_outbox s)" by simp
  with assms(1) have "record_ok (cs_generation s) (cs_outbox s ! i)"
    by (simp add: coord_inv_def list_all_length)
  from assms(3) [OF this r] have ok: "record_ok (cs_generation s) r"
    and "map or_turnId ((cs_outbox s)[i := r]) = map or_turnId (cs_outbox s)"
    by (simp_all add: map_update list_update_same_conv len)
  with assms(1) show ?thesis
    unfolding coord_inv_def s' by (simp add: list_all_update)
qed

lemma record_ok_replace: "record_ok g r \<Longrightarrow> record_ok (g + 1) (replace_record (g + 1) r)"
  by (auto simp: record_ok_def replace_record_def)

lemma replace_record_turnId [simp]: "or_turnId (replace_record g r) = or_turnId r"
  by (simp add: replace_record_def)

lemma map_of_append_new: "k \<notin> set (map fst xs) \<Longrightarrow> map_of (xs @ [(k, v)]) k = Some v"
  by (simp add: map_of_append map_add_def map_of_eq_None_iff [THEN iffD2] split: option.splits)

lemma turn_ok_extend: "turn_ok seen t \<Longrightarrow> turn_ok (seen @ ys) t"
  by (auto simp: turn_ok_def map_add_def)

lemma suffix_snoc:
  assumes "drop (length xs - length ts) (map fst xs) = map f ts" and "fst x = f t"
  shows "drop (length (xs @ [x]) - length (ts @ [t])) (map fst (xs @ [x])) = map f (ts @ [t])"
proof -
  have "length ts \<le> length xs" using arg_cong [OF assms(1), of length] by simp
  then show ?thesis using assms by simp
qed

lemma open_turns_queue:
  "open_turns (s\<lparr>cs_queue := cs_queue s @ [t], cs_seen := sn\<rparr>) = open_turns s @ [t]"
  by (simp add: open_turns.simps split: option.split)

lemma enqueue_inv:
  assumes "coord_inv s" and "enqueueTurn digest s v = Inr (s', b, tid)"
  shows "coord_inv s'"
proof -
  from assms(2) obtain rq where rq: "parseSemanticTurnRequest v = Inr rq"
    by (auto simp: enqueueTurn_def res_simps)
  with assms(2) obtain d where d: "sha256 digest (enc_request rq) = Inr d"
    by (auto simp: enqueueTurn_def res_simps)
  show ?thesis
  proof (cases "map_of (cs_seen s) (fingerprint_of d)")
    case None
    define fp where "fp = fingerprint_of d"
    define t where "t = \<lparr>ct_turnId = turn_id_of fp, ct_fingerprint = fp, ct_request = rq, ct_recipeCheckpoint = None\<rparr>"
    define sn where "sn = cs_seen s @ [(fp, turn_id_of fp)]"
    from assms(2) None have s': "s' = s\<lparr>cs_queue := cs_queue s @ [t], cs_seen := sn\<rparr>"
      by (auto simp: enqueueTurn_def rq d Let_def t_def sn_def fp_def)
    from None have new: "fp \<notin> set (map fst (cs_seen s))" by (simp add: map_of_eq_None_iff fp_def)
    have "turn_ok sn t"
      using parse_request_wf [OF rq] map_of_append_new [OF new] by (simp add: turn_ok_def t_def sn_def)
    moreover have "list_all (turn_ok sn) (open_turns s)"
      using assms(1) by (auto simp: coord_inv_def list_all_iff sn_def intro: turn_ok_extend)
    moreover have "drop (length sn - length (open_turns s')) (map fst sn) = map ct_fingerprint (open_turns s')"
      using assms(1) suffix_snoc [of "cs_seen s" "open_turns s" ct_fingerprint "(fp, turn_id_of fp)" t]
      unfolding s' open_turns_queue by (simp add: coord_inv_def sn_def t_def)
    ultimately show ?thesis using assms(1) new open_turns_queue [where s = s and t = t and sn = sn]
      unfolding coord_inv_def s' by (simp add: sn_def)
  qed (use assms in \<open>simp add: enqueueTurn_def rq d\<close>)
qed

lemma start_inv:
  assumes "coord_inv s" and "startNextTurn s = Inr (s', t)"
  shows "coord_inv s'"
  using assms by (auto simp: startNextTurn_def coord_inv_def open_turns.simps split: if_splits list.splits)

lemma drop_tail: "drop (n - Suc m) xs = y # ys \<Longrightarrow> n = length xs \<Longrightarrow> length ys = m \<Longrightarrow> drop (n - m) xs = ys"
  by (metis Suc_diff_Suc Suc_le_eq diff_le_self drop_Suc drop_eq_Nil le_add_diff_inverse length_Cons length_drop
      list.distinct(1) list.sel(3) not_less_eq_eq tl_drop diff_diff_cancel nle_le)

lemma complete_inv:
  assumes "coord_inv s" and "completeActiveTurn s = Inr s'"
  shows "coord_inv s'"
proof -
  from assms(2) obtain a where a: "cs_activeTurn s = Some a" and s': "s' = s\<lparr>cs_activeTurn := None\<rparr>"
    by (auto simp: completeActiveTurn_def split: option.splits if_splits)
  have "drop (length (cs_seen s) - Suc (length (cs_queue s))) (map fst (cs_seen s))
      = ct_fingerprint a # map ct_fingerprint (cs_queue s)"
    using assms(1) by (simp add: coord_inv_def open_turns.simps a)
  from drop_tail [OF this] have "drop (length (cs_seen s) - length (cs_queue s)) (map fst (cs_seen s))
      = map ct_fingerprint (cs_queue s)" by simp
  then show ?thesis using assms(1) by (simp add: coord_inv_def open_turns.simps s' a)
qed

lemma checkpoint_inv:
  assumes "coord_inv s" and "checkpointProviderTurn digest s t c d = Inr (s', r)"
  shows "coord_inv s'"
  using assms
  by (auto simp: checkpointProviderTurn_def coord_inv_def res_simps Let_def turn_ok_def record_ok_def
      valid_generation_def list_ex_iff open_turns.simps split: option.splits if_splits) blast

lemma replace_inv:
  assumes "coord_inv s" and "replaceCoordinatorGeneration s = Inr s'"
  shows "coord_inv s'"
  using assms
  by (auto simp: replaceCoordinatorGeneration_def coord_inv_def res_simps Let_def
      list_all_iff comp_def intro!: record_ok_replace)

lemma coord_step_inv: "coord_inv s \<Longrightarrow> coord_step digest s x = Inr s' \<Longrightarrow> coord_inv s'"
proof (cases x)
  case (OpEnqueue v)
  assume "coord_inv s" "coord_step digest s x = Inr s'"
  with OpEnqueue show ?thesis by (auto simp: res_simps intro: enqueue_inv)
next
  case OpStart
  assume "coord_inv s" "coord_step digest s x = Inr s'"
  with OpStart show ?thesis by (auto simp: res_simps intro: start_inv)
next
  case (OpCheckpoint t c d)
  assume "coord_inv s" "coord_step digest s x = Inr s'"
  with OpCheckpoint show ?thesis by (auto simp: res_simps intro: checkpoint_inv)
next
  case OpReplace
  assume "coord_inv s" "coord_step digest s x = Inr s'"
  with OpReplace show ?thesis by (auto intro: replace_inv)
next
  case OpComplete
  assume "coord_inv s" "coord_step digest s x = Inr s'"
  with OpComplete show ?thesis by (auto intro: complete_inv)
qed (auto simp: markOutboxDispatching_def markOutboxAccepted_def markOutboxSettled_def handleOutboxFailure_def
      res_simps record_ok_def record_ops split: if_splits elim!: updateOutbox_inv [rotated])

lemma create_inv: "createCoordinatorState i p g = Inr s \<Longrightarrow> coord_inv s"
  by (auto simp: createCoordinatorState_def res_simps contract_inv coord_inv_def open_turns.simps)

section \<open>What no operation undoes\<close>

definition record_below :: "outbox_record \<Rightarrow> outbox_record \<Rightarrow> bool" where
  "record_below r q = (or_requestId q = or_requestId r \<and> or_turnId q = or_turnId r
     \<and> or_payloadDigest q = or_payloadDigest r \<and> or_generation r \<le> or_generation q
     \<and> or_dispatchAttempts r \<le> or_dispatchAttempts q
     \<and> (or_state r \<in> {ObSettled, ObIndeterminate} \<longrightarrow> q = r))"

text \<open>
  The order in which states move: the session stays, the generation grows, requests once seen
  stay, outbox records stay at their place with their identity, and a settled or indeterminate
  record never changes again.
\<close>

definition coord_below :: "coordinator_state \<Rightarrow> coordinator_state \<Rightarrow> bool" where
  "coord_below s t = (cs_sessionId t = cs_sessionId s \<and> cs_projectId t = cs_projectId s
     \<and> cs_generation s \<le> cs_generation t
     \<and> take (length (cs_seen s)) (cs_seen t) = cs_seen s
     \<and> length (cs_outbox s) \<le> length (cs_outbox t)
     \<and> list_all2 record_below (cs_outbox s) (take (length (cs_outbox s)) (cs_outbox t)))"

lemma record_below_refl: "record_below r r"
  by (simp add: record_below_def)

lemma record_below_trans: "record_below r q \<Longrightarrow> record_below q p \<Longrightarrow> record_below r p"
  by (auto simp: record_below_def)

lemma coord_below_refl: "coord_below s s"
  by (simp add: coord_below_def list.rel_refl record_below_refl)

lemma take_prefix_trans:
  "take (length xs) ys = xs \<Longrightarrow> take (length ys) zs = ys \<Longrightarrow> take (length xs) zs = xs"
  by (metis length_take min.cobounded1 min_absorb1 take_take nle_le min.commute)

lemma coord_below_trans:
  assumes "coord_below s t" and "coord_below t u"
  shows "coord_below s u"
proof -
  let ?n = "length (cs_outbox s)"
  from assms have len: "?n \<le> length (cs_outbox t)" "length (cs_outbox t) \<le> length (cs_outbox u)"
    by (simp_all add: coord_below_def)
  have "record_below (cs_outbox s ! i) (cs_outbox u ! i)" if i: "i < ?n" for i
  proof -
    have "record_below (cs_outbox s ! i) (cs_outbox t ! i)"
      using assms(1) i len by (auto simp: coord_below_def list_all2_conv_all_nth)
    moreover have "record_below (cs_outbox t ! i) (cs_outbox u ! i)"
      using assms(2) i len by (auto simp: coord_below_def list_all2_conv_all_nth)
    ultimately show ?thesis by (rule record_below_trans)
  qed
  then have "list_all2 record_below (cs_outbox s) (take ?n (cs_outbox u))"
    using len by (simp add: list_all2_conv_all_nth)
  moreover have "take (length (cs_seen s)) (cs_seen u) = cs_seen s"
    using assms take_prefix_trans by (auto simp: coord_below_def)
  ultimately show ?thesis using assms len by (simp add: coord_below_def)
qed

lemma updateOutbox_below:
  assumes "updateOutbox s rid g f = Inr s'" and "\<And>r r'. f r = Inr r' \<Longrightarrow> record_below r r'"
  shows "coord_below s s'"
proof -
  from assms(1) obtain i r where r: "f (cs_outbox s ! i) = Inr r" and s': "s' = s\<lparr>cs_outbox := (cs_outbox s)[i := r]\<rparr>"
    by (auto simp: updateOutbox_Inr)
  have "record_below (cs_outbox s ! j) ((cs_outbox s)[i := r] ! j)" if "j < length (cs_outbox s)" for j
    using that assms(2) [OF r] by (cases "i = j") (auto simp: record_below_refl)
  then show ?thesis by (simp add: coord_below_def s' list_all2_conv_all_nth)
qed

lemma coord_step_below:
  assumes "coord_inv s" and "coord_step digest s x = Inr s'"
  shows "coord_below s s'"
proof (cases x)
  case OpReplace
  have "list_all2 record_below (cs_outbox s) (map (replace_record (cs_generation s + 1)) (cs_outbox s))"
    using assms(1)
    by (auto simp: list_all2_conv_all_nth coord_inv_def list_all_length record_ok_def replace_record_def
        record_below_def)
  with assms(2) OpReplace show ?thesis
    by (auto simp: replaceCoordinatorGeneration_def Let_def res_simps coord_below_def)
next
  case (OpEnqueue v)
  with assms(2) show ?thesis
    by (auto simp: res_simps enqueueTurn_def Let_def coord_below_def list.rel_refl record_below_refl
        split: option.splits)
next
  case OpStart
  with assms(2) show ?thesis
    by (auto simp: res_simps startNextTurn_def coord_below_def list.rel_refl record_below_refl
        split: list.splits if_splits)
next
  case (OpCheckpoint t c d)
  with assms(2) show ?thesis
    by (auto simp: res_simps checkpointProviderTurn_def Let_def coord_below_def list.rel_refl record_below_refl
        split: option.splits if_splits)
next
  case OpComplete
  with assms(2) show ?thesis
    by (auto simp: completeActiveTurn_def coord_below_def list.rel_refl record_below_refl
        split: option.splits if_splits)
qed (insert assms(2), auto simp: markOutboxDispatching_def markOutboxAccepted_def markOutboxSettled_def
      handleOutboxFailure_def res_simps record_below_def record_ops split: if_splits elim!: updateOutbox_below)

interpretation coordinator: monotone_machine "coord_step digest" coord_inv coord_below for digest
  by unfold_locales
    (auto intro: coord_step_inv coord_step_below coord_below_refl coord_below_trans)

section \<open>Turns whose request is lost\<close>

definition stuck_on :: "string \<Rightarrow> coordinator_state \<Rightarrow> bool" where
  "stuck_on turnId s = (map_option ct_turnId (cs_activeTurn s) = Some turnId
     \<and> list_ex (\<lambda>r. or_turnId r = turnId \<and> or_state r = ObIndeterminate) (cs_outbox s))"

lemma below_keeps_indeterminate:
  assumes "coord_below s t" and "r \<in> set (cs_outbox s)" and "or_state r = ObIndeterminate"
  shows "r \<in> set (cs_outbox t)"
proof -
  from assms(2) obtain i where i: "i < length (cs_outbox s)" "r = cs_outbox s ! i" by (metis in_set_conv_nth)
  with assms(1) have "record_below r (cs_outbox t ! i)" and "i < length (cs_outbox t)"
    by (auto simp: coord_below_def list_all2_conv_all_nth)
  with assms(3) show ?thesis by (auto simp: record_below_def)
qed

lemma updateOutbox_active: "updateOutbox s rid g f = Inr s' \<Longrightarrow> cs_activeTurn s' = cs_activeTurn s"
  by (auto simp: updateOutbox_Inr)

lemma stuck_step:
  assumes "coord_inv s" and "stuck_on tid s" and "coord_step digest s x = Inr s'"
  shows "stuck_on tid s'"
proof -
  obtain a r where a: "cs_activeTurn s = Some a" "ct_turnId a = tid"
    and r: "r \<in> set (cs_outbox s)" "or_turnId r = tid" "or_state r = ObIndeterminate"
    using assms(2) by (auto simp: stuck_on_def list_ex_iff)
  have "r \<in> set (cs_outbox s')"
    using coord_step_below [OF assms(1,3)] r(1,3) by (rule below_keeps_indeterminate)
  moreover have "map_option ct_turnId (cs_activeTurn s') = Some tid"
    using assms(3) a r
    by (cases x) (auto simp: res_simps enqueueTurn_def startNextTurn_def checkpointProviderTurn_def
        completeActiveTurn_def replaceCoordinatorGeneration_def markOutboxDispatching_def
        markOutboxAccepted_def markOutboxSettled_def handleOutboxFailure_def Let_def
        list_ex_iff split: option.splits if_splits dest: updateOutbox_active)
  ultimately show ?thesis using r by (auto simp: stuck_on_def list_ex_iff)
qed

interpretation stuck: invariant_machine "coord_step digest" "\<lambda>s. coord_inv s \<and> stuck_on tid s" for digest tid
  by unfold_locales (auto intro: coord_step_inv stuck_step)

text \<open>The only way back from in flight to the queue.\<close>

lemma requeue_step:
  assumes "coord_step digest s x = Inr s'" and "i < length (cs_outbox s)"
    and "or_state (cs_outbox s ! i) \<in> {ObDispatching, ObAccepted}" and "or_state (cs_outbox s' ! i) = ObQueued"
  shows "\<exists>rid e. x = OpFail rid (cs_generation s) e
     \<and> (fe_conclusivelyRejected e \<or> fe_providerIdempotencyProven e) \<and> or_requestId (cs_outbox s ! i) = rid"
proof (cases x)
  case (OpFail rid g e)
  with assms(1) have "handleOutboxFailure s rid g e = Inr s'" by simp
  then obtain j r where j: "findIndex (\<lambda>r. or_requestId r = rid) (cs_outbox s) = Some j"
    and g: "g = cs_generation s" and s': "s' = s\<lparr>cs_outbox := (cs_outbox s)[j := r]\<rparr>"
    and f: "fail_record e (cs_outbox s ! j) = Inr r"
    unfolding handleOutboxFailure_def updateOutbox_Inr by blast
  from f have r: "or_state r = ObQueued \<Longrightarrow> fe_conclusivelyRejected e \<or> fe_providerIdempotencyProven e"
    by (auto simp: fail_record_def split: if_splits)
  have "j = i" using assms(3,4) s' by (cases "j = i") auto
  with findIndex_Some [OF j] g r assms(4) s' OpFail show ?thesis by auto
qed (use assms in \<open>auto simp: res_simps enqueueTurn_def startNextTurn_def checkpointProviderTurn_def
        completeActiveTurn_def replaceCoordinatorGeneration_def replace_record_def markOutboxDispatching_def
        markOutboxAccepted_def markOutboxSettled_def updateOutbox_Inr record_ops Let_def nth_append nth_update_any
        split: option.splits if_splits list.splits\<close>)

section \<open>Checkpoints\<close>

text \<open>A state whose object is JSON: no field was set to \<open>undefined\<close>, and the checkpoint is JSON.\<close>

definition serializable :: "coordinator_state \<Rightarrow> bool" where
  "serializable s = (list_all (\<lambda>r. or_providerRequestId r \<noteq> Undefined \<and> or_responseDigest r \<noteq> Undefined) (cs_outbox s)
     \<and> list_all (\<lambda>t. case ct_recipeCheckpoint t of None \<Rightarrow> True | Some c \<Rightarrow> is_json c) (open_turns s))"

lemma enc_turn_json:
  "wf_request (ct_request t) \<Longrightarrow> (case ct_recipeCheckpoint t of None \<Rightarrow> True | Some c \<Rightarrow> is_json c) \<Longrightarrow> is_json (enc_turn t)"
  by (auto simp: enc_turn_def enc_request_json split: option.splits)

lemma enc_outbox_json:
  "or_providerRequestId r \<noteq> Undefined \<Longrightarrow> or_responseDigest r \<noteq> Undefined \<Longrightarrow> is_json (enc_outbox r)"
  by (cases "or_providerRequestId r"; cases "or_responseDigest r") (auto simp: enc_outbox_def)

lemma enc_state_json:
  assumes "coord_inv s" and "serializable s"
  shows "is_json (enc_state s)"
proof -
  have t: "is_json (enc_turn t)" if "t \<in> set (open_turns s)" for t
    using assms that by (intro enc_turn_json) (auto simp: coord_inv_def serializable_def list_all_iff turn_ok_def)
  have r: "is_json (enc_outbox r)" if "r \<in> set (cs_outbox s)" for r
    using assms(2) that by (intro enc_outbox_json) (auto simp: serializable_def list_all_iff)
  have "is_json (JObj (map (\<lambda>e. (fst e, JStr (snd e))) (cs_seen s)))"
    using assms(1) by (auto simp: coord_inv_def is_json_members_iff comp_def)
  then show ?thesis using t r
    by (cases "cs_activeTurn s") (auto simp: enc_state_def is_json_list_iff open_turns.simps)
qed

lemma sort_key_idem: "sort_key f (sort_key f xs) = sort_key f xs"
  by (rule sort_key_id_if_sorted) simp

lemma sort_json_idem [simp]: "sort_json (sort_json v) = sort_json v"
proof (induction v)
  case (JArr vs)
  then show ?case by (simp add: sort_json_list_map)
next
  case (JObj kvs)
  let ?s = "\<lambda>kv. (fst kv, sort_json (snd kv))"
  have "map ?s (map ?s kvs) = map ?s kvs" using JObj by (auto simp: comp_def)
  moreover have "map ?s (sort_key fst (map ?s kvs)) = sort_key fst (map ?s (map ?s kvs))"
    by (rule map_sort_key) simp
  ultimately have "map ?s (sort_key fst (map ?s kvs)) = sort_key fst (map ?s kvs)" by (simp only:)
  then show ?case by (simp add: sort_json_members_map sort_key_idem)
qed auto

lemma sort_obj_put:
  "map_of kvs k = Some w \<Longrightarrow> sort_json w = sort_json v \<Longrightarrow>
     sort_json_members (obj_put kvs k v) = sort_json_members kvs"
  by (induction kvs k v rule: obj_put.induct) (auto split: if_splits)

lemma restore_turn_sorted:
  assumes "is_json (enc_turn t)" and "wf_request (ct_request t)"
  shows "\<exists>u. restore_turn (sort_json (enc_turn t)) = Inr u \<and> sort_json u = sort_json (enc_turn t)"
proof -
  obtain kvs where kvs: "enc_turn t = JObj kvs" and q: "get_prop kvs ''request'' = enc_request (ct_request t)"
    by (simp add: enc_turn_def get_prop_def)
  let ?c = "sort_key fst (sort_json_members kvs)"
  from assms(1) kvs have "distinct (map fst kvs)" by simp
  from get_prop_sorted [OF this, of "''request''"]
  have g: "get_prop ?c ''request'' = sort_json (enc_request (ct_request t))" by (simp add: q)
  have p: "parseSemanticTurnRequest (sort_json (enc_request (ct_request t))) = Inr (ct_request t)"
    using parse_request_order [OF enc_request_json] parse_request_enc assms(2) by simp
  have "map_of ?c ''request'' = Some (sort_json (enc_request (ct_request t)))"
    using g by (auto simp: get_prop_def enc_request_def split: option.splits)
  from sort_obj_put [OF this] have "sort_json (JObj (obj_put ?c ''request'' (enc_request (ct_request t)))) = sort_json (JObj ?c)"
    by simp
  then show ?thesis using sort_json_idem [of "JObj kvs"] by (simp add: kvs restore_turn_def g p)
qed

lemma outbox_state_name_in: "outbox_state_name st \<in> set outbox_state_names"
  by (cases st) (auto simp: outbox_state_names_def)

lemma restore_outbox_sorted:
  assumes "is_json (enc_outbox r)"
  shows "restore_outbox (sort_json (enc_outbox r)) = Inr (sort_json (enc_outbox r))"
proof -
  obtain kvs where kvs: "enc_outbox r = JObj kvs"
    and f: "get_prop kvs ''requestId'' = JStr (or_requestId r)" "get_prop kvs ''turnId'' = JStr (or_turnId r)"
      "get_prop kvs ''state'' = JStr (outbox_state_name (or_state r))"
    by (simp add: enc_outbox_def get_prop_def)
  from assms kvs have d: "distinct (map fst kvs)" by simp
  show ?thesis
    using outbox_state_name_in by (simp add: kvs restore_outbox_def get_prop_sorted [OF d] f)
qed

lemma mapR_sorted:
  assumes "\<And>x. x \<in> set xs \<Longrightarrow> \<exists>u. f (sort_json (e x)) = Inr u \<and> sort_json u = sort_json (e x)"
  shows "\<exists>us. map_array f (sort_json (JArr (map e xs))) = Inr us \<and> sort_json (JArr us) = sort_json (JArr (map e xs))"
  using assms
proof (induction xs)
  case (Cons x xs)
  then obtain u us where "f (sort_json (e x)) = Inr u" "sort_json u = sort_json (e x)"
    and "map_array f (sort_json (JArr (map e xs))) = Inr us" "sort_json (JArr us) = sort_json (JArr (map e xs))"
    by (meson list.set_intros)
  then show ?case by (auto simp: map_array_def)
qed (simp add: map_array_def)

lemma restore_seen_sorted:
  fixes sn :: "(string \<times> string) list"
  defines "S \<equiv> JObj (map (\<lambda>e. (fst e, JStr (snd e))) sn)"
  shows "\<exists>es. mapR restore_seen_entry (entries_of (sort_json S)) = Inr es \<and> sort_json (JObj es) = sort_json S"
proof -
  let ?es = "sort_key fst (map (\<lambda>e. (fst e, JStr (snd e))) sn)"
  have S: "sort_json S = JObj ?es"
    by (simp add: S_def sort_json_members_map comp_def)
  have "mapR restore_seen_entry ?es = Inr (map id ?es)"
    by (rule mapR_all_Inr) (auto simp: restore_seen_entry_def)
  then show ?thesis using sort_json_idem [of S] S by simp
qed

lemma restore_serialized:
  assumes "coord_inv s" and "serializable s"
  shows "\<exists>r. bindR (serializeCoordinatorState s) restoreCoordinatorState = Inr r
     \<and> sort_json r = sort_json (enc_state s)"
proof -
  obtain kvs where S: "enc_state s = JObj kvs" by (simp add: enc_state_def)
  have f: "get_prop kvs ''schemaVersion'' = JNum 1" "get_prop kvs ''sessionId'' = JStr (cs_sessionId s)"
      "get_prop kvs ''projectId'' = JStr (cs_projectId s)" "get_prop kvs ''generation'' = JNum (cs_generation s)"
      "get_prop kvs ''queue'' = JArr (map enc_turn (cs_queue s))"
      "get_prop kvs ''seen'' = JObj (map (\<lambda>e. (fst e, JStr (snd e))) (cs_seen s))"
      "get_prop kvs ''outbox'' = JArr (map enc_outbox (cs_outbox s))"
      "get_prop kvs ''activeTurn'' = (case cs_activeTurn s of None \<Rightarrow> JUndef | Some t \<Rightarrow> enc_turn t)"
    using S by (cases "cs_activeTurn s"; auto simp: enc_state_def get_prop_def)+
  have ks: "set (map fst kvs) = set ([''schemaVersion'', ''sessionId'', ''projectId'', ''generation'',
      ''queue'', ''seen'', ''outbox''] @ (if cs_activeTurn s = None then [] else [''activeTurn'']))"
    using S [symmetric] by (cases "cs_activeTurn s") (simp_all add: enc_state_def insert_commute)
  have j: "is_json (JObj kvs)" using enc_state_json [OF assms] S by simp
  then have d: "distinct (map fst kvs)" by simp
  have wf_turn: "is_json (enc_turn t) \<and> wf_request (ct_request t)" if "t \<in> set (open_turns s)" for t
    using assms that by (auto simp: coord_inv_def serializable_def list_all_iff turn_ok_def intro!: enc_turn_json)
  have turn: "\<exists>u. restore_turn (sort_json (enc_turn t)) = Inr u \<and> sort_json u = sort_json (enc_turn t)"
    if "t \<in> set (open_turns s)" for t
    using restore_turn_sorted wf_turn [OF that] by blast
  have queue_open: "set (cs_queue s) \<subseteq> set (open_turns s)"
    by (auto simp: open_turns.simps split: option.split)
  obtain q where q: "map_array restore_turn (sort_json (JArr (map enc_turn (cs_queue s)))) = Inr q"
      "sort_json (JArr q) = sort_json (JArr (map enc_turn (cs_queue s)))"
    using mapR_sorted [of "cs_queue s" restore_turn enc_turn, OF turn [OF subsetD [OF queue_open]]] by blast
  have outbox: "\<exists>u. restore_outbox (sort_json (enc_outbox r)) = Inr u \<and> sort_json u = sort_json (enc_outbox r)"
    if "r \<in> set (cs_outbox s)" for r
    using assms(2) that by (simp add: serializable_def list_all_iff restore_outbox_sorted enc_outbox_json)
  obtain ob where ob: "map_array restore_outbox (sort_json (JArr (map enc_outbox (cs_outbox s)))) = Inr ob"
      "sort_json (JArr ob) = sort_json (JArr (map enc_outbox (cs_outbox s)))"
    using mapR_sorted [of "cs_outbox s" restore_outbox enc_outbox, OF outbox] by blast
  obtain es where es: "mapR restore_seen_entry (entries_of (sort_json (JObj (map (\<lambda>e. (fst e, JStr (snd e))) (cs_seen s))))) = Inr es"
      "sort_json (JObj es) = sort_json (JObj (map (\<lambda>e. (fst e, JStr (snd e))) (cs_seen s)))"
    using restore_seen_sorted by blast
  obtain act where act: "(if falsy (sort_json (get_prop kvs ''activeTurn'')) then Inr []
        else bindR (restore_turn (sort_json (get_prop kvs ''activeTurn''))) (\<lambda>t. Inr [(''activeTurn'', t)])) = Inr act"
      "sort_json_members act = (if cs_activeTurn s = None then []
         else [(''activeTurn'', sort_json (get_prop kvs ''activeTurn''))])"
  proof (cases "cs_activeTurn s")
    case None
    then show ?thesis using that [of "[]"] f(8) by (simp add: falsy_def)
  next
    case (Some t)
    then have t: "t \<in> set (open_turns s)" by (simp add: open_turns.simps)
    from turn [OF t] obtain u where u: "restore_turn (sort_json (enc_turn t)) = Inr u" "sort_json u = sort_json (enc_turn t)"
      by blast
    have "\<not> falsy (sort_json (enc_turn t))" by (simp add: enc_turn_def falsy_def)
    with Some u f(8) show ?thesis using that [of "[(''activeTurn'', u)]"] by simp
  qed
  let ?c = "sort_key fst (sort_json_members kvs)"
  let ?r = "[(''schemaVersion'', JNum 1), (''sessionId'', JStr (cs_sessionId s)), (''projectId'', JStr (cs_projectId s)),
      (''generation'', JNum (cs_generation s)), (''queue'', JArr q), (''seen'', JObj es), (''outbox'', JArr ob)] @ act"
  have parsed: "bindR (serializeCoordinatorState s) JSON_parse = Inr (JObj ?c)"
    using canonical_parses [OF enc_state_json [OF assms]] S by (simp add: serializeCoordinatorState_def)
  have ids: "valid_identifier (cs_sessionId s)" "valid_id ''prj_'' (cs_projectId s)" "valid_generation (cs_generation s)"
    using assms(1) by (simp_all add: coord_inv_def)
  have "restoreCoordinatorState (stringify (sort_json (enc_state s))) = Inr (JObj ?r)"
    using parsed canonical_stringify [OF enc_state_json [OF assms]]
    by (simp add: restoreCoordinatorState_def serializeCoordinatorState_def get_prop_sorted [OF d] f(1-7)
        act(1) q(1) es(1) ob(1) assertIdentifier_def assertGeneration_def ids projectId_def
        del: sort_json.simps(1,2))
  moreover have "sort_json (JObj kvs) = sort_json (JObj ?r)"
    by (rule sort_json_fields [OF j ks])
      (use act(2) q(2) es(2) ob(2) in \<open>simp_all add: f(1-7) del: sort_json.simps(1,2)\<close>)
  ultimately show ?thesis
    using canonical_stringify [OF enc_state_json [OF assms]] S
    by (simp add: serializeCoordinatorState_def del: sort_json.simps(2))
qed

lemma requeued_not_json:
  assumes "handleOutboxFailure s rid g e = Inr s'" and "fe_conclusivelyRejected e \<or> fe_providerIdempotencyProven e"
  shows "\<exists>r \<in> set (cs_outbox s'). or_providerRequestId r = Undefined"
proof -
  from assms(1) obtain i r where i: "findIndex (\<lambda>r. or_requestId r = rid) (cs_outbox s) = Some i"
    and f: "fail_record e (cs_outbox s ! i) = Inr r" and s': "s' = s\<lparr>cs_outbox := (cs_outbox s)[i := r]\<rparr>"
    by (auto simp: handleOutboxFailure_def updateOutbox_Inr)
  from f assms(2) have r: "or_providerRequestId r = Undefined" by (auto simp: fail_record_def split: if_splits)
  from findIndex_Some [OF i] have "r \<in> set ((cs_outbox s)[i := r])" by (simp add: set_update_memI)
  with r s' show ?thesis by auto
qed

text \<open>Canonical text exists only without \<open>undefined\<close> on the way to it.\<close>

lemma canonical_arr_elem: "canonical (JArr vs) = Inr t \<Longrightarrow> v \<in> set vs \<Longrightarrow> \<exists>u. canonical v = Inr u"
proof -
  assume "canonical (JArr vs) = Inr t" and v: "v \<in> set vs"
  then obtain ts where "mapR canonical vs = Inr ts" by (auto simp: res_simps)
  then show ?thesis using v by (induction vs arbitrary: ts) (auto simp: res_simps)
qed

lemma canonical_obj_elem: "canonical (JObj kvs) = Inr t \<Longrightarrow> (k, v) \<in> set kvs \<Longrightarrow> \<exists>u. canonical v = Inr u"
proof -
  let ?f = "\<lambda>kv. bindR (canonical (snd kv)) (\<lambda>t. Inr (quote_str (fst kv) @ '':'' @ t))"
  have entry: "\<exists>t. canonical (snd kv) = Inr t" if "mapR ?f xs = Inr ts" "kv \<in> set xs" for kv xs ts
    using that by (induction xs arbitrary: ts) (auto simp: res_simps)
  assume "canonical (JObj kvs) = Inr t" and kv: "(k, v) \<in> set kvs"
  then obtain ts where "mapR ?f (sort_key fst kvs) = Inr ts" by (auto simp: res_simps)
  from entry [OF this, of "(k, v)"] kv show ?thesis by simp
qed

lemma canonical_undef:
  assumes "r \<in> set (cs_outbox s)" and "or_providerRequestId r = Undefined"
  shows "canonical (enc_state s) \<noteq> Inr t"
proof
  assume t: "canonical (enc_state s) = Inr t"
  obtain u where u: "canonical (JArr (map enc_outbox (cs_outbox s))) = Inr u"
    using canonical_obj_elem [OF t [unfolded enc_state_def], of "''outbox''" "JArr (map enc_outbox (cs_outbox s))"]
    by (auto simp del: canonical.simps)
  obtain w where w: "canonical (enc_outbox r) = Inr w"
    using canonical_arr_elem [OF u, of "enc_outbox r"] assms(1) by (auto simp del: canonical.simps)
  obtain z where "canonical JUndef = Inr z"
    using canonical_obj_elem [OF w [unfolded enc_outbox_def], of "''providerRequestId''" JUndef] assms(2)
    by (auto simp del: canonical.simps)
  then show False by simp
qed

section \<open>Properties\<close>

text \<open>A sample state: one active turn whose request is in flight.\<close>

definition sample_request :: turn_request where
  "sample_request = \<lparr>tr_mode = JStr ''prompt'', tr_objective = ''go'',
     tr_disclosed = \<lparr>di_selectionIds = [], di_documentIds = [], di_observationIds = []\<rparr>\<rparr>"

definition sample_record :: outbox_record where
  "sample_record = \<lparr>or_requestId = ''out_1'', or_turnId = ''turn_1'', or_generation = 1,
     or_payloadDigest = ''sha256:p'', or_state = ObDispatching, or_dispatchAttempts = 1,
     or_providerRequestId = Absent, or_responseDigest = Absent\<rparr>"

definition sample_state :: coordinator_state where
  "sample_state = \<lparr>cs_sessionId = ''ses'', cs_projectId = ''prj_a'', cs_generation = 1, cs_queue = [],
     cs_activeTurn = Some \<lparr>ct_turnId = ''turn_1'', ct_fingerprint = ''sha256:f'', ct_request = sample_request,
       ct_recipeCheckpoint = None\<rparr>,
     cs_seen = [(''sha256:f'', ''turn_1'')], cs_outbox = [sample_record]\<rparr>"

lemma sample_state_inv: "coord_inv sample_state"
  by (simp add: coord_inv_def sample_state_def sample_record_def sample_request_def valid_identifier_def
      valid_id_def id_suffix_def alnum_def id_char_def startsWith_def valid_generation_def open_turns.simps
      turn_ok_def wf_request_def wf_disclosed_def turn_modes_def record_ok_def valid_digest_def)

lemma sample_failure:
  "handleOutboxFailure sample_state ''out_1'' 1 e = bindR (fail_record e sample_record)
     (\<lambda>r. Inr (sample_state\<lparr>cs_outbox := [r]\<rparr>))"
  by (simp add: handleOutboxFailure_def updateOutbox_def assertGeneration_def valid_generation_def
      sample_state_def sample_record_def)

text \<open>C15: the coordinator keeps its invariant from creation on, whatever operations its client issues
  and whichever of them fail: turns are started in the order in which their requests were first
  seen, no request is queued twice, there is at most one outbox record per turn, a queued or
  in-flight record belongs to the current generation, an accepted record carries the provider's
  identifier and a settled one its response digest.\<close>

theorem coordinator_invariant:
  "createCoordinatorState sessionId project generation = Inr s \<Longrightarrow>
     coord_inv (exec_ops (coord_step digest) s ops)"
  by (rule coordinator.exec_inv [OF create_inv])

theorem coordinator_invariant_witness:
  "\<exists>s. createCoordinatorState ''ses'' (JStr ''prj_a'') 1 = Inr s
     \<and> coord_inv (exec_ops (coord_step (\<lambda>_. [1])) s [OpEnqueue (enc_request sample_request), OpStart, OpReplace])"
proof -
  obtain s where s: "createCoordinatorState ''ses'' (JStr ''prj_a'') 1 = Inr s"
    by (simp add: createCoordinatorState_def assertIdentifier_def assertGeneration_def valid_identifier_def
        valid_generation_def projectId_def valid_id_def id_suffix_def alnum_def id_char_def startsWith_def)
  with coordinator_invariant [OF s] show ?thesis by blast
qed

text \<open>No operation undoes what is recorded. The session and the project stay, the generation never
  decreases, a request once seen stays seen, an outbox record stays at its place with its request,
  turn and payload, its number of dispatch attempts never decreases, and a record that is settled
  or indeterminate never changes again: such a request is never sent another time.\<close>

theorem coordinator_monotone:
  "coord_inv s \<Longrightarrow> coord_below s (exec_ops (coord_step digest) s ops)"
  by (rule coordinator.exec_below)

theorem coordinator_monotone_witness:
  "coord_below sample_state (exec_ops (coord_step (\<lambda>_. [1])) sample_state [OpReplace, OpComplete, OpDispatch ''out_1'' 2])"
  by (rule coordinator_monotone [OF sample_state_inv])



text \<open>A turn whose request became indeterminate stays the active turn under every sequence of
  operations: it cannot be completed, no other turn can start, and no second request is created
  for it. Only a decision outside the coordinator resolves it.\<close>

theorem indeterminate_turn_stays_active:
  assumes "coord_inv s" and "stuck_on turnId s"
  shows "stuck_on turnId (exec_ops (coord_step digest) s ops)"
  using stuck.exec_inv [of s turnId digest ops] assms by simp

theorem indeterminate_turn_stays_active_witness:
  "\<exists>s. replaceCoordinatorGeneration sample_state = Inr s
     \<and> stuck_on ''turn_1'' (exec_ops (coord_step (\<lambda>_. [])) s [OpComplete, OpStart, OpReplace])"
proof -
  obtain s where s: "replaceCoordinatorGeneration sample_state = Inr s" and stuck: "stuck_on ''turn_1'' s"
    by (simp add: replaceCoordinatorGeneration_def Let_def assertGeneration_def valid_generation_def
        stuck_on_def sample_state_def sample_record_def replace_record_def)
  from indeterminate_turn_stays_active [OF replace_inv [OF sample_state_inv s] stuck] s
  show ?thesis by blast
qed

text \<open>A checkpoint restores the state. Whenever a reachable state has no field set to
  \<open>undefined\<close> and JSON recipe checkpoints, serialising succeeds and restoring the text yields the
  same object up to the order of properties.\<close>

theorem checkpoint_round_trip:
  assumes "coord_inv s" and "serializable s"
  shows "\<exists>r. bindR (serializeCoordinatorState s) restoreCoordinatorState = Inr r
     \<and> sort_json r = sort_json (enc_state s)"
  by (rule restore_serialized [OF assms])

theorem checkpoint_round_trip_witness:
  "\<exists>r. bindR (serializeCoordinatorState sample_state) restoreCoordinatorState = Inr r
     \<and> sort_json r = sort_json (enc_state sample_state)"
  by (rule checkpoint_round_trip [OF sample_state_inv])
    (simp add: serializable_def sample_state_def sample_record_def open_turns.simps)

text \<open>After a failure with evidence the coordinator cannot be checkpointed. Requeuing sets the
  provider's identifier and the response digest to \<open>undefined\<close> instead of removing them, and the
  canonical serialisation throws on \<open>undefined\<close>.\<close>

theorem requeued_state_not_serializable:
  assumes "handleOutboxFailure s requestId generation e = Inr s'"
    and "fe_conclusivelyRejected e \<or> fe_providerIdempotencyProven e"
  shows "\<not> is_ok (serializeCoordinatorState s')"
proof -
  obtain r where r: "r \<in> set (cs_outbox s')" "or_providerRequestId r = Undefined"
    using requeued_not_json [OF assms] by blast
  show ?thesis
    using canonical_undef [OF r] by (auto simp: is_ok_iff serializeCoordinatorState_def)
qed

theorem requeued_state_not_serializable_witness:
  "\<exists>s'. handleOutboxFailure sample_state ''out_1'' 1
       \<lparr>fe_conclusivelyRejected = True, fe_providerIdempotencyProven = False\<rparr> = Inr s'
     \<and> coord_inv s' \<and> \<not> is_ok (serializeCoordinatorState s')"
proof -
  let ?e = "\<lparr>fe_conclusivelyRejected = True, fe_providerIdempotencyProven = False\<rparr>"
  obtain s' where s': "handleOutboxFailure sample_state ''out_1'' 1 ?e = Inr s'"
    by (simp add: sample_failure fail_record_def sample_record_def)
  have "coord_inv s'" using coord_step_inv [of sample_state "\<lambda>_. []" "OpFail ''out_1'' 1 ?e" s'] sample_state_inv s' by simp
  with s' requeued_state_not_serializable [OF s'] show ?thesis by simp
qed

end
