(* ===== verification/ExecGraph.thy ===== *)
theory ExecGraph
  imports Json
begin

text \<open>
  The execution graph of \<open>packages/3xhaustpi/src/execution-graph.ts\<close>: nodes that start and finish,
  the parser of events, the transition \<open>applyExecutionEvent\<close>, and the parser of a persisted
  graph, whose text is \<open>JSON.stringify\<close> of the graph. Durations are integers.
\<close>

section \<open>Data\<close>

datatype node_kind = RootNode | ToolNode | AgentNode

text \<open>A finished node has its duration and its summary.\<close>

datatype node_state = NodeRunning | NodeCompleted int string | NodeFailed int string

record execution_node =
  en_id :: string
  en_parentNodeId :: "string option"
  en_kind :: node_kind
  en_label :: string
  en_state :: node_state

record execution_graph =
  eg_runId :: string
  eg_nodes :: "execution_node list"
  eg_activeNodeIds :: "string list"

datatype execution_event =
    NodeStartedEvent string "string option" node_kind string
  | NodeCompletedEvent string bool int string

section \<open>Parsing\<close>

fun expectString :: "json \<Rightarrow> string \<Rightarrow> string res" where
  "expectString (JStr s) field = Inr s"
| "expectString v field = Inl (Error (''invalid execution '' @ field))"

fun expectDuration :: "json \<Rightarrow> int res" where
  "expectDuration (JNum n) = (if n < 0 then Inl (Error ''invalid execution durationMs'') else Inr n)"
| "expectDuration v = Inl (Error ''invalid execution durationMs'')"

definition expectKind :: "json \<Rightarrow> node_kind res" where
  "expectKind v = (if v = JStr ''root'' then Inr RootNode else if v = JStr ''tool'' then Inr ToolNode
     else if v = JStr ''agent'' then Inr AgentNode else Inl (Error ''invalid execution node kind''))"

definition expectParentNodeId :: "json \<Rightarrow> string option res" where
  "expectParentNodeId v = (if v = JUndef then Inr None
     else bindR (expectString v ''parentNodeId'') (\<lambda>p. Inr (Some p)))"

definition parseExecutionEvent :: "json \<Rightarrow> execution_event res" where
  "parseExecutionEvent value =
     (case value of
        JObj c \<Rightarrow>
          if get_prop c ''type'' = JStr ''node.started'' then
            bindR (expectString (get_prop c ''nodeId'') ''nodeId'') (\<lambda>i.
            bindR (expectParentNodeId (get_prop c ''parentNodeId'')) (\<lambda>p.
            bindR (expectKind (get_prop c ''kind'')) (\<lambda>k.
            bindR (expectString (get_prop c ''label'') ''label'') (\<lambda>l.
            Inr (NodeStartedEvent i p k l)))))
          else if get_prop c ''type'' = JStr ''node.completed'' then
            (case get_prop c ''success'' of
               JBool b \<Rightarrow>
                 bindR (expectString (get_prop c ''nodeId'') ''nodeId'') (\<lambda>i.
                 bindR (expectDuration (get_prop c ''durationMs'')) (\<lambda>d.
                 bindR (expectString (get_prop c ''summary'') ''summary'') (\<lambda>s.
                 Inr (NodeCompletedEvent i b d s))))
             | _ \<Rightarrow> Inl (Error ''invalid execution success''))
          else Inl (Error ''invalid execution event type'')
      | _ \<Rightarrow> Inl (Error ''invalid execution event''))"

definition parseExecutionNode :: "json \<Rightarrow> execution_node res" where
  "parseExecutionNode value =
     (case value of
        JObj c \<Rightarrow>
          bindR (expectString (get_prop c ''id'') ''node ID'') (\<lambda>i.
          bindR (expectParentNodeId (get_prop c ''parentNodeId'')) (\<lambda>p.
          bindR (expectKind (get_prop c ''kind'')) (\<lambda>k.
          bindR (expectString (get_prop c ''label'') ''node label'') (\<lambda>l.
          let node = (\<lambda>st. \<lparr>en_id = i, en_parentNodeId = p, en_kind = k, en_label = l, en_state = st\<rparr>) in
          if get_prop c ''state'' = JStr ''running'' then Inr (node NodeRunning)
          else if get_prop c ''state'' \<noteq> JStr ''completed'' \<and> get_prop c ''state'' \<noteq> JStr ''failed''
            then Inl (Error ''invalid execution node state'')
          else
            bindR (expectDuration (get_prop c ''durationMs'')) (\<lambda>d.
            bindR (expectString (get_prop c ''summary'') ''summary'') (\<lambda>s.
            Inr (node (if get_prop c ''state'' = JStr ''completed'' then NodeCompleted d s
              else NodeFailed d s))))))))
      | _ \<Rightarrow> Inl (Error ''invalid execution node''))"

definition is_running :: "execution_node \<Rightarrow> bool" where
  "is_running n = (en_state n = NodeRunning)"

text \<open>The loop over the persisted nodes; \<open>seen\<close> holds the identifiers read so far.\<close>

fun check_nodes :: "string list \<Rightarrow> execution_node list \<Rightarrow> unit res" where
  "check_nodes seen [] = Inr ()"
| "check_nodes seen (n # ns) =
     (if en_id n \<in> set seen then Inl (Error (''duplicate persisted execution node: '' @ en_id n))
      else case en_parentNodeId n of
        Some p \<Rightarrow>
          if p \<notin> set seen then Inl (Error (''unknown persisted parent execution node: '' @ p))
          else check_nodes (seen @ [en_id n]) ns
      | None \<Rightarrow> check_nodes (seen @ [en_id n]) ns)"

definition parseExecutionGraphJson :: "string \<Rightarrow> execution_graph res" where
  "parseExecutionGraphJson serialized =
     (case JSON_parse serialized of
        Inl _ \<Rightarrow> Inl (Error ''persisted execution graph is not valid JSON'')
      | Inr v \<Rightarrow>
          (case v of
             JObj c \<Rightarrow>
               (case (get_prop c ''nodes'', get_prop c ''activeNodeIds'') of
                  (JArr ns, JArr as) \<Rightarrow>
                    bindR (expectString (get_prop c ''runId'') ''runId'') (\<lambda>runId.
                    bindR (mapR parseExecutionNode ns) (\<lambda>nodes.
                    bindR (mapR (\<lambda>a. expectString a ''active node ID'') as) (\<lambda>active.
                    bindR (check_nodes [] nodes) (\<lambda>_.
                    if active \<noteq> map en_id (filter is_running nodes)
                      then Inl (Error ''persisted execution active nodes are invalid'')
                    else Inr \<lparr>eg_runId = runId, eg_nodes = nodes, eg_activeNodeIds = active\<rparr>))))
                | _ \<Rightarrow> Inl (Error ''persisted execution graph is invalid''))
           | _ \<Rightarrow> Inl (Error ''persisted execution graph is invalid'')))"

section \<open>Transitions\<close>

definition createExecutionGraph :: "string \<Rightarrow> execution_graph" where
  "createExecutionGraph runId = \<lparr>eg_runId = runId, eg_nodes = [], eg_activeNodeIds = []\<rparr>"

text \<open>
  The parent of a started node is looked up only when it is truthy, so the empty string is
  accepted without a node of that name.
\<close>

fun applyExecutionEvent :: "execution_graph \<Rightarrow> execution_event \<Rightarrow> execution_graph res" where
  "applyExecutionEvent g (NodeStartedEvent i parent kind label) =
     (if list_ex (\<lambda>n. en_id n = i) (eg_nodes g) then Inl (Error (''duplicate execution node: '' @ i))
      else if parent \<noteq> None \<and> the parent \<noteq> [] \<and> \<not> list_ex (\<lambda>n. en_id n = the parent) (eg_nodes g)
        then Inl (Error (''unknown parent execution node: '' @ the parent))
      else Inr (g\<lparr>eg_nodes := eg_nodes g @ [\<lparr>en_id = i, en_parentNodeId = parent, en_kind = kind,
                    en_label = label, en_state = NodeRunning\<rparr>],
                  eg_activeNodeIds := eg_activeNodeIds g @ [i]\<rparr>))"
| "applyExecutionEvent g (NodeCompletedEvent i success durationMs summary) =
     (case findIndex (\<lambda>n. en_id n = i) (eg_nodes g) of
        None \<Rightarrow> Inl (Error (''unknown execution node: '' @ i))
      | Some k \<Rightarrow>
          if en_state (eg_nodes g ! k) \<noteq> NodeRunning
            then Inl (Error (''execution node is already terminal: '' @ i))
          else Inr (g\<lparr>eg_nodes := (eg_nodes g)[k := (eg_nodes g ! k)\<lparr>en_state :=
                        (if success then NodeCompleted durationMs summary else NodeFailed durationMs summary)\<rparr>],
                      eg_activeNodeIds := filter (\<lambda>a. a \<noteq> i) (eg_activeNodeIds g)\<rparr>))"

text \<open>How the callers use it: an event is parsed, then applied.\<close>

definition graph_step :: "execution_graph \<Rightarrow> json \<Rightarrow> execution_graph res" where
  "graph_step g v = bindR (parseExecutionEvent v) (applyExecutionEvent g)"

section \<open>The persisted text\<close>

fun kind_name :: "node_kind \<Rightarrow> string" where
  "kind_name RootNode = ''root''"
| "kind_name ToolNode = ''tool''"
| "kind_name AgentNode = ''agent''"

fun enc_node_state :: "node_state \<Rightarrow> (string \<times> json) list" where
  "enc_node_state NodeRunning = [(''state'', JStr ''running'')]"
| "enc_node_state (NodeCompleted d s) =
     [(''state'', JStr ''completed''), (''durationMs'', JNum d), (''summary'', JStr s)]"
| "enc_node_state (NodeFailed d s) =
     [(''state'', JStr ''failed''), (''durationMs'', JNum d), (''summary'', JStr s)]"

definition enc_node :: "execution_node \<Rightarrow> json" where
  "enc_node n = JObj ([(''id'', JStr (en_id n))]
     @ (case en_parentNodeId n of None \<Rightarrow> [] | Some p \<Rightarrow> [(''parentNodeId'', JStr p)])
     @ [(''kind'', JStr (kind_name (en_kind n))), (''label'', JStr (en_label n))]
     @ enc_node_state (en_state n))"

definition enc_graph :: "execution_graph \<Rightarrow> json" where
  "enc_graph g = JObj [(''runId'', JStr (eg_runId g)), (''nodes'', JArr (map enc_node (eg_nodes g))),
     (''activeNodeIds'', JArr (map JStr (eg_activeNodeIds g)))]"

definition graph_text :: "execution_graph \<Rightarrow> string" where
  "graph_text g = stringify (enc_graph g)"

section \<open>Invariants\<close>

text \<open>
  Nodes have distinct identifiers and follow their parents. When \<open>strict\<close> is false, a parent may
  also be the empty string.
\<close>

fun nodes_ok :: "bool \<Rightarrow> string list \<Rightarrow> execution_node list \<Rightarrow> bool" where
  "nodes_ok strict seen [] = True"
| "nodes_ok strict seen (n # ns) =
     (en_id n \<notin> set seen
      \<and> (case en_parentNodeId n of None \<Rightarrow> True | Some p \<Rightarrow> p \<in> set seen \<or> (\<not> strict \<and> p = []))
      \<and> nodes_ok strict (seen @ [en_id n]) ns)"

fun state_ok :: "node_state \<Rightarrow> bool" where
  "state_ok NodeRunning = True"
| "state_ok (NodeCompleted d s) = (0 \<le> d)"
| "state_ok (NodeFailed d s) = (0 \<le> d)"

definition graph_inv :: "bool \<Rightarrow> execution_graph \<Rightarrow> bool" where
  "graph_inv strict g = (nodes_ok strict [] (eg_nodes g) \<and> list_all (\<lambda>n. state_ok (en_state n)) (eg_nodes g)
     \<and> eg_activeNodeIds g = map en_id (filter is_running (eg_nodes g)))"

lemma expectString_Inr [res_simps]: "expectString v f = Inr s \<longleftrightarrow> v = JStr s"
  by (cases v) auto

lemma expectDuration_Inr [res_simps]: "expectDuration v = Inr n \<longleftrightarrow> v = JNum n \<and> 0 \<le> n"
  by (cases v) auto

lemma nodes_ok_append:
  "nodes_ok strict seen (ns @ ms) \<longleftrightarrow> nodes_ok strict seen ns \<and> nodes_ok strict (seen @ map en_id ns) ms"
  by (induction ns arbitrary: seen) auto

lemma nodes_ok_cong:
  "map (\<lambda>n. (en_id n, en_parentNodeId n)) ns = map (\<lambda>n. (en_id n, en_parentNodeId n)) ms \<Longrightarrow>
     nodes_ok strict seen ns = nodes_ok strict seen ms"
proof (induction ns arbitrary: seen ms)
  case (Cons n ns)
  then obtain m ms' where ms: "ms = m # ms'" and m: "en_id m = en_id n" "en_parentNodeId m = en_parentNodeId n"
    and tl: "map (\<lambda>n. (en_id n, en_parentNodeId n)) ns = map (\<lambda>n. (en_id n, en_parentNodeId n)) ms'"
    by (cases ms) auto
  from Cons.IH [OF tl, of "seen @ [en_id n]"] show ?case by (simp add: ms m)
qed simp

lemma nodes_ok_distinct: "nodes_ok strict seen ns \<Longrightarrow> distinct (map en_id ns) \<and> set seen \<inter> en_id ` set ns = {}"
proof (induction ns arbitrary: seen)
  case (Cons n ns)
  from Cons.IH [of "seen @ [en_id n]"] Cons.prems
  have "distinct (map en_id ns) \<and> set (seen @ [en_id n]) \<inter> en_id ` set ns = {}" by simp
  with Cons.prems show ?case by auto
qed simp

lemma nodes_ok_weaken: "nodes_ok True seen ns \<Longrightarrow> nodes_ok False seen ns"
  by (induction ns arbitrary: seen) (auto split: option.splits)

lemma check_nodes_iff: "check_nodes seen ns = Inr () \<longleftrightarrow> nodes_ok True seen ns"
  by (induction ns arbitrary: seen) (auto split: option.splits)

lemma active_after_finish:
  assumes "distinct (map en_id ns)" and "k < length ns" and "\<not> is_running n'"
  shows "map en_id (filter is_running (ns[k := n'])) = filter (\<lambda>a. a \<noteq> en_id (ns ! k)) (map en_id (filter is_running ns))"
  using assms(1,2)
proof (induction ns arbitrary: k)
  case (Cons n ns)
  show ?case
  proof (cases k)
    case 0
    have "filter (\<lambda>a. a \<noteq> en_id n) (map en_id (filter is_running ns)) = map en_id (filter is_running ns)"
      using Cons.prems(1) by (auto simp: filter_id_conv) (metis image_eqI)
    with 0 assms(3) show ?thesis by simp
  next
    case (Suc j)
    then have "en_id n \<noteq> en_id (ns ! j)" using Cons.prems by (auto simp: nth_mem)
    with Suc Cons show ?thesis by simp
  qed
qed simp

lemma parseExecutionEvent_duration:
  "parseExecutionEvent v = Inr (NodeCompletedEvent i b d s) \<Longrightarrow> 0 \<le> d"
  by (auto simp: parseExecutionEvent_def res_simps split: json.splits if_splits)

lemma apply_inv:
  assumes "graph_inv strict g" and "applyExecutionEvent g e = Inr g'"
    and "\<And>i b d s. e = NodeCompletedEvent i b d s \<Longrightarrow> 0 \<le> d"
    and "\<And>i p k l. e = NodeStartedEvent i (Some p) k l \<Longrightarrow> strict \<Longrightarrow> p \<noteq> []"
  shows "graph_inv strict g'"
proof (cases e)
  case (NodeStartedEvent i p k l)
  with assms(2) have new: "\<forall>n \<in> set (eg_nodes g). en_id n \<noteq> i"
    and parent: "p = None \<or> p = Some [] \<or> (\<exists>n \<in> set (eg_nodes g). p = Some (en_id n))"
    and g': "g' = g\<lparr>eg_nodes := eg_nodes g @ [\<lparr>en_id = i, en_parentNodeId = p, en_kind = k,
                    en_label = l, en_state = NodeRunning\<rparr>], eg_activeNodeIds := eg_activeNodeIds g @ [i]\<rparr>"
    by (auto simp: list_ex_iff split: if_splits)
  with assms(1,4) NodeStartedEvent show ?thesis
    by (auto simp: graph_inv_def nodes_ok_append is_running_def split: option.splits)
next
  case (NodeCompletedEvent i b d s)
  with assms(2) obtain k where k: "findIndex (\<lambda>n. en_id n = i) (eg_nodes g) = Some k"
    by (auto split: option.splits)
  let ?n = "(eg_nodes g ! k)\<lparr>en_state := (if b then NodeCompleted d s else NodeFailed d s)\<rparr>"
  from findIndex_Some [OF k] have len: "k < length (eg_nodes g)" and i: "en_id (eg_nodes g ! k) = i" by auto
  from assms(2) k have g': "g' = g\<lparr>eg_nodes := (eg_nodes g)[k := ?n], eg_activeNodeIds := filter (\<lambda>a. a \<noteq> i) (eg_activeNodeIds g)\<rparr>"
    by (auto simp: NodeCompletedEvent split: if_splits)
  have "map (\<lambda>n. (en_id n, en_parentNodeId n)) ((eg_nodes g)[k := ?n]) = map (\<lambda>n. (en_id n, en_parentNodeId n)) (eg_nodes g)"
    by (simp add: map_update list_update_same_conv len)
  from nodes_ok_cong [OF this] assms(1) have "nodes_ok strict [] ((eg_nodes g)[k := ?n])" by (simp add: graph_inv_def)
  moreover have "list_all (\<lambda>n. state_ok (en_state n)) ((eg_nodes g)[k := ?n])"
    using assms(1,3) NodeCompletedEvent by (intro list_all_update) (auto simp: graph_inv_def)
  moreover have "map en_id (filter is_running ((eg_nodes g)[k := ?n])) = filter (\<lambda>a. a \<noteq> i) (eg_activeNodeIds g)"
    using active_after_finish [of "eg_nodes g" k ?n] nodes_ok_distinct assms(1) len i
    by (auto simp: graph_inv_def is_running_def)
  ultimately show ?thesis by (simp add: graph_inv_def g')
qed

lemma graph_step_inv:
  assumes "graph_inv False g" and "graph_step g v = Inr g'"
  shows "graph_inv False g'"
proof -
  from assms(2) obtain e where e: "parseExecutionEvent v = Inr e" "applyExecutionEvent g e = Inr g'"
    by (auto simp: graph_step_def res_simps)
  show ?thesis using parseExecutionEvent_duration e by (intro apply_inv [OF assms(1) e(2)]) auto
qed

interpretation execution_graph: invariant_machine graph_step "graph_inv False"
  by unfold_locales (rule graph_step_inv)

section \<open>The persisted text is read back\<close>

lemma expectKind_name: "expectKind (JStr (kind_name k)) = Inr k"
  by (cases k) (simp_all add: expectKind_def)

lemma parse_node_enc: "state_ok (en_state n) \<Longrightarrow> parseExecutionNode (enc_node n) = Inr n"
  by (cases "en_state n"; cases "en_parentNodeId n")
    (simp_all add: parseExecutionNode_def enc_node_def get_prop_def expectParentNodeId_def expectKind_name)

lemma parse_node_state: "parseExecutionNode v = Inr n \<Longrightarrow> state_ok (en_state n)"
  by (auto simp: parseExecutionNode_def res_simps Let_def split: json.splits if_splits)

lemma enc_graph_json: "is_json (enc_graph g)"
proof -
  have "is_json (enc_node n)" for n
    by (cases "en_state n"; cases "en_parentNodeId n") (simp_all add: enc_node_def)
  then show ?thesis by (simp add: enc_graph_def is_json_list_iff)
qed

lemma mapR_expectString [simp]: "mapR (\<lambda>a. expectString a f) (map JStr xs) = Inr xs"
  by (rule mapR_map_Inr) simp

lemma graph_text_parses:
  assumes "list_all (\<lambda>n. state_ok (en_state n)) (eg_nodes g)"
  shows "parseExecutionGraphJson (graph_text g) =
     bindR (check_nodes [] (eg_nodes g)) (\<lambda>_.
       if eg_activeNodeIds g \<noteq> map en_id (filter is_running (eg_nodes g))
         then Inl (Error ''persisted execution active nodes are invalid'') else Inr g)"
proof -
  obtain r ns as where g: "g = \<lparr>eg_runId = r, eg_nodes = ns, eg_activeNodeIds = as\<rparr>" by (cases g)
  have "mapR parseExecutionNode (map enc_node ns) = Inr ns"
    using assms by (intro mapR_map_Inr) (simp add: g list_all_iff parse_node_enc)
  then show ?thesis unfolding g
    unfolding parseExecutionGraphJson_def graph_text_def JSON_parse_stringify [OF enc_graph_json]
    by (simp add: enc_graph_def get_prop_def)
qed

lemma graph_text_round_trip: "graph_inv True g \<Longrightarrow> parseExecutionGraphJson (graph_text g) = Inr g"
  using check_nodes_iff [of "[]" "eg_nodes g"] by (simp add: graph_text_parses graph_inv_def)

lemma parse_graph_inv: "parseExecutionGraphJson t = Inr g \<Longrightarrow> graph_inv True g"
  by (auto simp: parseExecutionGraphJson_def graph_inv_def res_simps check_nodes_iff list_all_iff
      split: sum.splits json.splits if_splits dest: mapR_InrD parse_node_state)

interpretation graph_store: codec graph_text parseExecutionGraphJson "graph_inv True"
  by unfold_locales (auto intro: graph_text_round_trip parse_graph_inv)

lemma create_graph_inv: "graph_inv strict (createExecutionGraph runId)"
  by (simp add: graph_inv_def createExecutionGraph_def)

section \<open>Properties\<close>

text \<open>C32: an execution graph built from any sequence of raw events, invalid ones being rejected, is well
  formed: identifiers are unique, a parent precedes its children (or is the empty string), the
  durations are not negative, and the active identifiers are exactly those of the running nodes,
  in order.\<close>

theorem execution_graph_invariant:
  "graph_inv False (exec_ops graph_step (createExecutionGraph runId) events)"
  by (rule execution_graph.exec_inv [OF create_graph_inv])

text \<open>C33: a graph of the running program is read back from its persisted text if and only if no node has a
  parent that is missing, in which case it is the same graph.\<close>

theorem persisted_graph_round_trip:
  assumes "graph_inv False g"
  shows "parseExecutionGraphJson (graph_text g) = Inr g \<longleftrightarrow> nodes_ok True [] (eg_nodes g)"
  using assms by (auto simp: graph_inv_def graph_text_parses check_nodes_iff bindR_Inr_iff)

definition sample_graph :: execution_graph where
  "sample_graph = \<lparr>eg_runId = ''run'', eg_nodes =
     [\<lparr>en_id = ''a'', en_parentNodeId = None, en_kind = RootNode, en_label = ''l'', en_state = NodeRunning\<rparr>,
      \<lparr>en_id = ''b'', en_parentNodeId = Some ''a'', en_kind = ToolNode, en_label = ''l'', en_state = NodeFailed 3 ''s''\<rparr>],
     eg_activeNodeIds = [''a'']\<rparr>"

theorem persisted_graph_round_trip_witness:
  "parseExecutionGraphJson (graph_text sample_graph) = Inr sample_graph"
proof -
  have "graph_inv False sample_graph" by (simp add: graph_inv_def sample_graph_def is_running_def)
  moreover have "nodes_ok True [] (eg_nodes sample_graph)" by (simp add: sample_graph_def)
  ultimately show ?thesis using persisted_graph_round_trip by blast
qed

text \<open>An event that names the empty string as parent is accepted, and the graph it leads to cannot be
  read back from its persisted text.\<close>

theorem empty_parent_poisons_graph:
  assumes "createExecutionGraph runId = g"
  shows "\<exists>g'. applyExecutionEvent g (NodeStartedEvent i (Some []) k l) = Inr g'
     \<and> parseExecutionGraphJson (graph_text g') = Inl (Error (''unknown persisted parent execution node: ''))"
  using assms by (auto simp: createExecutionGraph_def graph_text_parses)

theorem empty_parent_poisons_graph_witness:
  "\<exists>g'. applyExecutionEvent (createExecutionGraph ''run'') (NodeStartedEvent ''a'' (Some []) ToolNode ''l'') = Inr g'
     \<and> parseExecutionGraphJson (graph_text g') = Inl (Error ''unknown persisted parent execution node: '')"
  using empty_parent_poisons_graph [of "''run''" "createExecutionGraph ''run''" "''a''" ToolNode "''l''"] by simp

text \<open>A node that finished never changes: an event for it is rejected.\<close>

theorem finished_node_is_terminal:
  assumes "graph_inv strict g" and "n \<in> set (eg_nodes g)" and "\<not> is_running n"
  shows "applyExecutionEvent g (NodeCompletedEvent (en_id n) b d s)
     = Inl (Error (''execution node is already terminal: '' @ en_id n))"
proof -
  from assms(2) obtain i where i: "i < length (eg_nodes g)" "n = eg_nodes g ! i" by (metis in_set_conv_nth)
  have dist: "distinct (map en_id (eg_nodes g))"
    using assms(1) nodes_ok_distinct by (auto simp: graph_inv_def)
  have "findIndex (\<lambda>m. en_id m = en_id n) (eg_nodes g) = Some i"
  proof (rule findIndex_unique)
    show "j = i" if "j < length (eg_nodes g)" "en_id (eg_nodes g ! j) = en_id n" for j
      using dist that i by (metis length_map nth_eq_iff_index_eq nth_map)
  qed (use i in auto)
  then show ?thesis using assms(3) i by (simp add: is_running_def)
qed

theorem finished_node_is_terminal_witness:
  "applyExecutionEvent sample_graph (NodeCompletedEvent ''b'' True 1 ''x'')
     = Inl (Error ''execution node is already terminal: b'')"
proof -
  have "graph_inv True sample_graph" by (simp add: graph_inv_def sample_graph_def is_running_def)
  from finished_node_is_terminal [OF this, of "eg_nodes sample_graph ! 1" True 1 "''x''"]
  show ?thesis by (simp add: sample_graph_def is_running_def)
qed

end
