(* ===== verification/ImagePayload.thy ===== *)
theory ImagePayload
  imports Contract
begin

text \<open>
  The check of pasted images in \<open>packages/3xhaustpi/src/image-payload.ts\<close>: the size limits, the
  syntax of canonical base64, the decoding and re-encoding that the runtime's \<open>Buffer\<close> does, and
  the signature of the three image formats. Bytes are natural numbers below 256.
\<close>

section \<open>Base64\<close>

definition b64_char :: "nat \<Rightarrow> char" where
  "b64_char i = (if i < 26 then char_of (65 + i) else if i < 52 then char_of (97 + (i - 26))
     else if i < 62 then char_of (48 + (i - 52)) else if i = 62 then CHR ''+'' else CHR 0x2F)"

definition b64_alpha :: "char \<Rightarrow> bool" where
  "b64_alpha c = (alnum c \<or> c = CHR ''+'' \<or> c = CHR 0x2F)"

definition b64_val :: "char \<Rightarrow> nat" where
  "b64_val c = (let n = of_char c in if 65 \<le> n \<and> n \<le> 90 then n - 65 else if 97 \<le> n \<and> n \<le> 122 then n - 71
     else if 48 \<le> n \<and> n \<le> 57 then n + 4 else if n = 43 then 62 else 63)"

text \<open>The regular expression: groups of four characters, the last one possibly padded.\<close>

fun b64_syntax :: "string \<Rightarrow> bool" where
  "b64_syntax [] = True"
| "b64_syntax (a # b # c # d # rest) =
     (b64_alpha a \<and> b64_alpha b \<and>
      (if rest = [] \<and> d = CHR ''='' then c = CHR ''='' \<or> b64_alpha c
       else b64_alpha c \<and> b64_alpha d \<and> b64_syntax rest))"
| "b64_syntax s = False"

text \<open>\<open>Buffer.from(data, "base64")\<close> on text of this syntax.\<close>

fun b64_decode :: "string \<Rightarrow> nat list" where
  "b64_decode (a # b # c # d # rest) =
     (let x = b64_val a * 4 + b64_val b div 16;
          y = (b64_val b mod 16) * 16 + b64_val c div 4;
          z = (b64_val c mod 4) * 64 + b64_val d in
      if c = CHR ''='' then [x] else if d = CHR ''='' then [x, y] else x # y # z # b64_decode rest)"
| "b64_decode s = []"

text \<open>\<open>bytes.toString("base64")\<close>.\<close>

fun b64_encode :: "nat list \<Rightarrow> string" where
  "b64_encode [] = []"
| "b64_encode [x] = [b64_char (x div 4), b64_char ((x mod 4) * 16), CHR ''='', CHR ''='']"
| "b64_encode [x, y] =
     [b64_char (x div 4), b64_char ((x mod 4) * 16 + y div 16), b64_char ((y mod 16) * 4), CHR ''='']"
| "b64_encode (x # y # z # rest) =
     b64_char (x div 4) # b64_char ((x mod 4) * 16 + y div 16) # b64_char ((y mod 16) * 4 + z div 64)
       # b64_char (z mod 64) # b64_encode rest"

section \<open>Images\<close>

datatype mime_type = ImagePng | ImageJpeg | ImageWebp

record tui_image =
  im_data :: string
  im_mimeType :: mime_type

definition MAX_TUI_IMAGES :: nat where "MAX_TUI_IMAGES = 8"
definition MAX_TUI_IMAGE_BASE64_BYTES :: nat where "MAX_TUI_IMAGE_BASE64_BYTES = 5 * 1024 * 1024"

fun mime_name :: "mime_type \<Rightarrow> string" where
  "mime_name ImagePng = ''image/png''"
| "mime_name ImageJpeg = ''image/jpeg''"
| "mime_name ImageWebp = ''image/webp''"

definition mime_of :: "json \<Rightarrow> mime_type option" where
  "mime_of v = (if v = JStr ''image/png'' then Some ImagePng else if v = JStr ''image/jpeg'' then Some ImageJpeg
     else if v = JStr ''image/webp'' then Some ImageWebp else None)"

text \<open>\<open>bytes.toString("ascii")\<close> clears the highest bit of each byte.\<close>

definition ascii_text :: "nat list \<Rightarrow> string" where
  "ascii_text bs = map (\<lambda>b. char_of (b mod 128)) bs"

fun hasSignature :: "mime_type \<Rightarrow> nat list \<Rightarrow> bool" where
  "hasSignature ImagePng bs = (take 8 bs = [137, 80, 78, 71, 13, 10, 26, 10])"
| "hasSignature ImageJpeg bs = (take 3 bs = [255, 216, 255])"
| "hasSignature ImageWebp bs =
     (ascii_text (take 4 bs) = ''RIFF'' \<and> ascii_text (take 4 (drop 8 bs)) = ''WEBP'')"

text \<open>\<open>Buffer.byteLength(data, "utf8")\<close> for code units below 256.\<close>

definition utf8_length :: "string \<Rightarrow> nat" where
  "utf8_length s = sum_list (map (\<lambda>c. if of_char c < (128 :: nat) then 1 else 2) s)"

text \<open>\<open>Reflect.get\<close> on an object or an array; an array has neither property.\<close>

definition parseImage :: "json \<Rightarrow> tui_image res" where
  "parseImage candidate =
     (let go = (\<lambda>c.
        case get_prop c ''data'' of
          JStr s \<Rightarrow>
            if s = [] then Inl (Error ''TUI request image data is required'')
            else (case mime_of (get_prop c ''mimeType'') of
              None \<Rightarrow> Inl (Error ''TUI request image MIME type is invalid'')
            | Some m \<Rightarrow>
                if MAX_TUI_IMAGE_BASE64_BYTES < utf8_length s
                  then Inl (Error ''TUI request image exceeds the encoded size limit'')
                else if length s mod 4 \<noteq> 0 \<or> \<not> b64_syntax s
                  then Inl (Error ''TUI request image data is not canonical base64'')
                else if b64_decode s = [] \<or> b64_encode (b64_decode s) \<noteq> s
                  then Inl (Error ''TUI request image data is not canonical base64'')
                else if \<not> hasSignature m (b64_decode s)
                  then Inl (Error (''TUI request '' @ mime_name m @ '' signature is invalid''))
                else Inr \<lparr>im_data = s, im_mimeType = m\<rparr>)
        | _ \<Rightarrow> Inl (Error ''TUI request image data is required'')) in
      case candidate of
        JObj c \<Rightarrow> go c
      | JArr _ \<Rightarrow> go []
      | _ \<Rightarrow> Inl (Error ''TUI request image is invalid''))"

definition parseImagePayloads :: "json \<Rightarrow> tui_image list res" where
  "parseImagePayloads value =
     (case value of
        JArr vs \<Rightarrow>
          if MAX_TUI_IMAGES < length vs then Inl (Error ''TUI requests support at most 8 images'')
          else mapR parseImage vs
      | _ \<Rightarrow> Inl (Error ''TUI request images must be an array''))"

definition isImagePayloads :: "json \<Rightarrow> bool" where
  "isImagePayloads v = is_ok (parseImagePayloads v)"

definition enc_image :: "tui_image \<Rightarrow> json" where
  "enc_image i = JObj [(''data'', JStr (im_data i)), (''mimeType'', JStr (mime_name (im_mimeType i)))]"

section \<open>Base64 is canonical\<close>

lemma b64_val_char: "i < 64 \<Longrightarrow> b64_val (b64_char i) = i"
  by (auto simp: b64_val_def b64_char_def Let_def)

lemma char_le_iff: "(c :: char) \<le> d \<longleftrightarrow> (of_char c :: nat) \<le> of_char d"
  by (simp add: less_eq_char_def)

lemma b64_char_alpha: "b64_alpha (b64_char i)"
  by (auto simp: b64_alpha_def alnum_def b64_char_def char_le_iff)

lemma b64_char_neq_pad: "b64_char i \<noteq> CHR ''=''"
proof
  assume "b64_char i = CHR ''=''"
  with b64_char_alpha [of i] have "b64_alpha (CHR ''='')" by simp
  then show False by (simp add: b64_alpha_def alnum_def char_le_iff)
qed

definition bytes :: "nat list \<Rightarrow> bool" where
  "bytes bs = list_all (\<lambda>b. b < 256) bs"

lemma byte_split:
  assumes "x < (256 :: nat)" "y < 256" "z < 256"
  shows "x div 4 < 64" "(x mod 4) * 16 + y div 16 < 64" "(y mod 16) * 4 + z div 64 < 64"
    "(x mod 4) * 16 < 64" "(y mod 16) * 4 < 64" "z mod 64 < 64"
    "(x div 4) * 4 + ((x mod 4) * 16 + y div 16) div 16 = x"
    "((x mod 4) * 16 + y div 16) mod 16 * 16 + ((y mod 16) * 4 + z div 64) div 4 = y"
    "((y mod 16) * 4 + z div 64) mod 4 * 64 + z mod 64 = z"
proof -
  have "y div 16 < 16" "z div 64 < 4" "x div 4 < 64" using assms by auto
  then show "x div 4 < 64" "(x mod 4) * 16 + y div 16 < 64" "(y mod 16) * 4 + z div 64 < 64"
    "(x mod 4) * 16 < 64" "(y mod 16) * 4 < 64" "z mod 64 < 64"
    "(x div 4) * 4 + ((x mod 4) * 16 + y div 16) div 16 = x"
    "((x mod 4) * 16 + y div 16) mod 16 * 16 + ((y mod 16) * 4 + z div 64) div 4 = y"
    "((y mod 16) * 4 + z div 64) mod 4 * 64 + z mod 64 = z"
    using pos_mod_bound [of 4] by (auto simp: mult.commute)
qed

lemma b64_decode_encode: "bytes bs \<Longrightarrow> b64_decode (b64_encode bs) = bs"
proof (induction bs rule: b64_encode.induct)
  case (2 x)
  then show ?case using byte_split [of x 0 0]
    by (simp add: bytes_def Let_def b64_val_char b64_char_neq_pad)
next
  case (3 x y)
  then have xyz: "x < 256" "y < 256" "(0 :: nat) < 256" by (simp_all add: bytes_def)
  have "(y mod 16) * 4 + 0 div 64 = (y mod 16) * 4" by simp
  note split = byte_split [OF xyz, unfolded this]
  note vals = split(1,2,5) [THEN b64_val_char]
  show ?case
    by (simp only: b64_encode.simps b64_decode.simps Let_def vals b64_char_neq_pad if_False refl if_True split(7,8) simp_thms)
next
  case (4 x y z rest)
  then have xyz: "x < 256" "y < 256" "z < 256" and rest: "bytes rest" by (simp_all add: bytes_def)
  note split = byte_split [OF xyz]
  note vals = split(1-3,6) [THEN b64_val_char]
  show ?case
    by (simp only: b64_encode.simps b64_decode.simps Let_def vals b64_char_neq_pad if_False
        split(7-9) "4.IH" [OF rest])
qed simp

lemma b64_encode_syntax: "b64_syntax (b64_encode bs)"
  by (induction bs rule: b64_encode.induct) (simp_all add: b64_char_alpha b64_char_neq_pad)

lemma b64_encode_length: "length (b64_encode bs) mod 4 = 0"
  by (induction bs rule: b64_encode.induct) simp_all

lemma b64_val_less: "b64_val c < 64"
  by (auto simp: b64_val_def Let_def)

lemma b64_decode_bytes: "bytes (b64_decode s)"
proof (induction s rule: b64_decode.induct)
  case (1 a b c d rest)
  have "b64_val a * 4 + b64_val b div 16 < 256" "(b64_val b mod 16) * 16 + b64_val c div 4 < 256"
    "(b64_val c mod 4) * 64 + b64_val d < 256"
    using b64_val_less [of a] b64_val_less [of b] b64_val_less [of c] b64_val_less [of d]
      less_mult_imp_div_less [of "b64_val b" 4 16] less_mult_imp_div_less [of "b64_val c" 16 4]
      mod_less_divisor [of 16 "b64_val b"] mod_less_divisor [of 4 "b64_val c"] by linarith+
  with 1 show ?case by (auto simp: bytes_def Let_def)
qed (simp_all add: bytes_def)

lemma b64_ascii: "b64_alpha c \<or> c = CHR ''='' \<Longrightarrow> of_char c < (128 :: nat)"
  by (auto simp: b64_alpha_def alnum_def char_le_iff)

lemma b64_syntax_ascii: "b64_syntax s \<Longrightarrow> list_all (\<lambda>c. of_char c < (128 :: nat)) s"
  by (induction s rule: b64_syntax.induct) (auto simp: b64_ascii split: if_splits)

lemma utf8_length_ascii: "list_all (\<lambda>c. of_char c < (128 :: nat)) s \<Longrightarrow> utf8_length s = length s"
  by (induction s) (auto simp: utf8_length_def)

lemma mime_of_name: "mime_of v = Some m \<longleftrightarrow> v = JStr (mime_name m)"
  by (cases m) (auto simp: mime_of_def)

lemma parseImage_Inr:
  "parseImage v = Inr i \<longleftrightarrow>
     (\<exists>c bs. v = JObj c \<and> get_prop c ''data'' = JStr (im_data i)
        \<and> get_prop c ''mimeType'' = JStr (mime_name (im_mimeType i))
        \<and> bs \<noteq> [] \<and> bytes bs \<and> im_data i = b64_encode bs \<and> length (im_data i) \<le> 5242880
        \<and> hasSignature (im_mimeType i) bs)" (is "?L \<longleftrightarrow> ?R")
proof
  assume ?L
  then obtain c where v: "v = JObj c"
    by (cases v) (auto simp: parseImage_def Let_def get_prop_def)
  with \<open>?L\<close> obtain s m where s: "get_prop c ''data'' = JStr s" and m: "mime_of (get_prop c ''mimeType'') = Some m"
    by (auto simp: parseImage_def Let_def split: json.splits option.splits if_splits)
  with \<open>?L\<close> v have *: "b64_syntax s" "b64_decode s \<noteq> []" "b64_encode (b64_decode s) = s" "hasSignature m (b64_decode s)"
      "utf8_length s \<le> MAX_TUI_IMAGE_BASE64_BYTES" "i = \<lparr>im_data = s, im_mimeType = m\<rparr>"
    by (auto simp: parseImage_def Let_def not_less split: if_splits)
  then have "length s \<le> 5242880"
    using utf8_length_ascii [OF b64_syntax_ascii [OF *(1)]] by (simp add: MAX_TUI_IMAGE_BASE64_BYTES_def)
  with v s m * b64_decode_bytes [of s] show ?R
    by (auto simp: mime_of_name intro!: exI [of _ "b64_decode s"])
next
  assume ?R
  then obtain c bs where v: "v = JObj c" and s: "get_prop c ''data'' = JStr (b64_encode bs)"
    and m: "get_prop c ''mimeType'' = JStr (mime_name (im_mimeType i))"
    and bs: "bs \<noteq> []" "bytes bs" "im_data i = b64_encode bs" "length (b64_encode bs) \<le> 5242880" "hasSignature (im_mimeType i) bs"
    by auto
  have "utf8_length (b64_encode bs) = length (b64_encode bs)"
    by (rule utf8_length_ascii [OF b64_syntax_ascii [OF b64_encode_syntax]])
  moreover have "b64_encode bs \<noteq> []" using bs(1) by (cases bs rule: b64_encode.cases) auto
  moreover have "mime_of (JStr (mime_name (im_mimeType i))) = Some (im_mimeType i)" by (simp add: mime_of_name)
  ultimately show ?L using v s m bs b64_decode_encode [OF bs(2)]
    by (simp add: parseImage_def b64_encode_syntax b64_encode_length MAX_TUI_IMAGE_BASE64_BYTES_def)
qed

section \<open>Properties\<close>

text \<open>An image is accepted exactly when its data is the base64 text of some non-empty byte sequence
  that carries the signature of its declared type and the text has at most 5 MiB; in
  particular the data is in canonical form and decodes to these bytes.\<close>

theorem parseImage_iff:
  "parseImage (JObj [(''data'', JStr s), (''mimeType'', JStr (mime_name m))]) = Inr \<lparr>im_data = s, im_mimeType = m\<rparr>
     \<longleftrightarrow> (\<exists>bs. bs \<noteq> [] \<and> bytes bs \<and> s = b64_encode bs \<and> length s \<le> 5242880 \<and> hasSignature m bs
           \<and> b64_decode s = bs)"
  unfolding parseImage_Inr using b64_decode_encode by (auto simp: get_prop_def)

text \<open>The WebP signature is compared as ASCII text, which clears the highest bit of every byte, so a
  file that starts with other bytes than \<open>RIFF\<close> is accepted as a WebP image.\<close>

theorem webp_signature_ignores_high_bit:
  "hasSignature ImageWebp bs \<longleftrightarrow>
     map (\<lambda>b. b mod 128) (take 4 bs) = [82, 73, 70, 70] \<and> map (\<lambda>b. b mod 128) (take 4 (drop 8 bs)) = [87, 69, 66, 80]"
proof -
  have "map (\<lambda>b. char_of (b mod 128)) xs = map char_of ys \<longleftrightarrow> map (\<lambda>b. b mod 128) xs = ys"
    if "list_all (\<lambda>y. y < 128) ys" for xs ys :: "nat list"
    using that
  proof (induction xs arbitrary: ys)
    case (Cons x xs)
    have "char_of (x mod 128) = (char_of y :: char) \<longleftrightarrow> x mod 128 = y" if "y < 128" for y
    proof -
      have "x mod 128 < 128" by simp
      then have "x mod 128 mod 256 = x mod 128" and "y mod 256 = y" using that by (simp_all del: mod_less_divisor)
      then show ?thesis by (simp only: char_of_quasi_inj)
    qed
    with Cons show ?case by (cases ys) auto
  qed auto
  note eq = this
  have "''RIFF'' = map char_of [82, 73, 70, 70 :: nat]" "''WEBP'' = map char_of [87, 69, 66, 80 :: nat]"
    by code_simp+
  then show ?thesis
    using eq [of "[82, 73, 70, 70]" "take 4 bs"] eq [of "[87, 69, 66, 80]" "take 4 (drop 8 bs)"]
    by (simp only: hasSignature.simps ascii_text_def list.pred_inject) simp
qed

end
