(* ===== verification/OpStore.thy ===== *)
theory OpStore
  imports ExecGraph ImagePayload
begin

text \<open>
  The durable request queue of \<open>packages/3xhaustpi/src/tui-operation-*.ts\<close>: the tables of the
  operation database (\<open>tui-operation-schema.ts\<close>), the row readers (\<open>tui-operation-helpers.ts\<close>), the
  queue (\<open>tui-operation-queue.ts\<close>), the event log and graph snapshot of a request
  (\<open>tui-operation-execution.ts\<close>), effects, completion and recovery (\<open>tui-operation-effects.ts\<close>) and
  leases (\<open>tui-operation-leases.ts\<close>).

  A table is the list of its rows in insertion order. Every operation runs in one immediate
  transaction, so an exception before the commit leaves the database as it was: the result is
  an error and no state. What is thrown after the commit, when a committed row is mapped to a
  request, is an error inside a successful result. Timestamps are milliseconds: the ISO texts the
  code stores compare like the instants they denote, for the years 0 to 9999.
\<close>

section \<open>Tables\<close>

datatype request_status = RqQueued | RqRunning | RqCompleted | RqFailed

record binding_columns =
  bc_version :: "int option"
  bc_generation :: "int option"
  bc_session :: "string option"
  bc_provider :: "string option"
  bc_model :: "string option"
  bc_account :: "string option"
  bc_thinking :: "string option"

record promotion_columns =
  pc_kind :: "string option"
  pc_id :: "string option"
  pc_json :: "string option"

record request_row =
  rq_id :: string
  rq_path :: string
  rq_position :: int
  rq_fingerprint :: string
  rq_objective :: string
  rq_images :: "string option"
  rq_binding :: binding_columns
  rq_promotion :: promotion_columns
  rq_status :: request_status
  rq_created :: int
  rq_updated :: int
  rq_owner :: "string option"
  rq_epoch :: int
  rq_expires :: "int option"
  rq_effect :: "string option"
  rq_outcome :: "string option"
  rq_sequence :: int
  rq_snapshot :: "string option"

record event_row =
  ev_request :: string
  ev_sequence :: int
  ev_json :: string
  ev_created :: int

record head_row =
  hd_path :: string
  hd_generation :: int
  hd_session :: "string option"
  hd_updated :: int

record quarantine_row =
  qr_path :: string
  qr_generation :: int
  qr_session :: string
  qr_reason :: string
  qr_at :: int

record exclusion_row =
  ex_path :: string
  ex_scope :: string
  ex_account :: string
  ex_updated :: int

record provider_row =
  pa_path :: string
  pa_scope :: string
  pa_provider :: string
  pa_account :: string
  pa_updated :: int

record preference_row =
  pf_path :: string
  pf_key :: string
  pf_value :: string
  pf_updated :: int

record op_db =
  db_requests :: "request_row list"
  db_events :: "event_row list"
  db_heads :: "head_row list"
  db_quarantine :: "quarantine_row list"
  db_exclusions :: "exclusion_row list"
  db_providers :: "provider_row list"
  db_preferences :: "preference_row list"

section \<open>Reading rows\<close>

record dispatch_binding =
  bn_generation :: int
  bn_session :: "string option"
  bn_provider :: string
  bn_model :: string
  bn_account :: "string option"
  bn_thinking :: "string option"

record promotion_source =
  pm_kind :: string
  pm_sourceId :: string
  pm_question :: string
  pm_answer :: string
  pm_completedAt :: string

record tui_request =
  tq_id :: string
  tq_path :: string
  tq_objective :: string
  tq_images :: "tui_image list"
  tq_position :: int
  tq_status :: request_status
  tq_created :: int
  tq_binding :: "dispatch_binding option"
  tq_promotion :: "promotion_source option"

definition prop_of :: "json \<Rightarrow> string \<Rightarrow> json" where
  "prop_of v k = (case v of JObj c \<Rightarrow> get_prop c k | _ \<Rightarrow> JUndef)"

definition is_object :: "json \<Rightarrow> bool" where
  "is_object v = (case v of JObj _ \<Rightarrow> True | JArr _ \<Rightarrow> True | _ \<Rightarrow> False)"

definition parsePromotion :: "promotion_columns \<Rightarrow> promotion_source option res" where
  "parsePromotion p =
     (case (pc_json p, pc_kind p, pc_id p) of
        (None, None, None) \<Rightarrow> Inr None
      | (Some t, Some k, Some i) \<Rightarrow>
          bindR (JSON_parse t) (\<lambda>v.
          if \<not> is_object v \<or> prop_of v ''version'' \<noteq> JNum 1 then Inl (Error ''Invalid TUI promotion payload'')
          else let source = prop_of v ''source'' in
          if \<not> is_object source then Inl (Error ''Invalid TUI promotion source'')
          else case (prop_of source ''kind'', prop_of source ''sourceId'', prop_of source ''question'',
                     prop_of source ''answer'', prop_of source ''completedAt'') of
            (JStr kind, JStr sid, JStr q, JStr a, JStr c) \<Rightarrow>
              if kind \<notin> {''side'', ''btw''} \<or> kind \<noteq> k \<or> sid \<noteq> i
                then Inl (Error ''Invalid TUI promotion source fields'')
              else Inr (Some \<lparr>pm_kind = kind, pm_sourceId = sid, pm_question = q, pm_answer = a,
                pm_completedAt = c\<rparr>)
          | _ \<Rightarrow> Inl (Error ''Invalid TUI promotion source fields''))
      | _ \<Rightarrow> Inl (Error ''TUI promotion fields are incomplete''))"

text \<open>A timestamp argument: left out (the clock is read), not a date, or an instant.\<close>

datatype time_arg = NowDefault | NowInvalid | NowAt int

definition MAX_DATE :: int where "MAX_DATE = 8640000000000000"

definition isoTimestamp :: "int \<Rightarrow> time_arg \<Rightarrow> int res" where
  "isoTimestamp clock now = (case now of NowDefault \<Rightarrow> Inr clock
     | NowInvalid \<Rightarrow> Inl (Error ''TUI request lease timestamp is invalid'')
     | NowAt t \<Rightarrow> if \<bar>t\<bar> \<le> MAX_DATE then Inr t else Inl (Error ''TUI request lease timestamp is invalid''))"

text \<open>\<open>new Date(t).toISOString()\<close> throws outside the range of dates.\<close>

definition to_iso :: "int \<Rightarrow> int res" where
  "to_iso t = (if \<bar>t\<bar> \<le> MAX_DATE then Inr t else Inl RangeError)"

definition nonempty :: "string option \<Rightarrow> string option" where
  "nonempty s = (case s of Some t \<Rightarrow> if t = [] then None else Some t | None \<Rightarrow> None)"

definition map_binding :: "binding_columns \<Rightarrow> dispatch_binding option" where
  "map_binding b =
     (case (bc_version b, bc_generation b, bc_provider b, bc_model b) of
        (Some v, Some g, Some p, Some m) \<Rightarrow>
          if v = 1 then Some \<lparr>bn_generation = g, bn_session = bc_session b, bn_provider = p, bn_model = m,
            bn_account = nonempty (bc_account b), bn_thinking = nonempty (bc_thinking b)\<rparr>
          else None
      | _ \<Rightarrow> None)"

definition mapTuiRequest :: "request_row \<Rightarrow> tui_request res" where
  "mapTuiRequest r =
     bindR (parsePromotion (rq_promotion r)) (\<lambda>promotion.
     bindR (case nonempty (rq_images r) of None \<Rightarrow> Inr (JArr []) | Some t \<Rightarrow> JSON_parse t) (\<lambda>v.
     bindR (parseImagePayloads v) (\<lambda>images.
     Inr \<lparr>tq_id = rq_id r, tq_path = rq_path r, tq_objective = rq_objective r, tq_images = images,
       tq_position = rq_position r, tq_status = rq_status r, tq_created = rq_created r,
       tq_binding = map_binding (rq_binding r), tq_promotion = promotion\<rparr>)))"

record lease =
  ls_owner :: string
  ls_epoch :: int

definition MAX_SAFE :: int where "MAX_SAFE = 9007199254740991"

definition safe_int :: "int \<Rightarrow> bool" where
  "safe_int n = (\<bar>n\<bar> \<le> MAX_SAFE)"

definition runningTuiRequestRow :: "op_db \<Rightarrow> string \<Rightarrow> request_row res" where
  "runningTuiRequestRow db requestId =
     (case List.find (\<lambda>r. rq_id r = requestId) (db_requests db) of
        None \<Rightarrow> Inl (Error ''TUI request is not running'')
      | Some r \<Rightarrow> if rq_status r \<noteq> RqRunning then Inl (Error ''TUI request is not running'') else Inr r)"

definition requireTuiRequestLease :: "lease \<Rightarrow> unit res" where
  "requireTuiRequestLease l =
     (if trim (ls_owner l) = [] then Inl (Error ''TUI request lease owner is required'')
      else if \<not> safe_int (ls_epoch l) \<or> ls_epoch l < 1 then Inl (Error ''TUI request lease epoch is required'')
      else Inr ())"

definition assertTuiRequestLease :: "request_row \<Rightarrow> lease \<Rightarrow> unit res" where
  "assertTuiRequestLease r l =
     (if rq_owner r \<noteq> Some (ls_owner l) then Inl (Error ''TUI request lease owner does not match'')
      else if rq_epoch r \<noteq> ls_epoch l then Inl (Error ''TUI request lease epoch is stale'')
      else Inr ())"

definition assertActiveTuiRequestLease :: "request_row \<Rightarrow> lease \<Rightarrow> int \<Rightarrow> unit res" where
  "assertActiveTuiRequestLease r l now =
     bindR (assertTuiRequestLease r l) (\<lambda>_.
     case rq_expires r of
       None \<Rightarrow> Inl (Error ''TUI request lease has expired'')
     | Some t \<Rightarrow> if t \<le> now then Inl (Error ''TUI request lease has expired'') else Inr ())"

section \<open>The queue\<close>

record enqueue_input =
  eq_requestId :: string
  eq_path :: string
  eq_fingerprint :: string
  eq_objective :: string
  eq_images :: json
  eq_binding :: "dispatch_binding option"
  eq_promotion :: "promotion_source option"

definition active :: "request_row \<Rightarrow> bool" where
  "active r = (rq_status r = RqQueued \<or> rq_status r = RqRunning)"

definition enc_promotion :: "promotion_source \<Rightarrow> json" where
  "enc_promotion p = JObj [(''version'', JNum 1), (''source'', JObj [(''kind'', JStr (pm_kind p)),
     (''sourceId'', JStr (pm_sourceId p)), (''question'', JStr (pm_question p)),
     (''answer'', JStr (pm_answer p)), (''completedAt'', JStr (pm_completedAt p))])]"

definition binding_columns_of :: "dispatch_binding option \<Rightarrow> binding_columns" where
  "binding_columns_of b =
     (case b of
        None \<Rightarrow> \<lparr>bc_version = None, bc_generation = None, bc_session = None, bc_provider = None,
          bc_model = None, bc_account = None, bc_thinking = None\<rparr>
      | Some x \<Rightarrow> \<lparr>bc_version = Some 1, bc_generation = Some (bn_generation x), bc_session = bn_session x,
          bc_provider = Some (bn_provider x), bc_model = Some (bn_model x), bc_account = bn_account x,
          bc_thinking = bn_thinking x\<rparr>)"

definition promotion_columns_of :: "promotion_source option \<Rightarrow> promotion_columns" where
  "promotion_columns_of p =
     (case p of
        None \<Rightarrow> \<lparr>pc_kind = None, pc_id = None, pc_json = None\<rparr>
      | Some x \<Rightarrow> \<lparr>pc_kind = Some (pm_kind x), pc_id = Some (pm_sourceId x),
          pc_json = Some (stringify (enc_promotion x))\<rparr>)"

text \<open>The row an earlier request left: by promotion source, else by the fingerprint while active.\<close>

definition existing_request :: "op_db \<Rightarrow> enqueue_input \<Rightarrow> request_row option" where
  "existing_request db i =
     List.find (\<lambda>r. rq_path r = eq_path i \<and>
       (case eq_promotion i of
          Some p \<Rightarrow> pc_kind (rq_promotion r) = Some (pm_kind p) \<and> pc_id (rq_promotion r) = Some (pm_sourceId p)
        | None \<Rightarrow> rq_fingerprint r = eq_fingerprint i \<and> active r)) (db_requests db)"

definition next_position :: "op_db \<Rightarrow> string \<Rightarrow> int" where
  "next_position db path =
     (case map rq_position (filter (\<lambda>r. rq_path r = path) (db_requests db)) of
        [] \<Rightarrow> 1 | x # xs \<Rightarrow> fold max xs x + 1)"

text \<open>
  The constraints of the schema on an inserted request: the primary key, the unique index on the
  fingerprint of active requests, and the one on promotions.
\<close>

definition insert_conflict :: "op_db \<Rightarrow> request_row \<Rightarrow> bool" where
  "insert_conflict db r =
     (list_ex (\<lambda>q. rq_id q = rq_id r) (db_requests db)
      \<or> list_ex (\<lambda>q. active q \<and> active r \<and> rq_path q = rq_path r \<and> rq_fingerprint q = rq_fingerprint r) (db_requests db)
      \<or> list_ex (\<lambda>q. pc_id (rq_promotion r) \<noteq> None \<and> pc_id (rq_promotion q) = pc_id (rq_promotion r)
           \<and> pc_kind (rq_promotion r) \<noteq> None \<and> pc_kind (rq_promotion q) = pc_kind (rq_promotion r)
           \<and> rq_path q = rq_path r) (db_requests db))"

definition new_row :: "op_db \<Rightarrow> enqueue_input \<Rightarrow> tui_image list \<Rightarrow> int \<Rightarrow> request_row" where
  "new_row db i images now =
     \<lparr>rq_id = eq_requestId i, rq_path = eq_path i, rq_position = next_position db (eq_path i),
      rq_fingerprint = eq_fingerprint i, rq_objective = eq_objective i,
      rq_images = (if images = [] then None else Some (stringify (JArr (map enc_image images)))),
      rq_binding = binding_columns_of (eq_binding i), rq_promotion = promotion_columns_of (eq_promotion i),
      rq_status = RqQueued, rq_created = now, rq_updated = now, rq_owner = None, rq_epoch = 0,
      rq_expires = None, rq_effect = None, rq_outcome = None, rq_sequence = 0, rq_snapshot = None\<rparr>"

text \<open>The result: the database, the request (mapping an existing row may throw), and whether it is new.\<close>

definition enqueue :: "op_db \<Rightarrow> enqueue_input \<Rightarrow> int \<Rightarrow> (op_db \<times> tui_request res \<times> bool) res" where
  "enqueue db i now =
     bindR (parseImagePayloads (if eq_images i \<in> {JUndef, JNull} then JArr [] else eq_images i)) (\<lambda>images.
     case existing_request db i of
       Some r \<Rightarrow> Inr (db, mapTuiRequest r, False)
     | None \<Rightarrow>
         (let row = new_row db i images now in
          if insert_conflict db row then Inl (SqlConstraint ''UNIQUE constraint failed: tui_request_queue'')
          else Inr (db\<lparr>db_requests := db_requests db @ [row]\<rparr>,
            Inr \<lparr>tq_id = eq_requestId i, tq_path = eq_path i, tq_objective = eq_objective i,
              tq_images = images, tq_position = rq_position row, tq_status = RqQueued, tq_created = now,
              tq_binding = eq_binding i, tq_promotion = eq_promotion i\<rparr>, True)))"

text \<open>\<open>ORDER BY position LIMIT 1\<close> and \<open>ORDER BY position DESC LIMIT 1\<close>.\<close>

fun least_row :: "request_row list \<Rightarrow> request_row option" where
  "least_row [] = None"
| "least_row (r # rs) = (case least_row rs of None \<Rightarrow> Some r
     | Some q \<Rightarrow> Some (if rq_position q < rq_position r then q else r))"

fun greatest_row :: "request_row list \<Rightarrow> request_row option" where
  "greatest_row [] = None"
| "greatest_row (r # rs) = (case greatest_row rs of None \<Rightarrow> Some r
     | Some q \<Rightarrow> Some (if rq_position r < rq_position q then q else r))"

definition list_requests :: "op_db \<Rightarrow> string \<Rightarrow> tui_request list res" where
  "list_requests db path =
     mapR mapTuiRequest (sort_key rq_position (filter (\<lambda>r. rq_path r = path \<and> active r) (db_requests db)))"

definition recallNewest :: "op_db \<Rightarrow> string \<Rightarrow> time_arg \<Rightarrow> int \<Rightarrow> (op_db \<times> tui_request res option) res" where
  "recallNewest db path now clock =
     bindR (isoTimestamp clock now) (\<lambda>t.
     case greatest_row (filter (\<lambda>r. rq_path r = path \<and> rq_status r = RqQueued) (db_requests db)) of
       None \<Rightarrow> Inr (db, None)
     | Some row \<Rightarrow>
         (let hit = (\<lambda>r. rq_id r = rq_id row \<and> rq_status r = RqQueued) in
          if count_where hit (db_requests db) \<noteq> 1
            then Inl (Error ''TUI pending request changed before recall'')
          else Inr (db\<lparr>db_requests := update_where hit (\<lambda>r. r\<lparr>rq_status := RqFailed,
                      rq_outcome := Some ''recalled'', rq_updated := t\<rparr>) (db_requests db)\<rparr>,
                    Some (mapTuiRequest row))))"

section \<open>The event log and the graph of a request\<close>

fun enc_event :: "execution_event \<Rightarrow> json" where
  "enc_event (NodeStartedEvent i p k l) =
     JObj ([(''type'', JStr ''node.started''), (''nodeId'', JStr i)]
       @ (case p of None \<Rightarrow> [] | Some q \<Rightarrow> [(''parentNodeId'', JStr q)])
       @ [(''kind'', JStr (kind_name k)), (''label'', JStr l)])"
| "enc_event (NodeCompletedEvent i b d s) =
     JObj [(''type'', JStr ''node.completed''), (''nodeId'', JStr i), (''success'', JBool b),
       (''durationMs'', JNum d), (''summary'', JStr s)]"

definition events_of :: "op_db \<Rightarrow> string \<Rightarrow> event_row list" where
  "events_of db requestId = filter (\<lambda>e. ev_request e = requestId) (db_events db)"

text \<open>The trigger on inserted events: the sequence continues the one of the request.\<close>

definition event_accepted :: "op_db \<Rightarrow> string \<Rightarrow> int \<Rightarrow> bool" where
  "event_accepted db requestId sequence =
     (0 < sequence \<and>
      sequence = (case List.find (\<lambda>r. rq_id r = requestId) (db_requests db) of
        None \<Rightarrow> 0 | Some r \<Rightarrow> rq_sequence r + 1)
      \<and> \<not> list_ex (\<lambda>e. ev_request e = requestId \<and> ev_sequence e = sequence) (db_events db))"

definition append_event :: "op_db \<Rightarrow> string \<Rightarrow> string \<Rightarrow> int \<Rightarrow> int \<Rightarrow> execution_graph \<Rightarrow> execution_event \<Rightarrow> int
    \<Rightarrow> (op_db \<times> execution_graph) res" where
  "append_event db requestId ownerId leaseEpoch sequence graph event now =
     (let nextSequence = sequence + 1 in
      if \<not> safe_int nextSequence then Inl (Error ''TUI execution event sequence is exhausted'')
      else bindR (applyExecutionEvent graph event) (\<lambda>nextGraph.
      if \<not> event_accepted db requestId nextSequence
        then Inl (SqlConstraint ''TUI execution event sequence is not contiguous'')
      else
        let hit = (\<lambda>r. rq_id r = requestId \<and> rq_status r = RqRunning \<and> rq_owner r = Some ownerId
                     \<and> rq_epoch r = leaseEpoch \<and> rq_sequence r = sequence) in
        if count_where hit (db_requests db) \<noteq> 1
          then Inl (Error ''TUI request lease changed before recording execution event'')
        else Inr (db\<lparr>db_events := db_events db @ [\<lparr>ev_request = requestId, ev_sequence = nextSequence,
                        ev_json = stringify (enc_event event), ev_created = now\<rparr>],
                     db_requests := update_where hit (\<lambda>r. r\<lparr>rq_sequence := nextSequence,
                        rq_snapshot := Some (graph_text nextGraph), rq_updated := now\<rparr>) (db_requests db)\<rparr>,
                  nextGraph)))"

definition root_ok :: "string \<Rightarrow> execution_graph \<Rightarrow> bool" where
  "root_ok requestId g = (eg_runId g = requestId \<and>
     (case eg_nodes g of [] \<Rightarrow> False
      | root # _ \<Rightarrow> en_id root = requestId \<and> en_kind root = RootNode \<and> en_parentNodeId root = None))"

definition read_graph :: "op_db \<Rightarrow> string \<Rightarrow> int \<Rightarrow> string option \<Rightarrow> execution_graph res" where
  "read_graph db requestId sequence snapshot =
     (case snapshot of
        None \<Rightarrow> Inl (Error ''TUI execution projection is unavailable'')
      | Some t \<Rightarrow>
          if \<not> safe_int sequence \<or> sequence < 1 then Inl (Error ''TUI execution projection is unavailable'')
          else let es = events_of db requestId in
          if int (length es) \<noteq> sequence \<or> fold max (map ev_sequence es) 0 \<noteq> sequence
            then Inl (Error ''TUI execution event sequence is not contiguous'')
          else bindR (parseExecutionGraphJson t) (\<lambda>g.
            if \<not> root_ok requestId g then Inl (Error ''persisted TUI execution root is invalid'')
            else Inr g))"

definition record_event :: "op_db \<Rightarrow> string \<Rightarrow> lease \<Rightarrow> time_arg \<Rightarrow> json \<Rightarrow> int \<Rightarrow> op_db res" where
  "record_event db requestId l now event clock =
     bindR (isoTimestamp clock now) (\<lambda>t.
     bindR (runningTuiRequestRow db requestId) (\<lambda>row.
     bindR (assertActiveTuiRequestLease row l t) (\<lambda>_.
     bindR (parseExecutionEvent event) (\<lambda>e.
     if (case e of NodeCompletedEvent i b d s \<Rightarrow> i = requestId | NodeStartedEvent i p k lb \<Rightarrow> k = RootNode)
       then Inl (Error ''TUI execution root lifecycle is controlled by its request'')
     else bindR (read_graph db requestId (rq_sequence row) (rq_snapshot row)) (\<lambda>graph.
       bindR (append_event db requestId (ls_owner l) (ls_epoch l) (rq_sequence row) graph e t)
         (\<lambda>res. Inr (fst res)))))))"

definition initializeRoot :: "op_db \<Rightarrow> string \<Rightarrow> string \<Rightarrow> string \<Rightarrow> int \<Rightarrow> int \<Rightarrow> op_db res" where
  "initializeRoot db requestId objective ownerId leaseEpoch now =
     bindR (append_event db requestId ownerId leaseEpoch 0 (createExecutionGraph requestId)
         (NodeStartedEvent requestId None RootNode objective) now)
       (\<lambda>res. Inr (fst res))"

text \<open>The loop over the unfinished nodes, newest first; the root is skipped.\<close>

fun finish_nodes :: "op_db \<Rightarrow> string \<Rightarrow> string \<Rightarrow> int \<Rightarrow> int \<Rightarrow> execution_graph \<Rightarrow> string \<Rightarrow> int \<Rightarrow> string list
    \<Rightarrow> (op_db \<times> execution_graph \<times> int) res" where
  "finish_nodes db requestId ownerId leaseEpoch sequence graph status now [] = Inr (db, graph, sequence)"
| "finish_nodes db requestId ownerId leaseEpoch sequence graph status now (n # ns) =
     (if n = requestId then finish_nodes db requestId ownerId leaseEpoch sequence graph status now ns
      else bindR (append_event db requestId ownerId leaseEpoch sequence graph
             (NodeCompletedEvent n False 0 (status @ '': unfinished'')) now) (\<lambda>res.
        finish_nodes (fst res) requestId ownerId leaseEpoch (sequence + 1) (snd res) status now ns))"

definition completeRoot :: "op_db \<Rightarrow> string \<Rightarrow> string \<Rightarrow> int \<Rightarrow> int \<Rightarrow> string option \<Rightarrow> string \<Rightarrow> int \<Rightarrow> op_db res" where
  "completeRoot db requestId ownerId leaseEpoch sequence snapshot status now =
     bindR (read_graph db requestId sequence snapshot) (\<lambda>graph.
     bindR (finish_nodes db requestId ownerId leaseEpoch sequence graph status now
         (rev (eg_activeNodeIds graph))) (\<lambda>res.
     bindR (append_event (fst res) requestId ownerId leaseEpoch (snd (snd res)) (fst (snd res))
         (NodeCompletedEvent requestId (status = ''completed'') 0 status) now) (\<lambda>res2.
     Inr (fst res2))))"

definition list_graphs :: "op_db \<Rightarrow> string \<Rightarrow> (string \<times> request_status \<times> execution_graph) list res" where
  "list_graphs db path =
     mapR (\<lambda>r. bindR (read_graph db (rq_id r) (rq_sequence r) (rq_snapshot r))
         (\<lambda>g. Inr (rq_id r, rq_status r, g)))
       (rev (sort_key rq_updated (sort_key rq_position
         (filter (\<lambda>r. rq_path r = path \<and> rq_snapshot r \<noteq> None) (db_requests db)))))"

section \<open>Effects, completion and recovery\<close>

definition expired :: "int \<Rightarrow> request_row \<Rightarrow> bool" where
  "expired now r = (case rq_expires r of None \<Rightarrow> True | Some t \<Rightarrow> t \<le> now)"

text \<open>The requests whose lease ran out after an effect: their graph is closed, they fail for good.\<close>

fun fail_indeterminate :: "op_db \<Rightarrow> int \<Rightarrow> request_row list \<Rightarrow> op_db res" where
  "fail_indeterminate db now [] = Inr db"
| "fail_indeterminate db now (row # rows) =
     (case rq_owner row of
        None \<Rightarrow> Inl (Error ''TUI request lease owner is unavailable'')
      | Some owner \<Rightarrow>
          bindR (completeRoot db (rq_id row) owner (rq_epoch row) (rq_sequence row) (rq_snapshot row)
              ''indeterminate'' now) (\<lambda>db1.
          let hit = (\<lambda>r. rq_id r = rq_id row \<and> rq_status r = RqRunning \<and> rq_owner r = Some owner
                       \<and> rq_epoch r = rq_epoch row) in
          if count_where hit (db_requests db1) \<noteq> 1
            then Inl (Error ''TUI request lease changed during recovery'')
          else fail_indeterminate (db1\<lparr>db_requests := update_where hit (\<lambda>r. r\<lparr>rq_status := RqFailed,
                 rq_outcome := Some ''indeterminate'', rq_updated := now\<rparr>) (db_requests db1)\<rparr>) now rows))"

definition recoverExpired :: "op_db \<Rightarrow> string \<Rightarrow> int \<Rightarrow> op_db res" where
  "recoverExpired db path now =
     bindR (fail_indeterminate db now (filter (\<lambda>r. rq_path r = path \<and> rq_status r = RqRunning
         \<and> expired now r \<and> rq_effect r \<noteq> None) (db_requests db))) (\<lambda>db1.
     Inr (db1\<lparr>db_requests := update_where (\<lambda>r. rq_path r = path \<and> rq_status r = RqRunning \<and> expired now r
           \<and> rq_effect r = None) (\<lambda>r. r\<lparr>rq_status := RqQueued, rq_owner := None, rq_expires := None,
           rq_outcome := None, rq_updated := now\<rparr>) (db_requests db1)\<rparr>))"

definition recover :: "op_db \<Rightarrow> string \<Rightarrow> time_arg \<Rightarrow> int \<Rightarrow> op_db res" where
  "recover db path now clock = bindR (isoTimestamp clock now) (recoverExpired db path)"

datatype completion_status = StCompleted | StFailed | StCanceled

fun completion_name :: "completion_status \<Rightarrow> string" where
  "completion_name StCompleted = ''completed''"
| "completion_name StFailed = ''failed''"
| "completion_name StCanceled = ''canceled''"

definition complete :: "op_db \<Rightarrow> string \<Rightarrow> completion_status \<Rightarrow> lease \<Rightarrow> time_arg \<Rightarrow> int \<Rightarrow> op_db res" where
  "complete db requestId status l now clock =
     bindR (requireTuiRequestLease l) (\<lambda>_.
     bindR (isoTimestamp clock now) (\<lambda>t.
     bindR (runningTuiRequestRow db requestId) (\<lambda>row.
     bindR (assertActiveTuiRequestLease row l t) (\<lambda>_.
     case rq_owner row of
       None \<Rightarrow> Inl (Error ''TUI request lease owner is unavailable'')
     | Some owner \<Rightarrow>
         (let persisted = (if status = StCompleted then RqCompleted else RqFailed) in
          bindR (completeRoot db requestId owner (rq_epoch row) (rq_sequence row) (rq_snapshot row)
              (if status = StCompleted then ''completed'' else ''failed'') t) (\<lambda>db1.
          let hit = (\<lambda>r. rq_id r = requestId \<and> rq_status r = RqRunning \<and> rq_owner r = Some owner
                       \<and> rq_epoch r = rq_epoch row \<and> \<not> expired t r) in
          if count_where hit (db_requests db1) \<noteq> 1
            then Inl (Error ''TUI request lease changed before completion'')
          else Inr (db1\<lparr>db_requests := update_where hit (\<lambda>r. r\<lparr>rq_status := persisted,
                 rq_outcome := Some (completion_name status), rq_updated := t\<rparr>) (db_requests db1)\<rparr>)))))))"

definition record_effect :: "op_db \<Rightarrow> string \<Rightarrow> lease \<Rightarrow> string \<Rightarrow> time_arg \<Rightarrow> int \<Rightarrow> op_db res" where
  "record_effect db requestId l effectId now clock =
     (if effectId = [] then Inl (Error ''TUI request effect ID is required'')
      else bindR (isoTimestamp clock now) (\<lambda>t.
      bindR (runningTuiRequestRow db requestId) (\<lambda>row.
      bindR (assertActiveTuiRequestLease row l t) (\<lambda>_.
      case rq_effect row of
        Some e \<Rightarrow> if e \<noteq> effectId then Inl (Error ''TUI request effect ID is immutable'') else Inr db
      | None \<Rightarrow>
          (let hit = (\<lambda>r. rq_id r = requestId \<and> rq_status r = RqRunning \<and> rq_owner r = Some (ls_owner l)
                       \<and> rq_epoch r = ls_epoch l \<and> \<not> expired t r \<and> rq_effect r = None) in
           if count_where hit (db_requests db) \<noteq> 1 then Inl (Error ''TUI request effect could not be bound'')
           else Inr (db\<lparr>db_requests := update_where hit (\<lambda>r. r\<lparr>rq_effect := Some effectId,
                  rq_updated := t\<rparr>) (db_requests db)\<rparr>))))))"

section \<open>Leases\<close>

record claim_options =
  co_ownerId :: string
  co_requestId :: "string option"
  co_now :: time_arg
  co_leaseMs :: "int option"

definition DEFAULT_LEASE_MS :: int where "DEFAULT_LEASE_MS = 60000"

text \<open>The claimed request with its new lease; the mapping of its row happens after the commit.\<close>

definition claim :: "op_db \<Rightarrow> string \<Rightarrow> claim_options option \<Rightarrow> int \<Rightarrow> (op_db \<times> (tui_request res \<times> lease) option) res" where
  "claim db path options clock =
     (let ownerId = (case options of None \<Rightarrow> ''legacy'' | Some c \<Rightarrow> co_ownerId c);
          leaseMs = (case options of None \<Rightarrow> 0 | Some c \<Rightarrow>
            (case co_leaseMs c of None \<Rightarrow> DEFAULT_LEASE_MS | Some n \<Rightarrow> n));
          wanted = (case options of None \<Rightarrow> None | Some c \<Rightarrow> nonempty (co_requestId c)) in
      if trim ownerId = [] then Inl (Error ''TUI request lease owner is required'')
      else bindR (isoTimestamp clock (case options of None \<Rightarrow> NowDefault | Some c \<Rightarrow> co_now c)) (\<lambda>now.
      if \<not> safe_int leaseMs \<or> leaseMs < 0
        then Inl (Error ''TUI request lease duration must be a non-negative integer'')
      else bindR (to_iso (now + leaseMs)) (\<lambda>expiresAt.
      bindR (recoverExpired db path now) (\<lambda>db1.
      if list_ex (\<lambda>r. rq_path r = path \<and> rq_status r = RqRunning \<and> \<not> expired now r) (db_requests db1)
        then Inr (db1, None)
      else case least_row (filter (\<lambda>r. rq_path r = path \<and> rq_status r = RqQueued
             \<and> (case wanted of None \<Rightarrow> True | Some w \<Rightarrow> rq_id r = w)) (db_requests db1)) of
        None \<Rightarrow> Inr (db1, None)
      | Some row \<Rightarrow>
          (let leaseEpoch = rq_epoch row + 1;
               hit = (\<lambda>r. rq_id r = rq_id row \<and> rq_status r = RqQueued) in
           if count_where hit (db_requests db1) \<noteq> 1
             then Inl (Error ''TUI request was claimed by another runtime'')
           else
             let db2 = db1\<lparr>db_requests := update_where hit (\<lambda>r. r\<lparr>rq_status := RqRunning,
                     rq_owner := Some ownerId, rq_epoch := leaseEpoch, rq_expires := Some expiresAt,
                     rq_outcome := None, rq_updated := now\<rparr>) (db_requests db1)\<rparr> in
             bindR (if rq_sequence row = 0 then
                      (if rq_snapshot row \<noteq> None
                         then Inl (Error ''TUI execution snapshot has no event sequence'')
                       else initializeRoot db2 (rq_id row) (rq_objective row) ownerId leaseEpoch now)
                    else bindR (read_graph db2 (rq_id row) (rq_sequence row) (rq_snapshot row)) (\<lambda>_. Inr db2))
               (\<lambda>db3. Inr (db3, Some (mapTuiRequest (row\<lparr>rq_status := RqRunning\<rparr>),
                  \<lparr>ls_owner = ownerId, ls_epoch = leaseEpoch\<rparr>))))))))"

definition renew :: "op_db \<Rightarrow> string \<Rightarrow> lease \<Rightarrow> time_arg \<Rightarrow> int \<Rightarrow> int \<Rightarrow> op_db res" where
  "renew db requestId l now leaseMs clock =
     bindR (isoTimestamp clock now) (\<lambda>t.
     if \<not> safe_int leaseMs \<or> leaseMs \<le> 0
       then Inl (Error ''TUI request lease duration must be a positive integer'')
     else bindR (to_iso (t + leaseMs)) (\<lambda>expiresAt.
     bindR (runningTuiRequestRow db requestId) (\<lambda>row.
     bindR (assertActiveTuiRequestLease row l t) (\<lambda>_.
     let hit = (\<lambda>r. rq_id r = requestId \<and> rq_status r = RqRunning \<and> rq_owner r = Some (ls_owner l)
                  \<and> rq_epoch r = ls_epoch l \<and> \<not> expired t r) in
     if count_where hit (db_requests db) \<noteq> 1
       then Inl (Error ''TUI request lease fence changed before renewal'')
     else Inr (db\<lparr>db_requests := update_where hit (\<lambda>r. r\<lparr>rq_expires :=
            (case rq_expires r of None \<Rightarrow> None | Some e \<Rightarrow> if e < expiresAt then Some expiresAt else Some e),
            rq_updated := t\<rparr>) (db_requests db)\<rparr>)))))"

end
