(* ===== verification/OpInv.thy ===== *)
theory OpInv
  imports OpStore
begin

text \<open>
  The invariant of the request queue and what no operation on it undoes. The operations are
  built from two primitives, the conditional update of rows and the append to the event log;
  each keeps the invariant and moves the database upwards, and the operations compose them.
\<close>

section \<open>Invariant\<close>

definition running :: "request_row \<Rightarrow> bool" where
  "running r = (rq_status r = RqRunning)"

text \<open>A graph of a request: well formed, with the request as its root.\<close>

definition graph_of_request :: "string \<Rightarrow> execution_graph \<Rightarrow> bool" where
  "graph_of_request i g = (graph_inv False g \<and> root_ok i g)"

definition row_ok :: "request_row \<Rightarrow> bool" where
  "row_ok r = (0 \<le> rq_epoch r
     \<and> (running r \<longrightarrow> rq_owner r \<noteq> None \<and> rq_expires r \<noteq> None \<and> 1 \<le> rq_epoch r)
     \<and> (rq_effect r \<noteq> None \<longrightarrow> rq_status r \<noteq> RqQueued \<and> 1 \<le> rq_epoch r))"

text \<open>Events numbered from 1 to \<open>n\<close>.\<close>

definition numbered :: "int \<Rightarrow> event_row list \<Rightarrow> bool" where
  "numbered n es = (0 \<le> n \<and> map ev_sequence es = map int [1..<Suc (nat n)])"

definition snapshot_ok :: "string \<Rightarrow> int \<Rightarrow> string option \<Rightarrow> bool" where
  "snapshot_ok i n snapshot = (case snapshot of None \<Rightarrow> n = 0
     | Some t \<Rightarrow> 0 < n \<and> (\<exists>g. t = graph_text g \<and> graph_of_request i g))"

definition log_ok :: "op_db \<Rightarrow> request_row \<Rightarrow> bool" where
  "log_ok db r = (numbered (rq_sequence r) (events_of db (rq_id r))
     \<and> snapshot_ok (rq_id r) (rq_sequence r) (rq_snapshot r))"

text \<open>Rows that satisfy \<open>p\<close> are told apart by \<open>key\<close>.\<close>

definition told_apart :: "(request_row \<Rightarrow> bool) \<Rightarrow> (request_row \<Rightarrow> 'k) \<Rightarrow> request_row list \<Rightarrow> bool" where
  "told_apart p key rows =
     (\<forall>r \<in> set rows. \<forall>q \<in> set rows. p r \<longrightarrow> p q \<longrightarrow> key r = key q \<longrightarrow> rq_id r = rq_id q)"

text \<open>
  Identifiers are unique; an active request is unique for its project and fingerprint; positions
  are unique in a project; at most one request of a project is running; a running request has an
  owner and an expiry; a request with an effect is not queued; the event log of a request is
  numbered from 1 without gaps and its snapshot is a graph rooted at the request.
\<close>

definition op_inv :: "op_db \<Rightarrow> bool" where
  "op_inv db = (distinct (map rq_id (db_requests db))
     \<and> told_apart active (\<lambda>r. (rq_path r, rq_fingerprint r)) (db_requests db)
     \<and> told_apart (\<lambda>_. True) (\<lambda>r. (rq_path r, rq_position r)) (db_requests db)
     \<and> told_apart running rq_path (db_requests db)
     \<and> (\<forall>r \<in> set (db_requests db). row_ok r \<and> log_ok db r)
     \<and> ev_request ` set (db_events db) \<subseteq> rq_id ` set (db_requests db))"

section \<open>What no operation undoes\<close>

definition row_below :: "request_row \<Rightarrow> request_row \<Rightarrow> bool" where
  "row_below r q = (rq_id q = rq_id r \<and> rq_path q = rq_path r \<and> rq_position q = rq_position r
     \<and> rq_fingerprint q = rq_fingerprint r \<and> rq_objective q = rq_objective r \<and> rq_images q = rq_images r
     \<and> rq_binding q = rq_binding r \<and> rq_promotion q = rq_promotion r \<and> rq_created q = rq_created r
     \<and> rq_epoch r \<le> rq_epoch q
     \<and> (rq_effect r \<noteq> None \<longrightarrow> rq_effect q = rq_effect r \<and> rq_epoch q = rq_epoch r)
     \<and> (rq_status r \<in> {RqCompleted, RqFailed} \<longrightarrow> q = r))"

definition db_below :: "op_db \<Rightarrow> op_db \<Rightarrow> bool" where
  "db_below s t = (take (length (db_events s)) (db_events t) = db_events s
     \<and> length (db_requests s) \<le> length (db_requests t)
     \<and> list_all2 row_below (db_requests s) (take (length (db_requests s)) (db_requests t)))"

lemma row_below_refl [simp]: "row_below r r"
  by (simp add: row_below_def)

lemma row_below_trans: "row_below r q \<Longrightarrow> row_below q p \<Longrightarrow> row_below r p"
  by (auto simp: row_below_def)

lemma list_all2_take_trans:
  assumes "\<And>x y z. P x y \<Longrightarrow> P y z \<Longrightarrow> P x z"
    and "list_all2 P xs (take (length xs) ys)" and "list_all2 P ys (take (length ys) zs)"
  shows "list_all2 P xs (take (length xs) zs)"
proof -
  have len: "length xs \<le> length ys" "length ys \<le> length zs"
    using list_all2_lengthD [OF assms(2)] list_all2_lengthD [OF assms(3)] by auto
  show ?thesis
    using assms(2,3) len by (auto simp: list_all2_conv_all_nth intro: assms(1))
qed

lemma db_below_refl: "db_below s s"
  by (simp add: db_below_def list.rel_refl)

lemma take_take_trans:
  assumes "take (length xs) ys = xs" and "take (length ys) zs = ys"
  shows "take (length xs) zs = xs"
  using list_all2_take_trans [of "(=)" xs ys zs] assms by (simp add: list.rel_eq)

lemma db_below_trans: "db_below s t \<Longrightarrow> db_below t u \<Longrightarrow> db_below s u"
  unfolding db_below_def
  by (blast intro: take_take_trans list_all2_take_trans row_below_trans order_trans)

section \<open>Conditional updates\<close>

lemma list_all2_update_where:
  "(\<And>r. r \<in> set rows \<Longrightarrow> hit r \<Longrightarrow> P r (f r)) \<Longrightarrow> (\<And>r. r \<in> set rows \<Longrightarrow> \<not> hit r \<Longrightarrow> P r r) \<Longrightarrow>
     list_all2 P rows (update_where hit f rows)"
  by (induction rows) auto

text \<open>What an update of a row keeps: its identity, and, unless an event is recorded, its log.\<close>

definition same_row :: "request_row \<Rightarrow> request_row \<Rightarrow> bool" where
  "same_row r q = (rq_id q = rq_id r \<and> rq_path q = rq_path r \<and> rq_position q = rq_position r
     \<and> rq_fingerprint q = rq_fingerprint r)"

definition same_log :: "request_row \<Rightarrow> request_row \<Rightarrow> bool" where
  "same_log r q = (rq_sequence q = rq_sequence r \<and> rq_snapshot q = rq_snapshot r)"

lemma told_apart_image:
  assumes "told_apart p key rows" and "rows' = update_where hit f rows"
    and "\<And>r. r \<in> set rows \<Longrightarrow> hit r \<Longrightarrow> same_row r (f r) \<and> (p (f r) \<longrightarrow> p r)"
    and "\<And>r q. same_row r q \<Longrightarrow> key q = key r"
  shows "told_apart p key rows'"
proof -
  let ?g = "\<lambda>r. if hit r then f r else r"
  have g: "rq_id (?g r) = rq_id r \<and> key (?g r) = key r \<and> (p (?g r) \<longrightarrow> p r)" if "r \<in> set rows" for r
    using assms(3) [OF that] assms(4) [of r "f r"] by (auto simp: same_row_def)
  have "rq_id (?g r) = rq_id (?g q)"
    if "r \<in> set rows" "q \<in> set rows" "p (?g r)" "p (?g q)" "key (?g r) = key (?g q)" for r q
    using g [OF that(1)] g [OF that(2)] that assms(1) unfolding told_apart_def by metis
  then show ?thesis unfolding told_apart_def assms(2) set_update_where by blast
qed

lemma events_of_requests [simp]: "events_of (db\<lparr>db_requests := x\<rparr>) i = events_of db i"
  by (simp add: events_of_def)

lemma log_ok_same: "same_row r q \<Longrightarrow> same_log r q \<Longrightarrow> log_ok (db\<lparr>db_requests := x\<rparr>) q = log_ok db r"
  by (simp add: log_ok_def same_row_def same_log_def)

lemma update_inv:
  assumes inv: "op_inv db"
    and keep: "\<And>r. r \<in> set (db_requests db) \<Longrightarrow> hit r \<Longrightarrow>
       same_row r (f r) \<and> same_log r (f r) \<and> row_ok (f r) \<and> (active (f r) \<longrightarrow> active r)"
    and run: "told_apart running rq_path (update_where hit f (db_requests db))"
  shows "op_inv (db\<lparr>db_requests := update_where hit f (db_requests db)\<rparr>)"
proof -
  let ?rows = "db_requests db" and ?rows' = "update_where hit f (db_requests db)"
  have ids: "map rq_id ?rows' = map rq_id ?rows"
    using keep by (auto simp: update_where_def same_row_def)
  have "told_apart active (\<lambda>r. (rq_path r, rq_fingerprint r)) ?rows'"
    using inv keep by (intro told_apart_image [of active _ ?rows _ hit f, OF _ refl]) (auto simp: op_inv_def same_row_def)
  moreover have "told_apart (\<lambda>_. True) (\<lambda>r. (rq_path r, rq_position r)) ?rows'"
    using inv keep by (intro told_apart_image [of _ _ ?rows _ hit f, OF _ refl]) (auto simp: op_inv_def same_row_def)
  moreover have "row_ok r \<and> log_ok (db\<lparr>db_requests := ?rows'\<rparr>) r" if "r \<in> set ?rows'" for r
  proof -
    from that obtain q where q: "q \<in> set ?rows" "r = (if hit q then f q else q)" by (auto simp: set_update_where)
    have "row_ok q \<and> log_ok db q" using inv q(1) by (simp add: op_inv_def)
    moreover have "same_row q r" "same_log q r" using keep [OF q(1)] q(2) by (auto simp: same_row_def same_log_def)
    moreover have "row_ok r" using keep [OF q(1)] q(2) \<open>row_ok q \<and> log_ok db q\<close> by auto
    ultimately show ?thesis using log_ok_same by blast
  qed
  moreover have "rq_id ` set ?rows' = rq_id ` set ?rows" using ids by (metis set_map)
  ultimately show ?thesis using inv run ids unfolding op_inv_def by simp
qed

text \<open>The usual case: no row starts to run.\<close>

lemma update_inv_stop:
  assumes "op_inv db"
    and keep: "\<And>r. r \<in> set (db_requests db) \<Longrightarrow> hit r \<Longrightarrow>
       same_row r (f r) \<and> same_log r (f r) \<and> row_ok (f r) \<and> (active (f r) \<longrightarrow> active r) \<and> (running (f r) \<longrightarrow> running r)"
  shows "op_inv (db\<lparr>db_requests := update_where hit f (db_requests db)\<rparr>)"
proof (rule update_inv [OF assms(1)])
  show "told_apart running rq_path (update_where hit f (db_requests db))"
    using assms by (intro told_apart_image [of running _ "db_requests db" _ hit f, OF _ refl])
      (auto simp: op_inv_def same_row_def)
qed (use keep in blast)

lemma update_below:
  assumes "\<And>r. r \<in> set (db_requests db) \<Longrightarrow> hit r \<Longrightarrow> row_below r (f r)"
  shows "db_below db (db\<lparr>db_requests := update_where hit f (db_requests db)\<rparr>)"
  using assms by (auto simp: db_below_def intro!: list_all2_update_where)

lemma db_row_ok: "op_inv db \<Longrightarrow> r \<in> set (db_requests db) \<Longrightarrow> row_ok r"
  by (simp add: op_inv_def)

lemma db_id_unique:
  "op_inv db \<Longrightarrow> r \<in> set (db_requests db) \<Longrightarrow> q \<in> set (db_requests db) \<Longrightarrow> rq_id r = rq_id q \<Longrightarrow> r = q"
  using key_unique_inj [of rq_id "db_requests db" r q] by (simp add: op_inv_def)

section \<open>Appending an event\<close>

lemma count_where_one: "count_where p rows = Suc 0 \<Longrightarrow> \<exists>r \<in> set rows. p r"
  using count_where_0 [of p rows] by auto

lemma numbered_snoc: "numbered n es \<Longrightarrow> ev_sequence e = n + 1 \<Longrightarrow> numbered (n + 1) (es @ [e])"
  by (auto simp: numbered_def nat_add_distrib)

lemma graph_of_request_apply:
  assumes "graph_of_request i g" and "applyExecutionEvent g e = Inr g'"
    and "\<And>j b d s. e = NodeCompletedEvent j b d s \<Longrightarrow> 0 \<le> d"
  shows "graph_of_request i g'"
proof -
  from assms(1) obtain n ns where n: "eg_nodes g = n # ns" "en_id n = i" "en_kind n = RootNode" "en_parentNodeId n = None"
    and g: "graph_inv False g" "eg_runId g = i"
    by (auto simp: graph_of_request_def root_ok_def split: list.splits)
  have "graph_inv False g'" using apply_inv [OF g(1) assms(2)] assms(3) by simp
  moreover have "\<exists>m ms. eg_nodes g' = m # ms \<and> en_id m = i \<and> en_kind m = RootNode \<and> en_parentNodeId m = None"
  proof (cases e)
    case (NodeStartedEvent j p k l)
    with assms(2) n show ?thesis by (auto split: if_splits)
  next
    case (NodeCompletedEvent j b d s)
    with assms(2) obtain k where "eg_nodes g' = (eg_nodes g)[k := (eg_nodes g ! k)\<lparr>en_state :=
        (if b then NodeCompleted d s else NodeFailed d s)\<rparr>]"
      by (auto split: option.splits if_splits)
    with n show ?thesis by (cases k) auto
  qed
  moreover have "eg_runId g' = i" using assms(2) g(2) by (cases e) (auto split: option.splits if_splits)
  ultimately show ?thesis by (auto simp: graph_of_request_def root_ok_def)
qed

text \<open>The rows after an append: one row of the request has a new log, the others stay.\<close>

definition exec_changed :: "string \<Rightarrow> request_row \<Rightarrow> request_row \<Rightarrow> bool" where
  "exec_changed i r q = (if rq_id r = i
     then (\<exists>n t u. q = r\<lparr>rq_sequence := n, rq_snapshot := t, rq_updated := u\<rparr>)
     else q = r)"

lemma exec_changed_refl [simp]: "exec_changed i r r"
proof -
  have "r = r\<lparr>rq_sequence := rq_sequence r, rq_snapshot := rq_snapshot r, rq_updated := rq_updated r\<rparr>" by simp
  then show ?thesis unfolding exec_changed_def by metis
qed

lemma exec_changed_trans: "exec_changed i r q \<Longrightarrow> exec_changed i q p \<Longrightarrow> exec_changed i r p"
  by (fastforce simp: exec_changed_def split: if_splits)

lemma exec_changed_fields:
  assumes "exec_changed i r q"
  shows "rq_id q = rq_id r" "rq_path q = rq_path r" "rq_position q = rq_position r"
    "rq_fingerprint q = rq_fingerprint r" "rq_status q = rq_status r" "rq_owner q = rq_owner r"
    "rq_epoch q = rq_epoch r" "rq_expires q = rq_expires r" "rq_effect q = rq_effect r"
    "rq_objective q = rq_objective r" "rq_images q = rq_images r" "rq_binding q = rq_binding r"
    "rq_promotion q = rq_promotion r" "rq_created q = rq_created r"
  using assms by (auto simp: exec_changed_def split: if_splits)

lemma exec_changed_below:
  assumes "exec_changed i r q" and "running r \<or> q = r"
  shows "row_below r q"
  using exec_changed_fields [OF assms(1)] assms(2) by (auto simp: row_below_def running_def)

lemma append_event_Inr:
  assumes "append_event db i owner epoch n g e now = Inr (db', g')"
  defines "hit \<equiv> \<lambda>r. rq_id r = i \<and> rq_status r = RqRunning \<and> rq_owner r = Some owner \<and> rq_epoch r = epoch \<and> rq_sequence r = n"
  shows "applyExecutionEvent g e = Inr g'" and "\<exists>r \<in> set (db_requests db). hit r" and "safe_int (n + 1)"
    and "db' = db\<lparr>db_events := db_events db @ [\<lparr>ev_request = i, ev_sequence = n + 1, ev_json = stringify (enc_event e), ev_created = now\<rparr>],
        db_requests := update_where hit (\<lambda>r. r\<lparr>rq_sequence := n + 1, rq_snapshot := Some (graph_text g'), rq_updated := now\<rparr>) (db_requests db)\<rparr>"
  using assms(1) by (auto simp: append_event_def hit_def Let_def res_simps split: if_splits dest!: count_where_one)

lemma append_event_rows:
  assumes "append_event db i owner epoch n g e now = Inr (db', g')"
  shows "list_all2 (exec_changed i) (db_requests db) (db_requests db')"
  unfolding append_event_Inr(4) [OF assms]
  by (simp, rule list_all2_update_where) (auto simp: exec_changed_def intro: exI)

lemma append_event_inv:
  assumes inv: "op_inv db" and app: "append_event db i owner epoch n g e now = Inr (db', g')"
    and graph: "graph_of_request i g'"
  shows "op_inv db'"
proof -
  let ?hit = "\<lambda>r. rq_id r = i \<and> rq_status r = RqRunning \<and> rq_owner r = Some owner \<and> rq_epoch r = epoch \<and> rq_sequence r = n"
  let ?f = "\<lambda>r. r\<lparr>rq_sequence := n + 1, rq_snapshot := Some (graph_text g'), rq_updated := now\<rparr>"
  let ?e = "\<lparr>ev_request = i, ev_sequence = n + 1, ev_json = stringify (enc_event e), ev_created = now\<rparr>"
  note db' = append_event_Inr(4) [OF app]
  obtain r0 where r0: "r0 \<in> set (db_requests db)" "?hit r0" using append_event_Inr(2) [OF app] by auto
  have rows: "db_requests db' = update_where ?hit ?f (db_requests db)" by (simp add: db')
  have same: "same_row r (?f r)" for r by (simp add: same_row_def)
  have "told_apart active (\<lambda>r. (rq_path r, rq_fingerprint r)) (db_requests db')"
    "told_apart (\<lambda>_. True) (\<lambda>r. (rq_path r, rq_position r)) (db_requests db')"
    "told_apart running rq_path (db_requests db')"
    using inv same
    by (auto simp: op_inv_def same_row_def active_def running_def intro!: told_apart_image [OF _ rows])
  note apart = this
  have ids: "map rq_id (db_requests db') = map rq_id (db_requests db)"
    by (simp add: rows map_update_where)
  have row: "row_ok r \<and> log_ok db' r" if "r \<in> set (db_requests db')" for r
  proof -
    from that obtain q where q: "q \<in> set (db_requests db)" "r = (if ?hit q then ?f q else q)"
      by (auto simp: rows set_update_where)
    have ok: "row_ok q" "log_ok db q" using inv q(1) by (auto simp: op_inv_def)
    show ?thesis
    proof (cases "?hit q")
      case True
      have "events_of db' i = events_of db i @ [?e]" by (simp add: events_of_def db')
      moreover have "numbered n (events_of db i)" using ok(2) True by (simp add: log_ok_def)
      ultimately have "numbered (n + 1) (events_of db' i)" by (simp add: numbered_snoc)
      moreover have "snapshot_ok i (n + 1) (Some (graph_text g'))"
        using graph \<open>numbered n (events_of db i)\<close> by (auto simp: snapshot_ok_def numbered_def)
      ultimately have "log_ok db' (?f q)" using True by (simp add: log_ok_def)
      moreover have "row_ok (?f q)" using ok(1) by (simp add: row_ok_def running_def)
      ultimately show ?thesis using True q(2) by simp
    next
      case False
      have "rq_id q \<noteq> i"
      proof
        assume "rq_id q = i"
        then have "r0 = q" using db_id_unique [OF inv r0(1) q(1)] r0(2) by simp
        with False r0(2) show False by blast
      qed
      then have "events_of db' (rq_id q) = events_of db (rq_id q)" by (auto simp: events_of_def db')
      moreover have "r = q" unfolding q(2) by (rule if_not_P [OF False])
      ultimately show ?thesis using ok by (simp add: log_ok_def)
    qed
  qed
  have "ev_request ` set (db_events db') \<subseteq> rq_id ` set (db_requests db)"
    using inv r0 by (auto simp: db' op_inv_def)
  moreover have "rq_id ` set (db_requests db') = rq_id ` set (db_requests db)" using ids by (metis set_map)
  ultimately show ?thesis using inv row ids apart unfolding op_inv_def by simp
qed

lemma append_event_below:
  assumes "append_event db i owner epoch n g e now = Inr (db', g')"
  shows "db_below db db'"
  unfolding append_event_Inr(4) [OF assms] db_below_def
  by (simp, rule list_all2_update_where) (auto simp: row_below_def)

section \<open>Closing the graph of a request\<close>

lemma read_graph_of_request:
  assumes "read_graph db i n snapshot = Inr g"
  shows "graph_of_request i g"
proof -
  from assms obtain t where t: "snapshot = Some t" by (cases snapshot) (auto simp: read_graph_def)
  with assms have "parseExecutionGraphJson t = Inr g"
    by (auto simp: read_graph_def Let_def res_simps split: if_split_asm)
  from parse_graph_inv [OF this] have "graph_inv False g"
    using nodes_ok_weaken by (auto simp: graph_inv_def)
  with assms t show ?thesis
    by (auto simp: read_graph_def graph_of_request_def Let_def res_simps split: if_split_asm)
qed

text \<open>
  Three facts go together for every operation that records events: the invariant, the order, and
  which rows change.
\<close>

definition event_step :: "string \<Rightarrow> op_db \<Rightarrow> op_db \<Rightarrow> bool" where
  "event_step i db db' = (op_inv db' \<and> db_below db db' \<and> list_all2 (exec_changed i) (db_requests db) (db_requests db'))"

lemma event_step_refl: "op_inv db \<Longrightarrow> event_step i db db"
  by (simp add: event_step_def db_below_refl list.rel_refl)

lemma event_step_trans: "event_step i db db1 \<Longrightarrow> event_step i db1 db2 \<Longrightarrow> event_step i db db2"
  using list_all2_trans [of "exec_changed i" "exec_changed i" "exec_changed i", OF exec_changed_trans]
  by (auto simp: event_step_def intro: db_below_trans)

lemma append_event_step:
  assumes "op_inv db" and "append_event db i owner epoch n g e now = Inr (db', g')" and "graph_of_request i g'"
  shows "event_step i db db'"
  using append_event_inv [OF assms] append_event_below [OF assms(2)] append_event_rows [OF assms(2)]
  by (simp add: event_step_def)

lemma append_event_graph:
  assumes "append_event db i owner epoch n g e now = Inr (db', g')" and "graph_of_request i g"
    and "\<And>j b d s. e = NodeCompletedEvent j b d s \<Longrightarrow> 0 \<le> d"
  shows "graph_of_request i g'"
  using graph_of_request_apply [OF assms(2) append_event_Inr(1) [OF assms(1)] assms(3)] .

lemma finish_nodes_step:
  "finish_nodes db i owner epoch n g status now ns = Inr (db', g', n') \<Longrightarrow> op_inv db \<Longrightarrow> graph_of_request i g \<Longrightarrow>
     event_step i db db' \<and> graph_of_request i g'"
proof (induction ns arbitrary: db g n)
  case Nil
  then show ?case by (simp add: event_step_refl)
next
  case (Cons x ns)
  show ?case
  proof (cases "x = i")
    case True
    with Cons show ?thesis by simp
  next
    case False
    with Cons.prems(1) obtain db1 g1 where a: "append_event db i owner epoch n g
        (NodeCompletedEvent x False 0 (status @ '': unfinished'')) now = Inr (db1, g1)"
      and rest: "finish_nodes db1 i owner epoch (n + 1) g1 status now ns = Inr (db', g', n')"
      by (auto simp: res_simps)
    have g1: "graph_of_request i g1" using append_event_graph [OF a Cons.prems(3)] by simp
    have step: "event_step i db db1" by (rule append_event_step [OF Cons.prems(2) a g1])
    with Cons.IH [OF rest] g1 have "event_step i db1 db' \<and> graph_of_request i g'" by (simp add: event_step_def)
    with step event_step_trans show ?thesis by blast
  qed
qed

lemma completeRoot_step:
  assumes "completeRoot db i owner epoch n snapshot status now = Inr db'" and "op_inv db"
  shows "event_step i db db'"
proof -
  from assms(1) obtain g db1 g1 n1 g2 where g: "read_graph db i n snapshot = Inr g"
    and f: "finish_nodes db i owner epoch n g status now (rev (eg_activeNodeIds g)) = Inr (db1, g1, n1)"
    and a: "append_event db1 i owner epoch n1 g1 (NodeCompletedEvent i (status = ''completed'') 0 status) now = Inr (db', g2)"
    by (auto simp: completeRoot_def res_simps)
  have s1: "event_step i db db1" and g1: "graph_of_request i g1"
    using finish_nodes_step [OF f assms(2) read_graph_of_request [OF g]] by auto
  have "graph_of_request i g2" using append_event_graph [OF a g1] by simp
  with s1 have "event_step i db1 db'" by (intro append_event_step [OF _ a]) (simp_all add: event_step_def)
  with s1 show ?thesis by (rule event_step_trans)
qed

lemma initializeRoot_step:
  assumes "initializeRoot db i objective owner epoch now = Inr db'" and "op_inv db"
  shows "event_step i db db'"
proof -
  from assms(1) obtain g' where a: "append_event db i owner epoch 0 (createExecutionGraph i)
      (NodeStartedEvent i None RootNode objective) now = Inr (db', g')"
    by (auto simp: initializeRoot_def res_simps)
  from append_event_Inr(1) [OF a] have "graph_of_request i g'"
    by (auto simp: createExecutionGraph_def graph_of_request_def root_ok_def graph_inv_def is_running_def)
  from append_event_step [OF assms(2) a this] show ?thesis .
qed

lemma record_event_step:
  assumes "record_event db i l now e clock = Inr db'" and "op_inv db"
  shows "event_step i db db'"
proof -
  from assms(1) obtain t and row :: request_row and ev where ev: "parseExecutionEvent e = Inr ev"
    and "bindR (read_graph db i (rq_sequence row) (rq_snapshot row)) (\<lambda>graph.
       bindR (append_event db i (ls_owner l) (ls_epoch l) (rq_sequence row) graph ev t)
         (\<lambda>res. Inr (fst res))) = Inr db'"
    by (fastforce simp: record_event_def res_simps)
  then obtain g g' where g: "read_graph db i (rq_sequence row) (rq_snapshot row) = Inr g"
    and a: "append_event db i (ls_owner l) (ls_epoch l) (rq_sequence row) g ev t = Inr (db', g')"
    by (auto simp: res_simps)
  have "graph_of_request i g'"
    using append_event_graph [OF a read_graph_of_request [OF g]] parseExecutionEvent_duration ev by blast
  from append_event_step [OF assms(2) a this] show ?thesis .
qed

end
