(* ===== verification/OpSafety.thy ===== *)
theory OpSafety
  imports OpInv
begin

text \<open>
  Every operation of the request queue keeps the invariant and moves the database upwards; the
  properties of leases, effects, recovery and the order of claims.
\<close>

section \<open>Recovery\<close>

definition op_ok :: "op_db \<Rightarrow> op_db \<Rightarrow> bool" where
  "op_ok db db' = (op_inv db' \<and> db_below db db')"

lemma op_ok_refl: "op_inv db \<Longrightarrow> op_ok db db"
  by (simp add: op_ok_def db_below_refl)

lemma op_ok_trans: "op_ok db db1 \<Longrightarrow> op_ok db1 db2 \<Longrightarrow> op_ok db db2"
  by (auto simp: op_ok_def intro: db_below_trans)

lemma event_step_ok: "event_step i db db' \<Longrightarrow> op_ok db db'"
  by (simp add: event_step_def op_ok_def)

text \<open>An update that stops no row from being what the invariant wants, as one rule.\<close>

lemma update_ok:
  assumes "op_inv db"
    and "\<And>r. r \<in> set (db_requests db) \<Longrightarrow> row_ok r \<Longrightarrow> hit r \<Longrightarrow>
       same_row r (f r) \<and> same_log r (f r) \<and> row_ok (f r) \<and> (active (f r) \<longrightarrow> active r) \<and> (running (f r) \<longrightarrow> running r)
         \<and> row_below r (f r)"
  shows "op_ok db (db\<lparr>db_requests := update_where hit f (db_requests db)\<rparr>)"
  using assms db_row_ok [OF assms(1)] unfolding op_ok_def
  by (intro conjI update_inv_stop update_below) auto

lemmas row_defs = same_row_def same_log_def row_ok_def row_below_def active_def running_def

definition failed_or_same :: "string set \<Rightarrow> request_row \<Rightarrow> request_row \<Rightarrow> bool" where
  "failed_or_same I r q = (if rq_id r \<in> I then rq_id q = rq_id r \<and> rq_status q = RqFailed else q = r)"

lemma fail_one:
  assumes "op_inv db" and "completeRoot db (rq_id row) owner (rq_epoch row) n snapshot status now = Inr db1"
  defines "hit \<equiv> \<lambda>r. rq_id r = rq_id row \<and> rq_status r = RqRunning \<and> rq_owner r = Some owner \<and> rq_epoch r = rq_epoch row"
  assumes "count_where hit (db_requests db1) = 1"
  defines "db2 \<equiv> db1\<lparr>db_requests := update_where hit (\<lambda>r. r\<lparr>rq_status := RqFailed,
                 rq_outcome := Some ''indeterminate'', rq_updated := now\<rparr>) (db_requests db1)\<rparr>"
  shows "op_ok db db2" and "list_all2 (failed_or_same {rq_id row}) (db_requests db) (db_requests db2)"
proof -
  have step: "event_step (rq_id row) db db1" by (rule completeRoot_step [OF assms(2,1)])
  then have inv1: "op_inv db1" and rows1: "list_all2 (exec_changed (rq_id row)) (db_requests db) (db_requests db1)"
    by (simp_all add: event_step_def)
  have "op_ok db1 db2" unfolding db2_def
    by (rule update_ok [OF inv1]) (auto simp: hit_def row_defs)
  with event_step_ok [OF step] show "op_ok db db2" by (rule op_ok_trans)
  obtain r0 where r0: "r0 \<in> set (db_requests db1)" "hit r0"
    using count_where_one [of hit "db_requests db1"] assms(4) by auto
  have "failed_or_same {rq_id row} r (if hit q then q\<lparr>rq_status := RqFailed, rq_outcome := Some ''indeterminate'', rq_updated := now\<rparr> else q)"
    if "exec_changed (rq_id row) r q" "q \<in> set (db_requests db1)" for r q
  proof (cases "rq_id r = rq_id row")
    case True
    then have "q = r0" using db_id_unique [OF inv1 that(2) r0(1)] exec_changed_fields(1) [OF that(1)] r0(2)
      by (simp add: hit_def)
    with r0(2) True exec_changed_fields(1) [OF that(1)] show ?thesis by (simp add: failed_or_same_def)
  next
    case False
    with that have "q = r" "\<not> hit q" by (auto simp: exec_changed_def hit_def)
    with False show ?thesis by (simp add: failed_or_same_def)
  qed
  then have "list_all2 (failed_or_same {rq_id row}) (db_requests db) (map (\<lambda>q. if hit q then q\<lparr>rq_status := RqFailed, rq_outcome := Some ''indeterminate'', rq_updated := now\<rparr> else q) (db_requests db1))"
    using rows1 by (auto simp: list_all2_conv_all_nth)
  then show "list_all2 (failed_or_same {rq_id row}) (db_requests db) (db_requests db2)"
    by (simp add: db2_def update_where_def)
qed

lemma failed_or_same_trans: "failed_or_same I r q \<Longrightarrow> failed_or_same J q p \<Longrightarrow> failed_or_same (I \<union> J) r p"
  by (auto simp: failed_or_same_def split: if_splits)

lemma failed_or_same_trans2:
  "list_all2 (failed_or_same I) xs ys \<Longrightarrow> list_all2 (failed_or_same J) ys zs \<Longrightarrow>
     list_all2 (failed_or_same (I \<union> J)) xs zs"
  by (rule list_all2_trans [of "failed_or_same I" "failed_or_same J" "failed_or_same (I \<union> J)"])
    (rule failed_or_same_trans)

lemma fail_indeterminate_ok:
  "fail_indeterminate db now rows = Inr db' \<Longrightarrow> op_inv db \<Longrightarrow>
     op_ok db db' \<and> list_all2 (failed_or_same (rq_id ` set rows)) (db_requests db) (db_requests db')"
proof (induction rows arbitrary: db)
  case Nil
  then show ?case by (simp add: op_ok_refl list.rel_refl failed_or_same_def)
next
  case (Cons row rows)
  let ?hit = "\<lambda>owner r. rq_id r = rq_id row \<and> rq_status r = RqRunning \<and> rq_owner r = Some owner \<and> rq_epoch r = rq_epoch row"
  from Cons.prems(1) obtain owner db1 where c: "completeRoot db (rq_id row) owner (rq_epoch row) (rq_sequence row) (rq_snapshot row)
        ''indeterminate'' now = Inr db1" and n: "count_where (?hit owner) (db_requests db1) = 1"
    and rest: "fail_indeterminate (db1\<lparr>db_requests := update_where (?hit owner) (\<lambda>r. r\<lparr>rq_status := RqFailed,
                 rq_outcome := Some ''indeterminate'', rq_updated := now\<rparr>) (db_requests db1)\<rparr>) now rows = Inr db'"
    by (auto simp: res_simps Let_def split: option.split_asm if_split_asm)
  note one = fail_one [OF Cons.prems(2) c n]
  from Cons.IH [OF rest] one(1) have ih: "op_ok (db1\<lparr>db_requests := update_where (?hit owner) (\<lambda>r. r\<lparr>rq_status := RqFailed,
                 rq_outcome := Some ''indeterminate'', rq_updated := now\<rparr>) (db_requests db1)\<rparr>) db'"
    and ih2: "list_all2 (failed_or_same (rq_id ` set rows)) (update_where (?hit owner) (\<lambda>r. r\<lparr>rq_status := RqFailed,
                 rq_outcome := Some ''indeterminate'', rq_updated := now\<rparr>) (db_requests db1)) (db_requests db')"
    by (simp_all add: op_ok_def)
  have "list_all2 (failed_or_same ({rq_id row} \<union> rq_id ` set rows)) (db_requests db) (db_requests db')"
    by (rule failed_or_same_trans2 [OF _ ih2]) (use one(2) in simp)
  then show ?case using op_ok_trans [OF one(1) ih] by simp
qed

lemma list_all2_in: "list_all2 P xs ys \<Longrightarrow> y \<in> set ys \<Longrightarrow> \<exists>x \<in> set xs. P x y"
  by (induction xs ys rule: list_all2_induct) auto

lemma recoverExpired_ok:
  assumes "recoverExpired db path now = Inr db'" and "op_inv db"
  shows "op_ok db db'" and "r \<in> set (db_requests db') \<Longrightarrow> rq_path r = path \<Longrightarrow> running r \<Longrightarrow> \<not> expired now r"
proof -
  let ?rows = "filter (\<lambda>r. rq_path r = path \<and> rq_status r = RqRunning \<and> expired now r \<and> rq_effect r \<noteq> None) (db_requests db)"
  let ?hit = "\<lambda>r. rq_path r = path \<and> rq_status r = RqRunning \<and> expired now r \<and> rq_effect r = None"
  let ?f = "\<lambda>r. r\<lparr>rq_status := RqQueued, rq_owner := None, rq_expires := None, rq_outcome := None, rq_updated := now\<rparr>"
  from assms(1) obtain db1 where f: "fail_indeterminate db now ?rows = Inr db1"
    and db': "db' = db1\<lparr>db_requests := update_where ?hit ?f (db_requests db1)\<rparr>"
    by (auto simp: recoverExpired_def res_simps)
  from fail_indeterminate_ok [OF f assms(2)] have ok1: "op_ok db db1"
    and rows: "list_all2 (failed_or_same (rq_id ` set ?rows)) (db_requests db) (db_requests db1)" by auto
  have "op_ok db1 db'" unfolding db'
    by (rule update_ok) (use ok1 in \<open>auto simp: row_defs op_ok_def\<close>)
  with ok1 show "op_ok db db'" by (rule op_ok_trans)
  show "\<not> expired now r" if r: "r \<in> set (db_requests db')" "rq_path r = path" "running r"
  proof
    assume exp: "expired now r"
    from r(1) obtain q where q: "q \<in> set (db_requests db1)" "r = (if ?hit q then ?f q else q)"
      by (auto simp: db' set_update_where)
    with r(3) have rq: "r = q" "\<not> ?hit q" by (auto simp: running_def split: if_splits)
    obtain r0 where r0: "r0 \<in> set (db_requests db)" "failed_or_same (rq_id ` set ?rows) r0 q"
      using list_all2_in [OF rows q(1)] by blast
    have "rq_status q \<noteq> RqFailed" using r(3) rq(1) by (simp add: running_def)
    with r0(2) have "q = r0" "rq_id r0 \<notin> rq_id ` set ?rows"
      unfolding failed_or_same_def by presburger+
    moreover have "r0 \<in> set ?rows"
    proof -
      have "rq_effect r0 \<noteq> None" using rq r(2,3) exp \<open>q = r0\<close> by (auto simp: running_def)
      then show ?thesis using r0(1) rq(1) r(2,3) exp \<open>q = r0\<close> by (simp add: running_def)
    qed
    ultimately show False by blast
  qed
qed

section \<open>Claims\<close>

lemma least_row_Some: "least_row rs = Some r \<Longrightarrow> r \<in> set rs \<and> (\<forall>q \<in> set rs. rq_position r \<le> rq_position q)"
proof (induction rs arbitrary: r)
  case (Cons x rs)
  then show ?case
  proof (cases "least_row rs")
    case None
    then have "rs = []" by (cases rs) (auto split: option.splits)
    with Cons show ?thesis by simp
  next
    case (Some q)
    with Cons show ?thesis by (fastforce split: if_splits)
  qed
qed simp

lemma least_row_None: "least_row rs = None \<longleftrightarrow> rs = []"
  by (cases rs) (auto split: option.splits)

lemma greatest_row_Some: "greatest_row rs = Some r \<Longrightarrow> r \<in> set rs \<and> (\<forall>q \<in> set rs. rq_position q \<le> rq_position r)"
proof (induction rs arbitrary: r)
  case (Cons x rs)
  then show ?case
  proof (cases "greatest_row rs")
    case None
    then have "rs = []" by (cases rs) (auto split: option.splits)
    with Cons show ?thesis by simp
  next
    case (Some q)
    with Cons show ?thesis by (fastforce split: if_splits)
  qed
qed simp

lemma start_running_ok:
  fixes owner :: string and t now :: int
  assumes inv: "op_inv db" and row: "row \<in> set (db_requests db)" "rq_status row = RqQueued"
    and idle: "\<And>r. r \<in> set (db_requests db) \<Longrightarrow> rq_path r = rq_path row \<Longrightarrow> \<not> running r"
  defines "hit \<equiv> \<lambda>r. rq_id r = rq_id row \<and> rq_status r = RqQueued"
    and "f \<equiv> \<lambda>r. r\<lparr>rq_status := RqRunning, rq_owner := Some owner, rq_epoch := rq_epoch row + 1,
             rq_expires := Some t, rq_outcome := None, rq_updated := now\<rparr>"
  shows "op_ok db (db\<lparr>db_requests := update_where hit f (db_requests db)\<rparr>)"
proof -
  have only: "r = row" if "r \<in> set (db_requests db)" "hit r" for r
    using db_id_unique [OF inv that(1) row(1)] that(2) by (simp add: hit_def)
  have ok: "row_ok row" using db_row_ok [OF inv row(1)] .
  have "told_apart running rq_path (update_where hit f (db_requests db))"
    unfolding told_apart_def set_update_where
  proof (clarify)
    fix r q
    assume r: "r \<in> set (db_requests db)" "q \<in> set (db_requests db)"
      and run: "running (if hit r then f r else r)" "running (if hit q then f q else q)"
      and path: "rq_path (if hit r then f r else r) = rq_path (if hit q then f q else q)"
    have p: "rq_path r = rq_path q" using path by (auto simp: f_def split: if_splits)
    have both: "hit y" if "x \<in> set (db_requests db)" "y \<in> set (db_requests db)" "hit x"
        "running (if hit y then f y else y)" "rq_path x = rq_path y" for x y
    proof (rule ccontr)
      assume "\<not> hit y"
      with that(4) have "running y" by simp
      with idle [OF that(2)] only [OF that(1,3)] that(5) show False by simp
    qed
    have "rq_id r = rq_id q"
    proof (cases "hit r")
      case True
      with both [OF r True run(2) p] only [OF r(1)] only [OF r(2)] show ?thesis by simp
    next
      case False
      with both [OF r(2,1) _ run(1)] p have "\<not> hit q" by auto
      with False run have "running r" "running q" by simp_all
      moreover have "told_apart running rq_path (db_requests db)" using inv by (simp add: op_inv_def)
      ultimately show ?thesis using r p unfolding told_apart_def by blast
    qed
    then show "rq_id (if hit r then f r else r) = rq_id (if hit q then f q else q)" by (auto simp: f_def)
  qed
  then have "op_inv (db\<lparr>db_requests := update_where hit f (db_requests db)\<rparr>)"
    using ok row(2) by (intro update_inv [OF inv]) (auto dest!: only simp: f_def row_defs)
  moreover have "db_below db (db\<lparr>db_requests := update_where hit f (db_requests db)\<rparr>)"
    using ok row(2) by (intro update_below) (auto dest!: only simp: f_def row_defs)
  ultimately show ?thesis by (simp add: op_ok_def)
qed

text \<open>
  What a claim does: either nothing but recovery, or recovery and the start of the queued request
  with the least position among those asked for, while no other request of the project runs.
\<close>

lemma claim_cases:
  assumes "claim db path options clock = Inr (db', res)" and "op_inv db"
  obtains (Idle) now where "res = None" and "recoverExpired db path now = Inr db'"
  | (Claimed) now db1 row db2 owner t m where
      "recoverExpired db path now = Inr db1"
      "row \<in> set (db_requests db1)" "rq_path row = path" "rq_status row = RqQueued"
      "\<And>r. r \<in> set (db_requests db1) \<Longrightarrow> rq_path r = path \<Longrightarrow> \<not> running r"
      "\<And>r. r \<in> set (db_requests db1) \<Longrightarrow> rq_path r = path \<Longrightarrow> rq_status r = RqQueued \<Longrightarrow>
         (case options of None \<Rightarrow> None | Some c \<Rightarrow> nonempty (co_requestId c)) = None \<Longrightarrow> rq_position row \<le> rq_position r"
      "db2 = db1\<lparr>db_requests := update_where (\<lambda>r. rq_id r = rq_id row \<and> rq_status r = RqQueued)
         (\<lambda>r. r\<lparr>rq_status := RqRunning, rq_owner := Some owner, rq_epoch := rq_epoch row + 1,
             rq_expires := Some t, rq_outcome := None, rq_updated := now\<rparr>) (db_requests db1)\<rparr>"
      "db' = db2 \<or> initializeRoot db2 (rq_id row) (rq_objective row) owner (rq_epoch row + 1) now = Inr db'"
      "res = Some (m, \<lparr>ls_owner = owner, ls_epoch = rq_epoch row + 1\<rparr>)"
proof -
  let ?owner = "case options of None \<Rightarrow> ''legacy'' | Some c \<Rightarrow> co_ownerId c"
  let ?wanted = "case options of None \<Rightarrow> None | Some c \<Rightarrow> nonempty (co_requestId c)"
  let ?queued = "\<lambda>r. rq_path r = path \<and> rq_status r = RqQueued \<and> (case ?wanted of None \<Rightarrow> True | Some w \<Rightarrow> rq_id r = w)"
  from assms(1) obtain now t db1 where r1: "recoverExpired db path now = Inr db1"
    and rest: "(if list_ex (\<lambda>r. rq_path r = path \<and> rq_status r = RqRunning \<and> \<not> expired now r) (db_requests db1)
        then Inr (db1, None)
      else case least_row (filter ?queued (db_requests db1)) of
        None \<Rightarrow> Inr (db1, None)
      | Some row \<Rightarrow>
          (let leaseEpoch = rq_epoch row + 1;
               hit = (\<lambda>r. rq_id r = rq_id row \<and> rq_status r = RqQueued) in
           if count_where hit (db_requests db1) \<noteq> 1
             then Inl (Error ''TUI request was claimed by another runtime'')
           else
             let db2 = db1\<lparr>db_requests := update_where hit (\<lambda>r. r\<lparr>rq_status := RqRunning,
                     rq_owner := Some ?owner, rq_epoch := leaseEpoch, rq_expires := Some t,
                     rq_outcome := None, rq_updated := now\<rparr>) (db_requests db1)\<rparr> in
             bindR (if rq_sequence row = 0 then
                      (if rq_snapshot row \<noteq> None
                         then Inl (Error ''TUI execution snapshot has no event sequence'')
                       else initializeRoot db2 (rq_id row) (rq_objective row) ?owner leaseEpoch now)
                    else bindR (read_graph db2 (rq_id row) (rq_sequence row) (rq_snapshot row)) (\<lambda>_. Inr db2))
               (\<lambda>db3. Inr (db3, Some (mapTuiRequest (row\<lparr>rq_status := RqRunning\<rparr>),
                  \<lparr>ls_owner = ?owner, ls_epoch = leaseEpoch\<rparr>))))) = Inr (db', res)"
    unfolding claim_def Let_def bindR_Inr_iff if_Inl_Inr by blast
  show thesis
  proof (cases "list_ex (\<lambda>r. rq_path r = path \<and> rq_status r = RqRunning \<and> \<not> expired now r) (db_requests db1)")
    case True
    with rest r1 show thesis by (intro Idle [of now]) auto
  next
    case live: False
    show thesis
    proof (cases "least_row (filter ?queued (db_requests db1))")
      case None
      with rest r1 live show thesis by (intro Idle [of now]) auto
    next
      case (Some row)
      from least_row_Some [OF Some] have row: "row \<in> set (db_requests db1)" "rq_path row = path" "rq_status row = RqQueued"
        and least: "\<And>q. q \<in> set (db_requests db1) \<Longrightarrow> ?queued q \<Longrightarrow> rq_position row \<le> rq_position q" by auto
      have idle: "\<not> running r" if "r \<in> set (db_requests db1)" "rq_path r = path" for r
        using recoverExpired_ok(2) [OF r1 assms(2) that] live that by (auto simp: list_ex_iff running_def)
      show thesis
        using rest live Some row least idle
        by (intro Claimed [OF r1 row idle]) (auto simp: Let_def res_simps split: if_split_asm)
    qed
  qed
qed

lemma claim_ok:
  assumes "claim db path options clock = Inr (db', res)" and "op_inv db"
  shows "op_ok db db'"
  using assms
proof (cases rule: claim_cases)
  case (Idle now)
  then show ?thesis using recoverExpired_ok(1) assms(2) by blast
next
  case (Claimed now db1 row db2 owner t m)
  have ok1: "op_ok db db1" using recoverExpired_ok(1) [OF Claimed(1) assms(2)] .
  then have inv1: "op_inv db1" by (simp add: op_ok_def)
  have ok2: "op_ok db1 db2"
    unfolding Claimed(7) using Claimed(5) Claimed(3) by (intro start_running_ok [OF inv1 Claimed(2,4)]) auto
  have "op_ok db2 db'"
    using Claimed(8)
  proof
    assume "db' = db2"
    with ok2 show ?thesis by (auto simp: op_ok_def db_below_refl)
  next
    assume "initializeRoot db2 (rq_id row) (rq_objective row) owner (rq_epoch row + 1) now = Inr db'"
    from initializeRoot_step [OF this] ok2 show ?thesis by (auto simp: op_ok_def event_step_def)
  qed
  with ok1 ok2 show ?thesis by (blast intro: op_ok_trans)
qed

section \<open>The queue\<close>

lemma fold_max_upper: "x \<le> fold max ys (x :: int)"
  by (induction ys arbitrary: x) (auto intro: order_trans [OF max.cobounded2])

lemma fold_max_in: "y \<in> set ys \<Longrightarrow> y \<le> fold max ys (x :: int)"
proof (induction ys arbitrary: x)
  case (Cons z ys)
  then show ?case using fold_max_upper [of "max y x" ys] by (auto intro: order_trans [OF max.cobounded1])
qed simp

lemma next_position_greater:
  assumes "r \<in> set (db_requests db)" and "rq_path r = path"
  shows "rq_position r < next_position db path"
proof (cases "map rq_position (filter (\<lambda>r. rq_path r = path) (db_requests db))")
  case Nil
  with assms show ?thesis by (auto simp: filter_empty_conv)
next
  case (Cons x xs)
  have "rq_position r \<in> set (map rq_position (filter (\<lambda>r. rq_path r = path) (db_requests db)))"
    using assms by auto
  then have "rq_position r = x \<or> rq_position r \<in> set xs" by (simp add: Cons)
  then have "rq_position r \<le> fold max xs x" using fold_max_upper [of x xs] fold_max_in [of "rq_position r" xs x] by blast
  then show ?thesis using Cons by (simp add: next_position_def)
qed

lemma told_apart_snoc:
  assumes "told_apart p key rows" and "\<And>q. q \<in> set rows \<Longrightarrow> p q \<Longrightarrow> p r \<Longrightarrow> key q \<noteq> key r"
  shows "told_apart p key (rows @ [r])"
proof -
  have "rq_id x = rq_id y" if "x \<in> set (rows @ [r])" "y \<in> set (rows @ [r])" "p x" "p y" "key x = key y" for x y
  proof (cases "x = r \<or> y = r")
    case True
    then show ?thesis
    proof
      assume "x = r"
      then show ?thesis using that(2) assms(2) [of y] that(3-5) by (cases "y = r") simp_all
    next
      assume "y = r"
      then show ?thesis using that(1) assms(2) [of x] that(3-5) by (cases "x = r") simp_all
    qed
  next
    case False
    then have "x \<in> set rows" "y \<in> set rows" using that(1,2) by simp_all
    then show ?thesis using that(3-5) assms(1) unfolding told_apart_def by blast
  qed
  then show ?thesis unfolding told_apart_def by blast
qed

lemma new_row_inv:
  assumes inv: "op_inv db" and free: "\<not> insert_conflict db (new_row db i images now)"
  shows "op_inv (db\<lparr>db_requests := db_requests db @ [new_row db i images now]\<rparr>)"
proof -
  let ?r = "new_row db i images now" and ?rows = "db_requests db @ [new_row db i images now]"
  have new: "rq_id ?r \<notin> rq_id ` set (db_requests db)"
    using free by (auto simp: insert_conflict_def list_ex_iff)
  have sub: "ev_request ` set (db_events db) \<subseteq> rq_id ` set (db_requests db)" using inv by (simp add: op_inv_def)
  have "ev_request e \<noteq> rq_id ?r" if "e \<in> set (db_events db)" for e
    using subsetD [OF sub imageI [OF that]] new by metis
  then have events: "events_of db (rq_id ?r) = []" by (simp add: events_of_def filter_empty_conv)
  have "told_apart active (\<lambda>r. (rq_path r, rq_fingerprint r)) ?rows"
  proof (rule told_apart_snoc)
    show "(rq_path q, rq_fingerprint q) \<noteq> (rq_path ?r, rq_fingerprint ?r)" if "q \<in> set (db_requests db)" "active q" "active ?r" for q
      using free that unfolding insert_conflict_def list_ex_iff by blast
  qed (use inv in \<open>simp add: op_inv_def\<close>)
  moreover have "told_apart (\<lambda>_. True) (\<lambda>r. (rq_path r, rq_position r)) ?rows"
    using inv next_position_greater
    by (intro told_apart_snoc) (auto simp: op_inv_def new_row_def dest!: next_position_greater)
  moreover have "told_apart running rq_path ?rows"
    using inv by (intro told_apart_snoc) (auto simp: op_inv_def new_row_def running_def)
  moreover have "row_ok ?r" by (simp add: new_row_def row_ok_def running_def)
  moreover have "log_ok (db\<lparr>db_requests := ?rows\<rparr>) ?r"
    using events by (simp add: log_ok_def numbered_def snapshot_ok_def new_row_def)
  moreover have "log_ok (db\<lparr>db_requests := ?rows\<rparr>) r = log_ok db r" for r
    by (simp add: log_ok_def)
  ultimately show ?thesis using inv new unfolding op_inv_def by auto
qed

lemma enqueue_ok:
  assumes "enqueue db i now = Inr (db', out)" and "op_inv db"
  shows "op_ok db db'"
proof -
  from assms(1) consider "db' = db"
    | images where "\<not> insert_conflict db (new_row db i images now)"
        "db' = db\<lparr>db_requests := db_requests db @ [new_row db i images now]\<rparr>"
    by (auto simp: enqueue_def Let_def res_simps split: option.split_asm if_split_asm)
  then show ?thesis
  proof cases
    case 1
    then show ?thesis using assms(2) by (simp add: op_ok_refl)
  next
    case (2 images)
    then show ?thesis using new_row_inv [OF assms(2)]
      by (simp add: op_ok_def db_below_def list.rel_refl)
  qed
qed

lemma recallNewest_ok:
  assumes "recallNewest db path now clock = Inr (db', out)" and "op_inv db"
  shows "op_ok db db'"
proof -
  from assms(1) consider "db' = db"
    | t and row :: request_row where "db' = db\<lparr>db_requests := update_where (\<lambda>r. rq_id r = rq_id row \<and> rq_status r = RqQueued)
        (\<lambda>r. r\<lparr>rq_status := RqFailed, rq_outcome := Some ''recalled'', rq_updated := t\<rparr>) (db_requests db)\<rparr>"
    by (auto simp: recallNewest_def Let_def res_simps split: option.split_asm if_split_asm)
  then show ?thesis
  proof cases
    case 1
    then show ?thesis using assms(2) by (simp add: op_ok_refl)
  next
    case (2 t row)
    show ?thesis unfolding 2 by (rule update_ok [OF assms(2)]) (auto simp: row_defs)
  qed
qed

section \<open>Operations on a running request\<close>

lemma renew_ok:
  assumes "renew db i l now ms clock = Inr db'" and "op_inv db"
  shows "op_ok db db'"
proof -
  from assms(1) obtain t e where db': "db' = db\<lparr>db_requests := update_where (\<lambda>r. rq_id r = i \<and> rq_status r = RqRunning
        \<and> rq_owner r = Some (ls_owner l) \<and> rq_epoch r = ls_epoch l \<and> \<not> expired t r) (\<lambda>r. r\<lparr>rq_expires :=
            (case rq_expires r of None \<Rightarrow> None | Some e' \<Rightarrow> if e' < e then Some e else Some e'),
            rq_updated := t\<rparr>) (db_requests db)\<rparr>"
    by (auto simp: renew_def Let_def res_simps split: if_split_asm)
  show ?thesis unfolding db'
    by (rule update_ok [OF assms(2)]) (auto simp: row_defs split: option.splits)
qed

lemma record_effect_ok:
  assumes "record_effect db i l e now clock = Inr db'" and "op_inv db"
  shows "op_ok db db'"
proof -
  from assms(1) consider "db' = db"
    | t where "db' = db\<lparr>db_requests := update_where (\<lambda>r. rq_id r = i \<and> rq_status r = RqRunning
        \<and> rq_owner r = Some (ls_owner l) \<and> rq_epoch r = ls_epoch l \<and> \<not> expired t r \<and> rq_effect r = None)
          (\<lambda>r. r\<lparr>rq_effect := Some e, rq_updated := t\<rparr>) (db_requests db)\<rparr>"
    by (auto simp: record_effect_def Let_def res_simps split: option.split_asm if_split_asm)
  then show ?thesis
  proof cases
    case 1
    then show ?thesis using assms(2) by (simp add: op_ok_refl)
  next
    case (2 t)
    show ?thesis unfolding 2 by (rule update_ok [OF assms(2)]) (auto simp: row_defs)
  qed
qed

lemma complete_ok:
  assumes "complete db i status l now clock = Inr db'" and "op_inv db"
  shows "op_ok db db'"
proof -
  from assms(1) obtain t and row :: request_row and owner db1 where
    c: "completeRoot db i owner (rq_epoch row) (rq_sequence row) (rq_snapshot row)
              (if status = StCompleted then ''completed'' else ''failed'') t = Inr db1"
    and db': "db' = db1\<lparr>db_requests := update_where (\<lambda>r. rq_id r = i \<and> rq_status r = RqRunning \<and> rq_owner r = Some owner
                       \<and> rq_epoch r = rq_epoch row \<and> \<not> expired t r) (\<lambda>r. r\<lparr>rq_status := (if status = StCompleted then RqCompleted else RqFailed),
                 rq_outcome := Some (completion_name status), rq_updated := t\<rparr>) (db_requests db1)\<rparr>"
    unfolding complete_def Let_def bindR_Inr_iff
    by (clarsimp split: option.split_asm simp: res_simps)
  have ok1: "op_ok db db1" using event_step_ok [OF completeRoot_step [OF c assms(2)]] .
  then have "op_ok db1 db'" unfolding db' by (intro update_ok) (auto simp: row_defs op_ok_def)
  with ok1 show ?thesis by (rule op_ok_trans)
qed

lemma recover_ok: "recover db path now clock = Inr db' \<Longrightarrow> op_inv db \<Longrightarrow> op_ok db db'"
  by (auto simp: recover_def res_simps intro: recoverExpired_ok(1))

lemma record_event_ok: "record_event db i l now e clock = Inr db' \<Longrightarrow> op_inv db \<Longrightarrow> op_ok db db'"
  by (rule event_step_ok [OF record_event_step])

section \<open>The queue as a machine\<close>

text \<open>The requests a runtime makes of the store, each with the clock it reads.\<close>

datatype op_request =
    ReqEnqueue enqueue_input int
  | ReqRecall string time_arg int
  | ReqClaim string "claim_options option" int
  | ReqRenew string lease time_arg int int
  | ReqEvent string lease time_arg json int
  | ReqEffect string lease string time_arg int
  | ReqComplete string completion_status lease time_arg int
  | ReqRecover string time_arg int

fun op_step :: "op_db \<Rightarrow> op_request \<Rightarrow> op_db res" where
  "op_step db (ReqEnqueue i now) = bindR (enqueue db i now) (\<lambda>out. Inr (fst out))"
| "op_step db (ReqRecall path now clock) = bindR (recallNewest db path now clock) (\<lambda>out. Inr (fst out))"
| "op_step db (ReqClaim path options clock) = bindR (claim db path options clock) (\<lambda>out. Inr (fst out))"
| "op_step db (ReqRenew i l now ms clock) = renew db i l now ms clock"
| "op_step db (ReqEvent i l now e clock) = record_event db i l now e clock"
| "op_step db (ReqEffect i l e now clock) = record_effect db i l e now clock"
| "op_step db (ReqComplete i status l now clock) = complete db i status l now clock"
| "op_step db (ReqRecover path now clock) = recover db path now clock"

lemma op_step_ok:
  assumes "op_inv db" and "op_step db x = Inr db'"
  shows "op_ok db db'"
proof (cases x)
  case (ReqEnqueue i now)
  with assms show ?thesis by (auto simp: res_simps intro: enqueue_ok)
next
  case (ReqRecall path now clock)
  with assms show ?thesis by (auto simp: res_simps intro: recallNewest_ok)
next
  case (ReqClaim path options clock)
  with assms show ?thesis by (auto simp: res_simps intro: claim_ok)
qed (use assms in \<open>auto intro: renew_ok record_event_ok record_effect_ok complete_ok recover_ok\<close>)

interpretation op_queue: monotone_machine op_step op_inv db_below
  using op_step_ok db_below_refl db_below_trans by unfold_locales (auto simp: op_ok_def)

end
