(* ===== verification/OpProps.thy ===== *)
theory OpProps
  imports OpSafety
begin

text \<open>
  The properties of the request queue: its invariant and order, mutual exclusion and order of
  claims, fencing of stale leases, effects that happen once, idempotent enqueuing and the way
  back from a stored row to the request.
\<close>

section \<open>Rows over time\<close>

definition fresh_db :: op_db where
  "fresh_db = \<lparr>db_requests = [], db_events = [], db_heads = [], db_quarantine = [], db_exclusions = [],
     db_providers = [], db_preferences = []\<rparr>"

lemma fresh_inv: "op_inv fresh_db"
  by (simp add: fresh_db_def op_inv_def told_apart_def)

lemma below_row:
  assumes "db_below db db'" and "r \<in> set (db_requests db)"
  shows "\<exists>q \<in> set (db_requests db'). row_below r q"
proof -
  from assms(2) obtain k where k: "k < length (db_requests db)" "r = db_requests db ! k" by (metis in_set_conv_nth)
  with assms(1) have "row_below r (db_requests db' ! k)" "k < length (db_requests db')"
    by (auto simp: db_below_def list_all2_conv_all_nth)
  then show ?thesis by (auto intro: nth_mem)
qed

lemma later_row:
  assumes "op_inv db" and "r \<in> set (db_requests db)"
  shows "\<exists>q \<in> set (db_requests (exec_ops op_step db ops)). row_below r q"
  using below_row [OF op_queue.exec_below [OF assms(1)] assms(2)] .

lemma find_request: "op_inv db \<Longrightarrow> r \<in> set (db_requests db) \<Longrightarrow>
    List.find (\<lambda>q. rq_id q = rq_id r) (db_requests db) = Some r"
  by (simp add: find_key_unique op_inv_def)

section \<open>Fencing\<close>

text \<open>The operations that need a lease, with the request and the lease they name.\<close>

fun fenced_by :: "op_request \<Rightarrow> (string \<times> lease) option" where
  "fenced_by (ReqRenew i l now ms clock) = Some (i, l)"
| "fenced_by (ReqEvent i l now e clock) = Some (i, l)"
| "fenced_by (ReqEffect i l e now clock) = Some (i, l)"
| "fenced_by (ReqComplete i status l now clock) = Some (i, l)"
| "fenced_by _ = None"

text \<open>The instant at which such an operation takes place.\<close>

fun op_time :: "op_request \<Rightarrow> int res" where
  "op_time (ReqRenew i l now ms clock) = isoTimestamp clock now"
| "op_time (ReqEvent i l now e clock) = isoTimestamp clock now"
| "op_time (ReqEffect i l e now clock) = isoTimestamp clock now"
| "op_time (ReqComplete i status l now clock) = isoTimestamp clock now"
| "op_time (ReqEnqueue i clock) = Inr clock"
| "op_time (ReqRecall path now clock) = isoTimestamp clock now"
| "op_time (ReqClaim path options clock) = isoTimestamp clock (case options of None \<Rightarrow> NowDefault | Some c \<Rightarrow> co_now c)"
| "op_time (ReqRecover path now clock) = isoTimestamp clock now"

lemma fenced_cases:
  assumes "fenced_by x = Some (i, l)" and "op_step db x = Inr db'"
  obtains row t where "op_time x = Inr t" and "runningTuiRequestRow db i = Inr row" and "assertActiveTuiRequestLease row l t = Inr ()"
proof (cases x)
  case (ReqRenew i' l' now ms clock)
  with assms that show thesis by (auto simp: renew_def res_simps Let_def)
next
  case (ReqEvent i' l' now e clock)
  with assms that show thesis by (auto simp: record_event_def res_simps)
next
  case (ReqEffect i' l' e now clock)
  with assms that show thesis by (auto simp: record_effect_def res_simps Let_def split: if_split_asm)
next
  case (ReqComplete i' status l' now clock)
  with assms that show thesis by (auto simp: complete_def res_simps)
qed (use assms in auto)

lemma fenced_holds:
  assumes "op_inv db" and "fenced_by x = Some (i, l)" and "op_step db x = Inr db'"
  shows "\<exists>r \<in> set (db_requests db). rq_id r = i \<and> running r \<and> rq_owner r = Some (ls_owner l)
     \<and> rq_epoch r = ls_epoch l \<and> (\<exists>t e. op_time x = Inr t \<and> rq_expires r = Some e \<and> t < e)"
proof -
  from fenced_cases [OF assms(2,3)] obtain row t where
    t: "op_time x = Inr t" and row: "runningTuiRequestRow db i = Inr row" "assertActiveTuiRequestLease row l t = Inr ()" .
  from row(1) have "List.find (\<lambda>r. rq_id r = i) (db_requests db) = Some row" "running row"
    by (auto simp: runningTuiRequestRow_def running_def split: option.split_asm if_split_asm)
  moreover have "rq_owner row = Some (ls_owner l)" "rq_epoch row = ls_epoch l" "\<exists>e. rq_expires row = Some e \<and> t < e"
    using row(2) by (auto simp: assertActiveTuiRequestLease_def assertTuiRequestLease_def res_simps split: option.split_asm if_split_asm)
  ultimately show ?thesis using find_SomeD t by fast
qed

lemma stale_rejected:
  assumes inv: "op_inv db" and r: "r \<in> set (db_requests db)" "ls_epoch l < rq_epoch r"
    and x: "fenced_by x = Some (rq_id r, l)"
  shows "\<not> is_ok (op_step (exec_ops op_step db ops) x)"
proof
  let ?db = "exec_ops op_step db ops"
  assume "is_ok (op_step ?db x)"
  then obtain db' where db': "op_step ?db x = Inr db'" by (auto simp: is_ok_iff)
  have inv': "op_inv ?db" by (rule op_queue.exec_inv [OF inv])
  from fenced_holds [OF inv' x db'] obtain p where p: "p \<in> set (db_requests ?db)" "rq_id p = rq_id r" "rq_epoch p = ls_epoch l"
    by blast
  from later_row [OF inv r(1)] obtain q where q: "q \<in> set (db_requests ?db)" "row_below r q" by blast
  have "p = q" using db_id_unique [OF inv' p(1) q(1)] p(2) q(2) by (simp add: row_below_def)
  with p(3) q(2) r(2) show False by (simp add: row_below_def)
qed

section \<open>Claims\<close>

text \<open>The claimed row after a claim.\<close>

lemma claim_row:
  assumes "claim db path options clock = Inr (db', Some (m, l))" and inv: "op_inv db"
  obtains r where "r \<in> set (db_requests db')" "rq_path r = path" "running r"
    "rq_owner r = Some (ls_owner l)" "rq_epoch r = ls_epoch l" "rq_effect r = None"
    "\<And>q. q \<in> set (db_requests db') \<Longrightarrow> rq_path q = path \<Longrightarrow> rq_status q = RqQueued \<Longrightarrow>
       (case options of None \<Rightarrow> None | Some c \<Rightarrow> nonempty (co_requestId c)) = None \<Longrightarrow> rq_position r < rq_position q"
  using assms(1) inv
proof (cases rule: claim_cases)
  case (Idle now)
  then show thesis by simp
next
  case (Claimed now db1 row db2 owner t m')
  let ?hit = "\<lambda>r. rq_id r = rq_id row \<and> rq_status r = RqQueued"
  let ?f = "\<lambda>r. r\<lparr>rq_status := RqRunning, rq_owner := Some owner, rq_epoch := rq_epoch row + 1,
             rq_expires := Some t, rq_outcome := None, rq_updated := now\<rparr>"
  have inv1: "op_inv db1" using recoverExpired_ok(1) [OF Claimed(1) inv] by (simp add: op_ok_def)
  have inv': "op_inv db'" using claim_ok [OF assms(1) inv] by (simp add: op_ok_def)
  have l: "ls_owner l = owner" "ls_epoch l = rq_epoch row + 1" using Claimed(9) by auto
  have inv2: "op_inv db2"
    using start_running_ok [OF inv1 Claimed(2,4), where owner = owner and t = t and now = now] Claimed(3,5) by (simp add: op_ok_def Claimed(7))
  have rows: "list_all2 (exec_changed (rq_id row)) (db_requests db2) (db_requests db')"
    using Claimed(8)
  proof
    assume "db' = db2"
    then show ?thesis by (simp add: list.rel_refl)
  next
    assume "initializeRoot db2 (rq_id row) (rq_objective row) owner (rq_epoch row + 1) now = Inr db'"
    from initializeRoot_step [OF this inv2] show ?thesis by (simp add: event_step_def)
  qed
  have f2: "?f row \<in> set (db_requests db2)" using Claimed(2,4) by (auto simp: Claimed(7) set_update_where)
  then obtain k where k: "k < length (db_requests db2)" "db_requests db2 ! k = ?f row" by (metis in_set_conv_nth)
  then have ch: "exec_changed (rq_id row) (?f row) (db_requests db' ! k)" and mem: "db_requests db' ! k \<in> set (db_requests db')"
    using rows by (auto simp: list_all2_conv_all_nth)
  note fields = exec_changed_fields [OF ch]
  show thesis
  proof (rule that [OF mem])
    show "rq_path (db_requests db' ! k) = path" using fields(2) Claimed(3) by simp
    show "running (db_requests db' ! k)" using fields(5) by (simp add: running_def)
    show "rq_owner (db_requests db' ! k) = Some (ls_owner l)" using fields(6) l by simp
    show "rq_epoch (db_requests db' ! k) = ls_epoch l" using fields(7) l by simp
    show "rq_effect (db_requests db' ! k) = None"
      using fields(9) db_row_ok [OF inv1 Claimed(2)] Claimed(4) by (simp add: row_ok_def)
    fix q
    assume q: "q \<in> set (db_requests db')" "rq_path q = path" "rq_status q = RqQueued"
      and any: "(case options of None \<Rightarrow> None | Some c \<Rightarrow> nonempty (co_requestId c)) = None"
    obtain q2 where q2: "q2 \<in> set (db_requests db2)" "exec_changed (rq_id row) q2 q"
      using list_all2_in [OF rows q(1)] by blast
    note f = exec_changed_fields [OF q2(2)]
    from q2(1) obtain q1 where q1: "q1 \<in> set (db_requests db1)" "q2 = (if ?hit q1 then ?f q1 else q1)"
      by (auto simp: Claimed(7) set_update_where)
    then have same: "q2 = q1" using f(5) q(3) by (auto split: if_splits)
    have "rq_position row \<le> rq_position q1" using Claimed(6) [OF q1(1)] any q(2,3) f(2,5) same by simp
    then have le: "rq_position (db_requests db' ! k) \<le> rq_position q" using fields(3) f(3) same by simp
    have "rq_position (db_requests db' ! k) \<noteq> rq_position q"
    proof
      assume "rq_position (db_requests db' ! k) = rq_position q"
      moreover have "rq_path (db_requests db' ! k) = rq_path q" using fields(2) Claimed(3) q(2) by simp
      moreover have "told_apart (\<lambda>_. True) (\<lambda>r. (rq_path r, rq_position r)) (db_requests db')"
        using inv' by (simp add: op_inv_def)
      ultimately have "rq_id (db_requests db' ! k) = rq_id q" using mem q(1) unfolding told_apart_def by blast
      then have "db_requests db' ! k = q" using db_id_unique [OF inv' mem q(1)] by simp
      then show False using fields(5) q(3) by simp
    qed
    with le show "rq_position (db_requests db' ! k) < rq_position q" by simp
  qed
qed

section \<open>Progress\<close>

lemma recoverExpired_idle:
  assumes "\<And>r. r \<in> set (db_requests db) \<Longrightarrow> rq_path r = path \<Longrightarrow> \<not> running r"
  shows "recoverExpired db path now = Inr db"
proof -
  have none: "\<not> (rq_path r = path \<and> rq_status r = RqRunning \<and> p r)" if "r \<in> set (db_requests db)" for r p
    using assms that by (auto simp: running_def)
  have "filter (\<lambda>r. rq_path r = path \<and> rq_status r = RqRunning \<and> expired now r \<and> rq_effect r \<noteq> None) (db_requests db) = []"
    using none by (auto simp: filter_empty_conv)
  moreover have "update_where (\<lambda>r. rq_path r = path \<and> rq_status r = RqRunning \<and> expired now r \<and> rq_effect r = None) f (db_requests db)
      = db_requests db" for f
    using none by (intro update_where_id) auto
  ultimately show ?thesis by (simp add: recoverExpired_def)
qed

lemma numbered_max: "numbered n es \<Longrightarrow> fold max (map ev_sequence es) 0 = n"
proof -
  assume n: "numbered n es"
  have "fold max (map int [1..<Suc k]) 0 = int k" for k by (induction k) simp_all
  with n show ?thesis by (simp add: numbered_def)
qed

lemma read_graph_requests [simp]: "read_graph (db\<lparr>db_requests := x\<rparr>) = read_graph db"
  unfolding read_graph_def events_of_requests by simp

lemma read_graph_readable:
  assumes "log_ok db r" and "rq_snapshot r = Some (graph_text g)" and "graph_inv True g" and "root_ok (rq_id r) g"
    and "rq_sequence r \<le> MAX_SAFE"
  shows "read_graph db (rq_id r) (rq_sequence r) (rq_snapshot r) = Inr g"
proof -
  have num: "numbered (rq_sequence r) (events_of db (rq_id r))" and pos: "0 < rq_sequence r"
    using assms(1,2) by (auto simp: log_ok_def snapshot_ok_def)
  have "length (map ev_sequence (events_of db (rq_id r))) = length (map int [1..<Suc (nat (rq_sequence r))])"
    using num unfolding numbered_def by metis
  then have "int (length (events_of db (rq_id r))) = rq_sequence r" using pos by simp
  then show ?thesis
    using assms pos numbered_max [OF num] graph_text_round_trip [OF assms(3)]
    by (simp add: read_graph_def safe_int_def MAX_SAFE_def)
qed

lemma append_first_event:
  assumes inv: "op_inv db" and r: "r \<in> set (db_requests db)" "running r" "rq_owner r = Some owner" "rq_epoch r = epoch"
    and new: "rq_sequence r = 0"
  shows "is_ok (initializeRoot db (rq_id r) objective owner epoch now)"
proof -
  have "log_ok db r" using inv r(1) by (simp add: op_inv_def)
  then have none: "events_of db (rq_id r) = []" using new by (simp add: log_ok_def numbered_def)
  have "event_accepted db (rq_id r) 1"
    using find_request [OF inv r(1)] new none
    by (auto simp: event_accepted_def list_ex_iff events_of_def filter_empty_conv)
  moreover have "count_where (\<lambda>q. rq_id q = rq_id r \<and> rq_status q = RqRunning \<and> rq_owner q = Some owner
      \<and> rq_epoch q = epoch \<and> rq_sequence q = 0) (db_requests db) = 1"
  proof -
    have u: "key_unique rq_id (db_requests db)" using inv by (simp add: op_inv_def)
    show ?thesis using r new by (subst count_where_key [OF u, of _ "rq_id r"]) (auto simp: running_def)
  qed
  ultimately show ?thesis
    by (simp add: is_ok_iff initializeRoot_def append_event_def safe_int_def MAX_SAFE_def createExecutionGraph_def res_simps)
qed

text \<open>A request whose recorded graph can be read back, or that has none yet.\<close>

definition resumable :: "request_row \<Rightarrow> bool" where
  "resumable r = (rq_sequence r \<le> MAX_SAFE \<and>
     (case rq_snapshot r of None \<Rightarrow> True
      | Some t \<Rightarrow> is_ok (parseExecutionGraphJson t)))"

lemma resumable_graph:
  assumes "resumable r" and "log_ok db r" and "rq_sequence r \<noteq> 0"
  shows "is_ok (read_graph db (rq_id r) (rq_sequence r) (rq_snapshot r))"
proof -
  obtain g where t: "rq_snapshot r = Some (graph_text g)" and g: "graph_of_request (rq_id r) g"
    using assms(2,3) by (auto simp: log_ok_def snapshot_ok_def split: option.splits)
  have "is_ok (parseExecutionGraphJson (graph_text g))" using assms(1) t by (simp add: resumable_def)
  then have "parseExecutionGraphJson (graph_text g) = Inr g"
    using g by (auto simp: is_ok_iff graph_of_request_def graph_inv_def graph_text_parses bindR_Inr_iff)
  from parse_graph_inv [OF this] read_graph_readable [OF assms(2) t] g assms(1)
  show ?thesis by (simp add: is_ok_iff graph_of_request_def resumable_def)
qed

lemma start_running_rows:
  fixes row :: request_row
  assumes "op_inv db" and "row \<in> set (db_requests db)" and "rq_status row = RqQueued"
  shows "count_where (\<lambda>r. rq_id r = rq_id row \<and> rq_status r = RqQueued) (db_requests db) = 1"
proof -
  have u: "key_unique rq_id (db_requests db)" using assms(1) by (simp add: op_inv_def)
  show ?thesis using assms(2,3) by (subst count_where_key [OF u, of _ "rq_id row"]) auto
qed

lemma claim_success:
  assumes inv: "op_inv db"
    and idle: "\<And>r. r \<in> set (db_requests db) \<Longrightarrow> rq_path r = path \<Longrightarrow> \<not> running r"
    and r0: "r0 \<in> set (db_requests db)" "rq_path r0 = path" "rq_status r0 = RqQueued"
    and res: "\<And>r. r \<in> set (db_requests db) \<Longrightarrow> rq_path r = path \<Longrightarrow> rq_status r = RqQueued \<Longrightarrow> resumable r"
    and owner: "trim owner \<noteq> []" and time: "0 \<le> clock" "0 \<le> ms" "clock + ms \<le> MAX_DATE"
  shows "\<exists>db' m l. claim db path (Some \<lparr>co_ownerId = owner, co_requestId = None, co_now = NowAt clock, co_leaseMs = Some ms\<rparr>) clk
     = Inr (db', Some (m, l))"
proof -
  let ?cand = "filter (\<lambda>r. rq_path r = path \<and> rq_status r = RqQueued) (db_requests db)"
  have "r0 \<in> set ?cand" using r0 by simp
  then obtain row where row: "least_row ?cand = Some row"
    by (metis least_row_None list.set_cases not_Some_eq list.discI)
  have mem: "row \<in> set (db_requests db)" "rq_path row = path" "rq_status row = RqQueued"
    using least_row_Some [OF row] by auto
  define hit :: "request_row \<Rightarrow> bool" where "hit = (\<lambda>r. rq_id r = rq_id row \<and> rq_status r = RqQueued)"
  define f where "f = (\<lambda>r. r\<lparr>rq_status := RqRunning, rq_owner := Some owner, rq_epoch := rq_epoch row + 1,
             rq_expires := Some (clock + ms), rq_outcome := None, rq_updated := clock\<rparr> :: request_row)"
  define db2 where "db2 = db\<lparr>db_requests := update_where hit f (db_requests db)\<rparr>"
  have inv2: "op_inv db2"
    using start_running_ok [OF inv mem(1,3), where owner = owner and t = "clock + ms" and now = clock] idle mem(2)
    by (simp add: op_ok_def db2_def hit_def f_def)
  have f2: "f row \<in> set (db_requests db2)" using mem by (auto simp: db2_def hit_def set_update_where)
  have log2: "log_ok db row" using inv mem(1) by (simp add: op_inv_def)
  define start where "start = (if rq_sequence row = 0 then
        (if rq_snapshot row \<noteq> None then Inl (Error ''TUI execution snapshot has no event sequence'')
         else initializeRoot db2 (rq_id row) (rq_objective row) owner (rq_epoch row + 1) clock)
      else bindR (read_graph db2 (rq_id row) (rq_sequence row) (rq_snapshot row)) (\<lambda>_. Inr db2))"
  have "is_ok start"
  proof (cases "rq_sequence row = 0")
    case True
    then have "rq_snapshot row = None" using log2 by (auto simp: log_ok_def snapshot_ok_def split: option.splits)
    then show ?thesis using True append_first_event [OF inv2 f2] by (simp add: f_def running_def start_def)
  next
    case False
    have "is_ok (read_graph db (rq_id row) (rq_sequence row) (rq_snapshot row))"
      by (rule resumable_graph [OF res [OF mem] log2 False])
    then show ?thesis using False by (auto simp: is_ok_iff db2_def start_def)
  qed
  then obtain db3 where db3: "start = Inr db3" by (auto simp: is_ok_iff)
  have live: "\<not> list_ex (\<lambda>r. rq_path r = path \<and> rq_status r = RqRunning \<and> \<not> expired clock r) (db_requests db)"
    using idle by (auto simp: list_ex_iff running_def)
  have one: "count_where (\<lambda>r. rq_id r = rq_id row \<and> rq_status r = RqQueued) (db_requests db) = 1"
    by (rule start_running_rows [OF inv mem(1,3)])
  have msafe: "safe_int ms" using time by (simp add: safe_int_def MAX_SAFE_def MAX_DATE_def)
  have "claim db path (Some \<lparr>co_ownerId = owner, co_requestId = None, co_now = NowAt clock, co_leaseMs = Some ms\<rparr>) clk
      = bindR start (\<lambda>db3. Inr (db3, Some (mapTuiRequest (row\<lparr>rq_status := RqRunning\<rparr>),
                  \<lparr>ls_owner = owner, ls_epoch = rq_epoch row + 1\<rparr>)))"
    using owner time msafe live one row recoverExpired_idle [OF idle, where now = clock]
    by (simp add: claim_def isoTimestamp_def to_iso_def nonempty_def Let_def db2_def hit_def f_def start_def)
  then show ?thesis using db3 by simp
qed

section \<open>Stored requests\<close>

lemma parseImage_enc: "parseImage v = Inr x \<Longrightarrow> parseImage (enc_image x) = Inr x"
  unfolding parseImage_Inr by (auto simp: enc_image_def get_prop_def)

lemma parseImagePayloads_enc:
  assumes "parseImagePayloads v = Inr xs"
  shows "parseImagePayloads (JArr (map enc_image xs)) = Inr xs"
proof -
  from assms obtain vs where vs: "v = JArr vs" "length vs \<le> MAX_TUI_IMAGES" "mapR parseImage vs = Inr xs"
    by (auto simp: parseImagePayloads_def split: json.split_asm if_split_asm)
  have "mapR parseImage (map enc_image xs) = Inr xs"
    by (rule mapR_map_Inr) (use mapR_InrD [OF vs(3)] parseImage_enc in blast)
  then show ?thesis using vs(2) mapR_length [OF vs(3)] by (simp add: parseImagePayloads_def)
qed

lemma enc_images_json: "is_json (JArr (map enc_image xs))"
  by (simp add: is_json_list_iff enc_image_def)

definition plain_binding :: "dispatch_binding \<Rightarrow> bool" where
  "plain_binding b = (bn_account b \<noteq> Some [] \<and> bn_thinking b \<noteq> Some [])"

definition known_promotion :: "promotion_source \<Rightarrow> bool" where
  "known_promotion p = (pm_kind p \<in> {''side'', ''btw''})"

lemma nonempty_id: "s \<noteq> Some [] \<Longrightarrow> nonempty s = s"
  by (auto simp: nonempty_def split: option.splits)

lemma map_binding_stored: "pred_option plain_binding b \<Longrightarrow> map_binding (binding_columns_of b) = b"
  by (cases b) (auto simp: map_binding_def binding_columns_of_def plain_binding_def nonempty_id)

lemma promotion_stored:
  assumes "pred_option known_promotion p"
  shows "parsePromotion (promotion_columns_of p) = Inr p"
proof (cases p)
  case None
  then show ?thesis by (simp add: parsePromotion_def promotion_columns_of_def)
next
  case (Some x)
  have "is_json (enc_promotion x)" by (simp add: enc_promotion_def)
  from JSON_parse_stringify [OF this] Some assms show ?thesis
    by (auto simp: parsePromotion_def promotion_columns_of_def enc_promotion_def is_object_def prop_of_def
        get_prop_def known_promotion_def)
qed

lemma new_row_reads_back:
  assumes "parseImagePayloads v = Inr images"
    and "pred_option plain_binding (eq_binding i)" and "pred_option known_promotion (eq_promotion i)"
  shows "mapTuiRequest (new_row db i images now) = Inr \<lparr>tq_id = eq_requestId i, tq_path = eq_path i,
     tq_objective = eq_objective i, tq_images = images, tq_position = next_position db (eq_path i),
     tq_status = RqQueued, tq_created = now, tq_binding = eq_binding i, tq_promotion = eq_promotion i\<rparr>"
proof -
  have "nonempty (Some (stringify w)) = Some (stringify w)" for w by (simp add: nonempty_def)
  then show ?thesis
    using parseImagePayloads_enc [OF assms(1)] JSON_parse_stringify [OF enc_images_json, of images]
      promotion_stored [OF assms(3)] map_binding_stored [OF assms(2)]
    by (cases "images = []") (auto simp: mapTuiRequest_def new_row_def nonempty_def parseImagePayloads_def)
qed

section \<open>Properties\<close>

text \<open>C6: the request queue keeps its invariant under every sequence of requests to an initially empty
  store, whichever of them fail. At most one request of a project runs; an active request is
  unique for its project and fingerprint; positions in a project are unique; a running request
  has an owner and an expiry; a request with a recorded effect is never queued again; its events
  are numbered from 1 without gaps and its snapshot is a well-formed graph rooted at it.\<close>

theorem operation_queue_invariant: "op_inv (exec_ops op_step fresh_db ops)"
  by (rule op_queue.exec_inv [OF fresh_inv])

text \<open>C23: the queue only moves forward. Recorded events stay, in order and unchanged; a request keeps its
  identity, objective, binding and position; its lease epoch never decreases; a recorded effect
  stays and freezes the epoch; a completed or failed request never changes.\<close>

theorem operation_queue_monotone:
  "op_inv db \<Longrightarrow> db_below db (exec_ops op_step db ops)"
  by (rule op_queue.exec_below)

definition first_input :: enqueue_input where
  "first_input = \<lparr>eq_requestId = ''r1'', eq_path = ''p'', eq_fingerprint = ''f'', eq_objective = ''o'',
     eq_images = JUndef, eq_binding = None, eq_promotion = None\<rparr>"

definition one_request_db :: op_db where
  "one_request_db = fresh_db\<lparr>db_requests := [new_row fresh_db first_input [] 5]\<rparr>"

lemma one_request_inv: "op_inv one_request_db"
  using new_row_inv [OF fresh_inv, of first_input "[]" 5]
  by (simp add: one_request_db_def insert_conflict_def fresh_db_def)

theorem operation_queue_monotone_witness:
  "op_inv one_request_db \<and> db_below one_request_db (exec_ops op_step one_request_db [ReqClaim ''p'' None 7, ReqRecover ''p'' NowDefault 9])"
  using operation_queue_monotone [OF one_request_inv] one_request_inv by blast


lemma one_request_claim:
  "\<exists>db' m l. claim one_request_db ''p'' (Some \<lparr>co_ownerId = ''w'', co_requestId = None, co_now = NowAt 7, co_leaseMs = Some 60\<rparr>) 7
     = Inr (db', Some (m, l))"
proof -
  have "rq_path (new_row fresh_db first_input [] 5) = ''p''" "rq_status (new_row fresh_db first_input [] 5) = RqQueued"
    "resumable (new_row fresh_db first_input [] 5)"
    by (simp_all add: new_row_def first_input_def resumable_def MAX_SAFE_def)
  then show ?thesis
    by (intro claim_success [OF one_request_inv, of _ "new_row fresh_db first_input [] 5"])
      (auto simp: one_request_db_def running_def trim_def js_space_def MAX_DATE_def)
qed



lemma one_request_resumable: "r \<in> set (db_requests one_request_db) \<Longrightarrow> rq_path r = ''p'' \<and> rq_status r = RqQueued \<and> resumable r"
  by (simp add: one_request_db_def new_row_def first_input_def fresh_db_def resumable_def MAX_SAFE_def)

lemma one_request_member: "new_row fresh_db first_input [] 5 \<in> set (db_requests one_request_db)"
  by (simp add: one_request_db_def)


text \<open>C8: a stale lease is rejected forever. Once the epoch of a request is above that of a lease, every
  renewal, event, effect and completion with that lease fails, whatever happens in between.\<close>

theorem stale_lease_rejected_forever:
  assumes "op_inv db" and "r \<in> set (db_requests db)" and "ls_epoch l < rq_epoch r"
    and "fenced_by x = Some (rq_id r, l)"
  shows "\<not> is_ok (op_step (exec_ops op_step db ops) x)"
  by (rule stale_rejected [OF assms])

definition running_row :: request_row where
  "running_row = (new_row fresh_db first_input [] 5)\<lparr>rq_status := RqRunning, rq_owner := Some ''w'', rq_epoch := 2,
     rq_expires := Some 100, rq_effect := Some ''e''\<rparr>"

definition running_db :: op_db where
  "running_db = fresh_db\<lparr>db_requests := [running_row]\<rparr>"

lemma running_db_inv: "op_inv running_db"
  by (simp add: running_db_def running_row_def fresh_db_def op_inv_def told_apart_def row_ok_def running_def log_ok_def
      numbered_def events_of_def snapshot_ok_def new_row_def)

lemma running_row_fields [simp]: "running_row \<in> set (db_requests running_db)" "rq_epoch running_row = 2"
  "rq_id running_row = ''r1''" "rq_effect running_row = Some ''e''"
  by (simp_all add: running_db_def running_row_def new_row_def first_input_def)

theorem stale_lease_rejected_forever_witness:
  "\<not> is_ok (op_step (exec_ops op_step running_db [ReqRecover ''p'' NowDefault 9])
      (ReqComplete ''r1'' StCompleted \<lparr>ls_owner = ''w'', ls_epoch = 1\<rparr> NowDefault 10))"
  by (rule stale_lease_rejected_forever [OF running_db_inv running_row_fields(1)]) simp_all

text \<open>Whoever holds no live lease changes nothing. A renewal, event, effect or completion succeeds
  only on a running request whose owner and epoch are those of the lease, before its expiry.\<close>

theorem fenced_operation_needs_lease:
  assumes "op_inv db" and "fenced_by x = Some (i, l)" and "op_step db x = Inr db'"
  shows "\<exists>r \<in> set (db_requests db). rq_id r = i \<and> running r \<and> rq_owner r = Some (ls_owner l)
     \<and> rq_epoch r = ls_epoch l \<and> (\<exists>t e. op_time x = Inr t \<and> rq_expires r = Some e \<and> t < e)"
  by (rule fenced_holds [OF assms])

lemma running_db_effect:
  "op_step running_db (ReqEffect ''r1'' \<lparr>ls_owner = ''w'', ls_epoch = 2\<rparr> ''e'' (NowAt 7) 7) = Inr running_db"
  by (simp add: record_effect_def isoTimestamp_def MAX_DATE_def runningTuiRequestRow_def running_db_def running_row_def
      new_row_def first_input_def assertActiveTuiRequestLease_def assertTuiRequestLease_def)

theorem fenced_operation_needs_lease_witness:
  "\<exists>r \<in> set (db_requests running_db). rq_id r = ''r1'' \<and> running r \<and> rq_owner r = Some ''w'' \<and> rq_epoch r = 2"
  using fenced_operation_needs_lease [OF running_db_inv _ running_db_effect] by auto

text \<open>C7: an effect happens under one lease only. A request with a recorded effect keeps that effect and
  its epoch under every sequence of operations and is never queued again, so it is never claimed
  another time.\<close>

theorem effect_at_most_once:
  assumes "op_inv db" and "r \<in> set (db_requests db)" and "rq_effect r = Some e"
  shows "\<exists>q \<in> set (db_requests (exec_ops op_step db ops)). rq_id q = rq_id r \<and> rq_effect q = Some e
     \<and> rq_epoch q = rq_epoch r \<and> rq_status q \<noteq> RqQueued"
proof -
  from later_row [OF assms(1,2)] obtain q where q: "q \<in> set (db_requests (exec_ops op_step db ops))" "row_below r q" by blast
  have "row_ok q" by (rule db_row_ok [OF op_queue.exec_inv [OF assms(1)] q(1)])
  with q assms(3) show ?thesis by (intro bexI [OF _ q(1)]) (auto simp: row_below_def row_ok_def)
qed

theorem effect_at_most_once_witness:
  "\<exists>q \<in> set (db_requests (exec_ops op_step running_db [ReqRecover ''p'' (NowAt 200) 9, ReqClaim ''p'' None 300])).
     rq_id q = ''r1'' \<and> rq_effect q = Some ''e'' \<and> rq_epoch q = 2 \<and> rq_status q \<noteq> RqQueued"
  using effect_at_most_once [OF running_db_inv running_row_fields(1,4)] unfolding running_row_fields .

text \<open>A request reads back as it was submitted. The row that enqueuing stores maps to the very request
  it returned, when the binding's optional texts are not empty and the promotion is of a known
  kind; and it is the only change.\<close>

theorem enqueue_reads_back:
  assumes "enqueue db i now = Inr (db', q, True)"
    and "pred_option plain_binding (eq_binding i)" and "pred_option known_promotion (eq_promotion i)"
  shows "\<exists>r. db' = db\<lparr>db_requests := db_requests db @ [r]\<rparr> \<and> mapTuiRequest r = q
     \<and> (\<forall>p \<in> set (db_requests db). rq_path p = eq_path i \<longrightarrow> rq_position p < rq_position r)"
proof -
  from assms(1) obtain v images where v: "parseImagePayloads v = Inr images"
    and db': "db' = db\<lparr>db_requests := db_requests db @ [new_row db i images now]\<rparr>"
    and q: "q = Inr \<lparr>tq_id = eq_requestId i, tq_path = eq_path i, tq_objective = eq_objective i,
              tq_images = images, tq_position = rq_position (new_row db i images now), tq_status = RqQueued, tq_created = now,
              tq_binding = eq_binding i, tq_promotion = eq_promotion i\<rparr>"
    by (auto simp: enqueue_def Let_def res_simps split: option.split_asm if_split_asm)
  have pos: "rq_position (new_row db i images now) = next_position db (eq_path i)" by (simp add: new_row_def)
  show ?thesis
    using db' q pos new_row_reads_back [OF v assms(2,3), of db now] next_position_greater by auto
qed

lemma first_enqueue: "\<exists>q. enqueue fresh_db first_input 5 = Inr (one_request_db, q, True)"
  by (simp add: enqueue_def first_input_def parseImagePayloads_def existing_request_def fresh_db_def insert_conflict_def
      one_request_db_def new_row_def next_position_def)

theorem enqueue_reads_back_witness:
  "\<exists>q r. enqueue fresh_db first_input 5 = Inr (one_request_db, q, True) \<and> mapTuiRequest r = q
     \<and> db_requests one_request_db = [r]"
proof -
  from first_enqueue obtain q where q: "enqueue fresh_db first_input 5 = Inr (one_request_db, q, True)" by blast
  from enqueue_reads_back [OF this] obtain r where r: "one_request_db = fresh_db\<lparr>db_requests := db_requests fresh_db @ [r]\<rparr>"
    "mapTuiRequest r = q" by (auto simp: first_input_def)
  have "db_requests one_request_db = [r]" by (subst r(1)) (simp add: fresh_db_def)
  with q r(2) show ?thesis by blast
qed

text \<open>Enqueuing is idempotent. Submitting the same input again, at any later time, inserts nothing.\<close>

theorem enqueue_idempotent:
  assumes "enqueue db i now = Inr (db', q, b)"
  shows "\<exists>q'. enqueue db' i now' = Inr (db', q', False)"
proof -
  from assms obtain images where im: "parseImagePayloads (if eq_images i \<in> {JUndef, JNull} then JArr [] else eq_images i) = Inr images"
    by (auto simp: enqueue_def res_simps)
  have "existing_request db' i \<noteq> None"
  proof (cases "existing_request db i")
    case None
    with assms im have "db' = db\<lparr>db_requests := db_requests db @ [new_row db i images now]\<rparr>"
      by (auto simp: enqueue_def Let_def res_simps split: if_split_asm)
    then have "new_row db i images now \<in> set (db_requests db')" by simp
    moreover have "rq_path (new_row db i images now) = eq_path i \<and> (case eq_promotion i of
          Some p \<Rightarrow> pc_kind (rq_promotion (new_row db i images now)) = Some (pm_kind p)
            \<and> pc_id (rq_promotion (new_row db i images now)) = Some (pm_sourceId p)
        | None \<Rightarrow> rq_fingerprint (new_row db i images now) = eq_fingerprint i \<and> active (new_row db i images now))"
      by (simp add: new_row_def promotion_columns_of_def active_def split: option.split)
    ultimately show ?thesis unfolding existing_request_def find_NoneD by blast
  next
    case (Some r)
    with assms im show ?thesis by (auto simp: enqueue_def)
  qed
  then show ?thesis using im by (auto simp: enqueue_def)
qed

theorem enqueue_idempotent_witness: "\<exists>q. enqueue one_request_db first_input 99 = Inr (one_request_db, q, False)"
proof -
  from first_enqueue obtain q where "enqueue fresh_db first_input 5 = Inr (one_request_db, q, True)" by blast
  from enqueue_idempotent [OF this] show ?thesis .
qed

end
