(* ===== verification/RunStore.thy ===== *)
theory RunStore
  imports OpInv
begin

text \<open>
  The durable runs of \<open>state-run-store.ts\<close>, \<open>state-resume-store.ts\<close> and \<open>state-journal-store.ts\<close>
  over the tables of \<open>state-schema.ts\<close>: a run is a chat with one request, its provider outbox record
  and its checkpoint; observations and patches are journalled. Foreign keys are enforced, each
  operation is one transaction, and instants are milliseconds.
\<close>

section \<open>Tables\<close>

datatype chat_status = ChIdle | ChQueued | ChRunning | ChPaused | ChFailed | ChCompleted
datatype run_status = RnQueued | RnRunning | RnFailed | RnCompleted | RnIndeterminate
datatype run_outbox = OxQueued | OxDispatching | OxAccepted | OxSettled | OxIndeterminate
datatype patch_state = PsProposed | PsApproved | PsApplied | PsConflict | PsRejected

record project_row =
  pr_id :: string
  pr_path :: string
  pr_created :: int

record chat_row =
  ct_session :: string
  ct_project :: string
  ct_status :: chat_status
  ct_created :: int
  ct_updated :: int

record run_row =
  rr_id :: string
  rr_session :: string
  rr_position :: int
  rr_fingerprint :: string
  rr_payload :: string
  rr_status :: run_status
  rr_created :: int

record checkpoint_row =
  cp_session :: string
  cp_generation :: int
  cp_payload :: string
  cp_updated :: int

record outbox_row =
  ox_request :: string
  ox_generation :: int
  ox_state :: run_outbox
  ox_digest :: string
  ox_provider :: "string option"
  ox_updated :: int

record observation_row =
  ob_id :: string
  ob_session :: string
  ob_payload :: string
  ob_created :: int

record observation_link =
  ol_session :: string
  ol_observation :: string
  ol_created :: int

record patch_row =
  pt_id :: string
  pt_session :: string
  pt_base :: string
  pt_state :: patch_state
  pt_payload :: string
  pt_created :: int
  pt_updated :: int

record run_db =
  rd_projects :: "project_row list"
  rd_chats :: "chat_row list"
  rd_requests :: "run_row list"
  rd_checkpoints :: "checkpoint_row list"
  rd_outbox :: "outbox_row list"
  rd_observations :: "observation_row list"
  rd_links :: "observation_link list"
  rd_patches :: "patch_row list"

section \<open>Runs\<close>

definition recoverInterrupted :: "run_db \<Rightarrow> run_db" where
  "recoverInterrupted db = db\<lparr>
     rd_requests := update_where (\<lambda>r. rr_status r = RnRunning) (\<lambda>r. r\<lparr>rr_status := RnQueued\<rparr>) (rd_requests db),
     rd_outbox := update_where (\<lambda>ox. ox_state ox \<in> {OxDispatching, OxAccepted}) (\<lambda>ox. ox\<lparr>ox_state := OxIndeterminate\<rparr>) (rd_outbox db),
     rd_chats := update_where (\<lambda>c. ct_status c = ChRunning) (\<lambda>c. c\<lparr>ct_status := ChPaused\<rparr>) (rd_chats db)\<rparr>"

record begin_input =
  bi_projectId :: string
  bi_projectPath :: string
  bi_sessionId :: string
  bi_requestId :: string
  bi_fingerprint :: string
  bi_payload :: string
  bi_checkpoint :: string
  bi_generation :: int

text \<open>
  The project row is ignored when its identifier or its path is taken; then the chat refers to a
  project that may not exist. The other inserts conflict on their keys.
\<close>

definition begin_run :: "run_db \<Rightarrow> begin_input \<Rightarrow> int \<Rightarrow> run_db res" where
  "begin_run db i now =
     (let projects = (if list_ex (\<lambda>p. pr_id p = bi_projectId i \<or> pr_path p = bi_projectPath i) (rd_projects db)
            then rd_projects db
            else rd_projects db @ [\<lparr>pr_id = bi_projectId i, pr_path = bi_projectPath i, pr_created = now\<rparr>]) in
      if list_ex (\<lambda>c. ct_session c = bi_sessionId i) (rd_chats db)
        then Inl (SqlConstraint ''UNIQUE constraint failed: chats.session_id'')
      else if \<not> list_ex (\<lambda>p. pr_id p = bi_projectId i) projects
        then Inl (SqlConstraint ''FOREIGN KEY constraint failed'')
      else if list_ex (\<lambda>r. rr_id r = bi_requestId i \<or> rr_session r = bi_sessionId i \<and> rr_fingerprint r = bi_fingerprint i) (rd_requests db)
        then Inl (SqlConstraint ''UNIQUE constraint failed: request_queue'')
      else if list_ex (\<lambda>c. cp_session c = bi_sessionId i) (rd_checkpoints db)
        then Inl (SqlConstraint ''UNIQUE constraint failed: checkpoints.session_id'')
      else if list_ex (\<lambda>ox. ox_request ox = bi_requestId i) (rd_outbox db)
        then Inl (SqlConstraint ''UNIQUE constraint failed: provider_outbox.request_id'')
      else Inr (db\<lparr>rd_projects := projects,
        rd_chats := rd_chats db @ [\<lparr>ct_session = bi_sessionId i, ct_project = bi_projectId i, ct_status = ChRunning,
          ct_created = now, ct_updated = now\<rparr>],
        rd_requests := rd_requests db @ [\<lparr>rr_id = bi_requestId i, rr_session = bi_sessionId i, rr_position = 1,
          rr_fingerprint = bi_fingerprint i, rr_payload = bi_payload i, rr_status = RnRunning, rr_created = now\<rparr>],
        rd_checkpoints := rd_checkpoints db @ [\<lparr>cp_session = bi_sessionId i, cp_generation = bi_generation i,
          cp_payload = bi_checkpoint i, cp_updated = now\<rparr>],
        rd_outbox := rd_outbox db @ [\<lparr>ox_request = bi_requestId i, ox_generation = bi_generation i, ox_state = OxQueued,
          ox_digest = bi_fingerprint i, ox_provider = None, ox_updated = now\<rparr>]\<rparr>))"

definition complete_run :: "run_db \<Rightarrow> string \<Rightarrow> string \<Rightarrow> bool \<Rightarrow> int \<Rightarrow> run_db" where
  "complete_run db sessionId requestId completed now = db\<lparr>
     rd_requests := update_where (\<lambda>r. rr_id r = requestId)
       (\<lambda>r. r\<lparr>rr_status := (if completed then RnCompleted else RnFailed)\<rparr>) (rd_requests db),
     rd_chats := update_where (\<lambda>c. ct_session c = sessionId)
       (\<lambda>c. c\<lparr>ct_status := (if completed then ChCompleted else ChFailed), ct_updated := now\<rparr>) (rd_chats db)\<rparr>"

section \<open>Dispatch and resume\<close>

fun outbox_name :: "run_outbox \<Rightarrow> string" where
  "outbox_name OxQueued = ''queued''"
| "outbox_name OxDispatching = ''dispatching''"
| "outbox_name OxAccepted = ''accepted''"
| "outbox_name OxSettled = ''settled''"
| "outbox_name OxIndeterminate = ''indeterminate''"

definition markDispatching :: "run_db \<Rightarrow> string \<Rightarrow> int \<Rightarrow> int \<Rightarrow> run_db res" where
  "markDispatching db requestId generation now =
     (let hit = (\<lambda>ox. ox_request ox = requestId \<and> ox_generation ox = generation \<and> ox_state ox = OxQueued) in
      if count_where hit (rd_outbox db) = 1
        then Inr (db\<lparr>rd_outbox := update_where hit (\<lambda>ox. ox\<lparr>ox_state := OxDispatching, ox_updated := now\<rparr>) (rd_outbox db)\<rparr>)
      else case List.find (\<lambda>ox. ox_request ox = requestId) (rd_outbox db) of
        None \<Rightarrow> Inl (Error ''Provider outbox request is unavailable'')
      | Some ox \<Rightarrow>
          if ox_generation ox \<noteq> generation then Inl (Error ''Provider outbox generation is stale'')
          else Inl (Error (''Provider outbox is '' @ outbox_name (ox_state ox) @ ''; automatic dispatch is blocked'')))"

definition settle :: "run_db \<Rightarrow> string \<Rightarrow> string option \<Rightarrow> int \<Rightarrow> run_db res" where
  "settle db requestId provider now =
     (let hit = (\<lambda>ox. ox_request ox = requestId \<and> ox_state ox = OxDispatching) in
      if count_where hit (rd_outbox db) \<noteq> 1
        then Inl (Error ''Provider outbox could not be settled from dispatching'')
      else Inr (db\<lparr>rd_outbox := update_where hit (\<lambda>ox. ox\<lparr>ox_state := OxSettled, ox_provider := provider,
             ox_updated := now\<rparr>) (rd_outbox db)\<rparr>))"

definition writeCheckpoint :: "run_db \<Rightarrow> string \<Rightarrow> int \<Rightarrow> string \<Rightarrow> int \<Rightarrow> run_db" where
  "writeCheckpoint db sessionId generation checkpoint now = db\<lparr>rd_checkpoints :=
     update_where (\<lambda>c. cp_session c = sessionId) (\<lambda>c. c\<lparr>cp_generation := generation, cp_payload := checkpoint,
       cp_updated := now\<rparr>) (rd_checkpoints db)\<rparr>"

definition settleAndCheckpoint :: "run_db \<Rightarrow> string \<Rightarrow> string \<Rightarrow> int \<Rightarrow> string option \<Rightarrow> string \<Rightarrow> int \<Rightarrow> run_db res" where
  "settleAndCheckpoint db requestId sessionId generation provider checkpoint now =
     (let hit = (\<lambda>ox. ox_request ox = requestId \<and> ox_generation ox = generation \<and> ox_state ox = OxDispatching) in
      if count_where hit (rd_outbox db) \<noteq> 1
        then Inl (Error ''Provider outbox could not be settled from dispatching'')
      else Inr (writeCheckpoint (db\<lparr>rd_outbox := update_where hit (\<lambda>ox. ox\<lparr>ox_state := OxSettled, ox_provider := provider,
             ox_updated := now\<rparr>) (rd_outbox db)\<rparr>) sessionId generation checkpoint now))"

definition prepareDispatch :: "run_db \<Rightarrow> string \<Rightarrow> string \<Rightarrow> int \<Rightarrow> string \<Rightarrow> string \<Rightarrow> int \<Rightarrow> run_db res" where
  "prepareDispatch db requestId sessionId generation digest checkpoint now =
     (let hit = (\<lambda>ox. ox_request ox = requestId \<and> ox_state ox = OxSettled) in
      if count_where hit (rd_outbox db) \<noteq> 1
        then Inl (Error ''Provider outbox is not safely settled for the next dispatch'')
      else let db1 = writeCheckpoint (db\<lparr>rd_outbox := update_where hit (\<lambda>ox. ox\<lparr>ox_generation := generation,
                  ox_state := OxQueued, ox_digest := digest, ox_provider := None, ox_updated := now\<rparr>) (rd_outbox db)\<rparr>)
                sessionId generation checkpoint now in
        Inr (db1\<lparr>rd_requests := update_where (\<lambda>r. rr_id r = requestId) (\<lambda>r. r\<lparr>rr_status := RnRunning\<rparr>) (rd_requests db1),
                 rd_chats := update_where (\<lambda>c. ct_session c = sessionId) (\<lambda>c. c\<lparr>ct_status := ChRunning, ct_updated := now\<rparr>) (rd_chats db1)\<rparr>))"

definition updateCheckpoint :: "run_db \<Rightarrow> string \<Rightarrow> int \<Rightarrow> string \<Rightarrow> int \<Rightarrow> run_db res" where
  "updateCheckpoint db sessionId generation checkpoint now =
     (if count_where (\<lambda>c. cp_session c = sessionId) (rd_checkpoints db) \<noteq> 1
        then Inl (Error ''Durable checkpoint is unavailable'')
      else Inr (writeCheckpoint db sessionId generation checkpoint now))"

record resume_checkpoint =
  rc_sessionId :: string
  rc_projectPath :: string
  rc_payload :: string
  rc_requestId :: string
  rc_requestPayload :: string
  rc_fingerprint :: string
  rc_generation :: int
  rc_outboxState :: run_outbox
  rc_updatedAt :: int

definition resumable_chat :: "chat_status \<Rightarrow> bool" where
  "resumable_chat s = (s = ChPaused \<or> s = ChQueued \<or> s = ChFailed)"

text \<open>The rows of the join, in the order of the checkpoints.\<close>

definition resume_rows :: "run_db \<Rightarrow> resume_checkpoint list" where
  "resume_rows db =
     [\<lparr>rc_sessionId = ct_session c, rc_projectPath = pr_path p, rc_payload = cp_payload k, rc_requestId = rr_id r,
       rc_requestPayload = rr_payload r, rc_fingerprint = rr_fingerprint r, rc_generation = cp_generation k,
       rc_outboxState = ox_state o', rc_updatedAt = cp_updated k\<rparr>.
      k \<leftarrow> rd_checkpoints db, c \<leftarrow> rd_chats db, ct_session c = cp_session k \<and> resumable_chat (ct_status c),
      p \<leftarrow> rd_projects db, pr_id p = ct_project c,
      r \<leftarrow> rd_requests db, rr_session r = ct_session c \<and> rr_status r \<noteq> RnIndeterminate,
      o' \<leftarrow> rd_outbox db, ox_request o' = rr_id r]"

text \<open>\<open>ORDER BY updated_at DESC LIMIT 1\<close>; among equal instants the first row.\<close>

fun newest :: "('a \<Rightarrow> int) \<Rightarrow> 'a list \<Rightarrow> 'a option" where
  "newest f [] = None"
| "newest f (x # xs) = (case newest f xs of None \<Rightarrow> Some x | Some y \<Rightarrow> Some (if f x < f y then y else x))"

definition find_resume :: "run_db \<Rightarrow> string option \<Rightarrow> string option \<Rightarrow> resume_checkpoint option" where
  "find_resume db sessionId projectPath =
     newest rc_updatedAt (filter (\<lambda>c. (case nonempty sessionId of None \<Rightarrow> True | Some s \<Rightarrow> rc_sessionId c = s)
         \<and> (case nonempty projectPath of None \<Rightarrow> True | Some p \<Rightarrow> rc_projectPath c = p)) (resume_rows db))"

definition assertSafe :: "resume_checkpoint \<Rightarrow> unit res" where
  "assertSafe c =
     (if rc_outboxState c = OxIndeterminate
        then Inl (Error ''Provider receipt is indeterminate; automatic resend is blocked. Inspect the provider before retrying.'')
      else if rc_outboxState c \<noteq> OxQueued \<and> rc_outboxState c \<noteq> OxSettled
        then Inl (Error (''Provider outbox is '' @ outbox_name (rc_outboxState c) @ ''; resume is not safe''))
      else Inr ())"

definition claimCheckpoint :: "run_db \<Rightarrow> resume_checkpoint \<Rightarrow> int \<Rightarrow> run_db res" where
  "claimCheckpoint db c now =
     (let hit = (\<lambda>x. ct_session x = rc_sessionId c \<and> resumable_chat (ct_status x)) in
      if count_where hit (rd_chats db) \<noteq> 1 then Inl (Error ''Durable checkpoint was claimed by another runtime'')
      else Inr (db\<lparr>rd_chats := update_where hit (\<lambda>x. x\<lparr>ct_status := ChRunning, ct_updated := now\<rparr>) (rd_chats db),
                  rd_requests := update_where (\<lambda>r. rr_id r = rc_requestId c) (\<lambda>r. r\<lparr>rr_status := RnRunning\<rparr>) (rd_requests db)\<rparr>))"

definition retireIndeterminate :: "run_db \<Rightarrow> resume_checkpoint \<Rightarrow> int \<Rightarrow> run_db res" where
  "retireIndeterminate db c now =
     (let hit = (\<lambda>r. rr_id r = rc_requestId c \<and> rr_status r \<in> {RnQueued, RnRunning, RnFailed});
          chat = (\<lambda>x. ct_session x = rc_sessionId c \<and> resumable_chat (ct_status x)) in
      if count_where hit (rd_requests db) \<noteq> 1 then Inl (Error ''Indeterminate provider request could not be retired'')
      else if count_where chat (rd_chats db) \<noteq> 1 then Inl (Error ''Indeterminate provider session could not be retired'')
      else Inr (db\<lparr>rd_requests := update_where hit (\<lambda>r. r\<lparr>rr_status := RnIndeterminate\<rparr>) (rd_requests db),
                  rd_chats := update_where chat (\<lambda>x. x\<lparr>ct_status := ChFailed, ct_updated := now\<rparr>) (rd_chats db)\<rparr>))"

definition claim_resume :: "run_db \<Rightarrow> string option \<Rightarrow> string option \<Rightarrow> int \<Rightarrow> (run_db \<times> resume_checkpoint option) res" where
  "claim_resume db sessionId projectPath now =
     (case find_resume db sessionId projectPath of
        None \<Rightarrow> Inr (db, None)
      | Some c \<Rightarrow> bindR (assertSafe c) (\<lambda>_. bindR (claimCheckpoint db c now) (\<lambda>db'. Inr (db', Some c))))"

datatype resume_claim = ResumeCheckpoint resume_checkpoint | ResumeRestart resume_checkpoint

definition claimExplicit :: "run_db \<Rightarrow> string option \<Rightarrow> string option \<Rightarrow> int \<Rightarrow> (run_db \<times> resume_claim option) res" where
  "claimExplicit db sessionId projectPath now =
     (case find_resume db sessionId projectPath of
        None \<Rightarrow> Inr (db, None)
      | Some c \<Rightarrow>
          if rc_outboxState c = OxIndeterminate
            then bindR (retireIndeterminate db c now) (\<lambda>db'. Inr (db', Some (ResumeRestart c)))
          else bindR (assertSafe c) (\<lambda>_. bindR (claimCheckpoint db c now) (\<lambda>db'. Inr (db', Some (ResumeCheckpoint c)))))"

section \<open>Journal\<close>

definition recordObservation :: "run_db \<Rightarrow> string \<Rightarrow> string \<Rightarrow> string \<Rightarrow> int \<Rightarrow> run_db res" where
  "recordObservation db sessionId obsId payload now =
     (let existing = List.find (\<lambda>ox. ob_id ox = obsId) (rd_observations db);
          linked = list_ex (\<lambda>l. ol_session l = sessionId \<and> ol_observation l = obsId) (rd_links db) in
      if (case existing of Some ox \<Rightarrow> ob_payload ox \<noteq> payload | None \<Rightarrow> False)
        then Inl (Error ''Content-addressed observation payload does not match its existing ID'')
      else if (existing = None \<or> \<not> linked) \<and> \<not> list_ex (\<lambda>c. ct_session c = sessionId) (rd_chats db)
        then Inl (SqlConstraint ''FOREIGN KEY constraint failed'')
      else Inr (db\<lparr>rd_observations := insert_or_ignore ob_id \<lparr>ob_id = obsId, ob_session = sessionId,
                    ob_payload = payload, ob_created = now\<rparr> (rd_observations db),
                  rd_links := insert_or_ignore (\<lambda>l. (ol_session l, ol_observation l)) \<lparr>ol_session = sessionId,
                    ol_observation = obsId, ol_created = now\<rparr> (rd_links db)\<rparr>))"

definition recordPatch :: "run_db \<Rightarrow> string \<Rightarrow> string \<Rightarrow> string \<Rightarrow> patch_state \<Rightarrow> string \<Rightarrow> int \<Rightarrow> run_db res" where
  "recordPatch db sessionId patchId base state payload now =
     (if list_ex (\<lambda>p. pt_id p = patchId) (rd_patches db)
        then Inr (db\<lparr>rd_patches := update_where (\<lambda>p. pt_id p = patchId)
               (\<lambda>p. p\<lparr>pt_state := state, pt_payload := payload, pt_updated := now\<rparr>) (rd_patches db)\<rparr>)
      else if \<not> list_ex (\<lambda>c. ct_session c = sessionId) (rd_chats db)
        then Inl (SqlConstraint ''FOREIGN KEY constraint failed'')
      else Inr (db\<lparr>rd_patches := rd_patches db @ [\<lparr>pt_id = patchId, pt_session = sessionId, pt_base = base,
             pt_state = state, pt_payload = payload, pt_created = now, pt_updated = now\<rparr>]\<rparr>))"

section \<open>The store as a machine\<close>

datatype run_request =
    RunRecover
  | RunBegin begin_input int
  | RunComplete string string bool int
  | RunDispatch string int int
  | RunSettle string "string option" int
  | RunSettleCheckpoint string string int "string option" string int
  | RunPrepare string string int string string int
  | RunCheckpoint string int string int
  | RunClaim "string option" "string option" int
  | RunClaimExplicit "string option" "string option" int
  | RunObservation string string string int
  | RunPatch string string string patch_state string int

fun run_step :: "run_db \<Rightarrow> run_request \<Rightarrow> run_db res" where
  "run_step db RunRecover = Inr (recoverInterrupted db)"
| "run_step db (RunBegin i now) = begin_run db i now"
| "run_step db (RunComplete s r ok now) = Inr (complete_run db s r ok now)"
| "run_step db (RunDispatch r g now) = markDispatching db r g now"
| "run_step db (RunSettle r p now) = settle db r p now"
| "run_step db (RunSettleCheckpoint r s g p c now) = settleAndCheckpoint db r s g p c now"
| "run_step db (RunPrepare r s g d c now) = prepareDispatch db r s g d c now"
| "run_step db (RunCheckpoint s g c now) = updateCheckpoint db s g c now"
| "run_step db (RunClaim s p now) = bindR (claim_resume db s p now) (\<lambda>out. Inr (fst out))"
| "run_step db (RunClaimExplicit s p now) = bindR (claimExplicit db s p now) (\<lambda>out. Inr (fst out))"
| "run_step db (RunObservation s i t now) = recordObservation db s i t now"
| "run_step db (RunPatch s i b st t now) = recordPatch db s i b st t now"

section \<open>Invariant\<close>

text \<open>
  Keys are unique and foreign keys refer to existing rows; a session has at most one request; no
  outbox record is ever \<open>accepted\<close>, a state the schema admits and no operation enters.
\<close>

definition run_inv :: "run_db \<Rightarrow> bool" where
  "run_inv db = (distinct (map pr_id (rd_projects db)) \<and> distinct (map pr_path (rd_projects db))
     \<and> distinct (map ct_session (rd_chats db)) \<and> set (map ct_project (rd_chats db)) \<subseteq> set (map pr_id (rd_projects db))
     \<and> distinct (map rr_id (rd_requests db)) \<and> distinct (map rr_session (rd_requests db))
     \<and> set (map rr_session (rd_requests db)) \<subseteq> set (map ct_session (rd_chats db))
     \<and> distinct (map cp_session (rd_checkpoints db)) \<and> set (map cp_session (rd_checkpoints db)) \<subseteq> set (map ct_session (rd_chats db))
     \<and> distinct (map ox_request (rd_outbox db)) \<and> set (map ox_request (rd_outbox db)) \<subseteq> set (map rr_id (rd_requests db))
     \<and> distinct (map ob_id (rd_observations db)) \<and> distinct (map (\<lambda>l. (ol_session l, ol_observation l)) (rd_links db))
     \<and> set (map ol_session (rd_links db)) \<subseteq> set (map ct_session (rd_chats db))
     \<and> set (map ol_observation (rd_links db)) \<subseteq> set (map ob_id (rd_observations db))
     \<and> distinct (map pt_id (rd_patches db)) \<and> set (map pt_session (rd_patches db)) \<subseteq> set (map ct_session (rd_chats db))
     \<and> list_all (\<lambda>x. ox_state x \<noteq> OxAccepted) (rd_outbox db))"

text \<open>The protocol of one outbox record.\<close>

inductive outbox_next :: "outbox_row \<Rightarrow> outbox_row \<Rightarrow> bool" where
  dispatch: "ox_state x = OxQueued \<Longrightarrow> outbox_next x (x\<lparr>ox_state := OxDispatching, ox_updated := t\<rparr>)"
| settle: "ox_state x = OxDispatching \<Longrightarrow> outbox_next x (x\<lparr>ox_state := OxSettled, ox_provider := p, ox_updated := t\<rparr>)"
| prepare: "ox_state x = OxSettled \<Longrightarrow> outbox_next x (x\<lparr>ox_generation := g, ox_state := OxQueued, ox_digest := d,
     ox_provider := None, ox_updated := t\<rparr>)"
| lose: "ox_state x = OxDispatching \<or> ox_state x = OxAccepted \<Longrightarrow> outbox_next x (x\<lparr>ox_state := OxIndeterminate\<rparr>)"

inductive_cases outbox_next_from: "outbox_next x y"

abbreviation outbox_later :: "outbox_row \<Rightarrow> outbox_row \<Rightarrow> bool" where
  "outbox_later \<equiv> outbox_next\<^sup>*\<^sup>*"

lemma outbox_next_request: "outbox_next x y \<Longrightarrow> ox_request y = ox_request x"
  by (auto elim: outbox_next_from)

lemma outbox_later_request: "outbox_later x y \<Longrightarrow> ox_request y = ox_request x"
  by (induction rule: rtranclp_induct) (auto dest: outbox_next_request)

lemma outbox_indeterminate_final:
  assumes "outbox_later x y" and "ox_state x = OxIndeterminate"
  shows "y = x"
  using assms by (induction rule: rtranclp_induct) (auto elim: outbox_next_from)

text \<open>A table whose rows stay in place and only move along \<open>P\<close>, with new rows at the end.\<close>

definition grows :: "('r \<Rightarrow> 'r \<Rightarrow> bool) \<Rightarrow> 'r list \<Rightarrow> 'r list \<Rightarrow> bool" where
  "grows P xs ys = (length xs \<le> length ys \<and> (\<forall>i < length xs. P (xs ! i) (ys ! i)))"

lemma grows_refl: "(\<And>x. P x x) \<Longrightarrow> grows P xs xs"
  by (simp add: grows_def)

lemma grows_trans: "(\<And>x y z. P x y \<Longrightarrow> P y z \<Longrightarrow> P x z) \<Longrightarrow> grows P xs ys \<Longrightarrow> grows P ys zs \<Longrightarrow> grows P xs zs"
  by (fastforce simp: grows_def)

lemma grows_update: "(\<And>x. P x x) \<Longrightarrow> (\<And>x. x \<in> set xs \<Longrightarrow> hit x \<Longrightarrow> P x (f x)) \<Longrightarrow> grows P xs (update_where hit f xs)"
  by (simp add: grows_def update_where_def)

lemma grows_append: "(\<And>x. P x x) \<Longrightarrow> grows P xs (xs @ ys)"
  by (simp add: grows_def nth_append)

lemma grows_insert_or_ignore: "(\<And>x. P x x) \<Longrightarrow> grows P xs (insert_or_ignore key x xs)"
  by (simp add: insert_or_ignore_def grows_append grows_refl)

lemma grows_mem: "grows P xs ys \<Longrightarrow> x \<in> set xs \<Longrightarrow> \<exists>y \<in> set ys. P x y"
  unfolding grows_def by (metis in_set_conv_nth nth_mem order_less_le_trans)

definition same_run :: "run_row \<Rightarrow> run_row \<Rightarrow> bool" where
  "same_run r q = (q = r\<lparr>rr_status := rr_status q\<rparr>)"

definition same_patch :: "patch_row \<Rightarrow> patch_row \<Rightarrow> bool" where
  "same_patch p q = (q = p\<lparr>pt_state := pt_state q, pt_payload := pt_payload q, pt_updated := pt_updated q\<rparr>)"

lemma same_run_refl [simp]: "same_run r r" and same_run_trans: "same_run r q \<Longrightarrow> same_run q p \<Longrightarrow> same_run r p"
  unfolding same_run_def by (simp, metis run_row.surjective run_row.update_convs(6))

lemma same_patch_refl [simp]: "same_patch r r"
  by (simp add: same_patch_def)

lemma same_patch_iff: "same_patch p q \<longleftrightarrow> pt_id q = pt_id p \<and> pt_session q = pt_session p \<and> pt_base q = pt_base p \<and> pt_created q = pt_created p"
  by (cases p; cases q) (auto simp: same_patch_def)

definition run_below :: "run_db \<Rightarrow> run_db \<Rightarrow> bool" where
  "run_below s t = (grows outbox_later (rd_outbox s) (rd_outbox t)
     \<and> grows same_run (rd_requests s) (rd_requests t)
     \<and> grows (=) (rd_observations s) (rd_observations t) \<and> grows (=) (rd_links s) (rd_links t)
     \<and> grows (=) (rd_projects s) (rd_projects t)
     \<and> grows same_patch (rd_patches s) (rd_patches t))"

lemma run_below_refl: "run_below s s"
  by (simp add: run_below_def grows_refl)

lemma run_below_trans: "run_below s t \<Longrightarrow> run_below t u \<Longrightarrow> run_below s u"
  unfolding run_below_def
  by (auto intro: grows_trans [of outbox_later] grows_trans [of same_run] grows_trans [of "(=)"]
      grows_trans [of same_patch] rtranclp_trans same_run_trans simp: same_patch_iff)

definition run_ok :: "run_db \<Rightarrow> run_db \<Rightarrow> bool" where
  "run_ok db db' = (run_inv db' \<and> run_below db db')"

text \<open>
  Most operations update columns that are no keys: outbox records along the protocol, the status
  of requests and chats, checkpoints.
\<close>

definition same_keys :: "run_db \<Rightarrow> run_db \<Rightarrow> bool" where
  "same_keys s t = (rd_projects t = rd_projects s \<and> map ct_session (rd_chats t) = map ct_session (rd_chats s)
     \<and> map ct_project (rd_chats t) = map ct_project (rd_chats s)
     \<and> map cp_session (rd_checkpoints t) = map cp_session (rd_checkpoints s)
     \<and> rd_observations t = rd_observations s \<and> rd_links t = rd_links s \<and> rd_patches t = rd_patches s)"

lemma grows_map_eq:
  assumes "grows P xs ys" and "length ys = length xs" and "\<And>x y. P x y \<Longrightarrow> f y = f x"
  shows "map f ys = map f xs"
  using assms by (intro nth_equalityI) (auto simp: grows_def)

lemma update_ok_run:
  assumes inv: "run_inv db" and keys: "same_keys db db'"
    and ob: "grows outbox_later (rd_outbox db) (rd_outbox db')" "length (rd_outbox db') = length (rd_outbox db)"
    and acc: "list_all (\<lambda>x. ox_state x \<noteq> OxAccepted) (rd_outbox db')"
    and rq: "grows same_run (rd_requests db) (rd_requests db')" "length (rd_requests db') = length (rd_requests db)"
  shows "run_ok db db'"
proof -
  have "map ox_request (rd_outbox db') = map ox_request (rd_outbox db)"
    by (rule grows_map_eq [OF ob]) (rule outbox_later_request)
  moreover have "map rr_id (rd_requests db') = map rr_id (rd_requests db)" "map rr_session (rd_requests db') = map rr_session (rd_requests db)"
    by (rule grows_map_eq [OF rq]; metis same_run_def run_row.select_convs run_row.surjective run_row.update_convs(6))+
  ultimately have "run_inv db'" using inv keys acc unfolding run_inv_def same_keys_def by presburger
  moreover have "run_below db db'" using ob(1) rq(1) keys by (simp add: run_below_def same_keys_def grows_refl)
  ultimately show ?thesis by (simp add: run_ok_def)
qed

section \<open>Every operation\<close>

lemma recover_run_ok: "run_inv db \<Longrightarrow> run_ok db (recoverInterrupted db)"
  by (rule update_ok_run)
    (auto simp: recoverInterrupted_def same_keys_def map_update_where run_inv_def list_all_iff set_update_where
      same_run_def intro!: grows_update outbox_next.lose)

lemma complete_run_ok: "run_inv db \<Longrightarrow> run_ok db (complete_run db s r b now)"
  by (rule update_ok_run)
    (auto simp: complete_run_def same_keys_def map_update_where run_inv_def same_run_def grows_refl intro!: grows_update)

lemma dispatch_run_ok:
  assumes "run_inv db" and "markDispatching db r g now = Inr db'"
  shows "run_ok db db'"
proof -
  from assms(2) have db': "db' = db\<lparr>rd_outbox := update_where (\<lambda>x. ox_request x = r \<and> ox_generation x = g \<and> ox_state x = OxQueued)
      (\<lambda>x. x\<lparr>ox_state := OxDispatching, ox_updated := now\<rparr>) (rd_outbox db)\<rparr>"
    by (auto simp: markDispatching_def Let_def split: if_split_asm option.split_asm)
  show ?thesis using assms(1)
    by (intro update_ok_run) (auto simp: db' same_keys_def run_inv_def list_all_iff set_update_where
        grows_refl intro!: grows_update outbox_next.dispatch)
qed

lemma settle_run_ok:
  assumes "run_inv db" and "settle db r p now = Inr db'"
  shows "run_ok db db'"
proof -
  from assms(2) have db': "db' = db\<lparr>rd_outbox := update_where (\<lambda>x. ox_request x = r \<and> ox_state x = OxDispatching)
      (\<lambda>x. x\<lparr>ox_state := OxSettled, ox_provider := p, ox_updated := now\<rparr>) (rd_outbox db)\<rparr>"
    by (auto simp: settle_def Let_def split: if_split_asm)
  show ?thesis using assms(1)
    by (intro update_ok_run) (auto simp: db' same_keys_def run_inv_def list_all_iff set_update_where
        grows_refl intro!: grows_update outbox_next.settle)
qed

lemma settleAndCheckpoint_run_ok:
  assumes "run_inv db" and "settleAndCheckpoint db r s g p c now = Inr db'"
  shows "run_ok db db'"
proof -
  from assms(2) have db': "db' = writeCheckpoint (db\<lparr>rd_outbox := update_where (\<lambda>x. ox_request x = r \<and> ox_generation x = g \<and> ox_state x = OxDispatching)
      (\<lambda>x. x\<lparr>ox_state := OxSettled, ox_provider := p, ox_updated := now\<rparr>) (rd_outbox db)\<rparr>) s g c now"
    by (auto simp: settleAndCheckpoint_def Let_def split: if_split_asm)
  show ?thesis using assms(1)
    by (intro update_ok_run) (auto simp: db' writeCheckpoint_def same_keys_def map_update_where run_inv_def list_all_iff set_update_where
        grows_refl intro!: grows_update outbox_next.settle)
qed

lemma prepare_run_ok:
  assumes "run_inv db" and "prepareDispatch db r s g d c now = Inr db'"
  shows "run_ok db db'"
  using assms
  by (intro update_ok_run) (auto simp: prepareDispatch_def Let_def writeCheckpoint_def same_keys_def map_update_where run_inv_def
      list_all_iff set_update_where same_run_def split: if_split_asm intro!: grows_update outbox_next.prepare)

lemma checkpoint_run_ok:
  assumes "run_inv db" and "updateCheckpoint db s g c now = Inr db'"
  shows "run_ok db db'"
  using assms
  by (intro update_ok_run) (auto simp: updateCheckpoint_def writeCheckpoint_def same_keys_def map_update_where run_inv_def
      grows_refl split: if_split_asm)

lemma claimCheckpoint_ok:
  assumes "run_inv db" and "claimCheckpoint db c now = Inr db'"
  shows "run_ok db db'"
  using assms
  by (intro update_ok_run) (auto simp: claimCheckpoint_def Let_def same_keys_def map_update_where run_inv_def same_run_def
      grows_refl split: if_split_asm intro!: grows_update)

lemma retire_ok:
  assumes "run_inv db" and "retireIndeterminate db c now = Inr db'"
  shows "run_ok db db'"
  using assms
  by (intro update_ok_run) (auto simp: retireIndeterminate_def Let_def same_keys_def map_update_where run_inv_def same_run_def
      grows_refl split: if_split_asm intro!: grows_update)

lemma run_ok_refl: "run_inv db \<Longrightarrow> run_ok db db"
  by (simp add: run_ok_def run_below_refl)

lemma claim_resume_ok:
  assumes "run_inv db" and "claim_resume db s p now = Inr (db', out)"
  shows "run_ok db db'"
  using assms by (auto simp: claim_resume_def res_simps run_ok_refl split: option.split_asm intro: claimCheckpoint_ok)

lemma claimExplicit_ok:
  assumes "run_inv db" and "claimExplicit db s p now = Inr (db', out)"
  shows "run_ok db db'"
  using assms by (auto simp: claimExplicit_def res_simps run_ok_refl split: option.split_asm if_split_asm intro: claimCheckpoint_ok retire_ok)

lemma list_ex_key: "list_ex (\<lambda>x. f x = k) xs \<longleftrightarrow> k \<in> set (map f xs)"
  by (induction xs) auto

lemma list_ex_or: "list_ex (\<lambda>x. p x \<or> q x) xs \<longleftrightarrow> list_ex p xs \<or> list_ex q xs"
  by (induction xs) auto

lemma begin_run_ok:
  assumes "run_inv db" and "begin_run db i now = Inr db'"
  shows "run_ok db db'"
proof -
  let ?known = "list_ex (\<lambda>p. pr_id p = bi_projectId i \<or> pr_path p = bi_projectPath i) (rd_projects db)"
  let ?projects = "if ?known then rd_projects db
      else rd_projects db @ [\<lparr>pr_id = bi_projectId i, pr_path = bi_projectPath i, pr_created = now\<rparr>]"
  from assms(2) have neg: "\<not> list_ex (\<lambda>c. ct_session c = bi_sessionId i) (rd_chats db)"
      "list_ex (\<lambda>p. pr_id p = bi_projectId i) ?projects"
      "\<not> list_ex (\<lambda>r. rr_id r = bi_requestId i \<or> rr_session r = bi_sessionId i \<and> rr_fingerprint r = bi_fingerprint i) (rd_requests db)"
      "\<not> list_ex (\<lambda>c. cp_session c = bi_sessionId i) (rd_checkpoints db)"
      "\<not> list_ex (\<lambda>x. ox_request x = bi_requestId i) (rd_outbox db)"
    by (simp_all only: begin_run_def Let_def if_Inl_Inr not_not simp_thms)
  then have free: "bi_sessionId i \<notin> set (map ct_session (rd_chats db))" "bi_projectId i \<in> set (map pr_id ?projects)"
      "bi_requestId i \<notin> set (map rr_id (rd_requests db))" "bi_sessionId i \<notin> set (map cp_session (rd_checkpoints db))"
      "bi_requestId i \<notin> set (map ox_request (rd_outbox db))"
    unfolding list_ex_key list_ex_or by blast+
  from assms(2) have db': "db' = db\<lparr>rd_projects := ?projects,
        rd_chats := rd_chats db @ [\<lparr>ct_session = bi_sessionId i, ct_project = bi_projectId i, ct_status = ChRunning,
          ct_created = now, ct_updated = now\<rparr>],
        rd_requests := rd_requests db @ [\<lparr>rr_id = bi_requestId i, rr_session = bi_sessionId i, rr_position = 1,
          rr_fingerprint = bi_fingerprint i, rr_payload = bi_payload i, rr_status = RnRunning, rr_created = now\<rparr>],
        rd_checkpoints := rd_checkpoints db @ [\<lparr>cp_session = bi_sessionId i, cp_generation = bi_generation i,
          cp_payload = bi_checkpoint i, cp_updated = now\<rparr>],
        rd_outbox := rd_outbox db @ [\<lparr>ox_request = bi_requestId i, ox_generation = bi_generation i, ox_state = OxQueued,
          ox_digest = bi_fingerprint i, ox_provider = None, ox_updated = now\<rparr>]\<rparr>"
    by (simp add: begin_run_def Let_def split: if_split_asm)
  have "distinct (map pr_id ?projects)" "distinct (map pr_path ?projects)" "set (map pr_id (rd_projects db)) \<subseteq> set (map pr_id ?projects)"
    using assms(1) by (auto simp: run_inv_def list_ex_iff)
  moreover have "bi_sessionId i \<notin> set (map rr_session (rd_requests db))" using free(1) assms(1) by (auto simp: run_inv_def)
  ultimately have "run_inv db'" using assms(1) free unfolding run_inv_def db' by auto
  moreover have "run_below db db'" by (simp add: run_below_def db' grows_append grows_refl)
  ultimately show ?thesis by (simp add: run_ok_def)
qed

lemma set_insert_or_ignore: "key ` set (insert_or_ignore key r rows) = insert (key r) (key ` set rows)"
  by (auto simp: insert_or_ignore_def)

lemma observation_run_ok:
  assumes inv: "run_inv db" and "recordObservation db s i t now = Inr db'"
  shows "run_ok db db'"
proof -
  let ?ob = "\<lparr>ob_id = i, ob_session = s, ob_payload = t, ob_created = now\<rparr>" and ?ln = "\<lparr>ol_session = s, ol_observation = i, ol_created = now\<rparr>"
  let ?key = "\<lambda>l. (ol_session l, ol_observation l)"
  from assms(2) have db': "db' = db\<lparr>rd_observations := insert_or_ignore ob_id ?ob (rd_observations db),
      rd_links := insert_or_ignore ?key ?ln (rd_links db)\<rparr>"
    and chat: "list_ex (\<lambda>l. ol_session l = s \<and> ol_observation l = i) (rd_links db) \<or> list_ex (\<lambda>c. ct_session c = s) (rd_chats db)"
    by (auto simp: recordObservation_def Let_def split: if_split_asm)
  have s: "s \<in> set (map ct_session (rd_chats db))" using chat inv by (auto simp: run_inv_def list_ex_iff)
  have links: "ol_session ` set (insert_or_ignore ?key ?ln (rd_links db)) \<subseteq> set (map ct_session (rd_chats db))"
    "ol_observation ` set (insert_or_ignore ?key ?ln (rd_links db)) \<subseteq> ob_id ` set (insert_or_ignore ob_id ?ob (rd_observations db))"
    using inv s unfolding set_insert_or_ignore by (auto simp: run_inv_def insert_or_ignore_def)
  have "distinct (map ob_id (insert_or_ignore ob_id ?ob (rd_observations db)))" "distinct (map ?key (insert_or_ignore ?key ?ln (rd_links db)))"
    using inv by (auto intro!: key_unique_insert_or_ignore simp: run_inv_def)
  then have "run_inv db'" using inv links unfolding run_inv_def db' by simp
  moreover have "run_below db db'" by (simp add: run_below_def db' grows_insert_or_ignore grows_refl)
  ultimately show ?thesis by (simp add: run_ok_def)
qed

lemma patch_run_ok:
  assumes inv: "run_inv db" and "recordPatch db s i b st t now = Inr db'"
  shows "run_ok db db'"
proof (cases "list_ex (\<lambda>p. pt_id p = i) (rd_patches db)")
  case True
  with assms(2) have db': "db' = db\<lparr>rd_patches := update_where (\<lambda>p. pt_id p = i)
      (\<lambda>p. p\<lparr>pt_state := st, pt_payload := t, pt_updated := now\<rparr>) (rd_patches db)\<rparr>"
    by (simp add: recordPatch_def)
  then have "run_inv db'" using inv by (simp add: run_inv_def map_update_where image_iff set_update_where)
  moreover have "run_below db db'" by (auto simp: run_below_def db' grows_refl same_patch_iff intro!: grows_update)
  ultimately show ?thesis by (simp add: run_ok_def)
next
  case False
  with assms(2) have "db' = db\<lparr>rd_patches := rd_patches db @ [\<lparr>pt_id = i, pt_session = s, pt_base = b,
             pt_state = st, pt_payload = t, pt_created = now, pt_updated = now\<rparr>]\<rparr>" "list_ex (\<lambda>c. ct_session c = s) (rd_chats db)"
    by (simp_all add: recordPatch_def split: if_split_asm)
  then show ?thesis using inv False
    by (auto simp: run_ok_def run_inv_def run_below_def grows_append grows_refl list_ex_iff)
qed

lemma run_step_ok:
  assumes "run_inv db" and "run_step db x = Inr db'"
  shows "run_ok db db'"
proof (cases x)
  case (RunClaim s p now)
  with assms show ?thesis by (auto simp: res_simps intro: claim_resume_ok)
next
  case (RunClaimExplicit s p now)
  with assms show ?thesis by (auto simp: res_simps intro: claimExplicit_ok)
qed (use assms in \<open>auto intro: recover_run_ok begin_run_ok complete_run_ok dispatch_run_ok settle_run_ok
    settleAndCheckpoint_run_ok prepare_run_ok checkpoint_run_ok observation_run_ok patch_run_ok\<close>)

interpretation runs: monotone_machine run_step run_inv run_below
  using run_step_ok run_below_refl run_below_trans by unfold_locales (auto simp: run_ok_def)

end
