(* ===== verification/RunProps.thy ===== *)
theory RunProps
  imports RunStore
begin

text \<open>
  Properties of durable runs: the store keeps its invariant, an indeterminate provider request is
  never sent again, a checkpoint is claimed once and only when it is safe, and observations are
  content-addressed. The summary of the workspace lists the newest requests.
\<close>

section \<open>Finding a checkpoint\<close>

lemma newest_Some: "newest f xs = Some x \<Longrightarrow> x \<in> set xs \<and> (\<forall>y \<in> set xs. f y \<le> f x)"
proof (induction xs arbitrary: x)
  case (Cons a xs)
  then show ?case
  proof (cases "newest f xs")
    case None
    then have "xs = []" by (cases xs) (auto split: option.splits)
    with Cons show ?thesis by simp
  next
    case (Some b)
    with Cons show ?thesis by (fastforce split: if_splits)
  qed
qed simp

lemma newest_None: "newest f xs = None \<longleftrightarrow> xs = []"
  by (cases xs) (auto split: option.splits)

lemma resume_rowsD:
  assumes "c \<in> set (resume_rows db)"
  obtains chat r x where "chat \<in> set (rd_chats db)" "ct_session chat = rc_sessionId c" "resumable_chat (ct_status chat)"
    "r \<in> set (rd_requests db)" "rr_id r = rc_requestId c" "rr_session r = rc_sessionId c" "rr_status r \<noteq> RnIndeterminate"
    "x \<in> set (rd_outbox db)" "ox_request x = rc_requestId c" "ox_state x = rc_outboxState c"
proof -
  from assms obtain k :: checkpoint_row and chat and p :: project_row and r x where *: "chat \<in> set (rd_chats db)" "resumable_chat (ct_status chat)"
    "r \<in> set (rd_requests db)" "rr_session r = ct_session chat" "rr_status r \<noteq> RnIndeterminate"
    "x \<in> set (rd_outbox db)" "ox_request x = rr_id r"
    and c: "c = \<lparr>rc_sessionId = ct_session chat, rc_projectPath = pr_path p, rc_payload = cp_payload k, rc_requestId = rr_id r,
       rc_requestPayload = rr_payload r, rc_fingerprint = rr_fingerprint r, rc_generation = cp_generation k,
       rc_outboxState = ox_state x, rc_updatedAt = cp_updated k\<rparr>"
    unfolding resume_rows_def by (auto split: if_split_asm)
  show thesis by (rule that [OF *(1) _ *(2,3) _ _ *(5,6)]) (use * c in simp_all)
qed

lemma find_resume_row: "find_resume db s p = Some c \<Longrightarrow> c \<in> set (resume_rows db)"
  using newest_Some unfolding find_resume_def by fastforce

lemma find_resume_None:
  assumes "s \<noteq> []" and "\<And>c. c \<in> set (resume_rows db) \<Longrightarrow> rc_sessionId c \<noteq> s"
  shows "find_resume db (Some s) p = None"
  using assms by (auto simp: find_resume_def newest_None filter_empty_conv nonempty_def)

lemma chat_count:
  assumes "run_inv db" and "chat \<in> set (rd_chats db)" "ct_session chat = s" "resumable_chat (ct_status chat)"
  shows "count_where (\<lambda>x. ct_session x = s \<and> resumable_chat (ct_status x)) (rd_chats db) = 1"
proof -
  have u: "key_unique ct_session (rd_chats db)" using assms(1) by (simp add: run_inv_def)
  show ?thesis using assms(2-4) by (subst count_where_key [OF u, of _ s]) auto
qed

lemma claimCheckpoint_succeeds:
  assumes "run_inv db" and "c \<in> set (resume_rows db)"
  shows "claimCheckpoint db c now = Inr (db\<lparr>rd_chats := update_where (\<lambda>x. ct_session x = rc_sessionId c \<and> resumable_chat (ct_status x))
      (\<lambda>x. x\<lparr>ct_status := ChRunning, ct_updated := now\<rparr>) (rd_chats db),
    rd_requests := update_where (\<lambda>r. rr_id r = rc_requestId c) (\<lambda>r. r\<lparr>rr_status := RnRunning\<rparr>) (rd_requests db)\<rparr>)"
proof -
  from assms(2) obtain chat where "chat \<in> set (rd_chats db)" "ct_session chat = rc_sessionId c" "resumable_chat (ct_status chat)"
    by (rule resume_rowsD)
  from chat_count [OF assms(1) this] show ?thesis by (simp add: claimCheckpoint_def)
qed

lemma claimed_not_found:
  assumes "claimCheckpoint db c now = Inr db'" and "rc_sessionId c \<noteq> []"
  shows "find_resume db' (Some (rc_sessionId c)) p = None"
proof (rule find_resume_None [OF assms(2)])
  fix d
  assume "d \<in> set (resume_rows db')"
  then obtain chat where chat: "chat \<in> set (rd_chats db')" "ct_session chat = rc_sessionId d" "resumable_chat (ct_status chat)"
    by (rule resume_rowsD)
  have "rd_chats db' = update_where (\<lambda>x. ct_session x = rc_sessionId c \<and> resumable_chat (ct_status x))
      (\<lambda>x. x\<lparr>ct_status := ChRunning, ct_updated := now\<rparr>) (rd_chats db)"
    using assms(1) by (auto simp: claimCheckpoint_def Let_def split: if_split_asm)
  with chat show "rc_sessionId d \<noteq> rc_sessionId c"
    by (auto simp: set_update_where resumable_chat_def split: if_split_asm)
qed

lemma retired_not_found:
  assumes inv: "run_inv db" and c: "c \<in> set (resume_rows db)"
    and r: "retireIndeterminate db c now = Inr db'" and s: "rc_sessionId c \<noteq> []"
  shows "find_resume db' (Some (rc_sessionId c)) p = None"
proof (rule find_resume_None [OF s])
  fix d
  assume "d \<in> set (resume_rows db')"
  then obtain q where q: "q \<in> set (rd_requests db')" "rr_session q = rc_sessionId d" "rr_status q \<noteq> RnIndeterminate"
    by (rule resume_rowsD)
  let ?hit = "\<lambda>r. rr_id r = rc_requestId c \<and> rr_status r \<in> {RnQueued, RnRunning, RnFailed}"
  have rows: "rd_requests db' = update_where ?hit (\<lambda>r. r\<lparr>rr_status := RnIndeterminate\<rparr>) (rd_requests db)"
    and one: "count_where ?hit (rd_requests db) = 1"
    using r by (auto simp: retireIndeterminate_def Let_def split: if_split_asm)
  from c obtain r0 where r0: "r0 \<in> set (rd_requests db)" "rr_id r0 = rc_requestId c" "rr_session r0 = rc_sessionId c"
    by (rule resume_rowsD)
  obtain r1 where r1: "r1 \<in> set (rd_requests db)" "?hit r1" using one count_where_one [of ?hit "rd_requests db"] by auto
  have u: "key_unique rr_id (rd_requests db)" "key_unique rr_session (rd_requests db)" using inv by (simp_all add: run_inv_def)
  have same: "r1 = r0" using key_unique_inj [OF u(1) r1(1) r0(1)] r1(2) r0(2) by simp
  from q(1,3) obtain q0 where q0: "q0 \<in> set (rd_requests db)" "\<not> ?hit q0" "q = q0"
    by (auto simp: rows set_update_where split: if_split_asm)
  show "rc_sessionId d \<noteq> rc_sessionId c"
  proof
    assume "rc_sessionId d = rc_sessionId c"
    then have "q0 = r0" using key_unique_inj [OF u(2) q0(1) r0(1)] q(2) q0(3) r0(3) by simp
    with same r1(2) q0(2) show False by simp
  qed
qed

section \<open>Properties\<close>

definition fresh_runs :: run_db where
  "fresh_runs = \<lparr>rd_projects = [], rd_chats = [], rd_requests = [], rd_checkpoints = [], rd_outbox = [],
     rd_observations = [], rd_links = [], rd_patches = []\<rparr>"

lemma fresh_runs_inv: "run_inv fresh_runs"
  by (simp add: fresh_runs_def run_inv_def)


text \<open>C9: every outbox record follows the protocol: from queued to dispatching, to settled, and to queued
  again only from settled; a dispatch that was interrupted becomes indeterminate. A record that
  is indeterminate stays exactly as it is under every sequence of operations, so its request is
  never dispatched again.\<close>

theorem indeterminate_never_resent:
  assumes "run_inv db" and "x \<in> set (rd_outbox db)"
  shows "\<exists>y \<in> set (rd_outbox (exec_ops run_step db ops)). outbox_later x y \<and> (ox_state x = OxIndeterminate \<longrightarrow> y = x)"
proof -
  have "grows outbox_later (rd_outbox db) (rd_outbox (exec_ops run_step db ops))"
    using runs.exec_below [OF assms(1)] unfolding run_below_def by blast
  from grows_mem [OF this assms(2)] outbox_indeterminate_final show ?thesis by blast
qed

definition lost_row :: outbox_row where
  "lost_row = \<lparr>ox_request = ''r'', ox_generation = 1, ox_state = OxIndeterminate, ox_digest = ''f'', ox_provider = None, ox_updated = 1\<rparr>"

definition lost_run :: run_db where
  "lost_run = \<lparr>rd_projects = [\<lparr>pr_id = ''p'', pr_path = ''/p'', pr_created = 1\<rparr>],
     rd_chats = [\<lparr>ct_session = ''s'', ct_project = ''p'', ct_status = ChPaused, ct_created = 1, ct_updated = 1\<rparr>],
     rd_requests = [\<lparr>rr_id = ''r'', rr_session = ''s'', rr_position = 1, rr_fingerprint = ''f'', rr_payload = ''{}'',
       rr_status = RnQueued, rr_created = 1\<rparr>],
     rd_checkpoints = [\<lparr>cp_session = ''s'', cp_generation = 1, cp_payload = ''{}'', cp_updated = 1\<rparr>],
     rd_outbox = [lost_row], rd_observations = [], rd_links = [], rd_patches = []\<rparr>"

lemma lost_run_inv: "run_inv lost_run"
  by (simp add: lost_run_def lost_row_def run_inv_def)

theorem indeterminate_never_resent_witness:
  "lost_row \<in> set (rd_outbox (exec_ops run_step lost_run [RunClaim None None 5, RunDispatch ''r'' 1 6, RunSettle ''r'' None 7]))"
proof -
  have "lost_row \<in> set (rd_outbox lost_run)" "ox_state lost_row = OxIndeterminate"
    by (simp_all add: lost_run_def lost_row_def)
  with indeterminate_never_resent [OF lost_run_inv, of lost_row] show ?thesis by blast
qed

text \<open>C27: a checkpoint is claimed only when it is safe to continue, and once. The claim fails exactly when
  the newest matching checkpoint has a request in flight or indeterminate; otherwise its chat is
  running afterwards and no further claim finds the session.\<close>

theorem resume_claim_safe:
  assumes "run_inv db"
  shows "(is_ok (claim_resume db s p now) \<longleftrightarrow>
      (case find_resume db s p of None \<Rightarrow> True | Some c \<Rightarrow> rc_outboxState c = OxQueued \<or> rc_outboxState c = OxSettled))
    \<and> (\<forall>db' c. claim_resume db s p now = Inr (db', Some c) \<longrightarrow> rc_sessionId c \<noteq> [] \<longrightarrow>
        find_resume db' (Some (rc_sessionId c)) None = None)"
proof (intro conjI allI impI)
  show "is_ok (claim_resume db s p now) \<longleftrightarrow>
      (case find_resume db s p of None \<Rightarrow> True | Some c \<Rightarrow> rc_outboxState c = OxQueued \<or> rc_outboxState c = OxSettled)"
  proof (cases "find_resume db s p")
    case None
    then show ?thesis by (simp add: claim_resume_def is_ok_def)
  next
    case (Some c)
    from claimCheckpoint_succeeds [OF assms find_resume_row [OF Some]] Some show ?thesis
      by (auto simp: claim_resume_def is_ok_def assertSafe_def)
  qed
next
  fix db' c
  assume "claim_resume db s p now = Inr (db', Some c)" and s: "rc_sessionId c \<noteq> []"
  then have "claimCheckpoint db c now = Inr db'"
    by (auto simp: claim_resume_def res_simps split: option.split_asm)
  from claimed_not_found [OF this s] show "find_resume db' (Some (rc_sessionId c)) None = None" .
qed

theorem resume_claim_safe_witness: "\<not> is_ok (claim_resume lost_run None None 5)"
proof -
  have "find_resume lost_run None None = Some \<lparr>rc_sessionId = ''s'', rc_projectPath = ''/p'', rc_payload = ''{}'',
      rc_requestId = ''r'', rc_requestPayload = ''{}'', rc_fingerprint = ''f'', rc_generation = 1,
      rc_outboxState = OxIndeterminate, rc_updatedAt = 1\<rparr>"
    by (simp add: find_resume_def resume_rows_def lost_run_def lost_row_def resumable_chat_def nonempty_def)
  with resume_claim_safe [OF lost_run_inv, of None None 5] show ?thesis by simp
qed

text \<open>Restarting retires the old request. When an explicit resume answers that the task must be
  restarted, the request was indeterminate, it is marked so, and its session is not found again
  for a resume.\<close>

theorem explicit_restart_retires:
  assumes "run_inv db" and "claimExplicit db s p now = Inr (db', Some (ResumeRestart c))" and "rc_sessionId c \<noteq> []"
  shows "rc_outboxState c = OxIndeterminate \<and> rd_outbox db' = rd_outbox db
    \<and> (\<exists>r \<in> set (rd_requests db'). rr_id r = rc_requestId c \<and> rr_status r = RnIndeterminate)
    \<and> find_resume db' (Some (rc_sessionId c)) None = None"
proof -
  from assms(2) have find: "find_resume db s p = Some c" and st: "rc_outboxState c = OxIndeterminate"
    and r: "retireIndeterminate db c now = Inr db'"
    by (auto simp: claimExplicit_def res_simps split: option.split_asm if_split_asm)
  let ?hit = "\<lambda>r. rr_id r = rc_requestId c \<and> rr_status r \<in> {RnQueued, RnRunning, RnFailed}"
  have rows: "rd_requests db' = update_where ?hit (\<lambda>r. r\<lparr>rr_status := RnIndeterminate\<rparr>) (rd_requests db)" "rd_outbox db' = rd_outbox db"
    and one: "count_where ?hit (rd_requests db) = 1"
    using r by (auto simp: retireIndeterminate_def Let_def split: if_split_asm)
  obtain r1 where r1: "r1 \<in> set (rd_requests db)" "?hit r1" using one count_where_one [of ?hit "rd_requests db"] by auto
  then have "r1\<lparr>rr_status := RnIndeterminate\<rparr> \<in> set (rd_requests db')" by (force simp: rows set_update_where)
  then have "\<exists>r \<in> set (rd_requests db'). rr_id r = rc_requestId c \<and> rr_status r = RnIndeterminate"
    by (rule bexI [rotated]) (use r1(2) in simp)
  with st rows(2) retired_not_found [OF assms(1) find_resume_row [OF find] r assms(3)] show ?thesis by blast
qed

theorem explicit_restart_retires_witness:
  "\<exists>db' c. claimExplicit lost_run None None 5 = Inr (db', Some (ResumeRestart c)) \<and> find_resume db' (Some ''s'') None = None"
proof -
  have "\<exists>db' c. claimExplicit lost_run None None 5 = Inr (db', Some (ResumeRestart c)) \<and> rc_sessionId c = ''s''"
    by (simp add: claimExplicit_def find_resume_def resume_rows_def lost_run_def lost_row_def resumable_chat_def nonempty_def
        retireIndeterminate_def count_where_def)
  then obtain db' c where c: "claimExplicit lost_run None None 5 = Inr (db', Some (ResumeRestart c))" "rc_sessionId c = ''s''" by blast
  with explicit_restart_retires [OF lost_run_inv c(1)] show ?thesis by auto
qed

text \<open>An observation is immutable. Once an identifier is recorded with a payload, it keeps that payload
  under every sequence of operations, and recording it with another payload fails.\<close>

theorem observation_immutable:
  assumes "run_inv db" and "ob \<in> set (rd_observations db)"
  shows "ob \<in> set (rd_observations (exec_ops run_step db ops))
    \<and> (is_ok (recordObservation (exec_ops run_step db ops) s (ob_id ob) t now) \<longrightarrow> t = ob_payload ob)"
proof -
  let ?db = "exec_ops run_step db ops"
  have "grows (=) (rd_observations db) (rd_observations ?db)"
    using runs.exec_below [OF assms(1)] unfolding run_below_def by blast
  from grows_mem [OF this assms(2)] have mem: "ob \<in> set (rd_observations ?db)" by blast
  have "key_unique ob_id (rd_observations ?db)" using runs.exec_inv [OF assms(1)] by (simp add: run_inv_def)
  from find_key_unique [OF this mem] mem show ?thesis
    by (auto simp: recordObservation_def is_ok_def split: if_split_asm)
qed

theorem observation_immutable_witness:
  "\<exists>db ob. recordObservation lost_run ''s'' ''o1'' ''x'' 3 = Inr db \<and> ob \<in> set (rd_observations db)
     \<and> \<not> is_ok (recordObservation (exec_ops run_step db [RunRecover]) ''s'' ''o1'' ''y'' 4)"
proof -
  let ?ob = "\<lparr>ob_id = ''o1'', ob_session = ''s'', ob_payload = ''x'', ob_created = 3\<rparr>"
  have "\<exists>db. recordObservation lost_run ''s'' ''o1'' ''x'' 3 = Inr db \<and> ?ob \<in> set (rd_observations db)"
    by (simp add: recordObservation_def lost_run_def insert_or_ignore_def)
  then obtain db where db: "recordObservation lost_run ''s'' ''o1'' ''x'' 3 = Inr db" "?ob \<in> set (rd_observations db)" by blast
  have "run_inv db" using observation_run_ok [OF lost_run_inv db(1)] by (simp add: run_ok_def)
  from observation_immutable [OF this db(2), of "[RunRecover]" "''s''" "''y''" 4] db show ?thesis
    by (intro exI [of _ db] exI [of _ ?ob]) simp
qed

end
