(* ===== verification/OpConversation.thy ===== *)
theory OpConversation
  imports OpInv
begin

text \<open>
  The part of \<open>tui-operation-store.ts\<close> beside the request queue: the head of a project's conversation with
  its generation (compare and swap, publication of a session, quarantine), the accounts excluded
  and chosen per conversation, project preferences and the request history. The operations act on
  the same database and each is one transaction.
\<close>

section \<open>Operations\<close>

record conversation_head =
  ch_generation :: int
  ch_session :: "string option"

definition head_of :: "op_db \<Rightarrow> string \<Rightarrow> head_row option" where
  "head_of db path = List.find (\<lambda>h. hd_path h = path) (db_heads db)"

definition readConversationHead :: "op_db \<Rightarrow> string \<Rightarrow> conversation_head" where
  "readConversationHead db path = (case head_of db path of
     Some h \<Rightarrow> \<lparr>ch_generation = hd_generation h, ch_session = hd_session h\<rparr>
   | None \<Rightarrow> \<lparr>ch_generation = 0, ch_session = None\<rparr>)"

definition findAgentSession :: "op_db \<Rightarrow> string \<Rightarrow> string option" where
  "findAgentSession db path = ch_session (readConversationHead db path)"

definition draft_scope :: "int \<Rightarrow> string" where
  "draft_scope generation = ''draft:'' @ int_str generation"

definition session_scope :: "string \<Rightarrow> string" where
  "session_scope sessionId = ''session:'' @ sessionId"

definition accountScopeKey :: "op_db \<Rightarrow> string \<Rightarrow> string" where
  "accountScopeKey db path =
     (let h = readConversationHead db path in
      case nonempty (ch_session h) of Some s \<Rightarrow> session_scope s | None \<Rightarrow> draft_scope (ch_generation h))"

definition findProjectPreference :: "op_db \<Rightarrow> string \<Rightarrow> string \<Rightarrow> string option res" where
  "findProjectPreference db path key =
     (if trim key = [] then Inl (Error ''TUI project preference key is required'')
      else Inr (map_option pf_value (List.find (\<lambda>r. pf_path r = path \<and> pf_key r = key) (db_preferences db))))"

definition setProjectPreference :: "op_db \<Rightarrow> string \<Rightarrow> string \<Rightarrow> string option \<Rightarrow> int \<Rightarrow> op_db res" where
  "setProjectPreference db path key v now =
     (if trim key = [] then Inl (Error ''TUI project preference key is required'')
      else case v of
        None \<Rightarrow> Inr (db\<lparr>db_preferences := filter (\<lambda>r. \<not> (pf_path r = path \<and> pf_key r = key)) (db_preferences db)\<rparr>)
      | Some x \<Rightarrow> Inr (db\<lparr>db_preferences := upsert (\<lambda>r. (pf_path r, pf_key r))
          \<lparr>pf_path = path, pf_key = key, pf_value = x, pf_updated = now\<rparr> (db_preferences db)\<rparr>))"

abbreviation exclusion_key :: "exclusion_row \<Rightarrow> string \<times> string \<times> string" where
  "exclusion_key r \<equiv> (ex_path r, ex_scope r, ex_account r)"

abbreviation provider_key :: "provider_row \<Rightarrow> string \<times> string \<times> string" where
  "provider_key r \<equiv> (pa_path r, pa_scope r, pa_provider r)"

definition listAccountExclusions :: "op_db \<Rightarrow> string \<Rightarrow> string list" where
  "listAccountExclusions db path =
     sort (map ex_account (filter (\<lambda>r. ex_path r = path \<and> ex_scope r = accountScopeKey db path) (db_exclusions db)))"

text \<open>One account of the loop in \<open>setAccountsEnabled\<close>.\<close>

fun set_accounts :: "string \<Rightarrow> string \<Rightarrow> bool \<Rightarrow> int \<Rightarrow> string list \<Rightarrow> exclusion_row list \<Rightarrow> exclusion_row list res" where
  "set_accounts path scope enabled now [] rows = Inr rows"
| "set_accounts path scope enabled now (a # as) rows =
     (if trim a = [] then Inl (Error ''TUI account ID is required'')
      else set_accounts path scope enabled now as
        (if enabled then filter (\<lambda>r. exclusion_key r \<noteq> (path, scope, a)) rows
         else upsert exclusion_key \<lparr>ex_path = path, ex_scope = scope, ex_account = a, ex_updated = now\<rparr> rows))"

definition setAccountsEnabled :: "op_db \<Rightarrow> string \<Rightarrow> string list \<Rightarrow> bool \<Rightarrow> int \<Rightarrow> op_db res" where
  "setAccountsEnabled db path accountIds enabled now =
     bindR (set_accounts path (accountScopeKey db path) enabled now (rev (remdups (rev accountIds))) (db_exclusions db))
       (\<lambda>rows. Inr (db\<lparr>db_exclusions := rows\<rparr>))"

definition findProviderAccount :: "op_db \<Rightarrow> string \<Rightarrow> string \<Rightarrow> string option" where
  "findProviderAccount db path providerId =
     map_option pa_account (List.find (\<lambda>r. provider_key r = (path, accountScopeKey db path, providerId)) (db_providers db))"

definition setProviderAccount :: "op_db \<Rightarrow> string \<Rightarrow> string \<Rightarrow> string \<Rightarrow> int \<Rightarrow> op_db res" where
  "setProviderAccount db path providerId accountId now =
     (if trim providerId = [] \<or> trim accountId = [] then Inl (Error ''Provider and account IDs are required'')
      else Inr (db\<lparr>db_providers := upsert provider_key \<lparr>pa_path = path, pa_scope = accountScopeKey db path,
        pa_provider = providerId, pa_account = accountId, pa_updated = now\<rparr> (db_providers db)\<rparr>))"

definition compareAndSwapConversationHead :: "op_db \<Rightarrow> string \<Rightarrow> int \<Rightarrow> string option \<Rightarrow> int \<Rightarrow> (op_db \<times> conversation_head) res" where
  "compareAndSwapConversationHead db path expected session now =
     (if \<not> safe_int expected \<or> expected < 0 then Inl (Error ''TUI conversation generation is invalid'')
      else
        let current = head_of db path;
            generation = (case current of None \<Rightarrow> 0 | Some h \<Rightarrow> hd_generation h) in
        if generation \<noteq> expected then Inl (Error ''TUI conversation generation is stale'')
        else
          let next = generation + 1;
              hit = (\<lambda>h. hd_path h = path \<and> hd_generation h = generation) in
          if current \<noteq> None \<and> count_where hit (db_heads db) \<noteq> 1
            then Inl (Error ''TUI conversation generation changed'')
          else Inr (db\<lparr>db_heads := (if current \<noteq> None
              then update_where hit (\<lambda>h. h\<lparr>hd_generation := next, hd_session := session, hd_updated := now\<rparr>) (db_heads db)
              else db_heads db @ [\<lparr>hd_path = path, hd_generation = next, hd_session = session, hd_updated = now\<rparr>])\<rparr>,
            \<lparr>ch_generation = next, ch_session = session\<rparr>))"

text \<open>\<open>INSERT OR REPLACE ... SELECT\<close> into another scope, then \<open>DELETE\<close> of the old one.\<close>

definition move_scope :: "('r \<Rightarrow> 'k) \<Rightarrow> ('r \<Rightarrow> bool) \<Rightarrow> ('r \<Rightarrow> 'r) \<Rightarrow> 'r list \<Rightarrow> 'r list" where
  "move_scope key old rescope rows =
     filter (\<lambda>r. \<not> old r) (fold (upsert key) (map rescope (filter old rows)) rows)"

record publish_input =
  pi_path :: string
  pi_expected :: int
  pi_session :: string
  pi_lease :: lease
  pi_now :: time_arg

definition publishConversationSession :: "op_db \<Rightarrow> string \<Rightarrow> publish_input \<Rightarrow> int \<Rightarrow> (op_db \<times> conversation_head) res" where
  "publishConversationSession db requestId i clock =
     bindR (isoTimestamp clock (pi_now i)) (\<lambda>now.
     bindR (runningTuiRequestRow db requestId) (\<lambda>row.
     bindR (assertActiveTuiRequestLease row (pi_lease i) now) (\<lambda>_.
     let current = head_of db (pi_path i);
         generation = (case current of None \<Rightarrow> 0 | Some h \<Rightarrow> hd_generation h) in
     if generation \<noteq> pi_expected i then Inl (Error ''TUI conversation generation is stale'')
     else
       let draft = draft_scope generation; session = session_scope (pi_session i) in
       Inr (db\<lparr>db_exclusions := move_scope exclusion_key (\<lambda>r. ex_path r = pi_path i \<and> ex_scope r = draft)
                (\<lambda>r. r\<lparr>ex_scope := session\<rparr>) (db_exclusions db),
              db_providers := move_scope provider_key (\<lambda>r. pa_path r = pi_path i \<and> pa_scope r = draft)
                (\<lambda>r. r\<lparr>pa_scope := session\<rparr>) (db_providers db),
              db_heads := (if current \<noteq> None
                then update_where (\<lambda>h. hd_path h = pi_path i \<and> hd_generation h = generation)
                  (\<lambda>h. h\<lparr>hd_session := Some (pi_session i), hd_updated := now\<rparr>) (db_heads db)
                else db_heads db @ [\<lparr>hd_path = pi_path i, hd_generation = generation,
                  hd_session = Some (pi_session i), hd_updated = now\<rparr>])\<rparr>,
            \<lparr>ch_generation = generation, ch_session = Some (pi_session i)\<rparr>))))"

text \<open>The primary key of the quarantine table is the project, the generation and the session.\<close>

definition quarantineConversationHead :: "op_db \<Rightarrow> string \<Rightarrow> int \<Rightarrow> string \<Rightarrow> string \<Rightarrow> int \<Rightarrow> (op_db \<times> conversation_head) res" where
  "quarantineConversationHead db path expected sessionId reason now =
     (case head_of db path of
        None \<Rightarrow> Inl (Error ''TUI conversation generation is stale'')
      | Some h \<Rightarrow>
          if hd_generation h \<noteq> expected \<or> hd_session h \<noteq> Some sessionId
            then Inl (Error ''TUI conversation generation is stale'')
          else if list_ex (\<lambda>q. qr_path q = path \<and> qr_generation q = hd_generation h \<and> qr_session q = sessionId) (db_quarantine db)
            then Inl (SqlConstraint ''UNIQUE constraint failed: tui_session_quarantine'')
          else
            let next = hd_generation h + 1;
                hit = (\<lambda>x. hd_path x = path \<and> hd_generation x = hd_generation h \<and> hd_session x = Some sessionId) in
            if count_where hit (db_heads db) \<noteq> 1 then Inl (Error ''TUI conversation generation changed'')
            else Inr (db\<lparr>db_quarantine := db_quarantine db @ [\<lparr>qr_path = path, qr_generation = hd_generation h,
                          qr_session = sessionId, qr_reason = reason, qr_at = now\<rparr>],
                        db_heads := update_where hit (\<lambda>x. x\<lparr>hd_generation := next, hd_session := None, hd_updated := now\<rparr>) (db_heads db)\<rparr>,
                      \<lparr>ch_generation = next, ch_session = None\<rparr>))"

definition listQuarantinedSessions :: "op_db \<Rightarrow> string \<Rightarrow> quarantine_row list" where
  "listQuarantinedSessions db path =
     sort_key (\<lambda>q. - qr_at q) (filter (\<lambda>q. qr_path q = path) (db_quarantine db))"

definition setAgentSession :: "op_db \<Rightarrow> string \<Rightarrow> string \<Rightarrow> int \<Rightarrow> op_db res" where
  "setAgentSession db path sessionId now =
     bindR (compareAndSwapConversationHead db path (ch_generation (readConversationHead db path)) (Some sessionId) now)
       (\<lambda>out. Inr (fst out))"

definition clearAgentSession :: "op_db \<Rightarrow> string \<Rightarrow> int \<Rightarrow> op_db res" where
  "clearAgentSession db path now =
     bindR (compareAndSwapConversationHead db path (ch_generation (readConversationHead db path)) None now)
       (\<lambda>out. Inr (fst out))"

record history_item =
  hi_id :: string
  hi_status :: request_status
  hi_position :: int
  hi_created :: int
  hi_outcome :: "string option"

text \<open>The eight newest requests; requests of the same instant keep the order of insertion.\<close>

definition listHistory :: "op_db \<Rightarrow> string \<Rightarrow> history_item list" where
  "listHistory db path =
     map (\<lambda>r. \<lparr>hi_id = rq_id r, hi_status = rq_status r, hi_position = rq_position r,
            hi_created = rq_created r, hi_outcome = rq_outcome r\<rparr>)
       (take 8 (sort_key (\<lambda>r. - rq_created r) (filter (\<lambda>r. rq_path r = path) (db_requests db))))"

section \<open>Invariant and order\<close>

datatype conv_request =
    CvSwap string int "string option" int
  | CvPublish string publish_input int
  | CvQuarantine string int string string int
  | CvSetSession string string int
  | CvClearSession string int
  | CvAccounts string "string list" bool int
  | CvProvider string string string int
  | CvPreference string string "string option" int

fun conv_step :: "op_db \<Rightarrow> conv_request \<Rightarrow> op_db res" where
  "conv_step db (CvSwap path g s now) = bindR (compareAndSwapConversationHead db path g s now) (\<lambda>out. Inr (fst out))"
| "conv_step db (CvPublish i p clock) = bindR (publishConversationSession db i p clock) (\<lambda>out. Inr (fst out))"
| "conv_step db (CvQuarantine path g s why now) = bindR (quarantineConversationHead db path g s why now) (\<lambda>out. Inr (fst out))"
| "conv_step db (CvSetSession path s now) = setAgentSession db path s now"
| "conv_step db (CvClearSession path now) = clearAgentSession db path now"
| "conv_step db (CvAccounts path as on now) = setAccountsEnabled db path as on now"
| "conv_step db (CvProvider path p a now) = setProviderAccount db path p a now"
| "conv_step db (CvPreference path k v now) = setProjectPreference db path k v now"

text \<open>
  One head per project, with a generation that is not negative; at most one row per key of each
  table; a quarantined session belongs to a generation that is over.
\<close>

definition generation_of :: "op_db \<Rightarrow> string \<Rightarrow> int" where
  "generation_of db path = ch_generation (readConversationHead db path)"

definition conv_inv :: "op_db \<Rightarrow> bool" where
  "conv_inv db = (key_unique hd_path (db_heads db) \<and> (\<forall>h \<in> set (db_heads db). 0 \<le> hd_generation h)
     \<and> key_unique exclusion_key (db_exclusions db) \<and> key_unique provider_key (db_providers db)
     \<and> key_unique (\<lambda>r. (pf_path r, pf_key r)) (db_preferences db)
     \<and> key_unique (\<lambda>q. (qr_path q, qr_generation q, qr_session q)) (db_quarantine db)
     \<and> (\<forall>q \<in> set (db_quarantine db). qr_generation q < generation_of db (qr_path q)))"

definition conv_below :: "op_db \<Rightarrow> op_db \<Rightarrow> bool" where
  "conv_below s t = ((\<forall>path. generation_of s path \<le> generation_of t path)
     \<and> take (length (db_quarantine s)) (db_quarantine t) = db_quarantine s
     \<and> db_requests t = db_requests s \<and> db_events t = db_events s)"

lemma conv_below_refl: "conv_below s s"
  by (simp add: conv_below_def)

lemma conv_below_trans:
  assumes "conv_below s t" and "conv_below t u"
  shows "conv_below s u"
proof -
  have "take (length (db_quarantine s)) (db_quarantine u) = db_quarantine s"
    by (rule take_take_trans [of _ "db_quarantine t"]) (use assms in \<open>simp_all add: conv_below_def\<close>)
  then show ?thesis using assms by (auto simp: conv_below_def intro: order_trans)
qed

text \<open>How a head is replaced: at most one row per project, its generation not lowered.\<close>

lemma find_update_other:
  "(\<And>h. hit h \<Longrightarrow> hd_path h = path \<and> hd_path (f h) = path) \<Longrightarrow> p \<noteq> path \<Longrightarrow>
     List.find (\<lambda>h. hd_path h = p) (update_where hit f hs) = List.find (\<lambda>h. hd_path h = p) hs"
  by (induction hs) auto

lemma find_update_same:
  assumes "key_unique hd_path hs" and "h \<in> set hs" and "hit h" and "hd_path h = path" and "hd_path (f h) = path"
    and "\<And>x. hit x \<Longrightarrow> hd_path x = path"
  shows "List.find (\<lambda>h. hd_path h = path) (update_where hit f hs) = Some (f h)"
  using assms(1,2)
proof (induction hs)
  case (Cons x hs)
  show ?case
  proof (cases "x = h")
    case True
    then show ?thesis using assms(3-5) by simp
  next
    case False
    with Cons.prems have "hd_path x \<noteq> path" "h \<in> set hs" using assms(4) by (auto simp: image_iff)
    then show ?thesis using Cons assms(6) by auto
  qed
qed simp

lemma find_append_path:
  "List.find (\<lambda>h. hd_path h = p) (hs @ [x]) =
     (case List.find (\<lambda>h. hd_path h = p) hs of Some h \<Rightarrow> Some h | None \<Rightarrow> if hd_path x = p then Some x else None)"
  by (induction hs) auto

text \<open>The head a swap, a publication or a quarantine leaves, and all others as before.\<close>

definition put_head :: "string \<Rightarrow> int \<Rightarrow> string option \<Rightarrow> op_db \<Rightarrow> op_db \<Rightarrow> bool" where
  "put_head path g s db db' = (readConversationHead db' path = \<lparr>ch_generation = g, ch_session = s\<rparr>
     \<and> (\<forall>p. p \<noteq> path \<longrightarrow> readConversationHead db' p = readConversationHead db p)
     \<and> key_unique hd_path (db_heads db') \<and> (\<forall>h \<in> set (db_heads db'). 0 \<le> hd_generation h))"

lemma put_head_update:
  assumes u: "key_unique hd_path (db_heads db)" and pos: "\<forall>h \<in> set (db_heads db). 0 \<le> hd_generation h" and g: "0 \<le> g"
    and h: "head_of db path = Some h" "hit h" and hit: "\<And>x. hit x \<Longrightarrow> hd_path x = path"
    and db': "db_heads db' = update_where hit (\<lambda>h. h\<lparr>hd_generation := g, hd_session := s, hd_updated := now\<rparr>) (db_heads db)"
  shows "put_head path g s db db'"
proof -
  let ?f = "\<lambda>h. h\<lparr>hd_generation := g, hd_session := s, hd_updated := now\<rparr>"
  have mem: "h \<in> set (db_heads db)" "hd_path h = path" using find_SomeD h(1) unfolding head_of_def by fast+
  have "head_of db' path = Some (?f h)"
    unfolding head_of_def db' using mem h(2) hit by (intro find_update_same [OF u]) auto
  moreover have "head_of db' p = head_of db p" if "p \<noteq> path" for p
    unfolding head_of_def db' by (rule find_update_other [OF _ that]) (use hit in auto)
  moreover have "map hd_path (db_heads db') = map hd_path (db_heads db)"
    unfolding db' by (rule map_update_where) simp
  moreover have "\<forall>h \<in> set (db_heads db'). 0 \<le> hd_generation h"
    using pos g by (auto simp: db' set_update_where)
  ultimately show ?thesis using u by (simp add: put_head_def readConversationHead_def)
qed

lemma put_head_new:
  assumes u: "key_unique hd_path (db_heads db)" and pos: "\<forall>h \<in> set (db_heads db). 0 \<le> hd_generation h" and g: "0 \<le> g"
    and none: "head_of db path = None"
    and db': "db_heads db' = db_heads db @ [\<lparr>hd_path = path, hd_generation = g, hd_session = s, hd_updated = now\<rparr>]"
  shows "put_head path g s db db'"
proof -
  have "head_of db' p = (if p = path then Some \<lparr>hd_path = path, hd_generation = g, hd_session = s, hd_updated = now\<rparr> else head_of db p)" for p
    using none by (auto simp: head_of_def db' find_append_path split: option.splits)
  moreover have "path \<notin> hd_path ` set (db_heads db)" using none by (auto simp: head_of_def find_NoneD)
  ultimately show ?thesis using u pos g by (auto simp: put_head_def readConversationHead_def db')
qed

lemma conv_invD:
  assumes "conv_inv db"
  shows "key_unique hd_path (db_heads db)" "\<forall>h \<in> set (db_heads db). 0 \<le> hd_generation h"
  using assms by (simp_all add: conv_inv_def)

lemma head_row_generation: "conv_inv db \<Longrightarrow> head_of db path = Some h \<Longrightarrow> 0 \<le> hd_generation h \<and> hd_path h = path \<and> h \<in> set (db_heads db)"
  using find_SomeD unfolding head_of_def conv_inv_def by fast

lemma generation_head: "generation_of db path = (case head_of db path of None \<Rightarrow> 0 | Some h \<Rightarrow> hd_generation h)"
  by (simp add: generation_of_def readConversationHead_def split: option.split)

lemma head_count:
  assumes "conv_inv db" and "head_of db path = Some h" and "\<And>x. hit x \<Longrightarrow> hd_path x = path" and "hit h"
  shows "count_where hit (db_heads db) = 1"
  using conv_invD(1) [OF assms(1)] head_row_generation [OF assms(1,2)] assms(3,4)
  by (subst count_where_key [of hd_path _ _ path]) auto

text \<open>The swap succeeds exactly on the current generation.\<close>

lemma swap_Inr:
  assumes inv: "conv_inv db"
  shows "compareAndSwapConversationHead db path expected session now = Inr (db', h) \<Longrightarrow>
      expected = generation_of db path \<and> put_head path (expected + 1) session db db'
      \<and> h = \<lparr>ch_generation = expected + 1, ch_session = session\<rparr>
      \<and> db' = db\<lparr>db_heads := db_heads db'\<rparr>" (is "?call = _ \<Longrightarrow> _")
    and "is_ok (compareAndSwapConversationHead db path expected session now) \<longleftrightarrow>
      safe_int expected \<and> expected = generation_of db path"
proof -
  have nonneg: "0 \<le> generation_of db path"
    using head_row_generation [OF inv] by (auto simp: generation_head split: option.split)
  let ?hit = "\<lambda>h. hd_path h = path \<and> hd_generation h = generation_of db path"
  have one: "count_where ?hit (db_heads db) = 1" if "head_of db path \<noteq> None"
  proof -
    from that obtain h where h: "head_of db path = Some h" by blast
    show ?thesis by (rule head_count [OF inv h]) (use head_row_generation [OF inv h] h in \<open>simp_all add: generation_head\<close>)
  qed
  have call: "?call = (if \<not> safe_int expected \<or> expected < 0 then Inl (Error ''TUI conversation generation is invalid'')
      else if generation_of db path \<noteq> expected then Inl (Error ''TUI conversation generation is stale'')
      else Inr (db\<lparr>db_heads := (if head_of db path \<noteq> None
              then update_where ?hit (\<lambda>h. h\<lparr>hd_generation := expected + 1, hd_session := session, hd_updated := now\<rparr>) (db_heads db)
              else db_heads db @ [\<lparr>hd_path = path, hd_generation = expected + 1, hd_session = session, hd_updated = now\<rparr>])\<rparr>,
            \<lparr>ch_generation = expected + 1, ch_session = session\<rparr>))"
    using one unfolding compareAndSwapConversationHead_def Let_def generation_head [symmetric] by auto
  show "is_ok ?call \<longleftrightarrow> safe_int expected \<and> expected = generation_of db path"
    using nonneg by (auto simp: call is_ok_def)
  assume ok: "?call = Inr (db', h)"
  then have e: "expected = generation_of db path" and h: "h = \<lparr>ch_generation = expected + 1, ch_session = session\<rparr>"
    and db': "db' = db\<lparr>db_heads := (if head_of db path \<noteq> None
              then update_where ?hit (\<lambda>h. h\<lparr>hd_generation := expected + 1, hd_session := session, hd_updated := now\<rparr>) (db_heads db)
              else db_heads db @ [\<lparr>hd_path = path, hd_generation = expected + 1, hd_session = session, hd_updated = now\<rparr>])\<rparr>"
    by (auto simp: call split: if_split_asm)
  have "put_head path (expected + 1) session db db'"
  proof (cases "head_of db path")
    case None
    then show ?thesis using nonneg e
      by (intro put_head_new [OF conv_invD [OF inv]]) (auto simp: db')
  next
    case (Some x)
    then show ?thesis using nonneg e head_row_generation [OF inv Some]
      by (intro put_head_update [OF conv_invD [OF inv] _ Some, where hit = ?hit]) (auto simp: db' generation_head)
  qed
  with e h db' show "expected = generation_of db path \<and> put_head path (expected + 1) session db db'
      \<and> h = \<lparr>ch_generation = expected + 1, ch_session = session\<rparr> \<and> db' = db\<lparr>db_heads := db_heads db'\<rparr>" by simp
qed

lemma put_head_generation: "put_head path g s db db' \<Longrightarrow> generation_of db' p = (if p = path then g else generation_of db p)"
  by (auto simp: put_head_def generation_of_def)

definition conv_ok :: "op_db \<Rightarrow> op_db \<Rightarrow> bool" where
  "conv_ok db db' = (conv_inv db' \<and> conv_below db db')"

lemma put_head_ok:
  assumes inv: "conv_inv db" and put: "put_head path g s db db'" and g: "generation_of db path \<le> g"
    and q: "db_quarantine db' = db_quarantine db @ new"
    and new: "\<forall>q \<in> set new. qr_path q = path \<and> qr_generation q < g"
    and keys: "key_unique (\<lambda>q. (qr_path q, qr_generation q, qr_session q)) (db_quarantine db')"
      "key_unique exclusion_key (db_exclusions db')" "key_unique provider_key (db_providers db')"
    and rest: "db_preferences db' = db_preferences db" "db_requests db' = db_requests db" "db_events db' = db_events db"
  shows "conv_ok db db'"
proof -
  note gen = put_head_generation [OF put]
  have "qr_generation q < generation_of db' (qr_path q)" if "q \<in> set (db_quarantine db')" for q
  proof (cases "q \<in> set new")
    case True
    with new show ?thesis by (simp add: gen)
  next
    case False
    with that q have "qr_generation q < generation_of db (qr_path q)" using inv by (auto simp: conv_inv_def)
    with g show ?thesis by (auto simp: gen)
  qed
  then have "conv_inv db'" using put keys rest inv by (auto simp: conv_inv_def put_head_def)
  moreover have "conv_below db db'" using g q rest by (simp add: conv_below_def gen)
  ultimately show ?thesis by (simp add: conv_ok_def)
qed

lemma swap_ok:
  assumes "conv_inv db" and "compareAndSwapConversationHead db path expected session now = Inr (db', h)"
  shows "conv_ok db db'"
proof -
  note swap = swap_Inr(1) [OF assms]
  have put: "put_head path (expected + 1) session db db'" using swap by blast
  have "db' = db\<lparr>db_heads := db_heads db'\<rparr>" using swap by blast
  then have same: "db_quarantine db' = db_quarantine db" "db_exclusions db' = db_exclusions db" "db_providers db' = db_providers db"
    "db_preferences db' = db_preferences db" "db_requests db' = db_requests db" "db_events db' = db_events db"
    by (metis op_db.select_convs op_db.update_convs op_db.surjective)+
  show ?thesis
    using assms(1) swap same by (intro put_head_ok [OF assms(1) put, of "[]"]) (auto simp: conv_inv_def)
qed

section \<open>Moving a scope\<close>

lemma find_key_iff:
  "key_unique key rows \<Longrightarrow> List.find (\<lambda>x. key x = k) rows = Some r \<longleftrightarrow> r \<in> set rows \<and> key r = k"
  using find_key_unique [of key rows r] find_SomeD [of "\<lambda>x. key x = k" rows r] by auto

lemma option_eqI: "(\<And>r. x = Some r \<longleftrightarrow> y = Some r) \<Longrightarrow> x = y"
  by (cases x; cases y) auto

lemma set_upsert: "set (upsert key r rows) = insert r {x \<in> set rows. key x \<noteq> key r}"
  by (auto simp: upsert_def)

lemma fold_upsert_unique: "key_unique key rows \<Longrightarrow> key_unique key (fold (upsert key) new rows)"
  by (induction new arbitrary: rows) (simp_all add: key_unique_upsert)

lemma set_fold_upsert:
  "key_unique key new \<Longrightarrow> set (fold (upsert key) new rows) = set new \<union> {x \<in> set rows. key x \<notin> key ` set new}"
  by (induction new arbitrary: rows) (auto simp: set_upsert)

lemma move_scope_unique: "key_unique key rows \<Longrightarrow> key_unique key (move_scope key old f rows)"
  unfolding move_scope_def by (intro key_unique_filter fold_upsert_unique)

lemma not_moved: "k \<notin> key ` set (map f (filter old rows)) \<longleftrightarrow> (\<forall>r \<in> set rows. old r \<longrightarrow> key (f r) \<noteq> k)"
  by (induction rows) auto

lemma set_move_scope:
  assumes "key_unique key rows" and "\<And>r q. old r \<Longrightarrow> old q \<Longrightarrow> key (f r) = key (f q) \<Longrightarrow> key r = key q"
    and "\<And>r. old r \<Longrightarrow> \<not> old (f r)"
  shows "set (move_scope key old f rows) = f ` {r \<in> set rows. old r}
     \<union> {x \<in> set rows. \<not> old x \<and> (\<forall>r \<in> set rows. old r \<longrightarrow> key (f r) \<noteq> key x)}"
proof -
  have inj: "inj_on (key \<circ> f) (set (filter old rows))"
  proof (rule inj_onI)
    fix r q
    assume "r \<in> set (filter old rows)" "q \<in> set (filter old rows)" "(key \<circ> f) r = (key \<circ> f) q"
    then have "key r = key q" "r \<in> set rows" "q \<in> set rows" using assms(2) by auto
    then show "r = q" using key_unique_inj [OF assms(1)] by blast
  qed
  have "distinct (filter old rows)" using assms(1) by (simp add: distinct_map)
  with inj have "key_unique key (map f (filter old rows))" by (simp add: distinct_map)
  from set_fold_upsert [OF this, of rows] have "set (fold (upsert key) (map f (filter old rows)) rows)
      = f ` {r \<in> set rows. old r} \<union> {x \<in> set rows. \<forall>r \<in> set rows. old r \<longrightarrow> key (f r) \<noteq> key x}"
    unfolding not_moved by simp
  then show ?thesis using assms(3) by (auto simp: move_scope_def)
qed

section \<open>Every operation keeps the invariant\<close>

lemma quarantine_ok:
  assumes inv: "conv_inv db" and q: "quarantineConversationHead db path expected sid reason now = Inr (db', h)"
  shows "conv_ok db db'" and "put_head path (expected + 1) None db db'" and "expected = generation_of db path"
    and "ch_session (readConversationHead db path) = Some sid"
    and "db_quarantine db' = db_quarantine db @ [\<lparr>qr_path = path, qr_generation = expected, qr_session = sid, qr_reason = reason, qr_at = now\<rparr>]"
proof -
  from q obtain x where x: "head_of db path = Some x" "hd_generation x = expected" "hd_session x = Some sid"
    and free: "\<not> list_ex (\<lambda>q. qr_path q = path \<and> qr_generation q = expected \<and> qr_session q = sid) (db_quarantine db)"
    and db': "db' = db\<lparr>db_quarantine := db_quarantine db @ [\<lparr>qr_path = path, qr_generation = expected,
                          qr_session = sid, qr_reason = reason, qr_at = now\<rparr>],
                        db_heads := update_where (\<lambda>x. hd_path x = path \<and> hd_generation x = expected \<and> hd_session x = Some sid)
                          (\<lambda>x. x\<lparr>hd_generation := expected + 1, hd_session := None, hd_updated := now\<rparr>) (db_heads db)\<rparr>"
    by (auto simp: quarantineConversationHead_def Let_def split: option.split_asm if_split_asm)
  note row = head_row_generation [OF inv x(1)]
  show gen: "expected = generation_of db path" using x by (simp add: generation_head)
  show "ch_session (readConversationHead db path) = Some sid" using x by (simp add: readConversationHead_def)
  show put: "put_head path (expected + 1) None db db'"
    by (rule put_head_update [OF conv_invD [OF inv] _ x(1),
          where hit = "\<lambda>x. hd_path x = path \<and> hd_generation x = expected \<and> hd_session x = Some sid" and now = now])
      (use row x in \<open>auto simp: db'\<close>)
  show log: "db_quarantine db' = db_quarantine db @ [\<lparr>qr_path = path, qr_generation = expected, qr_session = sid, qr_reason = reason, qr_at = now\<rparr>]"
    by (simp add: db')
  have "key_unique (\<lambda>q. (qr_path q, qr_generation q, qr_session q)) (db_quarantine db')"
    using inv free by (auto simp: conv_inv_def log list_ex_iff)
  then show "conv_ok db db'"
    using inv gen by (intro put_head_ok [OF inv put _ log]) (auto simp: db' conv_inv_def)
qed

lemma publish_Inr:
  assumes inv: "conv_inv db" and p: "publishConversationSession db requestId i clock = Inr (db', h)"
  defines "draft \<equiv> draft_scope (pi_expected i)" and "session \<equiv> session_scope (pi_session i)"
  shows "put_head (pi_path i) (pi_expected i) (Some (pi_session i)) db db'"
    and "pi_expected i = generation_of db (pi_path i)"
    and "db_exclusions db' = move_scope exclusion_key (\<lambda>r. ex_path r = pi_path i \<and> ex_scope r = draft)
                (\<lambda>r. r\<lparr>ex_scope := session\<rparr>) (db_exclusions db)"
    and "db_providers db' = move_scope provider_key (\<lambda>r. pa_path r = pi_path i \<and> pa_scope r = draft)
                (\<lambda>r. r\<lparr>pa_scope := session\<rparr>) (db_providers db)"
    and "db_quarantine db' = db_quarantine db" "db_preferences db' = db_preferences db"
      "db_requests db' = db_requests db" "db_events db' = db_events db"
proof -
  let ?hit = "\<lambda>h. hd_path h = pi_path i \<and> hd_generation h = generation_of db (pi_path i)"
  from p obtain now where gen: "generation_of db (pi_path i) = pi_expected i"
    and db': "db' = db\<lparr>db_exclusions := move_scope exclusion_key (\<lambda>r. ex_path r = pi_path i \<and> ex_scope r = draft)
                (\<lambda>r. r\<lparr>ex_scope := session\<rparr>) (db_exclusions db),
              db_providers := move_scope provider_key (\<lambda>r. pa_path r = pi_path i \<and> pa_scope r = draft)
                (\<lambda>r. r\<lparr>pa_scope := session\<rparr>) (db_providers db),
              db_heads := (if head_of db (pi_path i) \<noteq> None
                then update_where ?hit (\<lambda>h. h\<lparr>hd_session := Some (pi_session i), hd_updated := now\<rparr>) (db_heads db)
                else db_heads db @ [\<lparr>hd_path = pi_path i, hd_generation = generation_of db (pi_path i),
                  hd_session = Some (pi_session i), hd_updated = now\<rparr>])\<rparr>"
    unfolding publishConversationSession_def Let_def generation_head [symmetric] draft_def session_def
    by (fastforce simp: res_simps split: if_split_asm)
  show "pi_expected i = generation_of db (pi_path i)" using gen ..
  show "put_head (pi_path i) (pi_expected i) (Some (pi_session i)) db db'"
  proof (cases "head_of db (pi_path i)")
    case None
    then show ?thesis using gen
      by (intro put_head_new [OF conv_invD [OF inv] _ None, where now = now]) (auto simp: db' generation_head)
  next
    case (Some x)
    note row = head_row_generation [OF inv Some]
    have "update_where ?hit (\<lambda>h. h\<lparr>hd_session := Some (pi_session i), hd_updated := now\<rparr>) (db_heads db)
        = update_where ?hit (\<lambda>h. h\<lparr>hd_generation := pi_expected i, hd_session := Some (pi_session i), hd_updated := now\<rparr>) (db_heads db)"
      using gen by (auto simp: update_where_def)
    then have "db_heads db' = update_where ?hit (\<lambda>h. h\<lparr>hd_generation := pi_expected i, hd_session := Some (pi_session i), hd_updated := now\<rparr>) (db_heads db)"
      by (simp add: db' Some)
    then show ?thesis using gen row Some
      by (intro put_head_update [OF conv_invD [OF inv] _ Some, where hit = ?hit]) (auto simp: generation_head)
  qed
  show "db_exclusions db' = move_scope exclusion_key (\<lambda>r. ex_path r = pi_path i \<and> ex_scope r = draft)
                (\<lambda>r. r\<lparr>ex_scope := session\<rparr>) (db_exclusions db)"
    "db_providers db' = move_scope provider_key (\<lambda>r. pa_path r = pi_path i \<and> pa_scope r = draft)
                (\<lambda>r. r\<lparr>pa_scope := session\<rparr>) (db_providers db)"
    "db_quarantine db' = db_quarantine db" "db_preferences db' = db_preferences db"
    "db_requests db' = db_requests db" "db_events db' = db_events db"
    by (simp_all add: db')
qed

lemma publish_ok:
  assumes inv: "conv_inv db" and p: "publishConversationSession db requestId i clock = Inr (db', h)"
  shows "conv_ok db db'"
proof -
  note pub = publish_Inr [OF inv p]
  have "key_unique exclusion_key (db_exclusions db')" "key_unique provider_key (db_providers db')"
    unfolding pub(3,4) using inv by (auto intro!: move_scope_unique simp: conv_inv_def)
  then show ?thesis
    using pub inv by (intro put_head_ok [OF inv pub(1), of "[]"]) (auto simp: conv_inv_def)
qed

lemma same_heads_ok:
  assumes "conv_inv db" and "db_heads db' = db_heads db" "db_quarantine db' = db_quarantine db"
    and "db_requests db' = db_requests db" "db_events db' = db_events db"
    and "key_unique exclusion_key (db_exclusions db')" "key_unique provider_key (db_providers db')"
      "key_unique (\<lambda>r. (pf_path r, pf_key r)) (db_preferences db')"
  shows "conv_ok db db'"
proof -
  have "readConversationHead db' = readConversationHead db"
    using assms(2) by (intro ext) (simp add: readConversationHead_def head_of_def)
  then have "generation_of db' = generation_of db" by (intro ext) (simp add: generation_of_def)
  with assms show ?thesis by (simp add: conv_ok_def conv_inv_def conv_below_def)
qed

lemma set_accounts_Inr:
  assumes "set_accounts path scope enabled now as rows = Inr rows'"
  shows "key_unique exclusion_key rows \<Longrightarrow> key_unique exclusion_key rows'"
    and "exclusion_key ` set rows' = (if enabled then exclusion_key ` set rows - (\<lambda>a. (path, scope, a)) ` set as
           else exclusion_key ` set rows \<union> (\<lambda>a. (path, scope, a)) ` set as)"
proof -
  from assms show "key_unique exclusion_key rows \<Longrightarrow> key_unique exclusion_key rows'"
    by (induction as arbitrary: rows)
      (auto split: if_split_asm intro: key_unique_filter key_unique_upsert)
  from assms show "exclusion_key ` set rows' = (if enabled then exclusion_key ` set rows - (\<lambda>a. (path, scope, a)) ` set as
           else exclusion_key ` set rows \<union> (\<lambda>a. (path, scope, a)) ` set as)"
  proof (induction as arbitrary: rows)
    case Nil
    then show ?case by simp
  next
    case (Cons a as)
    have del: "exclusion_key ` set (filter (\<lambda>r. exclusion_key r \<noteq> k) rows) = exclusion_key ` set rows - {k}" for k by auto
    have ins: "exclusion_key ` set (upsert exclusion_key r rows) = insert (exclusion_key r) (exclusion_key ` set rows)" for r
      by (auto simp: set_upsert)
    from Cons.prems have step: "set_accounts path scope enabled now as (if enabled then filter (\<lambda>r. exclusion_key r \<noteq> (path, scope, a)) rows
         else upsert exclusion_key \<lparr>ex_path = path, ex_scope = scope, ex_account = a, ex_updated = now\<rparr> rows) = Inr rows'"
      by (simp split: if_split_asm)
    note ih = Cons.IH [OF step]
    show ?case
    proof (cases enabled)
      case True
      with ih del [of "(path, scope, a)"] show ?thesis by auto
    next
      case False
      with ih
        ins [of "\<lparr>ex_path = path, ex_scope = scope, ex_account = a, ex_updated = now\<rparr>"] show ?thesis by auto
    qed
  qed
qed

lemma accounts_ok:
  assumes "conv_inv db" and "setAccountsEnabled db path as on now = Inr db'"
  shows "conv_ok db db'"
proof -
  from assms(2) obtain rows where rows: "set_accounts path (accountScopeKey db path) on now (rev (remdups (rev as))) (db_exclusions db) = Inr rows"
    and db': "db' = db\<lparr>db_exclusions := rows\<rparr>" by (auto simp: setAccountsEnabled_def res_simps)
  have "key_unique exclusion_key rows" by (rule set_accounts_Inr(1) [OF rows]) (use assms(1) in \<open>simp add: conv_inv_def\<close>)
  then show ?thesis using assms(1) by (intro same_heads_ok) (auto simp: db' conv_inv_def)
qed

lemma provider_ok:
  assumes "conv_inv db" and "setProviderAccount db path p a now = Inr db'"
  shows "conv_ok db db'"
proof -
  from assms(2) have db': "db' = db\<lparr>db_providers := upsert provider_key \<lparr>pa_path = path, pa_scope = accountScopeKey db path,
        pa_provider = p, pa_account = a, pa_updated = now\<rparr> (db_providers db)\<rparr>"
    by (auto simp: setProviderAccount_def split: if_split_asm)
  have "key_unique provider_key (db_providers db')"
    unfolding db' using assms(1) by (simp add: conv_inv_def key_unique_upsert)
  then show ?thesis using assms(1) by (intro same_heads_ok) (auto simp: db' conv_inv_def)
qed

lemma preference_ok:
  assumes "conv_inv db" and "setProjectPreference db path k v now = Inr db'"
  shows "conv_ok db db'"
proof -
  obtain rows where db': "db' = db\<lparr>db_preferences := rows\<rparr>" and "key_unique (\<lambda>r. (pf_path r, pf_key r)) rows"
  proof (cases v)
    case None
    with assms that show thesis
      by (auto simp: setProjectPreference_def conv_inv_def key_unique_filter split: if_split_asm)
  next
    case (Some x)
    with assms that show thesis
      by (auto simp: setProjectPreference_def conv_inv_def key_unique_upsert split: if_split_asm)
  qed
  then show ?thesis using assms(1) by (intro same_heads_ok) (auto simp: conv_inv_def)
qed

lemma conv_step_ok:
  assumes "conv_inv db" and "conv_step db x = Inr db'"
  shows "conv_ok db db'"
proof (cases x)
  case (CvSwap path g s now)
  with assms show ?thesis by (auto simp: res_simps intro: swap_ok)
next
  case (CvPublish i p clock)
  with assms show ?thesis by (auto simp: res_simps intro: publish_ok)
next
  case (CvQuarantine path g s why now)
  with assms show ?thesis by (auto simp: res_simps intro: quarantine_ok(1))
next
  case (CvSetSession path s now)
  with assms show ?thesis by (auto simp: setAgentSession_def res_simps intro: swap_ok)
next
  case (CvClearSession path now)
  with assms show ?thesis by (auto simp: clearAgentSession_def res_simps intro: swap_ok)
qed (use assms in \<open>auto intro: accounts_ok provider_ok preference_ok\<close>)

interpretation conversation: monotone_machine conv_step conv_inv conv_below
  using conv_step_ok conv_below_refl conv_below_trans by unfold_locales (auto simp: conv_ok_def)

section \<open>Accounts of a conversation\<close>

definition excluded_in :: "op_db \<Rightarrow> string \<Rightarrow> string \<Rightarrow> string set" where
  "excluded_in db path scope = ex_account ` set (filter (\<lambda>r. ex_path r = path \<and> ex_scope r = scope) (db_exclusions db))"

definition choice_in :: "op_db \<Rightarrow> string \<Rightarrow> string \<Rightarrow> string \<Rightarrow> string option" where
  "choice_in db path scope p = map_option pa_account (List.find (\<lambda>r. provider_key r = (path, scope, p)) (db_providers db))"

lemma set_listAccountExclusions: "set (listAccountExclusions db path) = excluded_in db path (accountScopeKey db path)"
  by (auto simp: listAccountExclusions_def excluded_in_def)

lemma scopes_differ: "draft_scope g \<noteq> session_scope s"
  by (simp add: draft_scope_def session_scope_def)

lemma published_scope:
  assumes "put_head path g (Some s) db db'" and "s \<noteq> []"
  shows "accountScopeKey db' path = session_scope s"
  using assms by (simp add: accountScopeKey_def put_head_def nonempty_def)

lemma published_exclusions:
  fixes path s :: string and g :: int
  assumes "conv_inv db"
  defines "rows \<equiv> move_scope exclusion_key (\<lambda>r. ex_path r = path \<and> ex_scope r = draft_scope g) (\<lambda>r. r\<lparr>ex_scope := session_scope s\<rparr>) (db_exclusions db)"
  shows "ex_account ` {r \<in> set rows. ex_path r = path \<and> ex_scope r = session_scope s}
     = excluded_in db path (draft_scope g) \<union> excluded_in db path (session_scope s)"
proof -
  let ?old = "\<lambda>r. ex_path r = path \<and> ex_scope r = draft_scope g" and ?f = "\<lambda>r. r\<lparr>ex_scope := session_scope s\<rparr>"
  have u: "key_unique exclusion_key (db_exclusions db)" using assms(1) by (simp add: conv_inv_def)
  have rows: "set rows = ?f ` {r \<in> set (db_exclusions db). ?old r}
      \<union> {x \<in> set (db_exclusions db). \<not> ?old x \<and> (\<forall>r \<in> set (db_exclusions db). ?old r \<longrightarrow> exclusion_key (?f r) \<noteq> exclusion_key x)}"
    unfolding rows_def using scopes_differ [of g s] by (intro set_move_scope [OF u]) auto
  have "a \<in> ex_account ` {r \<in> set rows. ex_path r = path \<and> ex_scope r = session_scope s} \<longleftrightarrow>
      a \<in> excluded_in db path (draft_scope g) \<or> a \<in> excluded_in db path (session_scope s)" for a
  proof
    assume "a \<in> ex_account ` {r \<in> set rows. ex_path r = path \<and> ex_scope r = session_scope s}"
    then obtain r where r: "r \<in> set rows" "ex_path r = path" "ex_scope r = session_scope s" "ex_account r = a" by blast
    from r(1) consider q where "q \<in> set (db_exclusions db)" "?old q" "r = ?f q" | "r \<in> set (db_exclusions db)"
      unfolding rows by blast
    then show "a \<in> excluded_in db path (draft_scope g) \<or> a \<in> excluded_in db path (session_scope s)"
      using r(2-4) by cases (auto simp: excluded_in_def)
  next
    assume "a \<in> excluded_in db path (draft_scope g) \<or> a \<in> excluded_in db path (session_scope s)"
    then obtain r where r: "r \<in> set (db_exclusions db)" "ex_path r = path" "ex_account r = a"
      and sc: "ex_scope r = draft_scope g \<or> ex_scope r = session_scope s" by (auto simp: excluded_in_def)
    show "a \<in> ex_account ` {r \<in> set rows. ex_path r = path \<and> ex_scope r = session_scope s}"
    proof (cases "\<exists>q \<in> set (db_exclusions db). ?old q \<and> ex_account q = a")
      case True
      then obtain q where q: "q \<in> set (db_exclusions db)" "?old q" "ex_account q = a" by blast
      then have "?f q \<in> set rows" unfolding rows by blast
      then show ?thesis using q by (intro image_eqI [of _ _ "?f q"]) auto
    next
      case False
      then have "ex_scope r = session_scope s" using r sc by blast
      moreover from this False r have "r \<in> set rows" unfolding rows using scopes_differ [of g s] by auto
      ultimately show ?thesis using r by (intro image_eqI [of _ _ r]) auto
    qed
  qed
  then show ?thesis by blast
qed

lemma published_choices:
  fixes path s :: string and g :: int
  assumes "conv_inv db"
  defines "rows \<equiv> move_scope provider_key (\<lambda>r. pa_path r = path \<and> pa_scope r = draft_scope g) (\<lambda>r. r\<lparr>pa_scope := session_scope s\<rparr>) (db_providers db)"
  shows "map_option pa_account (List.find (\<lambda>r. provider_key r = (path, session_scope s, p)) rows)
     = (case choice_in db path (draft_scope g) p of Some a \<Rightarrow> Some a | None \<Rightarrow> choice_in db path (session_scope s) p)"
proof -
  let ?old = "\<lambda>r. pa_path r = path \<and> pa_scope r = draft_scope g" and ?f = "\<lambda>r. r\<lparr>pa_scope := session_scope s\<rparr>"
  have u: "key_unique provider_key (db_providers db)" using assms(1) by (simp add: conv_inv_def)
  have rows: "set rows = ?f ` {r \<in> set (db_providers db). ?old r}
      \<union> {x \<in> set (db_providers db). \<not> ?old x \<and> (\<forall>r \<in> set (db_providers db). ?old r \<longrightarrow> provider_key (?f r) \<noteq> provider_key x)}"
    unfolding rows_def using scopes_differ [of g s] by (intro set_move_scope [OF u]) auto
  have u': "key_unique provider_key rows" unfolding rows_def by (rule move_scope_unique [OF u])
  note find = find_key_iff [OF u] and find' = find_key_iff [OF u']
  show ?thesis
  proof (cases "List.find (\<lambda>r. provider_key r = (path, draft_scope g, p)) (db_providers db)")
    case (Some r)
    then have r: "r \<in> set (db_providers db)" "provider_key r = (path, draft_scope g, p)" unfolding find by auto
    then have "?f r \<in> set rows" unfolding rows by auto
    then have "List.find (\<lambda>r. provider_key r = (path, session_scope s, p)) rows = Some (?f r)" unfolding find' using r by simp
    with Some show ?thesis by (simp add: choice_in_def)
  next
    case None
    then have none: "provider_key r \<noteq> (path, draft_scope g, p)" if "r \<in> set (db_providers db)" for r
      using that by (auto simp: find_NoneD)
    have "r \<in> set rows \<longleftrightarrow> r \<in> set (db_providers db)" if "provider_key r = (path, session_scope s, p)" for r
    proof
      assume "r \<in> set rows"
      then consider q where "q \<in> set (db_providers db)" "?old q" "r = ?f q" | "r \<in> set (db_providers db)"
        unfolding rows by blast
      then show "r \<in> set (db_providers db)" using that none by cases auto
    next
      assume "r \<in> set (db_providers db)"
      moreover have "\<not> ?old r" using that scopes_differ [of g s] by auto
      moreover have "provider_key (?f q) \<noteq> provider_key r" if "q \<in> set (db_providers db)" "?old q" for q
        using none [OF that(1)] that(2) \<open>provider_key r = (path, session_scope s, p)\<close> by auto
      ultimately show "r \<in> set rows" unfolding rows by blast
    qed
    then have "List.find (\<lambda>r. provider_key r = (path, session_scope s, p)) rows = Some r \<longleftrightarrow>
        List.find (\<lambda>r. provider_key r = (path, session_scope s, p)) (db_providers db) = Some r" for r
      unfolding find find' by blast
    then have "List.find (\<lambda>r. provider_key r = (path, session_scope s, p)) rows =
        List.find (\<lambda>r. provider_key r = (path, session_scope s, p)) (db_providers db)"
      by (rule option_eqI)
    with None show ?thesis by (simp add: choice_in_def)
  qed
qed

section \<open>Properties\<close>

text \<open>The generation of a conversation never goes back, under every sequence of swaps, publications,
  quarantines, account and preference changes: each project has at most one head, quarantine
  records stay, a quarantined session belongs to a generation that is over, and the request queue
  and its event log are not touched.\<close>

theorem conversation_monotone:
  "conv_inv db \<Longrightarrow> conv_inv (exec_ops conv_step db ops) \<and> conv_below db (exec_ops conv_step db ops)"
  using conversation.exec_inv conversation.exec_below by blast

definition head_db :: op_db where
  "head_db = \<lparr>db_requests = [\<lparr>rq_id = ''r1'', rq_path = ''p'', rq_position = 1, rq_fingerprint = ''f'', rq_objective = ''o'',
       rq_images = None, rq_binding = binding_columns_of None, rq_promotion = promotion_columns_of None,
       rq_status = RqRunning, rq_created = 1, rq_updated = 1, rq_owner = Some ''w'', rq_epoch = 1, rq_expires = Some 50,
       rq_effect = None, rq_outcome = None, rq_sequence = 0, rq_snapshot = None\<rparr>], db_events = [],
     db_heads = [\<lparr>hd_path = ''p'', hd_generation = 3, hd_session = Some ''s'', hd_updated = 1\<rparr>], db_quarantine = [],
     db_exclusions = [\<lparr>ex_path = ''p'', ex_scope = ''draft:3'', ex_account = ''a'', ex_updated = 1\<rparr>],
     db_providers = [], db_preferences = []\<rparr>"

lemma head_db_inv: "conv_inv head_db"
  by (simp add: head_db_def conv_inv_def)

lemma head_db_generation: "generation_of head_db ''p'' = 3"
  by (simp add: generation_of_def readConversationHead_def head_of_def head_db_def)

theorem conversation_monotone_witness:
  "conv_below head_db (exec_ops conv_step head_db [CvQuarantine ''p'' 3 ''s'' ''why'' 5, CvSetSession ''p'' ''t'' 6])"
  using conversation_monotone [OF head_db_inv] by blast

text \<open>Compare and swap. The swap succeeds exactly when the expected generation is the current one (a
  project without a head is at generation 0); then the head reads back as the next generation with
  the new session, and the heads of the other projects are unchanged.\<close>

theorem compare_and_swap_exact:
  assumes "conv_inv db"
  shows "(is_ok (compareAndSwapConversationHead db path expected session now) \<longleftrightarrow>
      safe_int expected \<and> expected = ch_generation (readConversationHead db path))
    \<and> (\<forall>db' h. compareAndSwapConversationHead db path expected session now = Inr (db', h) \<longrightarrow>
      readConversationHead db' path = h \<and> h = \<lparr>ch_generation = expected + 1, ch_session = session\<rparr>
      \<and> (\<forall>p. p \<noteq> path \<longrightarrow> readConversationHead db' p = readConversationHead db p))"
proof (intro conjI allI impI)
  show "is_ok (compareAndSwapConversationHead db path expected session now) \<longleftrightarrow>
      safe_int expected \<and> expected = ch_generation (readConversationHead db path)"
    using swap_Inr(2) [OF assms] by (simp add: generation_of_def)
  fix db' h
  assume "compareAndSwapConversationHead db path expected session now = Inr (db', h)"
  note swap = swap_Inr(1) [OF assms this]
  show "readConversationHead db' path = h" "h = \<lparr>ch_generation = expected + 1, ch_session = session\<rparr>"
    using swap unfolding put_head_def by auto
  show "readConversationHead db' p = readConversationHead db p" if "p \<noteq> path" for p
    using swap that unfolding put_head_def by blast
qed

theorem compare_and_swap_exact_witness:
  "is_ok (compareAndSwapConversationHead head_db ''p'' 3 None 9) \<and> \<not> is_ok (compareAndSwapConversationHead head_db ''p'' 2 None 9)"
  using compare_and_swap_exact [OF head_db_inv, of "''p''" 3 None 9] compare_and_swap_exact [OF head_db_inv, of "''p''" 2 None 9]
    head_db_generation by (simp add: generation_of_def safe_int_def MAX_SAFE_def)

text \<open>Publishing a session carries the choices of the draft over. Afterwards the accounts excluded for
  the project are those of the draft and those the session already had, and the account of a
  provider is the draft's choice, or else the session's earlier one; the generation stays.\<close>

theorem publish_carries_choices:
  assumes "conv_inv db" and "publishConversationSession db requestId i clock = Inr (db', h)" and "pi_session i \<noteq> []"
  shows "readConversationHead db' (pi_path i) = \<lparr>ch_generation = pi_expected i, ch_session = Some (pi_session i)\<rparr>
    \<and> set (listAccountExclusions db' (pi_path i)) = excluded_in db (pi_path i) (draft_scope (pi_expected i))
          \<union> excluded_in db (pi_path i) (session_scope (pi_session i))
    \<and> findProviderAccount db' (pi_path i) p =
        (case choice_in db (pi_path i) (draft_scope (pi_expected i)) p of Some a \<Rightarrow> Some a
         | None \<Rightarrow> choice_in db (pi_path i) (session_scope (pi_session i)) p)"
proof -
  note pub = publish_Inr [OF assms(1,2)]
  have scope: "accountScopeKey db' (pi_path i) = session_scope (pi_session i)"
    by (rule published_scope [OF pub(1) assms(3)])
  have "readConversationHead db' (pi_path i) = \<lparr>ch_generation = pi_expected i, ch_session = Some (pi_session i)\<rparr>"
    using pub(1) by (simp add: put_head_def)
  moreover have "set (listAccountExclusions db' (pi_path i)) = excluded_in db (pi_path i) (draft_scope (pi_expected i))
          \<union> excluded_in db (pi_path i) (session_scope (pi_session i))"
    unfolding set_listAccountExclusions scope excluded_in_def [of db'] set_filter pub(3)
    by (rule published_exclusions [OF assms(1)])
  moreover have "findProviderAccount db' (pi_path i) p =
        (case choice_in db (pi_path i) (draft_scope (pi_expected i)) p of Some a \<Rightarrow> Some a
         | None \<Rightarrow> choice_in db (pi_path i) (session_scope (pi_session i)) p)"
    unfolding findProviderAccount_def scope pub(4) by (rule published_choices [OF assms(1)])
  ultimately show ?thesis by blast
qed

definition head_publish :: publish_input where
  "head_publish = \<lparr>pi_path = ''p'', pi_expected = 3, pi_session = ''t'', pi_lease = \<lparr>ls_owner = ''w'', ls_epoch = 1\<rparr>, pi_now = NowAt 9\<rparr>"

theorem publish_carries_choices_witness:
  "\<exists>db' h. publishConversationSession head_db ''r1'' head_publish 9 = Inr (db', h)
     \<and> set (listAccountExclusions db' ''p'') = {''a''}"
proof -
  have "is_ok (publishConversationSession head_db ''r1'' head_publish 9)"
    by (simp add: is_ok_def publishConversationSession_def isoTimestamp_def MAX_DATE_def runningTuiRequestRow_def
        head_db_def head_publish_def assertActiveTuiRequestLease_def assertTuiRequestLease_def head_of_def Let_def)
  then obtain db' h where p: "publishConversationSession head_db ''r1'' head_publish 9 = Inr (db', h)"
    by (auto simp: is_ok_iff)
  have scope: "draft_scope 3 = ''draft:3''" by code_simp
  have "excluded_in head_db ''p'' (draft_scope 3) = {''a''}"
    by (simp add: excluded_in_def head_db_def scope)
  moreover have "excluded_in head_db ''p'' (session_scope ''t'') = {}"
    by (simp add: excluded_in_def head_db_def session_scope_def)
  ultimately have "excluded_in head_db ''p'' (draft_scope 3) \<union> excluded_in head_db ''p'' (session_scope ''t'') = {''a''}" by simp
  with publish_carries_choices [OF head_db_inv p] p show ?thesis by (auto simp: head_publish_def)
qed

text \<open>Enabling and disabling accounts. A successful call changes the accounts excluded for the current
  conversation by exactly the named ones: disabling adds them, enabling removes them; and it
  succeeds exactly when no name is blank.\<close>

theorem accounts_enabled_exact:
  "(is_ok (setAccountsEnabled db path as on now) \<longleftrightarrow> list_all (\<lambda>a. trim a \<noteq> []) as)
    \<and> (\<forall>db'. setAccountsEnabled db path as on now = Inr db' \<longrightarrow>
      set (listAccountExclusions db' path) = (if on then set (listAccountExclusions db path) - set as
        else set (listAccountExclusions db path) \<union> set as))"
proof (intro conjI allI impI)
  have loop: "is_ok (set_accounts path scope on now xs rows) \<longleftrightarrow> list_all (\<lambda>a. trim a \<noteq> []) xs" for scope xs rows
    by (induction xs arbitrary: rows) (simp_all add: is_ok_def)
  have "is_ok (setAccountsEnabled db path as on now) = is_ok (set_accounts path (accountScopeKey db path) on now (rev (remdups (rev as))) (db_exclusions db))"
    by (auto simp: setAccountsEnabled_def is_ok_iff res_simps)
  then show "is_ok (setAccountsEnabled db path as on now) \<longleftrightarrow> list_all (\<lambda>a. trim a \<noteq> []) as"
    unfolding loop by (simp add: list_all_iff)
  fix db'
  assume "setAccountsEnabled db path as on now = Inr db'"
  then obtain rows where rows: "set_accounts path (accountScopeKey db path) on now (rev (remdups (rev as))) (db_exclusions db) = Inr rows"
    and db': "db' = db\<lparr>db_exclusions := rows\<rparr>" by (auto simp: setAccountsEnabled_def res_simps)
  have scope: "accountScopeKey db' path = accountScopeKey db path"
    by (simp add: db' accountScopeKey_def readConversationHead_def head_of_def)
  have ex: "a \<in> excluded_in d path sc \<longleftrightarrow> (path, sc, a) \<in> exclusion_key ` set (db_exclusions d)" for a d sc
    by (auto simp: excluded_in_def)
  show "set (listAccountExclusions db' path) = (if on then set (listAccountExclusions db path) - set as
        else set (listAccountExclusions db path) \<union> set as)"
    unfolding set_listAccountExclusions scope using set_accounts_Inr(2) [OF rows]
    by (auto simp: set_eq_iff ex db')
qed

theorem accounts_enabled_exact_witness:
  "\<exists>db'. setAccountsEnabled head_db ''p'' [''a'', ''b''] False 7 = Inr db' \<and> set (listAccountExclusions db' ''p'') = {''a'', ''b''}"
proof -
  have "is_ok (setAccountsEnabled head_db ''p'' [''a'', ''b''] False 7)"
    using accounts_enabled_exact [of head_db] by (simp add: trim_def js_space_def)
  then obtain db' where "setAccountsEnabled head_db ''p'' [''a'', ''b''] False 7 = Inr db'" by (auto simp: is_ok_iff)
  moreover have "set (listAccountExclusions head_db ''p'') = {}"
    by (simp add: set_listAccountExclusions excluded_in_def head_db_def accountScopeKey_def readConversationHead_def
        head_of_def nonempty_def session_scope_def)
  ultimately show ?thesis using accounts_enabled_exact [of head_db "''p''" "[''a'', ''b'']" False 7] by auto
qed

end
