(* ===== verification/Workspace.thy ===== *)
theory Workspace
  imports RunProps OpConversation "HOL-Library.Multiset"
begin

text \<open>
  The summary of a workspace (\<open>state-workspace-store.ts\<close>): recent projects with their chats, the chats,
  requests and patches of one project, each newest first. Rows of the same instant keep the order
  of their table.
\<close>

section \<open>Queries\<close>

fun chat_status_name :: "chat_status \<Rightarrow> string" where
  "chat_status_name ChIdle = ''idle''"
| "chat_status_name ChQueued = ''queued''"
| "chat_status_name ChRunning = ''running''"
| "chat_status_name ChPaused = ''paused''"
| "chat_status_name ChFailed = ''failed''"
| "chat_status_name ChCompleted = ''completed''"

fun run_status_name :: "run_status \<Rightarrow> string" where
  "run_status_name RnQueued = ''queued''"
| "run_status_name RnRunning = ''running''"
| "run_status_name RnFailed = ''failed''"
| "run_status_name RnCompleted = ''completed''"
| "run_status_name RnIndeterminate = ''indeterminate''"

fun request_status_name :: "request_status \<Rightarrow> string" where
  "request_status_name RqQueued = ''queued''"
| "request_status_name RqRunning = ''running''"
| "request_status_name RqCompleted = ''completed''"
| "request_status_name RqFailed = ''failed''"

record project_summary =
  ps_path :: string
  ps_created :: int
  ps_chats :: nat
  ps_active :: nat

record chat_summary =
  cs_id :: string
  cs_status :: string
  cs_updated :: int
  cs_objective :: string

record request_summary =
  rs_id :: string
  rs_status :: string
  rs_position :: int
  rs_created :: int

record workspace_snapshot =
  ws_projects :: "project_summary list"
  ws_chats :: "chat_summary list"
  ws_requests :: "(string \<times> string \<times> int) list"
  ws_patches :: "(string \<times> patch_state \<times> int) list"

definition chats_of :: "run_db \<Rightarrow> project_row \<Rightarrow> chat_row list" where
  "chats_of db p = filter (\<lambda>c. ct_project c = pr_id p) (rd_chats db)"

definition project_touched :: "run_db \<Rightarrow> project_row \<Rightarrow> int" where
  "project_touched db p = (case map ct_updated (chats_of db p) of [] \<Rightarrow> pr_created p | t # ts \<Rightarrow> fold max ts t)"

definition summarize_project :: "run_db \<Rightarrow> project_row \<Rightarrow> project_summary" where
  "summarize_project db p = \<lparr>ps_path = pr_path p, ps_created = pr_created p, ps_chats = length (chats_of db p),
     ps_active = length (filter (\<lambda>c. ct_status c \<in> {ChQueued, ChRunning, ChPaused}) (chats_of db p))\<rparr>"

text \<open>The chats of the project at a path; a chat belongs to one project.\<close>

definition chats_at :: "run_db \<Rightarrow> string \<Rightarrow> chat_row list" where
  "chats_at db path = [c. c \<leftarrow> rd_chats db, p \<leftarrow> rd_projects db, pr_id p = ct_project c \<and> pr_path p = path]"

definition mapChat :: "chat_row \<Rightarrow> string option \<Rightarrow> chat_summary" where
  "mapChat c payload = \<lparr>cs_id = ct_session c, cs_status = chat_status_name (ct_status c), cs_updated = ct_updated c,
     cs_objective = (case nonempty payload of
         None \<Rightarrow> ''Untitled task''
       | Some t \<Rightarrow> (case JSON_parse t of
           Inl _ \<Rightarrow> ''Unreadable task''
         | Inr v \<Rightarrow> (case prop_of v ''objective'' of
             JStr s \<Rightarrow> if trim s \<noteq> [] then trim s else ''Untitled task''
           | _ \<Rightarrow> ''Untitled task'')))\<rparr>"

definition chat_rows :: "run_db \<Rightarrow> string \<Rightarrow> (chat_row \<times> string option) list" where
  "chat_rows db path = concat (map (\<lambda>c.
     case filter (\<lambda>r. rr_session r = ct_session c \<and> rr_position r = 1) (rd_requests db) of
       [] \<Rightarrow> [(c, None)]
     | rs \<Rightarrow> map (\<lambda>r. (c, Some (rr_payload r))) rs) (chats_at db path))"

definition run_requests :: "run_db \<Rightarrow> string \<Rightarrow> run_row list" where
  "run_requests db path = [r. r \<leftarrow> rd_requests db, c \<leftarrow> chats_at db path, ct_session c = rr_session r]"

definition newest_first :: "('a \<Rightarrow> int) \<Rightarrow> nat \<Rightarrow> 'a list \<Rightarrow> 'a list" where
  "newest_first f n xs = take n (sort_key (\<lambda>x. - f x) xs)"

definition workspace_requests :: "run_db \<Rightarrow> op_db \<Rightarrow> string \<Rightarrow> request_summary list" where
  "workspace_requests db ops path =
     newest_first rs_created 8
       (map (\<lambda>r. \<lparr>rs_id = rr_id r, rs_status = run_status_name (rr_status r), rs_position = rr_position r,
            rs_created = rr_created r\<rparr>) (newest_first rr_created 8 (run_requests db path))
        @ map (\<lambda>h. \<lparr>rs_id = hi_id h, rs_status = request_status_name (hi_status h), rs_position = hi_position h,
            rs_created = hi_created h\<rparr>) (listHistory ops path))"

definition inspect :: "run_db \<Rightarrow> op_db \<Rightarrow> string \<Rightarrow> workspace_snapshot" where
  "inspect db ops path =
     \<lparr>ws_projects = map (summarize_project db) (newest_first (project_touched db) 20 (rd_projects db)),
      ws_chats = map (\<lambda>(c, payload). mapChat c payload) (newest_first (\<lambda>(c, _). ct_updated c) 20 (chat_rows db path)),
      ws_requests = map (\<lambda>r. (rs_id r, rs_status r, rs_position r)) (workspace_requests db ops path),
      ws_patches = map (\<lambda>p. (pt_id p, pt_state p, pt_updated p)) (newest_first pt_updated 8
        [p. p \<leftarrow> rd_patches db, c \<leftarrow> chats_at db path, ct_session c = pt_session p])\<rparr>"

section \<open>The newest of two lists\<close>

lemma sort_mset_cong: "mset xs = mset ys \<Longrightarrow> sort xs = sort (ys :: 'a :: linorder list)"
  by (metis mset_sort properties_for_sort sorted_sort)

lemma map_sort_key_values: "map f (sort_key f xs) = sort (map f xs)"
proof -
  have "sorted (map f (sort_key f xs))" by simp
  moreover have "mset (map f (sort_key f xs)) = mset (map f xs)" by simp
  ultimately show ?thesis by (metis properties_for_sort)
qed

lemma take_insort:
  "sorted xs \<Longrightarrow> k \<le> length xs \<Longrightarrow> (\<And>y. y \<in> set (take k xs) \<Longrightarrow> y \<le> x) \<Longrightarrow> take k (insort x xs) = take k (xs :: 'a :: linorder list)"
proof (induction xs arbitrary: k)
  case (Cons a xs)
  show ?case
  proof (cases k)
    case (Suc n)
    have le: "a \<le> x" using Cons.prems(3) [of a] Suc by simp
    have ih: "take n (insort x xs) = take n xs" using Cons.IH [of n] Cons.prems Suc by simp
    show ?thesis
    proof (cases "x \<le> a")
      case True
      with le have x: "x = a" by simp
      have "insort a xs = a # xs" using Cons.prems(1) by (simp add: insort_is_Cons)
      with ih Suc x show ?thesis by simp
    qed (use ih Suc in simp)
  qed simp
qed simp

lemma sorted_small:
  "sorted ys \<Longrightarrow> k \<le> length (filter (\<lambda>y. y \<le> x) ys) \<Longrightarrow> y \<in> set (take k ys) \<Longrightarrow> y \<le> (x :: 'a :: linorder)"
proof (induction ys arbitrary: k)
  case (Cons a ys)
  show ?case
  proof (cases "a \<le> x")
    case True
    with Cons show ?thesis by (cases k) auto
  next
    case False
    with Cons.prems(1) have "filter (\<lambda>y. y \<le> x) (a # ys) = []" by (auto simp: filter_empty_conv)
    with Cons.prems show ?thesis by simp
  qed
qed simp

lemma take_sort_extra:
  "(\<And>x. x \<in> set zs \<Longrightarrow> k \<le> length (filter (\<lambda>y. y \<le> x) xs)) \<Longrightarrow>
     take k (sort (zs @ xs)) = take k (sort (xs :: 'a :: linorder list))"
proof (induction zs)
  case (Cons z zs)
  have small: "k \<le> length (filter (\<lambda>y. y \<le> z) (sort (zs @ xs)))"
  proof -
    have "length (filter (\<lambda>y. y \<le> z) (sort (zs @ xs))) = length (filter (\<lambda>y. y \<le> z) (zs @ xs))"
      by (metis mset_filter mset_sort size_mset)
    then show ?thesis using Cons.prems [of z] by simp
  qed
  have "take k (insort z (sort (zs @ xs))) = take k (sort (zs @ xs))"
  proof (rule take_insort)
    show "k \<le> length (sort (zs @ xs))" using small length_filter_le order_trans by blast
    show "y \<le> z" if "y \<in> set (take k (sort (zs @ xs)))" for y using sorted_small [OF sorted_sort small that] .
  qed simp
  with Cons show ?case by simp
qed simp

text \<open>The least \<open>k\<close> of two lists are among the least \<open>k\<close> of each.\<close>

lemma take_sort_merge:
  fixes xs ys :: "'a :: linorder list"
  shows "take k (sort (take k (sort xs) @ take k (sort ys))) = take k (sort (xs @ ys))"
proof -
  let ?tx = "take k (sort xs)" and ?ty = "take k (sort ys)" and ?rx = "drop k (sort xs)" and ?ry = "drop k (sort ys)"
  have rest: "k \<le> length (filter (\<lambda>y. y \<le> x) (take k (sort zs)))" if "x \<in> set (drop k (sort zs))" for x and zs :: "'a list"
  proof -
    have len: "length (take k (sort zs)) = k" using that by (cases "k \<le> length zs") auto
    have "sorted (take k (sort zs) @ drop k (sort zs))" by simp
    then have "\<forall>y \<in> set (take k (sort zs)). y \<le> x" using that unfolding sorted_append by blast
    then have "filter (\<lambda>y. y \<le> x) (take k (sort zs)) = take k (sort zs)" by simp
    with len show ?thesis by simp
  qed
  have "mset ((?rx @ ?ry) @ (?tx @ ?ty)) = mset (xs @ ys)"
  proof -
    have "mset ?tx + mset ?rx = mset xs" "mset ?ty + mset ?ry = mset ys"
      by (simp_all flip: mset_append)
    then show ?thesis by (simp add: union_ac) (metis union_assoc union_commute)
  qed
  then have "sort ((?rx @ ?ry) @ (?tx @ ?ty)) = sort (xs @ ys)" by (rule sort_mset_cong)
  moreover have "take k (sort ((?rx @ ?ry) @ (?tx @ ?ty))) = take k (sort (?tx @ ?ty))"
    by (rule take_sort_extra) (use rest [of _ xs] rest [of _ ys] in \<open>fastforce intro: trans_le_add1 trans_le_add2\<close>)
  ultimately show ?thesis by simp
qed

lemma newest_first_values: "map (\<lambda>x. - f x) (newest_first f n xs) = take n (sort (map (\<lambda>x. - f x) xs))"
  by (simp add: newest_first_def map_sort_key_values flip: take_map)

text \<open>The workspace lists the eight newest requests. Runs and interactive requests are each cut to
  eight before they are merged; the instants listed are still those of the eight newest requests
  of the project over both tables, newest first.\<close>

theorem workspace_requests_newest:
  "map (\<lambda>r. - rs_created r) (workspace_requests db ops path)
     = take 8 (sort (map (\<lambda>r. - rr_created r) (run_requests db path)
         @ map (\<lambda>r. - rq_created r) (filter (\<lambda>r. rq_path r = path) (db_requests ops))))"
proof -
  let ?hist = "filter (\<lambda>r. rq_path r = path) (db_requests ops)"
  have "map (\<lambda>h. - hi_created h) (listHistory ops path) = take 8 (sort (map (\<lambda>r. - rq_created r) ?hist))"
    using newest_first_values [of rq_created 8 ?hist] by (simp add: listHistory_def newest_first_def comp_def)
  then show ?thesis
    unfolding workspace_requests_def newest_first_values
    by (simp add: comp_def newest_first_values take_sort_merge)
qed

end
