(* ===== verification/SideChat.thy ===== *)
theory SideChat
  imports RunStore
begin

text \<open>
  The side chats of \<open>tui-side-chat-store.ts\<close>: one chat per project, whose turns run one at a time under a
  lease. Opening the chat is a statement of its own, before the transaction that starts a turn;
  completing a turn commits before its row is read. Operations therefore return the database
  together with their result.
\<close>

section \<open>Tables and rows\<close>

datatype turn_status = TnRunning | TnCompleted | TnFailed | TnCanceled

record side_chat =
  sc_path :: string
  sc_id :: string
  sc_created :: int
  sc_updated :: int

record turn_row =
  tn_id :: string
  tn_chat :: string
  tn_sequence :: int
  tn_question :: string
  tn_answer :: "string option"
  tn_status :: turn_status
  tn_provider :: string
  tn_model :: string
  tn_account :: "string option"
  tn_thinking :: string
  tn_owner :: "string option"
  tn_epoch :: int
  tn_expires :: "int option"
  tn_outcome :: "string option"
  tn_created :: int
  tn_updated :: int

record side_db =
  sd_chats :: "side_chat list"
  sd_turns :: "turn_row list"

record model_binding =
  mb_provider :: string
  mb_model :: string
  mb_account :: "string option"
  mb_thinking :: string

record side_turn =
  sn_turnId :: string
  sn_chatId :: string
  sn_sequence :: int
  sn_question :: string
  sn_answer :: "string option"
  sn_status :: turn_status
  sn_binding :: model_binding
  sn_ownerId :: "string option"
  sn_leaseEpoch :: int
  sn_expiresAt :: "int option"
  sn_outcome :: "string option"
  sn_createdAt :: int
  sn_updatedAt :: int

definition thinking_levels :: "string list" where
  "thinking_levels = [''off'', ''minimal'', ''low'', ''medium'', ''high'', ''xhigh'']"

definition requiredInteger :: "string \<Rightarrow> int \<Rightarrow> int res" where
  "requiredInteger key n = (if safe_int n then Inr n else Inl (TuiSideChatStateError (''Invalid Side Chat '' @ key)))"

text \<open>The columns have the types of the strict tables; what remains to be checked is their range.\<close>

definition mapTurn :: "turn_row \<Rightarrow> side_turn res" where
  "mapTurn t =
     (if tn_thinking t \<notin> set thinking_levels then Inl (TuiSideChatStateError ''Invalid Side Chat thinking level'')
      else bindR (requiredInteger ''sequence'' (tn_sequence t)) (\<lambda>sequence.
      bindR (requiredInteger ''lease_epoch'' (tn_epoch t)) (\<lambda>epoch.
      Inr \<lparr>sn_turnId = tn_id t, sn_chatId = tn_chat t, sn_sequence = sequence, sn_question = tn_question t,
        sn_answer = tn_answer t, sn_status = tn_status t,
        sn_binding = \<lparr>mb_provider = tn_provider t, mb_model = tn_model t, mb_account = nonempty (tn_account t),
          mb_thinking = tn_thinking t\<rparr>,
        sn_ownerId = tn_owner t, sn_leaseEpoch = epoch, sn_expiresAt = tn_expires t, sn_outcome = tn_outcome t,
        sn_createdAt = tn_created t, sn_updatedAt = tn_updated t\<rparr>)))"

definition expiresAt :: "int \<Rightarrow> int \<Rightarrow> int res" where
  "expiresAt now leaseMs =
     (if \<not> safe_int leaseMs \<or> leaseMs < 1 then Inl (TuiSideChatStateError ''Side Chat lease must be positive'')
      else to_iso (now + leaseMs))"

section \<open>Operations\<close>

text \<open>
  \<open>INSERT OR IGNORE\<close> with the fresh identifier \<open>uuid\<close>, which is ignored when the project has a chat
  or the identifier is taken, then the row of the project.
\<close>

definition ensure_chat :: "side_db \<Rightarrow> string \<Rightarrow> string \<Rightarrow> int \<Rightarrow> side_db" where
  "ensure_chat db path chatId t =
     (if list_ex (\<lambda>c. sc_path c = path \<or> sc_id c = chatId) (sd_chats db) then db
      else db\<lparr>sd_chats := sd_chats db @ [\<lparr>sc_path = path, sc_id = chatId, sc_created = t, sc_updated = t\<rparr>]\<rparr>)"

definition getOrCreate :: "side_db \<Rightarrow> string \<Rightarrow> time_arg \<Rightarrow> int \<Rightarrow> string \<Rightarrow> (side_db \<times> side_chat res) res" where
  "getOrCreate db path now clock uuid =
     (if trim path = [] then Inl (TuiSideChatStateError ''Side Chat project path is required'')
      else bindR (isoTimestamp clock now) (\<lambda>t.
        let db1 = ensure_chat db path (''side_'' @ uuid) t in
        Inr (db1, case List.find (\<lambda>c. sc_path c = path) (sd_chats db1) of
            None \<Rightarrow> Inl (TuiSideChatStateError ''Missing Side Chat'')
          | Some c \<Rightarrow> Inr c)))"

definition lapsed :: "int \<Rightarrow> turn_row \<Rightarrow> bool" where
  "lapsed now t = (case tn_expires t of None \<Rightarrow> False | Some e \<Rightarrow> e \<le> now)"

definition recoverExpiredRow :: "side_db \<Rightarrow> string \<Rightarrow> int \<Rightarrow> side_db" where
  "recoverExpiredRow db chatId now = db\<lparr>sd_turns := update_where
     (\<lambda>t. tn_chat t = chatId \<and> tn_status t = TnRunning \<and> lapsed now t)
     (\<lambda>t. t\<lparr>tn_status := TnFailed, tn_owner := None, tn_expires := None, tn_outcome := Some ''interrupted'', tn_updated := now\<rparr>)
     (sd_turns db)\<rparr>"

record begin_turn =
  bt_path :: string
  bt_turnId :: string
  bt_question :: string
  bt_binding :: model_binding
  bt_ownerId :: string
  bt_leaseMs :: int
  bt_now :: time_arg

definition next_sequence :: "side_db \<Rightarrow> string \<Rightarrow> int" where
  "next_sequence db chatId = fold max (map tn_sequence (filter (\<lambda>t. tn_chat t = chatId) (sd_turns db))) 0 + 1"

text \<open>The transaction that starts a turn; the insert may hit the primary key.\<close>

definition begin_transaction :: "side_db \<Rightarrow> begin_turn \<Rightarrow> string \<Rightarrow> int \<Rightarrow> side_db res" where
  "begin_transaction db i chatId now =
     (let db1 = recoverExpiredRow db chatId now in
      if list_ex (\<lambda>t. tn_chat t = chatId \<and> tn_status t = TnRunning) (sd_turns db1)
        then Inl (TuiSideChatStateError ''A Side Chat turn is already running'')
      else bindR (requiredInteger ''next_sequence'' (next_sequence db1 chatId)) (\<lambda>sequence.
      bindR (expiresAt now (bt_leaseMs i)) (\<lambda>expires.
      if list_ex (\<lambda>t. tn_id t = bt_turnId i) (sd_turns db1)
        then Inl (SqlConstraint ''UNIQUE constraint failed: tui_side_turns.turn_id'')
      else Inr (db1\<lparr>sd_turns := sd_turns db1 @ [\<lparr>tn_id = bt_turnId i, tn_chat = chatId, tn_sequence = sequence,
             tn_question = bt_question i, tn_answer = None, tn_status = TnRunning,
             tn_provider = mb_provider (bt_binding i), tn_model = mb_model (bt_binding i),
             tn_account = mb_account (bt_binding i), tn_thinking = mb_thinking (bt_binding i),
             tn_owner = Some (bt_ownerId i), tn_epoch = 1, tn_expires = Some expires, tn_outcome = None,
             tn_created = now, tn_updated = now\<rparr>]\<rparr>))))"

definition findTurn :: "side_db \<Rightarrow> string \<Rightarrow> side_turn res" where
  "findTurn db turnId = (case List.find (\<lambda>t. tn_id t = turnId) (sd_turns db) of
     None \<Rightarrow> Inl (TuiSideChatStateError ''Missing Side Chat turn'')
   | Some t \<Rightarrow> mapTurn t)"

definition begin_side :: "side_db \<Rightarrow> begin_turn \<Rightarrow> int \<Rightarrow> string \<Rightarrow> side_db \<times> side_turn res" where
  "begin_side db i clock uuid =
     (if trim (bt_turnId i) = [] \<or> trim (bt_question i) = [] \<or> trim (bt_ownerId i) = []
        then (db, Inl (TuiSideChatStateError ''Side Chat turn identifiers and question are required''))
      else case bindR (isoTimestamp clock (bt_now i)) (\<lambda>now. bindR (getOrCreate db (bt_path i) (NowAt now) clock uuid)
             (\<lambda>out. Inr (now, out))) of
        Inl e \<Rightarrow> (db, Inl e)
      | Inr (now, db1, Inl e) \<Rightarrow> (db1, Inl e)
      | Inr (now, db1, Inr chat) \<Rightarrow>
          (case begin_transaction db1 i (sc_id chat) now of
             Inl e \<Rightarrow> (db1, Inl e)
           | Inr db2 \<Rightarrow> (db2, findTurn db2 (bt_turnId i))))"

text \<open>The fence of the three statements that act on a running turn.\<close>

definition leased :: "string \<Rightarrow> lease \<Rightarrow> int \<Rightarrow> turn_row \<Rightarrow> bool" where
  "leased turnId l now t = (tn_id t = turnId \<and> tn_status t = TnRunning \<and> tn_owner t = Some (ls_owner l)
     \<and> tn_epoch t = ls_epoch l \<and> (case tn_expires t of None \<Rightarrow> False | Some e \<Rightarrow> now < e))"

definition renew_side :: "side_db \<Rightarrow> string \<Rightarrow> lease \<Rightarrow> int \<Rightarrow> time_arg \<Rightarrow> int \<Rightarrow> side_db res" where
  "renew_side db turnId l leaseMs now clock =
     bindR (isoTimestamp clock now) (\<lambda>t.
     bindR (expiresAt t leaseMs) (\<lambda>expires.
     if count_where (leased turnId l t) (sd_turns db) \<noteq> 1
       then Inl (TuiSideChatStateError ''Side Chat turn lease is stale or expired'')
     else Inr (db\<lparr>sd_turns := update_where (leased turnId l t)
            (\<lambda>x. x\<lparr>tn_expires := Some expires, tn_updated := t\<rparr>) (sd_turns db)\<rparr>)))"

definition complete_side :: "side_db \<Rightarrow> string \<Rightarrow> lease \<Rightarrow> string \<Rightarrow> time_arg \<Rightarrow> int \<Rightarrow> (side_db \<times> side_turn res) res" where
  "complete_side db turnId l answer now clock =
     (if trim answer = [] then Inl (TuiSideChatStateError ''Side Chat answer is required'')
      else bindR (isoTimestamp clock now) (\<lambda>t.
      let done = (\<lambda>x. x\<lparr>tn_status := TnCompleted, tn_answer := Some answer, tn_owner := None, tn_expires := None,
                    tn_outcome := Some ''completed'', tn_updated := t\<rparr>) in
      case List.find (leased turnId l t) (sd_turns db) of
        None \<Rightarrow> Inl (TuiSideChatStateError ''Side Chat turn lease is stale or expired'')
      | Some row \<Rightarrow> Inr (db\<lparr>sd_turns := update_where (leased turnId l t) done (sd_turns db)\<rparr>, mapTurn (done row))))"

definition terminate_side :: "side_db \<Rightarrow> string \<Rightarrow> lease \<Rightarrow> bool \<Rightarrow> string \<Rightarrow> time_arg \<Rightarrow> int \<Rightarrow> side_db res" where
  "terminate_side db turnId l canceled outcome now clock =
     bindR (isoTimestamp clock now) (\<lambda>t.
     if count_where (leased turnId l t) (sd_turns db) \<noteq> 1 then Inl (TuiSideChatStateError ''Side Chat turn lease is stale'')
     else Inr (db\<lparr>sd_turns := update_where (leased turnId l t) (\<lambda>x. x\<lparr>tn_status := (if canceled then TnCanceled else TnFailed),
            tn_owner := None, tn_expires := None, tn_outcome := Some outcome, tn_updated := t\<rparr>) (sd_turns db)\<rparr>))"

definition chat_id_of :: "side_db \<Rightarrow> string \<Rightarrow> string option" where
  "chat_id_of db path = map_option sc_id (List.find (\<lambda>c. sc_path c = path) (sd_chats db))"

definition recoverExpired_side :: "side_db \<Rightarrow> string \<Rightarrow> time_arg \<Rightarrow> int \<Rightarrow> side_db res" where
  "recoverExpired_side db path now clock =
     (case chat_id_of db path of
        None \<Rightarrow> Inr db
      | Some chatId \<Rightarrow> bindR (isoTimestamp clock now) (\<lambda>t. Inr (recoverExpiredRow db chatId t)))"

definition list_side :: "side_db \<Rightarrow> string \<Rightarrow> side_turn list res" where
  "list_side db path =
     mapR mapTurn (sort_key tn_sequence (filter (\<lambda>t. chat_id_of db path = Some (tn_chat t)) (sd_turns db)))"

definition listCompleted :: "side_db \<Rightarrow> string \<Rightarrow> side_turn list res" where
  "listCompleted db path = bindR (list_side db path) (\<lambda>ts. Inr (filter (\<lambda>t. sn_status t = TnCompleted) ts))"

definition latestCompleted :: "side_db \<Rightarrow> string \<Rightarrow> side_turn option res" where
  "latestCompleted db path = bindR (listCompleted db path) (\<lambda>ts. Inr (if ts = [] then None else Some (last ts)))"

section \<open>The store as a machine\<close>

datatype side_request =
    SideOpen string time_arg int string
  | SideBegin begin_turn int string
  | SideRenew string lease int time_arg int
  | SideComplete string lease string time_arg int
  | SideTerminate string lease bool string time_arg int
  | SideRecover string time_arg int

fun side_step :: "side_db \<Rightarrow> side_request \<Rightarrow> side_db res" where
  "side_step db (SideOpen path now clock uuid) = bindR (getOrCreate db path now clock uuid) (\<lambda>out. Inr (fst out))"
| "side_step db (SideBegin i clock uuid) = Inr (fst (begin_side db i clock uuid))"
| "side_step db (SideRenew i l ms now clock) = renew_side db i l ms now clock"
| "side_step db (SideComplete i l a now clock) = bindR (complete_side db i l a now clock) (\<lambda>out. Inr (fst out))"
| "side_step db (SideTerminate i l c out now clock) = terminate_side db i l c out now clock"
| "side_step db (SideRecover path now clock) = recoverExpired_side db path now clock"

section \<open>Invariant\<close>

definition turn_row_ok :: "turn_row \<Rightarrow> bool" where
  "turn_row_ok t = ((tn_status t = TnRunning \<longleftrightarrow> tn_owner t \<noteq> None) \<and> (tn_status t = TnRunning \<longleftrightarrow> tn_expires t \<noteq> None)
     \<and> (tn_status t = TnCompleted \<longleftrightarrow> tn_answer t \<noteq> None))"

definition turns_of :: "side_db \<Rightarrow> string \<Rightarrow> turn_row list" where
  "turns_of db chat = filter (\<lambda>t. tn_chat t = chat) (sd_turns db)"

text \<open>
  One chat per project; turns numbered from 1 without gaps in each chat; at most one of them runs;
  exactly the running turn has a lease and exactly a completed one an answer.
\<close>

definition side_inv :: "side_db \<Rightarrow> bool" where
  "side_inv db = (distinct (map sc_path (sd_chats db)) \<and> distinct (map sc_id (sd_chats db))
     \<and> distinct (map tn_id (sd_turns db)) \<and> list_all turn_row_ok (sd_turns db)
     \<and> (\<forall>chat. map tn_sequence (turns_of db chat) = map int [1..<Suc (length (turns_of db chat))]
          \<and> length (filter (\<lambda>t. tn_status t = TnRunning) (turns_of db chat)) \<le> 1)
     \<and> set (map tn_chat (sd_turns db)) \<subseteq> set (map sc_id (sd_chats db)))"

definition turn_below :: "turn_row \<Rightarrow> turn_row \<Rightarrow> bool" where
  "turn_below t u = (tn_id u = tn_id t \<and> tn_chat u = tn_chat t \<and> tn_sequence u = tn_sequence t
     \<and> tn_question u = tn_question t \<and> tn_created u = tn_created t \<and> tn_epoch u = tn_epoch t
     \<and> (tn_status t \<noteq> TnRunning \<longrightarrow> u = t))"

definition side_below :: "side_db \<Rightarrow> side_db \<Rightarrow> bool" where
  "side_below s t = (grows (=) (sd_chats s) (sd_chats t) \<and> grows turn_below (sd_turns s) (sd_turns t))"

lemma turn_below_refl [simp]: "turn_below t t"
  by (simp add: turn_below_def)

lemma turn_below_trans: "turn_below t u \<Longrightarrow> turn_below u v \<Longrightarrow> turn_below t v"
  by (auto simp: turn_below_def)

lemma side_below_refl: "side_below s s"
  by (simp add: side_below_def grows_refl)

lemma side_below_trans: "side_below s t \<Longrightarrow> side_below t u \<Longrightarrow> side_below s u"
  unfolding side_below_def by (auto intro: grows_trans [of turn_below] grows_trans [of "(=)"] turn_below_trans)

definition side_ok :: "side_db \<Rightarrow> side_db \<Rightarrow> bool" where
  "side_ok db db' = (side_inv db' \<and> side_below db db')"

lemma side_ok_trans: "side_ok a b \<Longrightarrow> side_ok b c \<Longrightarrow> side_ok a c"
  by (auto simp: side_ok_def intro: side_below_trans)

lemma side_ok_refl: "side_inv db \<Longrightarrow> side_ok db db"
  by (simp add: side_ok_def side_below_refl)

lemma filter_update_where:
  "(\<And>t. t \<in> set ts \<Longrightarrow> hit t \<Longrightarrow> p (f t) = p t) \<Longrightarrow> filter p (update_where hit f ts) = update_where hit f (filter p ts)"
  by (induction ts) auto

lemma filter_update_length:
  "(\<And>t. t \<in> set ts \<Longrightarrow> hit t \<Longrightarrow> p (f t) \<Longrightarrow> p t) \<Longrightarrow> length (filter p (update_where hit f ts)) \<le> length (filter p ts)"
  by (induction ts) (auto simp: le_SucI)

lemma map_update_rows:
  "(\<And>t. t \<in> set ts \<Longrightarrow> hit t \<Longrightarrow> g (f t) = g t) \<Longrightarrow> map g (update_where hit f ts) = map g ts"
  by (induction ts) auto

text \<open>An update of running turns that keeps their identity and starts none.\<close>

lemma update_turns_ok:
  assumes inv: "side_inv db" and hit: "\<And>t. hit t \<Longrightarrow> tn_status t = TnRunning"
    and f: "\<And>t. turn_row_ok t \<Longrightarrow> hit t \<Longrightarrow> turn_below t (f t) \<and> turn_row_ok (f t)"
  shows "side_ok db (db\<lparr>sd_turns := update_where hit f (sd_turns db)\<rparr>)"
proof -
  let ?db = "db\<lparr>sd_turns := update_where hit f (sd_turns db)\<rparr>"
  have rows: "turn_row_ok t" if "t \<in> set (sd_turns db)" for t using inv that by (auto simp: side_inv_def list_all_iff)
  have fields: "tn_id (f t) = tn_id t \<and> tn_chat (f t) = tn_chat t \<and> tn_sequence (f t) = tn_sequence t"
    if "t \<in> set (sd_turns db)" "hit t" for t using f [OF rows [OF that(1)] that(2)] by (simp add: turn_below_def)
  have same: "turns_of ?db chat = update_where hit f (turns_of db chat)" for chat
    unfolding turns_of_def by (simp, rule filter_update_where) (simp add: fields)
  have seq: "map tn_sequence (turns_of ?db chat) = map tn_sequence (turns_of db chat)" for chat
    unfolding same by (rule map_update_rows) (simp add: fields turns_of_def)
  have len: "length (turns_of ?db chat) = length (turns_of db chat)" for chat unfolding same by simp
  have run: "length (filter (\<lambda>t. tn_status t = TnRunning) (turns_of ?db chat)) \<le> length (filter (\<lambda>t. tn_status t = TnRunning) (turns_of db chat))" for chat
    unfolding same by (rule filter_update_length) (rule hit)
  have keys: "map tn_id (sd_turns ?db) = map tn_id (sd_turns db)" "map tn_chat (sd_turns ?db) = map tn_chat (sd_turns db)"
    by (simp_all, (rule map_update_rows, simp add: fields)+)
  have ok: "list_all turn_row_ok (sd_turns ?db)"
    using rows f by (auto simp: list_all_iff set_update_where)
  have "map tn_sequence (turns_of ?db chat) = map int [1..<Suc (length (turns_of ?db chat))]
          \<and> length (filter (\<lambda>t. tn_status t = TnRunning) (turns_of ?db chat)) \<le> 1" for chat
    using inv run [of chat] unfolding seq len side_inv_def by (meson le_trans)
  then have "side_inv ?db" using inv ok keys unfolding side_inv_def by simp
  moreover have "side_below db ?db" using f rows by (auto simp: side_below_def grows_refl intro!: grows_update)
  ultimately show ?thesis by (simp add: side_ok_def)
qed

section \<open>Every operation\<close>

lemma getOrCreate_ok:
  assumes inv: "side_inv db" and g: "getOrCreate db path now clock uuid = Inr (db', c)"
  shows "side_ok db db'" and "c = Inr chat \<Longrightarrow> chat \<in> set (sd_chats db') \<and> sc_path chat = path"
    and "sd_turns db' = sd_turns db"
proof -
  from g obtain t where ens: "db' = ensure_chat db path (''side_'' @ uuid) t"
    and c: "c = (case List.find (\<lambda>c. sc_path c = path) (sd_chats db') of
            None \<Rightarrow> Inl (TuiSideChatStateError ''Missing Side Chat'') | Some c \<Rightarrow> Inr c)"
    by (auto simp: getOrCreate_def Let_def res_simps)
  show "c = Inr chat \<Longrightarrow> chat \<in> set (sd_chats db') \<and> sc_path chat = path"
    using find_SomeD [of "\<lambda>c. sc_path c = path" "sd_chats db'" chat] by (auto simp: c split: option.split_asm)
  show turns: "sd_turns db' = sd_turns db" by (simp add: ens ensure_chat_def)
  note db' = ens [unfolded ensure_chat_def]
  have "side_inv db'"
  proof (cases "list_ex (\<lambda>c. sc_path c = path \<or> sc_id c = ''side_'' @ uuid) (sd_chats db)")
    case False
    then have "path \<notin> set (map sc_path (sd_chats db))" "''side_'' @ uuid \<notin> set (map sc_id (sd_chats db))"
      unfolding list_ex_or list_ex_key by blast+
    with inv False show ?thesis by (auto simp: side_inv_def db' turns_of_def)
  qed (use inv in \<open>simp add: db'\<close>)
  moreover have "side_below db db'" using turns by (auto simp: side_below_def db' grows_refl grows_append)
  ultimately show "side_ok db db'" by (simp add: side_ok_def)
qed

lemma running_leased: "leased i l now t \<Longrightarrow> tn_status t = TnRunning"
  by (simp add: leased_def)

lemma renew_side_ok:
  assumes "side_inv db" and "renew_side db i l ms now clock = Inr db'"
  shows "side_ok db db'"
proof -
  from assms(2) obtain t e where db': "db' = db\<lparr>sd_turns := update_where (leased i l t)
      (\<lambda>x. x\<lparr>tn_expires := Some e, tn_updated := t\<rparr>) (sd_turns db)\<rparr>"
    by (auto simp: renew_side_def res_simps split: if_split_asm)
  show ?thesis unfolding db'
    by (rule update_turns_ok [OF assms(1)]) (simp_all add: turn_below_def turn_row_ok_def running_leased)
qed

lemma complete_side_ok:
  assumes "side_inv db" and "complete_side db i l a now clock = Inr (db', out)"
  shows "side_ok db db'"
proof -
  from assms(2) obtain t where db': "db' = db\<lparr>sd_turns := update_where (leased i l t)
      (\<lambda>x. x\<lparr>tn_status := TnCompleted, tn_answer := Some a, tn_owner := None, tn_expires := None,
                    tn_outcome := Some ''completed'', tn_updated := t\<rparr>) (sd_turns db)\<rparr>"
    by (auto simp: complete_side_def Let_def res_simps split: option.split_asm)
  show ?thesis unfolding db'
    by (rule update_turns_ok [OF assms(1)]) (simp_all add: turn_below_def turn_row_ok_def running_leased)
qed

text \<open>A turn that ends without an answer had none while it ran.\<close>

lemma end_turns_ok:
  assumes inv: "side_inv db" and st: "st = TnFailed \<or> st = TnCanceled" and hit: "\<And>t. hit t \<Longrightarrow> tn_status t = TnRunning"
  shows "side_ok db (db\<lparr>sd_turns := update_where hit (\<lambda>x. x\<lparr>tn_status := st, tn_owner := None, tn_expires := None,
      tn_outcome := Some w, tn_updated := u\<rparr>) (sd_turns db)\<rparr>)"
  by (rule update_turns_ok [OF inv]) (use st in \<open>auto simp: turn_below_def turn_row_ok_def hit\<close>)

lemma recoverExpiredRow_ok: "side_inv db \<Longrightarrow> side_ok db (recoverExpiredRow db chat now)"
  unfolding recoverExpiredRow_def by (rule end_turns_ok) auto

lemma terminate_side_ok:
  assumes "side_inv db" and "terminate_side db i l c out now clock = Inr db'"
  shows "side_ok db db'"
proof -
  from assms(2) obtain t where db': "db' = db\<lparr>sd_turns := update_where (leased i l t)
      (\<lambda>x. x\<lparr>tn_status := (if c then TnCanceled else TnFailed), tn_owner := None, tn_expires := None,
            tn_outcome := Some out, tn_updated := t\<rparr>) (sd_turns db)\<rparr>"
    by (auto simp: terminate_side_def res_simps split: if_split_asm)
  show ?thesis unfolding db' by (rule end_turns_ok [OF assms(1)]) (simp_all add: running_leased)
qed

lemma next_sequence_count:
  assumes "side_inv db"
  shows "next_sequence db chat = int (length (turns_of db chat)) + 1"
proof -
  have "fold max (map int [1..<Suc n]) 0 = int n" for n by (induction n) simp_all
  then show ?thesis using assms by (simp add: next_sequence_def side_inv_def turns_of_def)
qed

lemma begin_transaction_ok:
  assumes inv: "side_inv db" and b: "begin_transaction db i chat now = Inr db'" and chat: "chat \<in> set (map sc_id (sd_chats db))"
  shows "side_ok db db'"
proof -
  let ?db = "recoverExpiredRow db chat now"
  have ok1: "side_ok db ?db" by (rule recoverExpiredRow_ok [OF inv])
  then have inv1: "side_inv ?db" by (simp add: side_ok_def)
  from b obtain e where idle: "\<not> list_ex (\<lambda>t. tn_chat t = chat \<and> tn_status t = TnRunning) (sd_turns ?db)"
    and new: "\<not> list_ex (\<lambda>t. tn_id t = bt_turnId i) (sd_turns ?db)"
    and db': "db' = ?db\<lparr>sd_turns := sd_turns ?db @ [\<lparr>tn_id = bt_turnId i, tn_chat = chat, tn_sequence = next_sequence ?db chat,
             tn_question = bt_question i, tn_answer = None, tn_status = TnRunning,
             tn_provider = mb_provider (bt_binding i), tn_model = mb_model (bt_binding i),
             tn_account = mb_account (bt_binding i), tn_thinking = mb_thinking (bt_binding i),
             tn_owner = Some (bt_ownerId i), tn_epoch = 1, tn_expires = Some e, tn_outcome = None,
             tn_created = now, tn_updated = now\<rparr>]\<rparr>"
    by (auto simp: begin_transaction_def Let_def res_simps requiredInteger_def split: if_split_asm)
  let ?t = "\<lparr>tn_id = bt_turnId i, tn_chat = chat, tn_sequence = next_sequence ?db chat,
             tn_question = bt_question i, tn_answer = None, tn_status = TnRunning,
             tn_provider = mb_provider (bt_binding i), tn_model = mb_model (bt_binding i),
             tn_account = mb_account (bt_binding i), tn_thinking = mb_thinking (bt_binding i),
             tn_owner = Some (bt_ownerId i), tn_epoch = 1, tn_expires = Some e, tn_outcome = None,
             tn_created = now, tn_updated = now\<rparr>"
  have turns: "turns_of db' c = turns_of ?db c @ (if c = chat then [?t] else [])" for c
    by (simp add: db' turns_of_def)
  have "filter (\<lambda>t. tn_status t = TnRunning) (turns_of ?db chat) = []"
    using idle by (auto simp: turns_of_def filter_empty_conv list_ex_iff)
  then have one: "length (filter (\<lambda>t. tn_status t = TnRunning) (turns_of db' c)) \<le> 1" for c
    using inv1 by (auto simp: turns side_inv_def)
  have seq: "map tn_sequence (turns_of db' c) = map int [1..<Suc (length (turns_of db' c))]" for c
    using inv1 next_sequence_count [OF inv1, of chat] by (auto simp: turns side_inv_def)
  have "bt_turnId i \<notin> set (map tn_id (sd_turns ?db))" using new unfolding list_ex_key .
  moreover have "sd_chats ?db = sd_chats db" by (simp add: recoverExpiredRow_def)
  ultimately have "side_inv db'" using inv1 one seq chat unfolding side_inv_def
    by (auto simp: db' turn_row_ok_def)
  moreover have "side_below ?db db'" by (simp add: side_below_def db' grows_refl grows_append)
  ultimately have "side_ok ?db db'" by (simp add: side_ok_def)
  with ok1 show ?thesis by (rule side_ok_trans)
qed

lemma begin_side_ok:
  assumes inv: "side_inv db"
  shows "side_ok db (fst (begin_side db i clock uuid))"
proof (cases "bindR (isoTimestamp clock (bt_now i)) (\<lambda>now. bindR (getOrCreate db (bt_path i) (NowAt now) clock uuid) (\<lambda>out. Inr (now, out)))")
  case (Inl e)
  then show ?thesis using inv by (simp add: begin_side_def side_ok_refl)
next
  case (Inr x)
  then obtain now db1 c where x: "x = (now, db1, c)" and g: "getOrCreate db (bt_path i) (NowAt now) clock uuid = Inr (db1, c)"
    by (auto simp: res_simps)
  note ok1 = getOrCreate_ok [OF inv g]
  show ?thesis
  proof (cases "trim (bt_turnId i) = [] \<or> trim (bt_question i) = [] \<or> trim (bt_ownerId i) = []")
    case True
    then show ?thesis using inv by (simp add: begin_side_def side_ok_refl)
  next
    case False
    show ?thesis
    proof (cases c)
      case (Inl e)
      with Inr x False ok1(1) show ?thesis by (simp add: begin_side_def)
    next
      case chat: (Inr ch)
      have inv1: "side_inv db1" using ok1(1) by (simp add: side_ok_def)
      have mem: "sc_id ch \<in> set (map sc_id (sd_chats db1))" using ok1(2) [OF chat] by simp
      show ?thesis
      proof (cases "begin_transaction db1 i (sc_id ch) now")
        case (Inl e)
        with Inr x False chat ok1(1) show ?thesis by (simp add: begin_side_def)
      next
        case t: (Inr db2)
        from begin_transaction_ok [OF inv1 t mem] ok1(1) have "side_ok db db2" by (blast intro: side_ok_trans)
        with Inr x False chat t show ?thesis by (simp add: begin_side_def)
      qed
    qed
  qed
qed

lemma side_step_ok:
  assumes "side_inv db" and "side_step db x = Inr db'"
  shows "side_ok db db'"
proof (cases x)
  case (SideOpen path now clock uuid)
  with assms show ?thesis by (auto simp: res_simps intro: getOrCreate_ok(1))
next
  case (SideBegin i clock uuid)
  with assms begin_side_ok show ?thesis by auto
next
  case (SideComplete i l a now clock)
  with assms show ?thesis by (auto simp: res_simps intro: complete_side_ok)
next
  case (SideRecover path now clock)
  with assms show ?thesis
    by (auto simp: recoverExpired_side_def res_simps side_ok_refl split: option.split_asm intro: recoverExpiredRow_ok)
qed (use assms in \<open>auto intro: renew_side_ok terminate_side_ok\<close>)

interpretation side_chats: monotone_machine side_step side_inv side_below
  using side_step_ok side_below_refl side_below_trans by unfold_locales (auto simp: side_ok_def)

section \<open>Properties\<close>

definition fresh_sides :: side_db where
  "fresh_sides = \<lparr>sd_chats = [], sd_turns = []\<rparr>"

lemma fresh_sides_inv: "side_inv fresh_sides"
  by (simp add: fresh_sides_def side_inv_def turns_of_def)

text \<open>C31: the side chats keep their invariant under every sequence of operations: a project has one chat,
  its turns are numbered from 1 without gaps, at most one of them is running, exactly the running
  turn holds a lease and exactly a completed turn has an answer.\<close>

theorem side_chat_invariant: "side_inv (exec_ops side_step fresh_sides ops)"
  by (rule side_chats.exec_inv [OF fresh_sides_inv])

lemma begin_transaction_row:
  assumes inv: "side_inv db" and b: "begin_transaction db i chat now = Inr db'"
  shows "\<exists>r. turns_of db' chat = turns_of (recoverExpiredRow db chat now) chat @ [r] \<and> r \<in> set (sd_turns db') \<and> tn_id r = bt_turnId i
    \<and> tn_chat r = chat \<and> tn_status r = TnRunning \<and> tn_epoch r = 1 \<and> tn_owner r = Some (bt_ownerId i)
    \<and> tn_sequence r = int (length (turns_of db' chat))
    \<and> (\<forall>u \<in> set (turns_of (recoverExpiredRow db chat now) chat). tn_status u \<noteq> TnRunning)"
proof -
  let ?db = "recoverExpiredRow db chat now"
  have inv1: "side_inv ?db" using recoverExpiredRow_ok [OF inv] by (simp add: side_ok_def)
  from b obtain e where idle: "\<not> list_ex (\<lambda>t. tn_chat t = chat \<and> tn_status t = TnRunning) (sd_turns ?db)"
    and db': "db' = ?db\<lparr>sd_turns := sd_turns ?db @ [\<lparr>tn_id = bt_turnId i, tn_chat = chat, tn_sequence = next_sequence ?db chat,
             tn_question = bt_question i, tn_answer = None, tn_status = TnRunning,
             tn_provider = mb_provider (bt_binding i), tn_model = mb_model (bt_binding i),
             tn_account = mb_account (bt_binding i), tn_thinking = mb_thinking (bt_binding i),
             tn_owner = Some (bt_ownerId i), tn_epoch = 1, tn_expires = Some e, tn_outcome = None,
             tn_created = now, tn_updated = now\<rparr>]\<rparr>"
    by (auto simp: begin_transaction_def Let_def res_simps requiredInteger_def split: if_split_asm)
  have "\<forall>u \<in> set (turns_of ?db chat). tn_status u \<noteq> TnRunning"
    using idle by (auto simp: turns_of_def list_ex_iff)
  then show ?thesis using next_sequence_count [OF inv1, of chat] by (simp add: db' turns_of_def)
qed

lemma begin_side_cases:
  assumes "begin_side db i clock uuid = (db', Inr t)"
  obtains now db1 ch where "getOrCreate db (bt_path i) (NowAt now) clock uuid = Inr (db1, Inr ch)"
    "begin_transaction db1 i (sc_id ch) now = Inr db'" "findTurn db' (bt_turnId i) = Inr t"
  using assms that unfolding begin_side_def
  by (auto split: if_split_asm sum.split_asm simp: res_simps)

text \<open>Starting a side turn. When it succeeds, the turn runs under its owner's first lease and has the
  next number; it is the only running turn of the chat, every earlier one being finished, if
  necessary because its lease had lapsed.\<close>

theorem side_turn_starts_alone:
  assumes "side_inv db" and "begin_side db i clock uuid = (db', Inr t)"
  shows "sn_turnId t = bt_turnId i \<and> sn_status t = TnRunning \<and> sn_ownerId t = Some (bt_ownerId i) \<and> sn_leaseEpoch t = 1
    \<and> sn_sequence t = int (length (turns_of db' (sn_chatId t)))
    \<and> (\<forall>u \<in> set (turns_of db' (sn_chatId t)). tn_status u = TnRunning \<longrightarrow> tn_id u = bt_turnId i)"
proof -
  from assms(2) obtain now db1 ch where g: "getOrCreate db (bt_path i) (NowAt now) clock uuid = Inr (db1, Inr ch)"
    and b: "begin_transaction db1 i (sc_id ch) now = Inr db'" and f: "findTurn db' (bt_turnId i) = Inr t"
    by (rule begin_side_cases)
  have inv1: "side_inv db1" using getOrCreate_ok(1) [OF assms(1) g] by (simp add: side_ok_def)
  from begin_transaction_row [OF inv1 b] obtain r where
    r: "turns_of db' (sc_id ch) = turns_of (recoverExpiredRow db1 (sc_id ch) now) (sc_id ch) @ [r]" "r \<in> set (sd_turns db')"
      "tn_id r = bt_turnId i" "tn_chat r = sc_id ch" "tn_status r = TnRunning" "tn_epoch r = 1" "tn_owner r = Some (bt_ownerId i)"
      "tn_sequence r = int (length (turns_of db' (sc_id ch)))"
      "\<forall>u \<in> set (turns_of (recoverExpiredRow db1 (sc_id ch) now) (sc_id ch)). tn_status u \<noteq> TnRunning"
    by blast
  have "side_inv db'" using begin_side_ok [OF assms(1), of i clock uuid] assms(2) by (simp add: side_ok_def)
  then have "List.find (\<lambda>t. tn_id t = tn_id r) (sd_turns db') = Some r"
    using r(2) by (intro find_key_unique) (simp_all add: side_inv_def)
  with f r(3) have "mapTurn r = Inr t" by (simp add: findTurn_def)
  then have t: "sn_turnId t = tn_id r" "sn_status t = tn_status r" "sn_ownerId t = tn_owner r" "sn_leaseEpoch t = tn_epoch r"
      "sn_sequence t = tn_sequence r" "sn_chatId t = tn_chat r"
    by (auto simp: mapTurn_def requiredInteger_def res_simps split: if_split_asm)
  have "\<forall>u \<in> set (turns_of db' (sc_id ch)). tn_status u = TnRunning \<longrightarrow> tn_id u = bt_turnId i"
    unfolding r(1) using r(3,9) by auto
  with t r show ?thesis by simp
qed

definition side_input :: begin_turn where
  "side_input = \<lparr>bt_path = ''p'', bt_turnId = ''t1'', bt_question = ''q'', bt_binding = \<lparr>mb_provider = ''a'', mb_model = ''m'',
     mb_account = None, mb_thinking = ''off''\<rparr>, bt_ownerId = ''w'', bt_leaseMs = 60, bt_now = NowAt 5\<rparr>"

lemma side_begins: "\<exists>db' t. begin_side fresh_sides side_input 5 ''u'' = (db', Inr t)"
  by (simp add: begin_side_def side_input_def trim_def js_space_def isoTimestamp_def MAX_DATE_def getOrCreate_def ensure_chat_def
      fresh_sides_def begin_transaction_def recoverExpiredRow_def next_sequence_def requiredInteger_def safe_int_def MAX_SAFE_def
      expiresAt_def to_iso_def findTurn_def mapTurn_def thinking_levels_def)

theorem side_turn_starts_alone_witness:
  "\<exists>db' t. begin_side fresh_sides side_input 5 ''u'' = (db', Inr t) \<and> sn_turnId t = ''t1'' \<and> sn_status t = TnRunning"
proof -
  from side_begins obtain db' t where b: "begin_side fresh_sides side_input 5 ''u'' = (db', Inr t)" by blast
  from side_turn_starts_alone [OF fresh_sides_inv b] b show ?thesis by (auto simp: side_input_def)
qed

text \<open>A finished side turn is final. Whatever operations follow, its row stays as it is, and renewing,
  completing or terminating it fails, with every lease.\<close>

theorem finished_side_turn_final:
  assumes "side_inv db" and "t \<in> set (sd_turns db)" and "tn_status t \<noteq> TnRunning"
  shows "t \<in> set (sd_turns (exec_ops side_step db ops))
    \<and> \<not> is_ok (complete_side (exec_ops side_step db ops) (tn_id t) l answer now clock)
    \<and> \<not> is_ok (renew_side (exec_ops side_step db ops) (tn_id t) l ms now clock)
    \<and> \<not> is_ok (terminate_side (exec_ops side_step db ops) (tn_id t) l canceled why now clock)"
proof -
  let ?db = "exec_ops side_step db ops"
  have "grows turn_below (sd_turns db) (sd_turns ?db)" using side_chats.exec_below [OF assms(1)] by (simp add: side_below_def)
  from grows_mem [OF this assms(2)] obtain u where "u \<in> set (sd_turns ?db)" "turn_below t u" by blast
  then have mem: "t \<in> set (sd_turns ?db)" using assms(3) by (simp add: turn_below_def)
  have uniq: "key_unique tn_id (sd_turns ?db)" using side_chats.exec_inv [OF assms(1)] by (simp add: side_inv_def)
  have none: "\<not> leased (tn_id t) l n x" if "x \<in> set (sd_turns ?db)" for x n
    using key_unique_inj [OF uniq that mem] assms(3) by (auto simp: leased_def)
  then have "count_where (leased (tn_id t) l n) (sd_turns ?db) = 0" "List.find (leased (tn_id t) l n) (sd_turns ?db) = None" for n
    by (simp_all add: count_where_0 find_NoneD)
  with mem show ?thesis
    by (auto simp: is_ok_iff complete_side_def renew_side_def terminate_side_def res_simps)
qed

definition finished_turn :: turn_row where
  "finished_turn = \<lparr>tn_id = ''t1'', tn_chat = ''side_u'', tn_sequence = 1, tn_question = ''q'', tn_answer = Some ''a'',
     tn_status = TnCompleted, tn_provider = ''a'', tn_model = ''m'', tn_account = None, tn_thinking = ''off'', tn_owner = None,
     tn_epoch = 1, tn_expires = None, tn_outcome = Some ''completed'', tn_created = 1, tn_updated = 2\<rparr>"

definition finished_sides :: side_db where
  "finished_sides = \<lparr>sd_chats = [\<lparr>sc_path = ''p'', sc_id = ''side_u'', sc_created = 1, sc_updated = 1\<rparr>], sd_turns = [finished_turn]\<rparr>"

lemma finished_sides_inv: "side_inv finished_sides"
  by (auto simp: finished_sides_def finished_turn_def side_inv_def turns_of_def turn_row_ok_def)

theorem finished_side_turn_final_witness:
  "\<not> is_ok (complete_side (exec_ops side_step finished_sides [SideRecover ''p'' NowDefault 9]) ''t1'' \<lparr>ls_owner = ''w'', ls_epoch = 1\<rparr>
      ''again'' NowDefault 10)"
proof -
  have "finished_turn \<in> set (sd_turns finished_sides)" "tn_status finished_turn \<noteq> TnRunning" "tn_id finished_turn = ''t1''"
    by (simp_all add: finished_sides_def finished_turn_def)
  with finished_side_turn_final [OF finished_sides_inv, of finished_turn] show ?thesis by metis
qed

end
