(* ===== verification/Goal.thy ===== *)
theory Goal
  imports OpStore
begin

text \<open>
  Text that reaches the terminal (\<open>terminal-sanitizer.ts\<close>), the goal of a project
  (\<open>project-goal-text.ts\<close>) and its store (\<open>state-goal-store.ts\<close>, with the checks of the goal table in
  \<open>tui-operation-schema.ts\<close>). Strings are code units below 256, so a code point is one unit.
\<close>

section \<open>Sanitizing\<close>

definition ESC :: char where "ESC = CHR 0x1B"

text \<open>The three \<open>replace\<close> calls: line ends, carriage returns, tabs.\<close>

fun crlf_to_lf :: "string \<Rightarrow> string" where
  "crlf_to_lf [] = []"
| "crlf_to_lf (c # cs) = (if c = CHR 0x0D \<and> cs \<noteq> [] \<and> hd cs = CHR 0x0A then CHR 0x0A # crlf_to_lf (tl cs) else c # crlf_to_lf cs)"

definition normalize_space :: "string \<Rightarrow> string" where
  "normalize_space s = concat (map (\<lambda>c. if c = CHR 0x09 then ''    '' else [c])
     (map (\<lambda>c. if c = CHR 0x0D then CHR 0x0A else c) (crlf_to_lf s)))"

text \<open>After \<open>ESC [\<close>: up to and including a final byte.\<close>

fun skip_csi :: "string \<Rightarrow> string" where
  "skip_csi [] = []"
| "skip_csi (c # cs) = (if (0x40 :: nat) \<le> of_char c \<and> of_char c \<le> (0x7E :: nat) then cs else skip_csi cs)"

text \<open>After \<open>ESC ]\<close> and the like: up to the string terminator, or a bell where it ends the string.\<close>

fun skip_string :: "bool \<Rightarrow> string \<Rightarrow> string" where
  "skip_string bell [] = []"
| "skip_string bell (c # cs) =
     (if bell \<and> c = CHR 0x07 then cs
      else if c = ESC \<and> cs \<noteq> [] \<and> hd cs = CHR 0x5C then tl cs
      else skip_string bell cs)"

definition control :: "char \<Rightarrow> bool" where
  "control c = ((of_char c < (0x20 :: nat) \<and> c \<noteq> CHR 0x0A) \<or> of_char c = (0x7F :: nat)
     \<or> ((0x80 :: nat) \<le> of_char c \<and> of_char c \<le> (0x9F :: nat)))"

lemma skip_csi_length: "length (skip_csi cs) \<le> length cs"
  by (induction cs) (auto intro: le_SucI)

lemma skip_string_length: "length (skip_string b cs) \<le> length cs"
  by (induction b cs rule: skip_string.induct) (auto intro: le_SucI)

function sanitize_loop :: "string \<Rightarrow> string" where
  "sanitize_loop s =
     (case s of
        [] \<Rightarrow> []
      | c # cs \<Rightarrow>
          if c = ESC then
            (case cs of
               [] \<Rightarrow> []
             | n # rest \<Rightarrow>
                 if n = CHR ''['' then sanitize_loop (skip_csi rest)
                 else if n \<in> set '']PX^_'' then sanitize_loop (skip_string (n = CHR '']'') rest)
                 else sanitize_loop rest)
          else if control c then sanitize_loop cs
          else c # sanitize_loop cs)"
  by auto
termination
  by (relation "measure length") (auto simp: less_Suc_eq_le le_SucI skip_csi_length skip_string_length)

declare sanitize_loop.simps [simp del]

definition sanitizeTerminalText :: "string \<Rightarrow> string" where
  "sanitizeTerminalText s = sanitize_loop (normalize_space s)"

text \<open>The characters that may reach the terminal: the line feed and the graphic ones of Latin-1.\<close>

definition printable :: "char \<Rightarrow> bool" where
  "printable c = (c = CHR 0x0A \<or> of_char c \<in> {32..<127 :: nat} \<or> (160 :: nat) \<le> of_char c)"

definition clean :: "string \<Rightarrow> bool" where
  "clean s = list_all printable s"

lemma printable_iff: "printable c \<longleftrightarrow> \<not> control c"
  by (auto simp: printable_def control_def)

lemma clean_control: "clean s \<longleftrightarrow> list_all (\<lambda>c. \<not> control c) s"
  by (simp add: clean_def list_all_iff printable_iff)

lemma control_ESC: "control ESC"
  by (simp add: control_def ESC_def)

lemma sanitize_loop_clean: "clean (sanitize_loop s)"
proof (induction s rule: sanitize_loop.induct)
  case (1 s)
  then show ?case
    by (subst sanitize_loop.simps) (auto simp: clean_control split: list.split)
qed

lemma sanitize_loop_id: "clean s \<Longrightarrow> sanitize_loop s = s"
proof (induction s)
  case (Cons c s)
  then show ?case using control_ESC by (subst sanitize_loop.simps) (auto simp: clean_control)
qed (simp add: sanitize_loop.simps)

lemma crlf_to_lf_id: "CHR 0x0D \<notin> set s \<Longrightarrow> crlf_to_lf s = s"
  by (induction s rule: crlf_to_lf.induct) auto

lemma normalize_space_id:
  assumes "CHR 0x0D \<notin> set s" and "CHR 0x09 \<notin> set s"
  shows "normalize_space s = s"
proof -
  have "map (\<lambda>c. if c = CHR 0x0D then CHR 0x0A else c) s = s" using assms(1) by (induction s) auto
  moreover have "concat (map (\<lambda>c. if c = CHR 0x09 then ''    '' else [c]) s) = s" using assms(2) by (induction s) auto
  ultimately show ?thesis by (simp add: normalize_space_def crlf_to_lf_id [OF assms(1)])
qed

lemma sanitize_clean_id:
  assumes "clean s"
  shows "sanitizeTerminalText s = s"
proof -
  have "control (CHR 0x0D)" "control (CHR 0x09)" by (simp_all add: control_def)
  then have "CHR 0x0D \<notin> set s" "CHR 0x09 \<notin> set s" using assms by (auto simp: clean_control list_all_iff)
  then show ?thesis by (simp add: sanitizeTerminalText_def normalize_space_id sanitize_loop_id [OF assms])
qed

section \<open>Goal texts\<close>

definition MAX_PROJECT_GOAL_CHARACTERS :: nat where "MAX_PROJECT_GOAL_CHARACTERS = 500"

text \<open>\<open>text.replace(/\s+/gu, " ")\<close>.\<close>

fun collapse :: "bool \<Rightarrow> string \<Rightarrow> string" where
  "collapse after [] = []"
| "collapse after (c # cs) =
     (if js_space c then (if after then collapse True cs else CHR '' '' # collapse True cs)
      else c # collapse False cs)"

definition normalizeProjectGoalText :: "string \<Rightarrow> string res" where
  "normalizeProjectGoalText v =
     (let normalized = trim (collapse False (sanitizeTerminalText v)) in
      if MAX_PROJECT_GOAL_CHARACTERS < length normalized then Inl RangeError else Inr normalized)"

text \<open>A text in normal form: spaces are single blanks between words.\<close>

fun single_spaced :: "bool \<Rightarrow> string \<Rightarrow> bool" where
  "single_spaced after [] = True"
| "single_spaced after (c # cs) =
     (if js_space c then c = CHR '' '' \<and> \<not> after \<and> single_spaced True cs else single_spaced False cs)"

lemma js_space_blank [simp]: "js_space (CHR '' '')"
  by (simp add: js_space_def)

lemma collapse_single: "single_spaced after (collapse after s)"
  by (induction after s rule: collapse.induct) auto

lemma collapse_id: "single_spaced after s \<Longrightarrow> collapse after s = s"
  by (induction after s rule: collapse.induct) (auto split: if_split_asm)

lemma single_spaced_weaken: "single_spaced b s \<Longrightarrow> single_spaced False s"
  by (cases s) (auto split: if_split_asm)

lemma single_spaced_tail: "single_spaced b (xs @ ys) \<Longrightarrow> single_spaced False ys"
  by (induction b xs rule: single_spaced.induct) (auto split: if_split_asm intro: single_spaced_weaken dest: single_spaced_weaken)

lemma single_spaced_prefix: "single_spaced b (xs @ ys) \<Longrightarrow> single_spaced b xs"
  by (induction b xs rule: single_spaced.induct) (auto split: if_split_asm)

lemma trim_part: "\<exists>xs ys. s = xs @ trim s @ ys"
proof -
  let ?l = "dropWhile js_space s"
  have "s = takeWhile js_space s @ ?l" by simp
  moreover have "?l = trim s @ rev (takeWhile js_space (rev ?l))"
    unfolding trim_def by (metis rev_append rev_rev_ident takeWhile_dropWhile_id)
  ultimately show ?thesis by metis
qed

lemma trim_single_spaced: "single_spaced False s \<Longrightarrow> single_spaced False (trim s)"
  using trim_part [of s] single_spaced_tail single_spaced_prefix by metis

lemma dropWhile_rev_dropWhile: "dropWhile p (rev (dropWhile p (rev (dropWhile p s)))) = rev (dropWhile p (rev (dropWhile p s)))"
proof (cases "dropWhile p s")
  case (Cons c cs)
  then have "\<not> p c" by (metis hd_dropWhile list.sel(1) list.simps(3))
  have "\<exists>ys. rev (dropWhile p (rev (c # cs))) = c # ys"
    using \<open>\<not> p c\<close> by (auto simp: dropWhile_append intro: exI [of _ "rev _"])
  then show ?thesis using Cons \<open>\<not> p c\<close> by auto
next
  case Nil
  show ?thesis unfolding Nil by simp
qed

lemma trim_trim: "trim (trim s) = trim s"
  by (simp add: trim_def dropWhile_rev_dropWhile)

lemma trim_subset: "set (trim s) \<subseteq> set s"
  using trim_part [of s] by (metis Un_iff set_append subsetI)

lemma collapse_subset: "set (collapse b s) \<subseteq> insert (CHR '' '') (set s)"
  by (induction b s rule: collapse.induct) auto

lemma collapse_keeps_no_space: "c \<in> set (collapse b s) \<Longrightarrow> js_space c \<Longrightarrow> c = CHR '' ''"
  by (induction b s rule: collapse.induct) (auto split: if_split_asm)

lemma normalized_clean:
  assumes "normalizeProjectGoalText v = Inr t"
  shows "clean t" and "length t \<le> 500" and "single_spaced False t" and "trim t = t"
proof -
  let ?c = "collapse False (sanitizeTerminalText v)"
  from assms have t: "t = trim ?c" and len: "length t \<le> 500"
    by (auto simp: normalizeProjectGoalText_def Let_def MAX_PROJECT_GOAL_CHARACTERS_def split: if_split_asm)
  show "length t \<le> 500" by (rule len)
  show "single_spaced False t" unfolding t by (rule trim_single_spaced [OF collapse_single])
  show "trim t = t" unfolding t by (rule trim_trim)
  have "clean (sanitizeTerminalText v)" by (simp add: sanitizeTerminalText_def sanitize_loop_clean)
  moreover have "\<not> control (CHR '' '')" by (simp add: control_def)
  ultimately have "\<not> control c" if "c \<in> set ?c" for c
    using that collapse_subset [of False "sanitizeTerminalText v"] by (auto simp: clean_control list_all_iff)
  then show "clean t" unfolding t clean_control list_all_iff using trim_subset [of ?c] by blast
qed

lemma normalize_idempotent:
  assumes "normalizeProjectGoalText v = Inr t"
  shows "normalizeProjectGoalText t = Inr t"
  using normalized_clean [OF assms]
  by (simp add: normalizeProjectGoalText_def sanitize_clean_id collapse_id MAX_PROJECT_GOAL_CHARACTERS_def)

section \<open>The store\<close>

datatype goal_status = GoalActive | GoalCompleted

record project_goal =
  pg_path :: string
  pg_text :: string
  pg_status :: goal_status
  pg_updated :: int

definition parseGoalRow :: "project_goal option \<Rightarrow> project_goal option" where
  "parseGoalRow row =
     (case row of
        None \<Rightarrow> None
      | Some g \<Rightarrow>
          if CHR 0x00 \<in> set (pg_text g) \<or> 2000 < utf8_length (pg_text g) then None
          else case normalizeProjectGoalText (pg_text g) of
            Inl _ \<Rightarrow> None
          | Inr t \<Rightarrow> if t = [] then None else Some (g\<lparr>pg_text := t\<rparr>))"

definition find_goal :: "project_goal list \<Rightarrow> string \<Rightarrow> project_goal option" where
  "find_goal db path = parseGoalRow (List.find (\<lambda>g. pg_path g = path) db)"

text \<open>The check of the goal table on its text.\<close>

definition goal_text_allowed :: "string \<Rightarrow> bool" where
  "goal_text_allowed t = (1 \<le> length t \<and> length t \<le> 500 \<and> CHR 0x00 \<notin> set t)"

definition set_goal :: "project_goal list \<Rightarrow> string \<Rightarrow> string \<Rightarrow> time_arg \<Rightarrow> int \<Rightarrow> (project_goal list \<times> project_goal) res" where
  "set_goal db path v now clock =
     bindR (normalizeProjectGoalText v) (\<lambda>t.
     if t = [] then Inl (StateGoalError ''Project goal text must not be empty'')
     else bindR (isoTimestamp clock now) (\<lambda>updated.
       let goal = \<lparr>pg_path = path, pg_text = t, pg_status = GoalActive, pg_updated = updated\<rparr> in
       if \<not> goal_text_allowed t then Inl (SqlConstraint ''invalid project goal text'')
       else Inr (if list_ex (\<lambda>g. pg_path g = path) db
                   then update_where (\<lambda>g. pg_path g = path) (\<lambda>_. goal) db
                 else db @ [goal], goal)))"

definition complete_goal :: "project_goal list \<Rightarrow> string \<Rightarrow> time_arg \<Rightarrow> int \<Rightarrow> (project_goal list \<times> project_goal option) res" where
  "complete_goal db path now clock =
     bindR (isoTimestamp clock now) (\<lambda>updated.
     let hit = (\<lambda>g. pg_path g = path \<and> pg_status g = GoalActive);
         db1 = update_where hit (\<lambda>g. g\<lparr>pg_status := GoalCompleted, pg_updated := updated\<rparr>) db in
     Inr (db1, parseGoalRow (map_option (\<lambda>g. g\<lparr>pg_status := GoalCompleted, pg_updated := updated\<rparr>) (List.find hit db))))"

definition clear_goal :: "project_goal list \<Rightarrow> string \<Rightarrow> project_goal list" where
  "clear_goal db path = filter (\<lambda>g. pg_path g \<noteq> path) db"

section \<open>Properties\<close>

text \<open>Sanitized text is safe for the terminal and stable. It holds no control character but the line
  feed, in particular no escape, and sanitizing it again changes nothing.\<close>

theorem sanitized_text_safe:
  "clean (sanitizeTerminalText s) \<and> sanitizeTerminalText (sanitizeTerminalText s) = sanitizeTerminalText s"
proof -
  have c: "clean (sanitizeTerminalText s)" by (simp add: sanitizeTerminalText_def sanitize_loop_clean)
  then show ?thesis by (simp add: sanitize_clean_id)
qed

lemma utf8_length_le: "utf8_length s \<le> 2 * length s"
  by (induction s) (auto simp: utf8_length_def)

lemma normalized_goal_allowed:
  assumes "normalizeProjectGoalText v = Inr t" and "t \<noteq> []"
  shows "goal_text_allowed t" and "CHR 0x00 \<notin> set t" and "utf8_length t \<le> 2000"
proof -
  note n = normalized_clean [OF assms(1)]
  have "control (CHR 0x00)" by (simp add: control_def)
  with n(1) show nul: "CHR 0x00 \<notin> set t" by (auto simp: clean_control list_all_iff)
  with n(2) assms(2) show "goal_text_allowed t" by (cases t) (auto simp: goal_text_allowed_def)
  show "utf8_length t \<le> 2000" using utf8_length_le [of t] n(2) by simp
qed

lemma find_goal_update:
  "p \<noteq> path \<Longrightarrow> pg_path goal = path \<Longrightarrow>
     List.find (\<lambda>g. pg_path g = p) (update_where (\<lambda>g. pg_path g = path) (\<lambda>_. goal) db) = List.find (\<lambda>g. pg_path g = p) db"
  by (induction db) auto

lemma find_goal_set:
  assumes "pg_path goal = path"
  shows "List.find (\<lambda>g. pg_path g = p) (if list_ex (\<lambda>g. pg_path g = path) db
      then update_where (\<lambda>g. pg_path g = path) (\<lambda>_. goal) db else db @ [goal])
    = (if p = path then Some goal else List.find (\<lambda>g. pg_path g = p) db)"
proof (cases "p = path")
  case True
  then show ?thesis using assms by (induction db) auto
next
  case False
  moreover have "List.find (\<lambda>g. pg_path g = p) (db @ [goal]) = List.find (\<lambda>g. pg_path g = p) db"
    using False assms by (induction db) auto
  ultimately show ?thesis using find_goal_update [OF False assms] by simp
qed

text \<open>A goal reads back as it was set. Setting a goal never violates the table's check; it fails only
  on an empty or too long text or a bad instant. Afterwards the project's goal is the one
  returned, active, with a text in normal form of at most 500 characters, and the goals of other
  projects are unchanged.\<close>

theorem goal_reads_back:
  assumes "set_goal db path v now clock = Inr (db', g)"
  shows "find_goal db' path = Some g \<and> pg_status g = GoalActive \<and> normalizeProjectGoalText v = Inr (pg_text g)
    \<and> normalizeProjectGoalText (pg_text g) = Inr (pg_text g) \<and> length (pg_text g) \<le> 500 \<and> clean (pg_text g)
    \<and> (p \<noteq> path \<longrightarrow> find_goal db' p = find_goal db p)"
proof -
  from assms obtain t u where n: "normalizeProjectGoalText v = Inr t" and t: "t \<noteq> []"
    and g: "g = \<lparr>pg_path = path, pg_text = t, pg_status = GoalActive, pg_updated = u\<rparr>"
    and db': "db' = (if list_ex (\<lambda>g. pg_path g = path) db then update_where (\<lambda>g. pg_path g = path) (\<lambda>_. g) db else db @ [g])"
    unfolding set_goal_def Let_def bindR_Inr_iff if_Inl_Inr by auto
  have find: "List.find (\<lambda>g. pg_path g = q) db' = (if q = path then Some g else List.find (\<lambda>g. pg_path g = q) db)" for q
    unfolding db' by (rule find_goal_set) (simp add: g)
  have "parseGoalRow (Some g) = Some g"
    using normalized_goal_allowed [OF n t] normalize_idempotent [OF n] t by (simp add: parseGoalRow_def g)
  then show ?thesis
    using find [of path] find [of p] normalized_clean [OF n] normalize_idempotent [OF n] n by (simp add: find_goal_def g)
qed

lemma sample_goal: "\<exists>db g. set_goal [] ''p'' ''ship it'' (NowAt 3) 3 = Inr (db, g)"
proof -
  have "clean ''ship it''" by (simp add: clean_control control_def)
  then have "normalizeProjectGoalText ''ship it'' = Inr ''ship it''"
    by (simp add: normalizeProjectGoalText_def sanitize_clean_id js_space_def trim_def MAX_PROJECT_GOAL_CHARACTERS_def)
  then show ?thesis by (simp add: set_goal_def Let_def isoTimestamp_def MAX_DATE_def goal_text_allowed_def)
qed

theorem goal_reads_back_witness: "\<exists>db g. set_goal [] ''p'' ''ship it'' (NowAt 3) 3 = Inr (db, g) \<and> find_goal db ''p'' = Some g"
proof -
  from sample_goal obtain db g where "set_goal [] ''p'' ''ship it'' (NowAt 3) 3 = Inr (db, g)" by blast
  with goal_reads_back [OF this] show ?thesis by blast
qed

end
