(* ===== verification/CacheWarm.thy ===== *)
theory CacheWarm
  imports Prelude Complex_Main
begin

text \<open>
  The prompt-cache warmer of \<open>packages/3xhaustpi/src/cache-warm-controller.ts\<close>. The controller
  is the state of the class; its asynchronous parts are events: the scheduled timer fires, and a
  warming request that is in flight resolves or rejects. The warming request itself is not part of
  the program text, so its outcome is the event's argument. \<open>delayFor\<close> is the option of that
  name, and every event carries the reading of the clock. The numbers are rationals: the code
  compares, adds and copies them. The snapshots given to \<open>onChange\<close> are logged.
\<close>

section \<open>Delays\<close>

definition DEFAULT_DELAYS_MS :: "string \<Rightarrow> rat option" where
  "DEFAULT_DELAYS_MS =
     [''openai-codex'' \<mapsto> 270000, ''anthropic'' \<mapsto> 3300000, ''openai'' \<mapsto> 82800000]"

text \<open>\<open>number\<close> is \<open>Number(value)\<close>, with \<open>None\<close> for \<open>NaN\<close> and the infinities.\<close>

definition positiveSeconds :: "(string \<Rightarrow> rat option) \<Rightarrow> string option \<Rightarrow> rat option" where
  "positiveSeconds number value =
     (case value of
        None \<Rightarrow> None
      | Some v \<Rightarrow>
          if v = [] then None
          else (case number v of None \<Rightarrow> None | Some seconds \<Rightarrow> if seconds > 0 then Some seconds else None))"

definition cacheWarmDelayMs :: "(string \<Rightarrow> rat option) \<Rightarrow> string \<Rightarrow> (string \<Rightarrow> string option) \<Rightarrow> rat option" where
  "cacheWarmDelayMs number provider env =
     (case positiveSeconds number
         (case env ''X3HAUSTPI_CACHE_WARM_SECONDS'' of
            None \<Rightarrow> env ''PI_PROMPT_CACHE_SAFE_WAIT_SECONDS'' | Some v \<Rightarrow> Some v) of
        Some override \<Rightarrow> Some (override * 1000)
      | None \<Rightarrow> DEFAULT_DELAYS_MS provider)"

section \<open>The controller\<close>

record warm_target =
  wt_projectRoot :: string
  wt_sessionId :: string
  wt_provider :: string
  wt_model :: string
  wt_accountId :: "string option"
  wt_thinkingLevel :: string

record warm_result =
  wr_durationMs :: rat
  wr_contextTokens :: int
  wr_cacheRead :: int
  wr_estimatedSavingsUsd :: "rat option"

datatype warm_state = WOff | WWaiting | WScheduled | WWarming | WFresh | WRetry | WUnavailable

record warm_latest =
  wl_contextTokens :: "int option"
  wl_estimatedSavingsUsd :: "rat option"
  wl_lastDurationMs :: "rat option"
  wl_lastError :: "string option"

record warm_snapshot =
  sn_enabled :: bool
  sn_state :: warm_state
  sn_iteration :: nat
  sn_nextWakeAt :: "rat option"
  sn_latest :: warm_latest

text \<open>A call of \<open>runWake\<close> that awaits its request: its controller, generation and target.\<close>

record wake =
  wk_id :: nat
  wk_generation :: nat
  wk_target :: warm_target
  wk_aborted :: bool

record controller =
  cw_enabled :: bool
  cw_state :: warm_state
  cw_iteration :: nat
  cw_target :: "warm_target option"
  cw_timer :: bool
  cw_active :: "nat option"
  cw_wakes :: "wake list"
  cw_nextId :: nat
  cw_generation :: nat
  cw_suspended :: bool
  cw_latest :: warm_latest
  cw_nextWakeAt :: "rat option"
  cw_emitted :: "warm_snapshot list"

definition no_latest :: warm_latest where
  "no_latest = \<lparr>wl_contextTokens = None, wl_estimatedSavingsUsd = None, wl_lastDurationMs = None, wl_lastError = None\<rparr>"

definition new_controller :: "bool \<Rightarrow> controller" where
  "new_controller enabled =
     \<lparr>cw_enabled = enabled, cw_state = (if enabled then WWaiting else WOff), cw_iteration = 0, cw_target = None,
      cw_timer = False, cw_active = None, cw_wakes = [], cw_nextId = 0, cw_generation = 0, cw_suspended = False,
      cw_latest = no_latest, cw_nextWakeAt = None, cw_emitted = []\<rparr>"

definition snapshot_of :: "controller \<Rightarrow> warm_snapshot" where
  "snapshot_of c =
     \<lparr>sn_enabled = cw_enabled c, sn_state = cw_state c, sn_iteration = cw_iteration c,
      sn_nextWakeAt = cw_nextWakeAt c, sn_latest = cw_latest c\<rparr>"

definition emit :: "controller \<Rightarrow> controller" where
  "emit c = c\<lparr>cw_emitted := cw_emitted c @ [snapshot_of c]\<rparr>"

definition cancelScheduled :: "controller \<Rightarrow> controller" where
  "cancelScheduled c = c\<lparr>cw_timer := False, cw_nextWakeAt := None\<rparr>"

text \<open>\<open>this.activeController?.abort(...)\<close>: the signal of the wake that holds that controller.\<close>

definition abort_active :: "controller \<Rightarrow> controller" where
  "abort_active c =
     c\<lparr>cw_wakes := update_where (\<lambda>w. cw_active c = Some (wk_id w)) (\<lambda>w. w\<lparr>wk_aborted := True\<rparr>) (cw_wakes c)\<rparr>"

definition sameTarget :: "controller \<Rightarrow> warm_target option \<Rightarrow> bool" where
  "sameTarget c t = (cw_target c = t)"

definition scheduleNext :: "(string \<Rightarrow> rat option) \<Rightarrow> rat \<Rightarrow> warm_state \<Rightarrow> controller \<Rightarrow> controller" where
  "scheduleNext delayFor now state c0 =
     (let c = cancelScheduled c0 in
      if \<not> cw_enabled c \<or> cw_suspended c
        then emit (c\<lparr>cw_state := if cw_enabled c then WWaiting else WOff\<rparr>)
      else case cw_target c of
        None \<Rightarrow> emit (c\<lparr>cw_state := WWaiting\<rparr>)
      | Some t \<Rightarrow>
          (case delayFor (wt_provider t) of
             None \<Rightarrow> emit (c\<lparr>cw_state := WUnavailable\<rparr>)
           | Some delayMs \<Rightarrow> emit (c\<lparr>cw_nextWakeAt := Some (now + delayMs), cw_state := state, cw_timer := True\<rparr>)))"

definition setEnabled :: "(string \<Rightarrow> rat option) \<Rightarrow> rat \<Rightarrow> bool \<Rightarrow> controller \<Rightarrow> controller" where
  "setEnabled delayFor now enabled c =
     (if cw_enabled c = enabled then c
      else if \<not> enabled
        then emit ((abort_active (cancelScheduled (c\<lparr>cw_enabled := enabled\<rparr>)))\<lparr>cw_state := WOff\<rparr>)
      else scheduleNext delayFor now WScheduled (c\<lparr>cw_enabled := enabled\<rparr>))"

definition setTarget :: "(string \<Rightarrow> rat option) \<Rightarrow> rat \<Rightarrow> warm_target option \<Rightarrow> controller \<Rightarrow> controller" where
  "setTarget delayFor now t c =
     (let c1 = (if sameTarget c t then c
                else (abort_active (c\<lparr>cw_generation := cw_generation c + 1\<rparr>))\<lparr>cw_iteration := 0, cw_latest := no_latest\<rparr>);
          c2 = c1\<lparr>cw_target := t\<rparr> in
      if cw_enabled c2 then scheduleNext delayFor now WScheduled c2 else c2)"

definition reset :: "bool \<Rightarrow> controller \<Rightarrow> controller" where
  "reset enabled c =
     emit ((abort_active (cancelScheduled c))
       \<lparr>cw_enabled := enabled, cw_generation := cw_generation c + 1, cw_target := None, cw_iteration := 0,
        cw_suspended := False, cw_latest := no_latest, cw_state := if enabled then WWaiting else WOff\<rparr>)"

definition suspend :: "controller \<Rightarrow> controller" where
  "suspend c =
     (let c1 = abort_active (cancelScheduled (c\<lparr>cw_suspended := True\<rparr>)) in
      if cw_enabled c1 then emit (c1\<lparr>cw_state := WWaiting\<rparr>) else c1)"

definition resume :: "(string \<Rightarrow> rat option) \<Rightarrow> rat \<Rightarrow> controller \<Rightarrow> controller" where
  "resume delayFor now c =
     (let c1 = c\<lparr>cw_suspended := False\<rparr> in
      if cw_enabled c1 then scheduleNext delayFor now WScheduled c1 else c1)"

text \<open>\<open>runWake\<close> up to its \<open>await\<close>, as the timer runs it.\<close>

definition runWake :: "controller \<Rightarrow> controller" where
  "runWake c =
     (case cw_target c of
        None \<Rightarrow> c
      | Some t \<Rightarrow>
          if \<not> cw_enabled c \<or> cw_suspended c then c
          else emit (c\<lparr>cw_active := Some (cw_nextId c), cw_nextId := cw_nextId c + 1, cw_state := WWarming,
            cw_wakes := cw_wakes c @ [\<lparr>wk_id = cw_nextId c, wk_generation = cw_generation c, wk_target = t, wk_aborted = False\<rparr>]\<rparr>))"

definition timer_fires :: "controller \<Rightarrow> controller" where
  "timer_fires c = runWake (c\<lparr>cw_timer := False, cw_nextWakeAt := None\<rparr>)"

text \<open>The \<open>finally\<close> block; the wake is no longer in flight.\<close>

definition wake_done :: "wake \<Rightarrow> controller \<Rightarrow> controller" where
  "wake_done w c =
     c\<lparr>cw_active := (if cw_active c = Some (wk_id w) then None else cw_active c),
       cw_wakes := filter (\<lambda>v. wk_id v \<noteq> wk_id w) (cw_wakes c)\<rparr>"

definition miss_latest :: "warm_result \<Rightarrow> warm_latest" where
  "miss_latest r =
     \<lparr>wl_contextTokens = Some (wr_contextTokens r), wl_estimatedSavingsUsd = None,
      wl_lastDurationMs = Some (wr_durationMs r),
      wl_lastError = Some (if wr_cacheRead r \<le> 0 then ''Cache miss'' else ''Projected savings below $0.01'')\<rparr>"

definition hit_latest :: "warm_result \<Rightarrow> warm_latest" where
  "hit_latest r =
     \<lparr>wl_contextTokens = Some (wr_contextTokens r), wl_estimatedSavingsUsd = wr_estimatedSavingsUsd r,
      wl_lastDurationMs = Some (wr_durationMs r), wl_lastError = None\<rparr>"

definition worthwhile :: "warm_result \<Rightarrow> bool" where
  "worthwhile r = (0 < wr_cacheRead r \<and> 1 / 100 \<le> (case wr_estimatedSavingsUsd r of None \<Rightarrow> 0 | Some u \<Rightarrow> u))"

definition wake_resolves :: "(string \<Rightarrow> rat option) \<Rightarrow> rat \<Rightarrow> wake \<Rightarrow> warm_result \<Rightarrow> controller \<Rightarrow> controller" where
  "wake_resolves delayFor now w r c =
     wake_done w
       (if \<not> cw_enabled c \<or> cw_suspended c \<or> wk_aborted w \<or> wk_generation w \<noteq> cw_generation c then c
        else if \<not> worthwhile r then emit (c\<lparr>cw_latest := miss_latest r, cw_state := WUnavailable\<rparr>)
        else scheduleNext delayFor now WFresh
          (c\<lparr>cw_iteration := cw_iteration c + 1, cw_latest := hit_latest r\<rparr>))"

definition wake_rejects :: "(string \<Rightarrow> rat option) \<Rightarrow> rat \<Rightarrow> wake \<Rightarrow> string \<Rightarrow> controller \<Rightarrow> controller" where
  "wake_rejects delayFor now w message c =
     wake_done w
       (if \<not> cw_enabled c \<or> wk_aborted w then c
        else scheduleNext delayFor now WRetry (c\<lparr>cw_latest := no_latest\<lparr>wl_lastError := Some message\<rparr>\<rparr>))"

section \<open>Events\<close>

datatype warm_event =
    SetEnabled bool
  | SetTarget "warm_target option"
  | Reset bool
  | Suspend
  | Resume
  | TimerFires
  | WarmResolves nat warm_result
  | WarmRejects nat string

definition in_flight :: "controller \<Rightarrow> nat \<Rightarrow> wake option" where
  "in_flight c i = List.find (\<lambda>w. wk_id w = i) (cw_wakes c)"

text \<open>Only a scheduled timer fires and only a request in flight settles.\<close>

fun warm_step :: "(string \<Rightarrow> rat option) \<Rightarrow> controller \<Rightarrow> rat \<times> warm_event \<Rightarrow> controller res" where
  "warm_step delayFor c (now, SetEnabled b) = Inr (setEnabled delayFor now b c)"
| "warm_step delayFor c (now, SetTarget t) = Inr (setTarget delayFor now t c)"
| "warm_step delayFor c (now, Reset b) = Inr (reset b c)"
| "warm_step delayFor c (now, Suspend) = Inr (suspend c)"
| "warm_step delayFor c (now, Resume) = Inr (resume delayFor now c)"
| "warm_step delayFor c (now, TimerFires) =
     (if cw_timer c then Inr (timer_fires c) else Inl (Error ''no timer is scheduled''))"
| "warm_step delayFor c (now, WarmResolves i r) =
     (case in_flight c i of
        None \<Rightarrow> Inl (Error ''no such request is in flight'')
      | Some w \<Rightarrow> Inr (wake_resolves delayFor now w r c))"
| "warm_step delayFor c (now, WarmRejects i m) =
     (case in_flight c i of
        None \<Rightarrow> Inl (Error ''no such request is in flight'')
      | Some w \<Rightarrow> Inr (wake_rejects delayFor now w m c))"

section \<open>The invariant\<close>

definition holds_active :: "controller \<Rightarrow> wake \<Rightarrow> bool" where
  "holds_active c w = (w \<in> set (cw_wakes c) \<and> cw_active c = Some (wk_id w))"

text \<open>The requests in flight have their own controllers, and the active one is among them.\<close>

definition wakes_ok :: "controller \<Rightarrow> bool" where
  "wakes_ok c = (key_unique wk_id (cw_wakes c)
     \<and> (\<forall>w \<in> set (cw_wakes c). wk_id w < cw_nextId c \<and> wk_generation w \<le> cw_generation c)
     \<and> (\<forall>i. cw_active c = Some i \<longrightarrow> i \<in> wk_id ` set (cw_wakes c)))"

text \<open>
  An active request that was not aborted belongs to the present target, and the controller wants it.
\<close>

definition active_ok :: "controller \<Rightarrow> bool" where
  "active_ok c = (\<forall>w. holds_active c w \<and> \<not> wk_aborted w \<longrightarrow>
     cw_enabled c \<and> \<not> cw_suspended c \<and> wk_generation w = cw_generation c \<and> cw_target c = Some (wk_target w))"

definition schedule_ok :: "controller \<Rightarrow> bool" where
  "schedule_ok c = ((cw_state c = WOff \<longleftrightarrow> \<not> cw_enabled c)
     \<and> (cw_timer c \<longleftrightarrow> cw_nextWakeAt c \<noteq> None)
     \<and> (cw_timer c \<longrightarrow> cw_enabled c \<and> \<not> cw_suspended c \<and> cw_target c \<noteq> None)
     \<and> (cw_state c \<in> {WScheduled, WFresh, WRetry} \<longrightarrow> cw_timer c)
     \<and> (cw_state c = WWarming \<longrightarrow> (\<exists>w. holds_active c w \<and> \<not> wk_aborted w)))"

text \<open>While the controller is enabled, the last snapshot its observer got is the present one.\<close>

definition observed :: "controller \<Rightarrow> bool" where
  "observed c = (cw_enabled c \<and> cw_emitted c \<noteq> [] \<longrightarrow> last (cw_emitted c) = snapshot_of c)"

definition warm_inv :: "controller \<Rightarrow> bool" where
  "warm_inv c = (wakes_ok c \<and> active_ok c \<and> schedule_ok c \<and> observed c)"

lemma warm_invI: "wakes_ok c \<Longrightarrow> active_ok c \<Longrightarrow> schedule_ok c \<Longrightarrow> observed c \<Longrightarrow> warm_inv c"
  by (simp add: warm_inv_def)

lemma new_controller_inv: "warm_inv (new_controller b)"
  by (simp add: warm_inv_def wakes_ok_def active_ok_def schedule_ok_def observed_def new_controller_def holds_active_def)

text \<open>The fields the requests in flight do not depend on.\<close>

lemma holds_active_frame [simp]:
  "holds_active (c\<lparr>cw_enabled := a\<rparr>) = holds_active c"
  "holds_active (c\<lparr>cw_state := st\<rparr>) = holds_active c"
  "holds_active (c\<lparr>cw_iteration := n\<rparr>) = holds_active c"
  "holds_active (c\<lparr>cw_target := t\<rparr>) = holds_active c"
  "holds_active (c\<lparr>cw_timer := a\<rparr>) = holds_active c"
  "holds_active (c\<lparr>cw_generation := n\<rparr>) = holds_active c"
  "holds_active (c\<lparr>cw_suspended := a\<rparr>) = holds_active c"
  "holds_active (c\<lparr>cw_latest := l\<rparr>) = holds_active c"
  "holds_active (c\<lparr>cw_nextWakeAt := d\<rparr>) = holds_active c"
  "holds_active (c\<lparr>cw_emitted := e\<rparr>) = holds_active c"
  by (simp_all add: fun_eq_iff holds_active_def)

lemma wakes_ok_frame [simp]:
  "wakes_ok (c\<lparr>cw_enabled := a\<rparr>) = wakes_ok c"
  "wakes_ok (c\<lparr>cw_state := st\<rparr>) = wakes_ok c"
  "wakes_ok (c\<lparr>cw_iteration := n\<rparr>) = wakes_ok c"
  "wakes_ok (c\<lparr>cw_target := t\<rparr>) = wakes_ok c"
  "wakes_ok (c\<lparr>cw_timer := a\<rparr>) = wakes_ok c"
  "wakes_ok (c\<lparr>cw_suspended := a\<rparr>) = wakes_ok c"
  "wakes_ok (c\<lparr>cw_latest := l\<rparr>) = wakes_ok c"
  "wakes_ok (c\<lparr>cw_nextWakeAt := d\<rparr>) = wakes_ok c"
  "wakes_ok (c\<lparr>cw_emitted := e\<rparr>) = wakes_ok c"
  by (simp_all add: wakes_ok_def)

lemma wakes_ok_generation: "wakes_ok c \<Longrightarrow> cw_generation c \<le> g \<Longrightarrow> wakes_ok (c\<lparr>cw_generation := g\<rparr>)"
  by (auto simp: wakes_ok_def intro: le_trans)

lemma observed_emit: "observed (emit c)"
  by (simp add: observed_def emit_def snapshot_of_def)

lemma wakes_ok_emit [simp]: "wakes_ok (emit c) = wakes_ok c"
  by (simp add: emit_def)

lemma wakes_ok_cancel [simp]: "wakes_ok (cancelScheduled c) = wakes_ok c"
  by (simp add: cancelScheduled_def)

lemma active_ok_emit [simp]: "active_ok (emit c) = active_ok c"
  by (simp add: active_ok_def emit_def)

lemma schedule_ok_emit [simp]: "schedule_ok (emit c) = schedule_ok c"
  by (simp add: schedule_ok_def emit_def)

lemma wake_ids_update [simp]:
  "wk_id ` set (update_where p (\<lambda>w. w\<lparr>wk_aborted := True\<rparr>) ws) = wk_id ` set ws"
  unfolding set_update_where image_image by (rule image_cong) simp_all

lemma wakes_ok_abort: "wakes_ok c \<Longrightarrow> wakes_ok (abort_active c)"
  unfolding wakes_ok_def abort_active_def
  by (simp add: map_update_where) (auto simp: set_update_where)

lemma abort_active_aborts: "holds_active (abort_active c) w \<Longrightarrow> wk_aborted w"
  by (auto simp: holds_active_def abort_active_def set_update_where split: if_splits)

text \<open>\<open>scheduleNext\<close> establishes the schedule, whatever it was.\<close>

lemma scheduleNext_wakes [simp]: "wakes_ok (scheduleNext delayFor now st c) = wakes_ok c"
  by (simp add: scheduleNext_def Let_def split: option.split)

lemma scheduleNext_active [simp]: "active_ok (scheduleNext delayFor now st c) = active_ok c"
  by (simp add: scheduleNext_def Let_def cancelScheduled_def active_ok_def emit_def split: option.split)

lemma scheduleNext_observed: "observed (scheduleNext delayFor now st c)"
  by (simp add: scheduleNext_def Let_def observed_emit split: option.split)

lemma scheduleNext_schedule:
  "st \<in> {WScheduled, WFresh, WRetry} \<Longrightarrow> schedule_ok (scheduleNext delayFor now st c)"
  by (auto simp: scheduleNext_def Let_def cancelScheduled_def schedule_ok_def emit_def split: option.split)

lemma scheduleNext_inv:
  "wakes_ok c \<Longrightarrow> active_ok c \<Longrightarrow> st \<in> {WScheduled, WFresh, WRetry} \<Longrightarrow> warm_inv (scheduleNext delayFor now st c)"
  by (rule warm_invI) (simp_all add: scheduleNext_observed scheduleNext_schedule)

lemma aborted_active_ok: "(\<And>w. holds_active c w \<Longrightarrow> wk_aborted w) \<Longrightarrow> active_ok c"
  by (auto simp: active_ok_def)

text \<open>After the active request was aborted, the schedule may be anything that starts nothing.\<close>

lemma aborted_inv:
  assumes "wakes_ok c" and "\<And>w. holds_active c w \<Longrightarrow> wk_aborted w" and "\<not> cw_timer c" and "cw_nextWakeAt c = None"
    and "cw_state c = (if cw_enabled c then WWaiting else WOff)"
  shows "warm_inv (emit c)"
proof -
  have "schedule_ok c" using assms(3-5) by (simp add: schedule_ok_def)
  with assms(1,2) show ?thesis by (simp add: warm_inv_def observed_emit aborted_active_ok)
qed

lemma abort_cancel [simp]:
  "cw_timer (abort_active c) = cw_timer c" "cw_nextWakeAt (abort_active c) = cw_nextWakeAt c"
  "cw_enabled (abort_active c) = cw_enabled c" "\<not> cw_timer (cancelScheduled c)"
  "cw_nextWakeAt (cancelScheduled c) = None" "cw_enabled (cancelScheduled c) = cw_enabled c"
  "cw_generation (abort_active c) = cw_generation c" "cw_generation (cancelScheduled c) = cw_generation c"
  by (simp_all add: abort_active_def cancelScheduled_def)

lemma setEnabled_inv: "warm_inv c \<Longrightarrow> warm_inv (setEnabled delayFor now b c)"
proof -
  assume inv: "warm_inv c"
  then have w: "wakes_ok c" by (simp add: warm_inv_def)
  consider "cw_enabled c = b" | "\<not> b" "cw_enabled c \<noteq> b" | "b" "cw_enabled c \<noteq> b" by blast
  then show ?thesis
  proof cases
    case 1
    with inv show ?thesis by (simp add: setEnabled_def)
  next
    case 2
    with w show ?thesis
      by (auto simp: setEnabled_def intro!: aborted_inv wakes_ok_abort dest: abort_active_aborts)
  next
    case 3
    with inv have "active_ok (c\<lparr>cw_enabled := b\<rparr>)" by (auto simp: warm_inv_def active_ok_def)
    with w 3 show ?thesis by (simp add: setEnabled_def scheduleNext_inv)
  qed
qed

lemma setTarget_inv: "warm_inv c \<Longrightarrow> warm_inv (setTarget delayFor now t c)"
proof -
  assume inv: "warm_inv c"
  let ?a = "abort_active (c\<lparr>cw_generation := cw_generation c + 1\<rparr>)"
  let ?c = "(if sameTarget c t then c else ?a\<lparr>cw_iteration := 0, cw_latest := no_latest\<rparr>)\<lparr>cw_target := t\<rparr>"
  have w: "wakes_ok ?c" using inv by (simp add: warm_inv_def wakes_ok_abort wakes_ok_generation)
  have a: "active_ok ?c"
  proof (cases "sameTarget c t")
    case True
    with inv show ?thesis by (simp add: warm_inv_def active_ok_def sameTarget_def)
  next
    case False
    then show ?thesis by (auto intro!: aborted_active_ok dest: abort_active_aborts)
  qed
  show ?thesis
  proof (cases "cw_enabled c")
    case True
    then have "cw_enabled ?c" by simp
    with w a show ?thesis unfolding setTarget_def Let_def by (simp add: scheduleNext_inv)
  next
    case False
    then have "schedule_ok ?c" "observed ?c" using inv
      by (auto simp: warm_inv_def schedule_ok_def observed_def abort_active_def)
    with w a False show ?thesis unfolding setTarget_def Let_def by (simp add: warm_inv_def)
  qed
qed

lemma reset_inv: "warm_inv c \<Longrightarrow> warm_inv (reset b c)"
  unfolding reset_def
  by (rule aborted_inv)
    (auto simp: warm_inv_def wakes_ok_abort wakes_ok_generation dest: abort_active_aborts)

lemma suspend_inv: "warm_inv c \<Longrightarrow> warm_inv (suspend c)"
proof -
  assume inv: "warm_inv c"
  let ?c = "abort_active (cancelScheduled (c\<lparr>cw_suspended := True\<rparr>))"
  have w: "wakes_ok ?c" using inv by (simp add: warm_inv_def wakes_ok_abort)
  show ?thesis
  proof (cases "cw_enabled c")
    case True
    with w show ?thesis by (auto simp: suspend_def intro!: aborted_inv dest: abort_active_aborts)
  next
    case False
    then have "schedule_ok ?c" "observed ?c" using inv
      by (auto simp: warm_inv_def schedule_ok_def observed_def abort_active_def cancelScheduled_def)
    moreover have "active_ok ?c" by (auto intro!: aborted_active_ok dest: abort_active_aborts)
    ultimately show ?thesis using w False by (simp add: suspend_def warm_inv_def)
  qed
qed

lemma resume_inv: "warm_inv c \<Longrightarrow> warm_inv (resume delayFor now c)"
proof -
  assume inv: "warm_inv c"
  then have w: "wakes_ok (c\<lparr>cw_suspended := False\<rparr>)" and a: "active_ok (c\<lparr>cw_suspended := False\<rparr>)"
    by (auto simp: warm_inv_def active_ok_def)
  show ?thesis
  proof (cases "cw_enabled c")
    case True
    with w a show ?thesis by (simp add: resume_def scheduleNext_inv)
  next
    case False
    with inv have "schedule_ok (c\<lparr>cw_suspended := False\<rparr>)" "observed (c\<lparr>cw_suspended := False\<rparr>)"
      by (auto simp: warm_inv_def schedule_ok_def observed_def)
    with w a False show ?thesis by (simp add: resume_def warm_inv_def)
  qed
qed

text \<open>A firing timer starts a request: its guards hold by the invariant.\<close>

definition started_wake :: "controller \<Rightarrow> warm_target \<Rightarrow> wake" where
  "started_wake c t = \<lparr>wk_id = cw_nextId c, wk_generation = cw_generation c, wk_target = t, wk_aborted = False\<rparr>"

lemma timer_fires_starts:
  assumes "warm_inv c" and "cw_timer c"
  obtains t where "cw_target c = Some t"
    and "timer_fires c = emit (c\<lparr>cw_timer := False, cw_nextWakeAt := None, cw_active := Some (cw_nextId c),
      cw_nextId := Suc (cw_nextId c), cw_state := WWarming, cw_wakes := cw_wakes c @ [started_wake c t]\<rparr>)"
proof -
  from assms obtain t where "cw_target c = Some t" "cw_enabled c" "\<not> cw_suspended c"
    by (auto simp: warm_inv_def schedule_ok_def)
  then show ?thesis using that [of t]
    by (simp add: timer_fires_def runWake_def started_wake_def)
qed

lemma timer_fires_inv: "warm_inv c \<Longrightarrow> cw_timer c \<Longrightarrow> warm_inv (timer_fires c)"
proof -
  assume inv: "warm_inv c" and t: "cw_timer c"
  then obtain t where t: "cw_target c = Some t"
    and e: "timer_fires c = emit (c\<lparr>cw_timer := False, cw_nextWakeAt := None, cw_active := Some (cw_nextId c),
      cw_nextId := Suc (cw_nextId c), cw_state := WWarming, cw_wakes := cw_wakes c @ [started_wake c t]\<rparr>)"
      (is "_ = emit ?c")
    and g: "cw_enabled c" "\<not> cw_suspended c"
    by (metis timer_fires_starts warm_inv_def schedule_ok_def)
  have ids: "\<forall>w \<in> set (cw_wakes c). wk_id w < cw_nextId c" using inv by (simp add: warm_inv_def wakes_ok_def)
  have w: "wakes_ok ?c" using inv ids by (auto simp: warm_inv_def wakes_ok_def started_wake_def less_Suc_eq)
  have held: "holds_active ?c = (\<lambda>w. w = started_wake c t)"
    using ids by (auto simp: fun_eq_iff holds_active_def started_wake_def)
  have "active_ok ?c" using g t by (simp add: active_ok_def held) (simp add: started_wake_def)
  moreover have "schedule_ok ?c" using g by (simp add: schedule_ok_def held) (simp add: started_wake_def)
  ultimately show ?thesis using w by (simp add: e warm_inv_def observed_emit)
qed

text \<open>When a request settles it leaves; the rest of the controller stays as the handler left it.\<close>

lemma wake_done_wakes: "wakes_ok c \<Longrightarrow> wakes_ok (wake_done w c)"
  by (auto simp: wakes_ok_def wake_done_def distinct_map_filter image_iff)

lemma wake_done_holds:
  "wakes_ok c \<Longrightarrow> holds_active (wake_done w c) v \<longleftrightarrow> holds_active c v \<and> wk_id v \<noteq> wk_id w"
  by (auto simp: holds_active_def wake_done_def)

lemma wake_done_same [simp]:
  "cw_enabled (wake_done w c) = cw_enabled c" "cw_suspended (wake_done w c) = cw_suspended c"
  "cw_generation (wake_done w c) = cw_generation c" "cw_target (wake_done w c) = cw_target c"
  "cw_state (wake_done w c) = cw_state c" "cw_timer (wake_done w c) = cw_timer c"
  "cw_nextWakeAt (wake_done w c) = cw_nextWakeAt c" "cw_emitted (wake_done w c) = cw_emitted c"
  "snapshot_of (wake_done w c) = snapshot_of c"
  by (simp_all add: wake_done_def snapshot_of_def)

lemma wake_done_inv:
  assumes "warm_inv c" and "cw_state c = WWarming \<Longrightarrow> holds_active c w \<Longrightarrow> wk_aborted w" and "w \<in> set (cw_wakes c)"
  shows "warm_inv (wake_done w c)"
proof -
  have ok: "wakes_ok c" using assms(1) by (simp add: warm_inv_def)
  have "schedule_ok (wake_done w c)"
  proof (cases "cw_state c = WWarming")
    case True
    with assms(1) obtain v where v: "holds_active c v" "\<not> wk_aborted v"
      by (auto simp: warm_inv_def schedule_ok_def)
    have "wk_id v \<noteq> wk_id w"
    proof
      assume "wk_id v = wk_id w"
      with ok v(1) assms(3) have "v = w" by (auto simp: wakes_ok_def holds_active_def dest: key_unique_inj)
      with v assms(2) True show False by simp
    qed
    with v assms(1) True show ?thesis
      by (auto simp: schedule_ok_def wake_done_holds [OF ok] warm_inv_def)
  next
    case False
    with assms(1) show ?thesis by (auto simp: schedule_ok_def warm_inv_def)
  qed
  moreover have "active_ok (wake_done w c)" using assms(1)
    by (auto simp: active_ok_def wake_done_holds [OF ok] warm_inv_def)
  ultimately show ?thesis using assms(1) by (auto simp: warm_inv_def wake_done_wakes observed_def)
qed

lemma wake_done_emit [simp]: "wake_done w (emit c) = emit (wake_done w c)"
  by (simp add: wake_done_def emit_def snapshot_of_def)

lemma scheduleNext_not_warming: "st \<noteq> WWarming \<Longrightarrow> cw_state (scheduleNext delayFor now st c) \<noteq> WWarming"
  by (simp add: scheduleNext_def Let_def emit_def split: option.split)

lemma scheduleNext_keeps_wakes [simp]: "cw_wakes (scheduleNext delayFor now st c) = cw_wakes c"
  by (simp add: scheduleNext_def Let_def emit_def cancelScheduled_def split: option.split)

lemma in_flight_mem: "in_flight c i = Some w \<Longrightarrow> w \<in> set (cw_wakes c)"
  by (auto simp: in_flight_def dest: find_SomeD)

lemma wake_resolves_inv:
  assumes inv: "warm_inv c" and w: "w \<in> set (cw_wakes c)"
  shows "warm_inv (wake_resolves delayFor now w r c)"
proof -
  consider "\<not> cw_enabled c \<or> cw_suspended c \<or> wk_aborted w \<or> wk_generation w \<noteq> cw_generation c"
    | "\<not> (\<not> cw_enabled c \<or> cw_suspended c \<or> wk_aborted w \<or> wk_generation w \<noteq> cw_generation c)" "worthwhile r"
    | "\<not> (\<not> cw_enabled c \<or> cw_suspended c \<or> wk_aborted w \<or> wk_generation w \<noteq> cw_generation c)" "\<not> worthwhile r"
    by blast
  then show ?thesis
  proof cases
    case 1
    have "wk_aborted w" if "holds_active c w" using 1 inv that by (auto simp: warm_inv_def active_ok_def)
    with inv w 1 show ?thesis unfolding wake_resolves_def by (simp add: wake_done_inv)
  next
    case 2
    let ?c = "c\<lparr>cw_iteration := cw_iteration c + 1, cw_latest := hit_latest r\<rparr>"
    have "warm_inv (scheduleNext delayFor now WFresh ?c)"
      using inv by (intro scheduleNext_inv) (simp_all add: warm_inv_def active_ok_def)
    then have "warm_inv (wake_done w (scheduleNext delayFor now WFresh ?c))"
      using w by (intro wake_done_inv) (simp_all add: scheduleNext_not_warming)
    with 2 show ?thesis by (simp add: wake_resolves_def)
  next
    case 3
    let ?c = "c\<lparr>cw_latest := miss_latest r, cw_state := WUnavailable\<rparr>"
    have "schedule_ok ?c" using inv 3 by (simp add: warm_inv_def schedule_ok_def)
    moreover have "active_ok ?c" using inv by (simp add: warm_inv_def active_ok_def)
    ultimately have "warm_inv (emit ?c)" using inv by (simp add: warm_inv_def observed_emit)
    then have "warm_inv (wake_done w (emit ?c))"
      using w by (intro wake_done_inv) (simp_all add: emit_def)
    with 3 show ?thesis by (simp add: wake_resolves_def)
  qed
qed

lemma wake_rejects_inv:
  assumes inv: "warm_inv c" and w: "w \<in> set (cw_wakes c)"
  shows "warm_inv (wake_rejects delayFor now w m c)"
proof (cases "\<not> cw_enabled c \<or> wk_aborted w")
  case True
  have "wk_aborted w" if "holds_active c w" using True inv that by (auto simp: warm_inv_def active_ok_def)
  with inv w True show ?thesis by (simp add: wake_rejects_def wake_done_inv)
next
  case False
  let ?c = "c\<lparr>cw_latest := no_latest\<lparr>wl_lastError := Some m\<rparr>\<rparr>"
  have "warm_inv (scheduleNext delayFor now WRetry ?c)"
    using inv by (intro scheduleNext_inv) (simp_all add: warm_inv_def active_ok_def)
  then have "warm_inv (wake_done w (scheduleNext delayFor now WRetry ?c))"
    using w by (intro wake_done_inv) (simp_all add: scheduleNext_not_warming)
  with False show ?thesis by (simp add: wake_rejects_def)
qed

lemma warm_step_inv: "warm_inv c \<Longrightarrow> warm_step delayFor c x = Inr c' \<Longrightarrow> warm_inv c'"
proof (induction delayFor c x rule: warm_step.induct)
  case (6 delayFor c now)
  then show ?case by (auto simp: timer_fires_inv split: if_splits)
next
  case (7 delayFor c now i r)
  then show ?case by (auto simp: wake_resolves_inv dest: in_flight_mem split: option.splits)
next
  case (8 delayFor c now i m)
  then show ?case by (auto simp: wake_rejects_inv dest: in_flight_mem split: option.splits)
qed (auto simp: setEnabled_inv setTarget_inv reset_inv suspend_inv resume_inv)

interpretation warming: invariant_machine "warm_step delayFor" warm_inv for delayFor
  by unfold_locales (rule warm_step_inv)

text \<open>C30: the cache warmer keeps its invariant through every interleaving of user actions, timers and
  settling requests. It is off exactly when disabled; a timer is pending exactly when a wake time is
  announced, and only while warming is enabled, not suspended and has a target; a scheduled state
  always has its timer and the warming state its request; the active request, unless aborted, is
  for the present target of an enabled, unsuspended controller; and while it is enabled the
  observer's last snapshot is the present one.\<close>

theorem cache_warm_invariant: "warm_inv (exec_ops (warm_step delayFor) (new_controller b) events)"
  by (rule warming.exec_inv [OF new_controller_inv])

text \<open>A settled request changes what is shown only while it is still wanted. When it resolves after
  the controller was disabled or suspended, after its signal was aborted, or after the target
  changed, the state, schedule, iteration and snapshot stay as they are; otherwise a worthwhile
  result counts one iteration and schedules the next wake for the present target, and any other
  result parks the warmer as unavailable with the reason.\<close>

theorem warm_result_applied_once_wanted:
  assumes "warm_inv c" and "in_flight c i = Some w"
    and "warm_step delayFor c (now, WarmResolves i r) = Inr c'"
  shows "in_flight c' i = None \<and> cw_active c' \<noteq> Some i \<and>
     (if \<not> cw_enabled c \<or> cw_suspended c \<or> wk_aborted w \<or> wk_generation w \<noteq> cw_generation c
      then snapshot_of c' = snapshot_of c \<and> cw_timer c' = cw_timer c \<and> cw_emitted c' = cw_emitted c
      else if worthwhile r
      then cw_iteration c' = cw_iteration c + 1 \<and>
        (\<forall>t d. cw_target c = Some t \<and> delayFor (wt_provider t) = Some d \<longrightarrow>
           cw_state c' = WFresh \<and> cw_nextWakeAt c' = Some (now + d))
      else cw_iteration c' = cw_iteration c \<and> cw_state c' = WUnavailable \<and> cw_latest c' = miss_latest r)"
proof -
  have i: "wk_id w = i" using assms(2) by (auto simp: in_flight_def dest: find_SomeD)
  have c': "c' = wake_resolves delayFor now w r c" using assms(2,3) by simp
  have "in_flight (wake_done w c1) i = None" "cw_active (wake_done w c1) \<noteq> Some i" for c1
    using i by (auto simp: in_flight_def wake_done_def find_NoneD)
  then have gone: "in_flight c' i = None" "cw_active c' \<noteq> Some i" unfolding c' wake_resolves_def by blast+
  show ?thesis
    using gone unfolding c' wake_resolves_def
    by (auto simp: emit_def scheduleNext_def Let_def cancelScheduled_def wake_done_def snapshot_of_def
        split: option.split)
qed

definition sample_target :: warm_target where
  "sample_target = \<lparr>wt_projectRoot = ''/p'', wt_sessionId = ''s'', wt_provider = ''anthropic'', wt_model = ''m'',
     wt_accountId = None, wt_thinkingLevel = ''off''\<rparr>"

definition one_wake :: "(rat \<times> warm_event) list" where
  "one_wake = [(0, SetTarget (Some sample_target)), (5, TimerFires)]"

definition warming_controller :: controller where
  "warming_controller = exec_ops (warm_step DEFAULT_DELAYS_MS) (new_controller True) one_wake"

lemma warming_controller_flight:
  "in_flight warming_controller 0 = Some \<lparr>wk_id = 0, wk_generation = 1, wk_target = sample_target, wk_aborted = False\<rparr>"
  "cw_enabled warming_controller" "\<not> cw_suspended warming_controller" "cw_generation warming_controller = 1"
  "cw_target warming_controller = Some sample_target" "cw_iteration warming_controller = 0"
  by (simp_all add: warming_controller_def one_wake_def new_controller_def setTarget_def sameTarget_def
      abort_active_def scheduleNext_def cancelScheduled_def emit_def sample_target_def DEFAULT_DELAYS_MS_def
      timer_fires_def runWake_def in_flight_def)

definition good_result :: warm_result where
  "good_result = \<lparr>wr_durationMs = 10, wr_contextTokens = 900, wr_cacheRead = 800, wr_estimatedSavingsUsd = Some (1 / 20)\<rparr>"

theorem warm_result_applied_once_wanted_witness:
  "\<exists>c'. warm_step DEFAULT_DELAYS_MS warming_controller (20, WarmResolves 0 good_result) = Inr c'
     \<and> cw_iteration c' = 1 \<and> cw_state c' = WFresh \<and> cw_nextWakeAt c' = Some 3300020"
proof -
  let ?w = "\<lparr>wk_id = 0, wk_generation = 1, wk_target = sample_target, wk_aborted = False\<rparr>"
  let ?c = "wake_resolves DEFAULT_DELAYS_MS 20 ?w good_result warming_controller"
  have step: "warm_step DEFAULT_DELAYS_MS warming_controller (20, WarmResolves 0 good_result) = Inr ?c"
    by (simp add: warming_controller_flight)
  have "warm_inv warming_controller" unfolding warming_controller_def
    by (rule warming.exec_inv [OF new_controller_inv])
  from warm_result_applied_once_wanted [OF this warming_controller_flight(1) step]
  have "cw_iteration ?c = 1 \<and> cw_state ?c = WFresh \<and> cw_nextWakeAt ?c = Some 3300020"
    by (simp add: warming_controller_flight worthwhile_def good_result_def)
       (simp add: sample_target_def DEFAULT_DELAYS_MS_def)
  with step show ?thesis by blast
qed

text \<open>
  Setting the present target again while a request is in flight schedules a second one, which takes
  over the controller of the first: disabling the warmer then aborts only the second.
\<close>

definition two_wakes :: "(rat \<times> warm_event) list" where
  "two_wakes = one_wake @ [(6, SetTarget (Some sample_target)), (9, TimerFires), (10, SetEnabled False)]"

text \<open>Disabling the warmer may leave a request running. In this run the present target is set
  again while its first request is in flight, the timer starts a second one, and the warmer is
  disabled: the second request is aborted, the first one is not.\<close>

theorem overlapping_wake_survives_disable:
  "map (\<lambda>w. (wk_id w, wk_aborted w))
       (cw_wakes (exec_ops (warm_step DEFAULT_DELAYS_MS) (new_controller True) two_wakes))
     = [(0, False), (1, True)]
   \<and> \<not> cw_enabled (exec_ops (warm_step DEFAULT_DELAYS_MS) (new_controller True) two_wakes)"
  by (simp add: two_wakes_def one_wake_def new_controller_def setTarget_def sameTarget_def setEnabled_def
      abort_active_def scheduleNext_def cancelScheduled_def emit_def sample_target_def DEFAULT_DELAYS_MS_def
      timer_fires_def runWake_def)

end
