(* ===== verification/Patch.thy ===== *)
theory Patch
  imports Contract "HOL-Library.Sublist"
begin

text \<open>
  Preparing a patch: \<open>packages/3xhaustpi/src/coding-runtime-patch-apply.ts\<close> (where an edit may
  land and what it changes), \<open>createPatchProposal\<close> of \<open>coding-runtime-patch.ts\<close> (what the user is
  asked to approve) and \<open>displayName\<close> of \<open>project-snapshot.ts\<close>. The paths are those of POSIX: an
  absolute path is the list of its components. The file system the code reads is a snapshot, given
  by its directory entries and its symbolic-link resolution.
\<close>

section \<open>Paths and files\<close>

type_synonym path = "string list"

datatype file_kind = FileKind | DirKind | LinkKind

record file_stats =
  st_kind :: file_kind
  st_dev :: nat
  st_ino :: nat
  st_nlink :: nat

record files =
  fs_lstat :: "path \<Rightarrow> file_stats option"
  fs_realpath :: "path \<Rightarrow> path option"
  fs_read :: "path \<Rightarrow> string option"

text \<open>\<open>path.split("/")\<close>.\<close>

fun split_on :: "char \<Rightarrow> string \<Rightarrow> string list" where
  "split_on d [] = [[]]"
| "split_on d (c # cs) =
     (if c = d then [] # split_on d cs
      else (case split_on d cs of [] \<Rightarrow> [[c]] | w # ws \<Rightarrow> (c # w) # ws))"

text \<open>\<open>resolve(base, p)\<close> for an absolute base: empty and \<open>.\<close> segments vanish, \<open>..\<close> drops one.\<close>

fun normalize :: "path \<Rightarrow> string list \<Rightarrow> path" where
  "normalize acc [] = acc"
| "normalize acc (s # ss) =
     (if s = [] \<or> s = ''.'' then normalize acc ss
      else if s = ''..'' then normalize (butlast acc) ss
      else normalize (acc @ [s]) ss)"

definition resolve_path :: "path \<Rightarrow> string \<Rightarrow> path" where
  "resolve_path base p = normalize (if startsWith p ''/'' then [] else base) (split_on (CHR ''/'') p)"

fun common_length :: "path \<Rightarrow> path \<Rightarrow> nat" where
  "common_length (x # xs) (y # ys) = (if x = y then Suc (common_length xs ys) else 0)"
| "common_length xs ys = 0"

text \<open>\<open>relative(from, to)\<close> as its list of segments; the empty string is the empty list.\<close>

definition relative_path :: "path \<Rightarrow> path \<Rightarrow> path" where
  "relative_path from to =
     (let k = common_length from to in replicate (length from - k) ''..'' @ drop k to)"

definition path_text :: "path \<Rightarrow> string" where
  "path_text p = concat (map (\<lambda>s. CHR ''/'' # s) p)"

section \<open>Where a patch may land\<close>

record secure_root =
  sr_path :: path
  sr_device :: nat
  sr_inode :: nat

definition secureProjectRoot :: "files \<Rightarrow> path \<Rightarrow> secure_root res" where
  "secureProjectRoot fs projectRoot =
     (case fs_realpath fs projectRoot of
        None \<Rightarrow> Inl (Error ''ENOENT'')
      | Some p \<Rightarrow>
          (case fs_lstat fs p of
             None \<Rightarrow> Inl (Error ''ENOENT'')
           | Some st \<Rightarrow>
               if st_kind st \<noteq> DirKind
                 then Inl (Error (''Project root is not a directory: '' @ path_text projectRoot))
               else Inr \<lparr>sr_path = p, sr_device = st_dev st, sr_inode = st_ino st\<rparr>))"

text \<open>A path whose first segment from the root is \<open>..\<close> lies outside; relative results are never absolute here.\<close>

definition isPathContained :: "path \<Rightarrow> path \<Rightarrow> bool" where
  "isPathContained root p =
     (let fromRoot = relative_path root p in fromRoot = [] \<or> hd fromRoot \<noteq> ''..'')"

definition verifyProjectRoot :: "files \<Rightarrow> secure_root \<Rightarrow> unit res" where
  "verifyProjectRoot fs root =
     (case fs_lstat fs (sr_path root) of
        None \<Rightarrow> Inl (Error ''ENOENT'')
      | Some st \<Rightarrow>
          if fs_realpath fs (sr_path root) \<noteq> Some (sr_path root) \<or> st_dev st \<noteq> sr_device root \<or> st_ino st \<noteq> sr_inode root
            then Inl (Error ''Project root changed while applying the patch'')
          else Inr ())"

text \<open>An entry below a file is not missing: \<open>lstat\<close> fails with \<open>ENOTDIR\<close> there.\<close>

definition lstatIfExists :: "files \<Rightarrow> path \<Rightarrow> file_stats option res" where
  "lstatIfExists fs p =
     (case fs_lstat fs p of
        Some st \<Rightarrow> Inr (Some st)
      | None \<Rightarrow>
          (case fs_lstat fs (butlast p) of
             Some st \<Rightarrow> if st_kind st = FileKind then Inl (Error ''ENOTDIR'') else Inr None
           | None \<Rightarrow> Inr None))"

text \<open>The loop over the components: stop at the first that does not exist, refuse links.\<close>

fun walk :: "files \<Rightarrow> path \<Rightarrow> path \<Rightarrow> file_stats option \<Rightarrow> string list \<Rightarrow> file_stats option res" where
  "walk fs p current target [] = Inr target"
| "walk fs p current target (s # ss) =
     (case lstatIfExists fs (current @ [s]) of
        Inl e \<Rightarrow> Inl e
      | Inr None \<Rightarrow> Inr target
      | Inr (Some st) \<Rightarrow>
          if st_kind st = LinkKind
            then Inl (Error (''Patch target contains a symbolic link: '' @ path_text (current @ [s])))
          else if current @ [s] = p \<and> st_kind st = FileKind \<and> st_nlink st \<noteq> 1
            then Inl (Error (''Patch target has multiple links: '' @ path_text (current @ [s])))
          else walk fs p (current @ [s]) (if current @ [s] = p then Some st else None) ss)"

text \<open>The loop to the nearest existing ancestor; \<open>dirname\<close> of the file-system root is itself.\<close>

function existing_ancestor :: "files \<Rightarrow> path \<Rightarrow> path \<Rightarrow> path" where
  "existing_ancestor fs root p =
     (if fs_lstat fs p = None \<and> p \<noteq> root \<and> p \<noteq> [] then existing_ancestor fs root (butlast p) else p)"
  by auto

termination
  by (relation "measure (\<lambda>(fs, root, p). length p)") auto

declare existing_ancestor.simps [simp del]

definition verifyPatchPath :: "files \<Rightarrow> secure_root \<Rightarrow> path \<Rightarrow> file_stats option res" where
  "verifyPatchPath fs root p =
     bindR (verifyProjectRoot fs root) (\<lambda>_.
     if \<not> isPathContained (sr_path root) p \<or> p = sr_path root
       then Inl (Error (''Patch target escapes the project: '' @ path_text p))
     else bindR (walk fs p (sr_path root) None (relative_path (sr_path root) p)) (\<lambda>target.
     case fs_realpath fs (existing_ancestor fs (sr_path root) p) of
       None \<Rightarrow> Inl (Error ''ENOENT'')
     | Some real \<Rightarrow>
         if \<not> isPathContained (sr_path root) real
           then Inl (Error (''Patch target resolves outside the project: '' @ path_text p))
         else Inr target))"

definition patchPath :: "files \<Rightarrow> secure_root \<Rightarrow> string \<Rightarrow> path res" where
  "patchPath fs root relativePath =
     (let p = resolve_path (sr_path root) relativePath in
      bindR (verifyPatchPath fs root p) (\<lambda>_. Inr p))"

section \<open>What a patch changes\<close>

record project_document =
  dc_id :: string
  dc_relativePath :: string
  dc_content :: string
  dc_sha256 :: string
  dc_virtual :: bool

record prepared_file =
  pf_document :: project_document
  pf_before :: string
  pf_after :: string
  pf_existedBefore :: bool

text \<open>\<open>basename\<close>: the last segment that is not empty.\<close>

definition basename :: "string \<Rightarrow> string" where
  "basename p = (case rev (filter (\<lambda>s. s \<noteq> []) (split_on (CHR ''/'') p)) of [] \<Rightarrow> [] | s # _ \<Rightarrow> s)"

definition displayName :: "project_document \<Rightarrow> string" where
  "displayName d = basename (dc_relativePath d) @ '' ('' @ dc_id d @ '')''"

text \<open>The exact replacement: \<open>oldText\<close> occurs, and not again after its first occurrence.\<close>

definition replace_exact :: "string \<Rightarrow> string \<Rightarrow> proposed_edit \<Rightarrow> string res" where
  "replace_exact name current e =
     (case indexOf current (pe_oldText e) 0 of
        None \<Rightarrow> Inl (Error (''Patch oldText is stale for '' @ name))
      | Some first \<Rightarrow>
          if indexOf current (pe_oldText e) (first + length (pe_oldText e)) \<noteq> None
            then Inl (Error (''Patch oldText is ambiguous for '' @ name))
          else Inr (take first current @ pe_newText e @ drop (first + length (pe_oldText e)) current))"

text \<open>The text an edit starts from: the pending text, the file, or the slot of a file to be created.\<close>

definition current_text :: "files \<Rightarrow> path \<Rightarrow> project_document \<Rightarrow> bool \<Rightarrow> string res" where
  "current_text fs p d existed =
     (if existed then (case fs_read fs p of None \<Rightarrow> Inl (Error ''ENOENT'') | Some t \<Rightarrow> Inr t)
      else if dc_virtual d then Inr (dc_content d)
      else Inl (Error (''Patch target is unavailable for '' @ displayName d)))"

text \<open>\<open>Map.set\<close>: a key that is present keeps its place.\<close>

fun map_set :: "('k \<times> 'v) list \<Rightarrow> 'k \<Rightarrow> 'v \<Rightarrow> ('k \<times> 'v) list" where
  "map_set [] k v = [(k, v)]"
| "map_set ((k', v') # m) k v = (if k' = k then (k, v) # m else (k', v') # map_set m k v)"

type_synonym pending = "(string \<times> prepared_file) list"

definition existed_before :: "files \<Rightarrow> secure_root \<Rightarrow> prepared_file option \<Rightarrow> path \<Rightarrow> bool res" where
  "existed_before fs root previous p =
     (case previous of
        Some f \<Rightarrow> Inr (pf_existedBefore f)
      | None \<Rightarrow> bindR (verifyPatchPath fs root p) (\<lambda>st. Inr (st \<noteq> None)))"

definition edit_source :: "files \<Rightarrow> prepared_file option \<Rightarrow> path \<Rightarrow> project_document \<Rightarrow> bool \<Rightarrow> string res" where
  "edit_source fs previous p d existed =
     (case previous of Some f \<Rightarrow> Inr (pf_after f) | None \<Rightarrow> current_text fs p d existed)"

definition prepare_edit :: "files \<Rightarrow> secure_root \<Rightarrow> (string \<Rightarrow> project_document option) \<Rightarrow> pending \<Rightarrow> proposed_edit
    \<Rightarrow> pending res" where
  "prepare_edit fs root documents pending e =
     (case documents (pe_documentId e) of
        None \<Rightarrow> Inl (Error (''Patch references undisclosed document '' @ pe_documentId e))
      | Some d \<Rightarrow>
          let previous = map_of pending (pe_documentId e) in
          bindR (patchPath fs root (dc_relativePath d)) (\<lambda>p.
          bindR (existed_before fs root previous p) (\<lambda>existed.
          bindR (edit_source fs previous p d existed) (\<lambda>current.
          bindR (replace_exact (displayName d) current e) (\<lambda>after.
          Inr (map_set pending (pe_documentId e)
            \<lparr>pf_document = d,
             pf_before = (case previous of Some f \<Rightarrow> pf_before f | None \<Rightarrow> current),
             pf_after = after, pf_existedBefore = existed\<rparr>))))))"

fun prepare_edits :: "files \<Rightarrow> secure_root \<Rightarrow> (string \<Rightarrow> project_document option) \<Rightarrow> pending \<Rightarrow> proposed_edit list
    \<Rightarrow> pending res" where
  "prepare_edits fs root documents pending [] = Inr pending"
| "prepare_edits fs root documents pending (e # es) =
     bindR (prepare_edit fs root documents pending e) (\<lambda>pending'.
       prepare_edits fs root documents pending' es)"

definition preparePatchedFiles :: "files \<Rightarrow> path \<Rightarrow> patch_proposal \<Rightarrow> (string \<Rightarrow> project_document option)
    \<Rightarrow> prepared_file list res" where
  "preparePatchedFiles fs projectRoot proposal documents =
     bindR (secureProjectRoot fs projectRoot) (\<lambda>root.
     bindR (prepare_edits fs root documents [] (pp_edits proposal)) (\<lambda>pending.
     Inr (map snd pending)))"

section \<open>What the user approves\<close>

record patch_view =
  pv_patchId :: string
  pv_targetRevision :: string
  pv_diff :: string
  pv_files :: "string list"

definition edit_lines :: "(string \<Rightarrow> project_document option) \<Rightarrow> proposed_edit \<Rightarrow> string list res" where
  "edit_lines documents e =
     (case documents (pe_documentId e) of
        None \<Rightarrow> Inl (Error (''Patch references undisclosed document '' @ pe_documentId e))
      | Some d \<Rightarrow>
          Inr ([''--- a/'' @ dc_relativePath d, ''+++ b/'' @ dc_relativePath d, ''@@ exact replacement @@'']
            @ map (\<lambda>l. CHR ''-'' # l) (split_on (CHR 0x0A) (pe_oldText e))
            @ map (\<lambda>l. CHR ''+'' # l) (split_on (CHR 0x0A) (pe_newText e))))"

definition edit_path :: "(string \<Rightarrow> project_document option) \<Rightarrow> proposed_edit \<Rightarrow> string res" where
  "edit_path documents e =
     (case documents (pe_documentId e) of
        None \<Rightarrow> Inl (Error (''Patch references undisclosed document '' @ pe_documentId e))
      | Some d \<Rightarrow> Inr (dc_relativePath d))"

definition createPatchProposal :: "string \<Rightarrow> string \<Rightarrow> patch_proposal \<Rightarrow> (string \<Rightarrow> project_document option)
    \<Rightarrow> patch_view res" where
  "createPatchProposal patchId targetRevision proposal documents =
     bindR (mapR (edit_lines documents) (pp_edits proposal)) (\<lambda>ls.
     bindR (mapR (edit_path documents) (pp_edits proposal)) (\<lambda>ps.
     Inr \<lparr>pv_patchId = patchId, pv_targetRevision = targetRevision,
       pv_diff = join [CHR 0x0A] (concat ls), pv_files = ps\<rparr>))"

section \<open>Containment\<close>

lemma common_length_le: "common_length xs ys \<le> length xs" "common_length xs ys \<le> length ys"
  by (induction xs ys rule: common_length.induct) auto

lemma common_length_prefix: "common_length xs ys = length xs \<longleftrightarrow> prefix xs ys"
  by (induction xs ys rule: common_length.induct) auto

lemma relative_prefix: "prefix root p \<Longrightarrow> relative_path root p = drop (length root) p"
  using common_length_prefix [of root p] by (simp add: relative_path_def Let_def)

text \<open>On paths without \<open>..\<close> segments the test of the source is exactly the prefix order.\<close>

lemma isPathContained_iff:
  assumes "''..'' \<notin> set p"
  shows "isPathContained root p \<longleftrightarrow> prefix root p"
proof (cases "prefix root p")
  case True
  have "set (drop (length root) p) \<subseteq> set p" by (rule set_drop_subset)
  with assms have "''..'' \<notin> set (drop (length root) p)" by blast
  with True show ?thesis by (cases "drop (length root) p") (auto simp: isPathContained_def relative_prefix)
next
  case False
  then have "common_length root p < length root"
    using common_length_prefix [of root p] common_length_le(1) [of root p] by linarith
  then obtain n where "length root - common_length root p = Suc n" by (metis Suc_diff_Suc)
  with False show ?thesis by (simp add: isPathContained_def relative_path_def Let_def)
qed

lemma normalize_no_dots: "''..'' \<notin> set acc \<Longrightarrow> ''..'' \<notin> set (normalize acc ss)"
  by (induction acc ss rule: normalize.induct) (auto dest: in_set_butlastD)

lemma resolve_no_dots: "''..'' \<notin> set base \<Longrightarrow> ''..'' \<notin> set (resolve_path base p)"
  by (simp add: resolve_path_def normalize_no_dots)

text \<open>
  What the code relies on of the file system: an entry's directory exists, and resolution yields a
  canonical path.
\<close>

definition files_ok :: "files \<Rightarrow> bool" where
  "files_ok fs = ((\<forall>p s. fs_lstat fs (p @ [s]) \<noteq> None \<longrightarrow> fs_lstat fs p \<noteq> None)
     \<and> (\<forall>p q. fs_realpath fs p = Some q \<longrightarrow> ''..'' \<notin> set q))"

text \<open>No entry strictly below the root and up to the path is a symbolic link.\<close>

definition link_free :: "files \<Rightarrow> path \<Rightarrow> path \<Rightarrow> bool" where
  "link_free fs root p = (\<forall>q st. strict_prefix root q \<and> prefix q p \<and> fs_lstat fs q = Some st \<longrightarrow> st_kind st \<noteq> LinkKind)"

lemma exists_prefix: "files_ok fs \<Longrightarrow> prefix q p \<Longrightarrow> fs_lstat fs p \<noteq> None \<Longrightarrow> fs_lstat fs q \<noteq> None"
proof (induction p rule: rev_induct)
  case Nil
  then show ?case by simp
next
  case (snoc s p)
  show ?case
  proof (cases "q = p @ [s]")
    case True
    with snoc show ?thesis by simp
  next
    case False
    with snoc.prems have "prefix q p" by (metis prefix_snoc)
    moreover have "fs_lstat fs p \<noteq> None" using snoc.prems by (simp only: files_ok_def) blast
    ultimately show ?thesis using snoc by blast
  qed
qed

lemma missing_prefix: "files_ok fs \<Longrightarrow> prefix q p \<Longrightarrow> fs_lstat fs q = None \<Longrightarrow> fs_lstat fs p = None"
  using exists_prefix by blast

lemma prefix_between:
  assumes "strict_prefix cur q" and "prefix q (cur @ s # ss)"
  shows "q = cur @ [s] \<or> strict_prefix (cur @ [s]) q"
proof -
  from assms(1) obtain zs where q: "q = cur @ zs" "zs \<noteq> []" by (auto simp: strict_prefix_def prefix_def)
  with assms(2) obtain ws where "zs = s # ws" by (cases zs) auto
  with q show ?thesis by (cases ws) (auto simp: strict_prefix_def)
qed

lemma lstatIfExists_Inr: "lstatIfExists fs p = Inr r \<Longrightarrow> r = fs_lstat fs p"
  by (auto simp: lstatIfExists_def split: option.splits if_splits)

lemma lstatIfExists_Some [simp]: "fs_lstat fs p = Some st \<Longrightarrow> lstatIfExists fs p = Inr (Some st)"
  by (simp add: lstatIfExists_def)

lemma walk_link_free:
  "walk fs p cur target ss = Inr r \<Longrightarrow> files_ok fs \<Longrightarrow> link_free fs cur (cur @ ss)"
proof (induction fs p cur target ss rule: walk.induct)
  case (1 fs p cur target)
  then show ?case by (auto simp: link_free_def)
next
  case (2 fs p cur target s ss)
  show ?case
  proof (cases "fs_lstat fs (cur @ [s])")
    case None
    then have "fs_lstat fs q = None" if "strict_prefix cur q" "prefix q (cur @ s # ss)" for q
      using prefix_between [OF that] missing_prefix [OF "2.prems"(2), of "cur @ [s]" q]
      by (auto simp: strict_prefix_def)
    then show ?thesis by (auto simp: link_free_def)
  next
    case (Some st)
    with "2.prems"(1) have k: "st_kind st \<noteq> LinkKind" by (auto split: if_splits)
    have "link_free fs (cur @ [s]) ((cur @ [s]) @ ss)"
      using "2.IH" [of "Some st" st] "2.prems" Some k by (auto split: if_splits)
    with Some k show ?thesis using prefix_between by (fastforce simp: link_free_def)
  qed
qed

lemma walk_target:
  "walk fs p cur target ss = Inr r \<Longrightarrow> files_ok fs \<Longrightarrow> p = cur @ ss \<Longrightarrow> ss \<noteq> [] \<Longrightarrow> target = None \<Longrightarrow>
     r = fs_lstat fs p \<and> (\<forall>st. r = Some st \<and> st_kind st = FileKind \<longrightarrow> st_nlink st = 1)"
proof (induction fs p cur target ss rule: walk.induct)
  case (1 fs p cur target)
  then show ?case by simp
next
  case (2 fs p cur target s ss)
  show ?case
  proof (cases "fs_lstat fs (cur @ [s])")
    case None
    then have "fs_lstat fs p = None"
      using missing_prefix [OF "2.prems"(2), of "cur @ [s]" p] "2.prems"(3) by simp
    with None "2.prems" show ?thesis by (auto split: sum.splits option.splits dest: lstatIfExists_Inr)
  next
    case (Some st)
    then have k: "st_kind st \<noteq> LinkKind" using "2.prems"(1) by (auto split: if_splits)
    show ?thesis
    proof (cases "ss = []")
      case True
      with "2.prems" Some k show ?thesis by (auto split: if_splits)
    next
      case False
      with "2.IH" [of "Some st" st] "2.prems" Some k show ?thesis by auto
    qed
  qed
qed

lemma verifyPatchPath_Inr:
  assumes "verifyPatchPath fs root p = Inr r" and "files_ok fs" and "''..'' \<notin> set p"
  shows "strict_prefix (sr_path root) p \<and> link_free fs (sr_path root) p \<and> r = fs_lstat fs p
     \<and> (\<forall>st. r = Some st \<and> st_kind st = FileKind \<longrightarrow> st_nlink st = 1)"
proof -
  from assms(1) have c: "isPathContained (sr_path root) p" "p \<noteq> sr_path root"
    by (auto simp: verifyPatchPath_def res_simps split: if_splits)
  with assms(3) have "strict_prefix (sr_path root) p" by (auto simp: isPathContained_iff strict_prefix_def)
  then obtain ss where p: "p = sr_path root @ ss" "ss \<noteq> []" by (auto simp: strict_prefix_def prefix_def)
  then have rel: "relative_path (sr_path root) p = ss" by (simp add: relative_prefix)
  from assms(1) c have "walk fs p (sr_path root) None ss = Inr r"
    by (auto simp: verifyPatchPath_def res_simps rel split: if_splits option.splits)
  with walk_link_free [OF this assms(2)] walk_target [OF this assms(2) p(1) p(2)] p show ?thesis
    by (auto simp: strict_prefix_def)
qed

lemma patchPath_Inr:
  "patchPath fs root rel = Inr p \<longleftrightarrow> p = resolve_path (sr_path root) rel \<and> (\<exists>r. verifyPatchPath fs root p = Inr r)"
  by (auto simp: patchPath_def Let_def res_simps)

section \<open>Edits\<close>

lemma indexOf_first:
  assumes "indexOf t pat 0 = Some i"
  shows "t = take i t @ pat @ drop (i + length pat) t \<and> i + length pat \<le> length t"
proof -
  have i: "i \<le> length t" "startsWith (drop i t) pat"
    using index_from_Some [of 0 pat t i] assms by (auto simp: indexOf_def)
  from startsWithD [OF i(2)] have d: "drop i t = pat @ drop (i + length pat) t" by (simp add: add.commute)
  from arg_cong [OF d, of length] i(1) have "i + length pat \<le> length t" by simp
  moreover from d have "t = take i t @ pat @ drop (i + length pat) t" by (metis append_take_drop_id)
  ultimately show ?thesis by blast
qed

lemma indexOf_None:
  assumes "n \<le> length t" and "indexOf t pat n = None"
  shows "drop n t \<noteq> a @ pat @ b"
proof
  assume d: "drop n t = a @ pat @ b"
  have "\<forall>j \<le> length (drop n t). \<not> startsWith (drop j (drop n t)) pat"
    using index_from_None [of "min n (length t)" pat "drop n t"] assms by (simp only: indexOf_def)
  moreover have "length a \<le> length (drop n t)" unfolding d by simp
  ultimately have "\<not> startsWith (drop (length a) (drop n t)) pat" by blast
  with d show False by simp
qed

text \<open>What an accepted edit does: it replaces one occurrence, and the rest has no other.\<close>

lemma replace_exact_Inr:
  assumes "replace_exact name t e = Inr t'"
  obtains a b where "t = a @ pe_oldText e @ b" and "t' = a @ pe_newText e @ b"
    and "indexOf t (pe_oldText e) 0 = Some (length a)" and "\<And>u v. b \<noteq> u @ pe_oldText e @ v"
proof -
  from assms obtain i where i: "indexOf t (pe_oldText e) 0 = Some i"
    and n: "indexOf t (pe_oldText e) (i + length (pe_oldText e)) = None"
    and t': "t' = take i t @ pe_newText e @ drop (i + length (pe_oldText e)) t"
    by (auto simp: replace_exact_def split: option.splits if_splits)
  have s: "t = take i t @ pe_oldText e @ drop (i + length (pe_oldText e)) t"
    and len: "i + length (pe_oldText e) \<le> length t"
    using indexOf_first [OF i] by blast+
  have "length (take i t) = i" using len by simp
  then show ?thesis using that [OF s t'] i indexOf_None [OF len n] by simp
qed

text \<open>The specification: the edits applied one after another to the texts of the documents.\<close>

definition replace_first :: "string \<Rightarrow> proposed_edit \<Rightarrow> string" where
  "replace_first t e =
     (case indexOf t (pe_oldText e) 0 of
        None \<Rightarrow> t
      | Some i \<Rightarrow> take i t @ pe_newText e @ drop (i + length (pe_oldText e)) t)"

fun edited :: "(string \<Rightarrow> string) \<Rightarrow> proposed_edit list \<Rightarrow> string \<Rightarrow> string" where
  "edited ts [] = ts"
| "edited ts (e # es) =
     edited (ts(pe_documentId e := replace_first (ts (pe_documentId e)) e)) es"

definition target_path :: "secure_root \<Rightarrow> project_document \<Rightarrow> path" where
  "target_path root d = resolve_path (sr_path root) (dc_relativePath d)"

text \<open>The text of a document before the patch.\<close>

definition base_text :: "files \<Rightarrow> secure_root \<Rightarrow> (string \<Rightarrow> project_document option) \<Rightarrow> string \<Rightarrow> string" where
  "base_text fs root documents i =
     (case documents i of
        None \<Rightarrow> []
      | Some d \<Rightarrow>
          if fs_lstat fs (target_path root d) \<noteq> None
            then (case fs_read fs (target_path root d) of None \<Rightarrow> [] | Some t \<Rightarrow> t)
          else dc_content d)"

definition pending_text :: "(string \<Rightarrow> string) \<Rightarrow> pending \<Rightarrow> string \<Rightarrow> string" where
  "pending_text base pending i = (case map_of pending i of Some f \<Rightarrow> pf_after f | None \<Rightarrow> base i)"

text \<open>What every pending file says about its document.\<close>

definition pending_ok :: "files \<Rightarrow> secure_root \<Rightarrow> (string \<Rightarrow> project_document option) \<Rightarrow> string \<Rightarrow> prepared_file \<Rightarrow> bool" where
  "pending_ok fs root documents i f =
     (documents i = Some (pf_document f) \<and> pf_before f = base_text fs root documents i
      \<and> strict_prefix (sr_path root) (target_path root (pf_document f))
      \<and> link_free fs (sr_path root) (target_path root (pf_document f))
      \<and> (pf_existedBefore f \<longleftrightarrow> fs_lstat fs (target_path root (pf_document f)) \<noteq> None)
      \<and> (\<forall>st. fs_lstat fs (target_path root (pf_document f)) = Some st \<and> st_kind st = FileKind \<longrightarrow> st_nlink st = 1)
      \<and> (pf_existedBefore f \<or> dc_virtual (pf_document f)))"

lemma map_of_map_set: "map_of (map_set m k v) = (map_of m)(k \<mapsto> v)"
  by (induction m k v rule: map_set.induct) auto

lemma keys_map_set: "map fst (map_set m k v) = (if k \<in> fst ` set m then map fst m else map fst m @ [k])"
  by (induction m k v rule: map_set.induct) auto

lemma replace_exact_first: "replace_exact name t e = Inr t' \<Longrightarrow> t' = replace_first t e"
  by (auto simp: replace_exact_def replace_first_def split: option.splits if_splits)

lemma prepare_edit_step:
  assumes "prepare_edit fs root documents pending e = Inr pending'"
    and "files_ok fs" and "''..'' \<notin> set (sr_path root)"
    and "\<forall>i f. map_of pending i = Some f \<longrightarrow> pending_ok fs root documents i f"
  shows "(\<forall>i f. map_of pending' i = Some f \<longrightarrow> pending_ok fs root documents i f)
     \<and> pending_text (base_text fs root documents) pending'
         = (pending_text (base_text fs root documents) pending)(pe_documentId e :=
             replace_first (pending_text (base_text fs root documents) pending (pe_documentId e)) e)
     \<and> map fst pending' = (if pe_documentId e \<in> fst ` set pending then map fst pending else map fst pending @ [pe_documentId e])"
proof -
  let ?i = "pe_documentId e" and ?base = "base_text fs root documents"
  from assms(1) obtain d where d: "documents ?i = Some d"
    by (auto simp: prepare_edit_def split: option.splits)
  let ?p = "target_path root d"
  let ?prev = "map_of pending ?i"
  obtain existed current after where
    path: "patchPath fs root (dc_relativePath d) = Inr ?p"
    and ex: "existed_before fs root ?prev ?p = Inr existed"
    and cur: "edit_source fs ?prev ?p d existed = Inr current"
    and rep: "replace_exact (displayName d) current e = Inr after"
    and p': "pending' = map_set pending ?i \<lparr>pf_document = d,
        pf_before = (case ?prev of Some f \<Rightarrow> pf_before f | None \<Rightarrow> current),
        pf_after = after, pf_existedBefore = existed\<rparr>" (is "_ = map_set pending ?i ?f")
  proof -
    from assms(1) d obtain q x c a where q: "patchPath fs root (dc_relativePath d) = Inr q"
      and "existed_before fs root ?prev q = Inr x" and "edit_source fs ?prev q d x = Inr c"
      and "replace_exact (displayName d) c e = Inr a"
      and "Inr (map_set pending ?i \<lparr>pf_document = d, pf_before = (case ?prev of Some f \<Rightarrow> pf_before f | None \<Rightarrow> c),
        pf_after = a, pf_existedBefore = x\<rparr>) = Inr pending'"
      unfolding prepare_edit_def Let_def by (auto simp only: option.case bindR_Inr_iff)
    moreover have "q = ?p" using q by (simp add: patchPath_Inr target_path_def)
    ultimately show ?thesis using that [of x c a] by simp
  qed
  have dots: "''..'' \<notin> set ?p" using assms(3) by (simp add: target_path_def resolve_no_dots)
  obtain r where r: "verifyPatchPath fs root ?p = Inr r" using path by (auto simp: patchPath_Inr)
  note v = verifyPatchPath_Inr [OF r assms(2) dots]
  have src: "current = pending_text ?base pending ?i" and ok: "pending_ok fs root documents ?i ?f"
  proof -
    show "current = pending_text ?base pending ?i"
    proof (cases "map_of pending ?i")
      case None
      then have "existed \<longleftrightarrow> fs_lstat fs ?p \<noteq> None" using ex r v by (auto simp: existed_before_def)
      then show ?thesis using None cur d
        by (auto simp: pending_text_def base_text_def edit_source_def current_text_def split: if_splits option.splits)
    next
      case (Some f)
      then show ?thesis using cur by (simp add: pending_text_def edit_source_def)
    qed
    show "pending_ok fs root documents ?i ?f"
    proof (cases "map_of pending ?i")
      case None
      then have e: "existed \<longleftrightarrow> fs_lstat fs ?p \<noteq> None" using ex r v by (auto simp: existed_before_def)
      then show ?thesis using None cur d v
        by (auto simp: pending_ok_def base_text_def edit_source_def current_text_def split: if_splits option.splits)
    next
      case (Some f)
      then have "pending_ok fs root documents ?i f" using assms(4) by blast
      with Some ex d show ?thesis by (auto simp: pending_ok_def existed_before_def)
    qed
  qed
  have "after = replace_first (pending_text ?base pending ?i) e"
    using rep src by (simp add: replace_exact_first)
  then have "pending_text ?base pending' = (pending_text ?base pending)(?i :=
      replace_first (pending_text ?base pending ?i) e)"
    by (auto simp: p' pending_text_def map_of_map_set fun_eq_iff)
  moreover have "\<forall>i f. map_of pending' i = Some f \<longrightarrow> pending_ok fs root documents i f"
    using assms(4) ok by (simp add: p' map_of_map_set)
  moreover have "map fst pending' = (if ?i \<in> fst ` set pending then map fst pending else map fst pending @ [?i])"
    by (simp add: p' keys_map_set)
  ultimately show ?thesis by blast
qed

lemma prepare_edits_all:
  assumes "prepare_edits fs root documents pending es = Inr pending'"
    and "files_ok fs" and "''..'' \<notin> set (sr_path root)"
    and "\<forall>i f. map_of pending i = Some f \<longrightarrow> pending_ok fs root documents i f" and "key_unique fst pending"
  shows "(\<forall>i f. map_of pending' i = Some f \<longrightarrow> pending_ok fs root documents i f) \<and> key_unique fst pending'
     \<and> pending_text (base_text fs root documents) pending'
         = edited (pending_text (base_text fs root documents) pending) es
     \<and> fst ` set pending' = fst ` set pending \<union> pe_documentId ` set es"
  using assms
proof (induction es arbitrary: pending)
  case Nil
  then show ?case by simp
next
  case (Cons e es)
  then obtain q where q: "prepare_edit fs root documents pending e = Inr q"
    and rest: "prepare_edits fs root documents q es = Inr pending'" by (auto simp: res_simps)
  note step = prepare_edit_step [OF q Cons.prems(2,3,4)]
  have keys: "map fst q = (if pe_documentId e \<in> fst ` set pending then map fst pending
      else map fst pending @ [pe_documentId e])" using step by blast
  then have "key_unique fst q" using Cons.prems(5) by auto
  with Cons.IH [OF rest Cons.prems(2,3)] step
  have ih: "(\<forall>i f. map_of pending' i = Some f \<longrightarrow> pending_ok fs root documents i f) \<and> key_unique fst pending'
     \<and> pending_text (base_text fs root documents) pending' = edited (pending_text (base_text fs root documents) q) es
     \<and> fst ` set pending' = fst ` set q \<union> pe_documentId ` set es" by blast
  have "fst ` set q = insert (pe_documentId e) (fst ` set pending)"
    using arg_cong [OF keys, of set] by (auto split: if_splits)
  with ih step show ?case by simp
qed

lemma list_all2_right: "list_all2 P xs ys \<Longrightarrow> y \<in> set ys \<Longrightarrow> \<exists>x \<in> set xs. P x y"
  by (induction rule: list_all2_induct) auto

lemma secureProjectRoot_Inr:
  "secureProjectRoot fs projectRoot = Inr root \<Longrightarrow> fs_realpath fs projectRoot = Some (sr_path root)"
  by (auto simp: secureProjectRoot_def split: option.splits if_splits)

lemma prepared_files:
  assumes "preparePatchedFiles fs projectRoot proposal documents = Inr prepared" and "files_ok fs"
  obtains root ids where "secureProjectRoot fs projectRoot = Inr root" and "distinct ids"
    and "set ids = pe_documentId ` set (pp_edits proposal)"
    and "list_all2 (\<lambda>i f. pending_ok fs root documents i f
       \<and> pf_after f = edited (base_text fs root documents) (pp_edits proposal) i) ids prepared"
proof -
  from assms(1) obtain root pending where root: "secureProjectRoot fs projectRoot = Inr root"
    and p: "prepare_edits fs root documents [] (pp_edits proposal) = Inr pending"
    and prepared: "prepared = map snd pending"
    by (auto simp: preparePatchedFiles_def res_simps)
  have dots: "''..'' \<notin> set (sr_path root)"
    using secureProjectRoot_Inr [OF root] assms(2) by (auto simp: files_ok_def)
  let ?base = "base_text fs root documents"
  have start: "pending_text ?base [] = ?base" by (simp add: pending_text_def fun_eq_iff)
  have all: "(\<forall>i f. map_of pending i = Some f \<longrightarrow> pending_ok fs root documents i f) \<and> key_unique fst pending
     \<and> pending_text ?base pending = edited ?base (pp_edits proposal)
     \<and> fst ` set pending = pe_documentId ` set (pp_edits proposal)"
    using prepare_edits_all [OF p assms(2) dots] unfolding start by simp
  have each: "pending_ok fs root documents i f \<and> pf_after f = edited ?base (pp_edits proposal) i"
    if "(i, f) \<in> set pending" for i f
  proof -
    have "map_of pending i = Some f" using that all by (simp add: map_of_is_SomeI)
    moreover from this have "pf_after f = pending_text ?base pending i" by (simp add: pending_text_def)
    ultimately show ?thesis using all by simp
  qed
  have "list_all2 (\<lambda>i f. pending_ok fs root documents i f \<and> pf_after f = edited ?base (pp_edits proposal) i)
      (map fst pending) prepared"
    using each by (auto simp: prepared list_all2_conv_all_nth)
  then show ?thesis using that [OF root, of "map fst pending"] all by simp
qed

section \<open>Properties\<close>

text \<open>C11: preparing a patch implements applying its edits in order. The prepared files are one per
  edited document; each starts from the document's present text (its file, or the marker of the slot
  when the file does not exist) and ends with the text that replacing first occurrences, edit by
  edit, gives.\<close>

theorem patch_refines_edits:
  assumes "preparePatchedFiles fs projectRoot proposal documents = Inr prepared" and "files_ok fs"
  shows "\<exists>root ids. secureProjectRoot fs projectRoot = Inr root \<and> distinct ids
     \<and> set ids = pe_documentId ` set (pp_edits proposal)
     \<and> list_all2 (\<lambda>i f. documents i = Some (pf_document f) \<and> pf_before f = base_text fs root documents i
          \<and> pf_after f = edited (base_text fs root documents) (pp_edits proposal) i) ids prepared"
proof (rule prepared_files [OF assms])
  fix root ids
  assume "secureProjectRoot fs projectRoot = Inr root" "distinct ids"
    "set ids = pe_documentId ` set (pp_edits proposal)"
    and "list_all2 (\<lambda>i f. pending_ok fs root documents i f
       \<and> pf_after f = edited (base_text fs root documents) (pp_edits proposal) i) ids prepared"
  moreover from this(4) have "list_all2 (\<lambda>i f. documents i = Some (pf_document f)
       \<and> pf_before f = base_text fs root documents i
       \<and> pf_after f = edited (base_text fs root documents) (pp_edits proposal) i) ids prepared"
    by (rule list_all2_mono) (simp add: pending_ok_def)
  ultimately show ?thesis by blast
qed

text \<open>C12: a prepared patch stays inside the project. Every target is strictly below the resolved
  project root, no existing entry on the way to it is a symbolic link, an existing target file has no
  second link, and a file that does not exist is created only for a slot that was offered.\<close>

theorem patch_stays_inside:
  assumes "preparePatchedFiles fs projectRoot proposal documents = Inr prepared" and "files_ok fs"
    and "f \<in> set prepared"
  shows "\<exists>root. fs_realpath fs projectRoot = Some root \<and>
     (let p = resolve_path root (dc_relativePath (pf_document f)) in
      strict_prefix root p \<and> link_free fs root p
      \<and> (\<forall>st. fs_lstat fs p = Some st \<and> st_kind st = FileKind \<longrightarrow> st_nlink st = 1)
      \<and> (pf_existedBefore f \<longleftrightarrow> fs_lstat fs p \<noteq> None) \<and> (pf_existedBefore f \<or> dc_virtual (pf_document f)))"
proof (rule prepared_files [OF assms(1,2)])
  fix root ids
  assume root: "secureProjectRoot fs projectRoot = Inr root"
    and all: "list_all2 (\<lambda>i f. pending_ok fs root documents i f
       \<and> pf_after f = edited (base_text fs root documents) (pp_edits proposal) i) ids prepared"
  from list_all2_right [OF all assms(3)] obtain i where "pending_ok fs root documents i f" by blast
  with secureProjectRoot_Inr [OF root] show ?thesis
    by (auto simp: pending_ok_def target_path_def Let_def)
qed

text \<open>An accepted edit replaces exactly one place: the first occurrence of its old text, and the
  text after that occurrence does not contain the old text again.\<close>

theorem edit_replaces_one_place:
  assumes "replace_exact name t e = Inr t'"
  shows "\<exists>a b. t = a @ pe_oldText e @ b \<and> t' = a @ pe_newText e @ b
     \<and> indexOf t (pe_oldText e) 0 = Some (length a) \<and> indexOf b (pe_oldText e) 0 = None"
proof (rule replace_exact_Inr [OF assms])
  fix a b
  assume r: "t = a @ pe_oldText e @ b" "t' = a @ pe_newText e @ b" "indexOf t (pe_oldText e) 0 = Some (length a)"
    and none: "\<And>u v. b \<noteq> u @ pe_oldText e @ v"
  have "indexOf b (pe_oldText e) 0 = None"
    using none indexOf_first [of b "pe_oldText e"] by (cases "indexOf b (pe_oldText e) 0") auto
  with r show ?thesis by blast
qed

theorem edit_replaces_one_place_witness:
  "\<exists>a b. ''xaby'' = a @ ''ab'' @ b \<and> ''xcy'' = a @ ''c'' @ b \<and> indexOf ''xaby'' ''ab'' 0 = Some (length a)"
proof -
  have "replace_exact [] ''xaby'' \<lparr>pe_documentId = ''doc_a'', pe_oldText = ''ab'', pe_newText = ''c''\<rparr> = Inr ''xcy''"
    by code_simp
  from edit_replaces_one_place [OF this] show ?thesis by auto
qed

text \<open>The test for ambiguity does not see overlapping occurrences: in \<open>aaa\<close> the old text \<open>aa\<close> occurs
  at positions 0 and 1, and the edit is accepted.\<close>

theorem overlapping_occurrence_accepted:
  "replace_exact name ''aaa'' \<lparr>pe_documentId = ''doc_a'', pe_oldText = ''aa'', pe_newText = ''b''\<rparr> = Inr ''ba''
     \<and> startsWith (drop 0 ''aaa'') ''aa'' \<and> startsWith (drop 1 ''aaa'') ''aa''"
  by (simp add: replace_exact_def indexOf_def startsWith_def)

definition sample_entry :: "path \<Rightarrow> file_stats option" where
  "sample_entry p =
     (if p = [] \<or> p = [''p''] then Some \<lparr>st_kind = DirKind, st_dev = 1, st_ino = length p, st_nlink = 2\<rparr>
      else if p = [''p'', ''a''] then Some \<lparr>st_kind = FileKind, st_dev = 1, st_ino = 7, st_nlink = 1\<rparr>
      else None)"

definition sample_files :: files where
  "sample_files = \<lparr>fs_lstat = sample_entry,
     fs_realpath = (\<lambda>p. if sample_entry p = None then None else Some p),
     fs_read = (\<lambda>p. if p = [''p'', ''a''] then Some ''one two'' else None)\<rparr>"

definition sample_documents :: "string \<Rightarrow> project_document option" where
  "sample_documents =
     [''doc_a'' \<mapsto> \<lparr>dc_id = ''doc_a'', dc_relativePath = ''a'', dc_content = ''one two'', dc_sha256 = [], dc_virtual = False\<rparr>,
      ''doc_b'' \<mapsto> \<lparr>dc_id = ''doc_b'', dc_relativePath = ''b'', dc_content = ''NEW'', dc_sha256 = [], dc_virtual = True\<rparr>]"

definition sample_proposal :: patch_proposal where
  "sample_proposal = \<lparr>pp_edits =
       [\<lparr>pe_documentId = ''doc_a'', pe_oldText = ''one'', pe_newText = ''1''\<rparr>,
        \<lparr>pe_documentId = ''doc_b'', pe_oldText = ''NEW'', pe_newText = ''text''\<rparr>,
        \<lparr>pe_documentId = ''doc_a'', pe_oldText = ''two'', pe_newText = ''2''\<rparr>],
     pp_assumptions = [], pp_verificationGoals = []\<rparr>"

lemma sample_files_ok: "files_ok sample_files"
  by (auto simp: files_ok_def sample_files_def sample_entry_def append_eq_Cons_conv split: if_splits)

lemma sample_prepares:
  "\<exists>prepared. preparePatchedFiles sample_files [''p''] sample_proposal sample_documents = Inr prepared
     \<and> map pf_after prepared = [''1 2'', ''text''] \<and> map pf_existedBefore prepared = [True, False]"
proof -
  have "case preparePatchedFiles sample_files [''p''] sample_proposal sample_documents of
      Inl _ \<Rightarrow> False
    | Inr prepared \<Rightarrow> map pf_after prepared = [''1 2'', ''text''] \<and> map pf_existedBefore prepared = [True, False]"
    by code_simp
  then show ?thesis by (auto split: sum.splits)
qed

theorem patch_refines_edits_witness:
  "\<exists>prepared root ids. preparePatchedFiles sample_files [''p''] sample_proposal sample_documents = Inr prepared
     \<and> set ids = {''doc_a'', ''doc_b''}
     \<and> list_all2 (\<lambda>i f. pf_after f = edited (base_text sample_files root sample_documents) (pp_edits sample_proposal) i)
         ids prepared"
proof -
  obtain prepared where p: "preparePatchedFiles sample_files [''p''] sample_proposal sample_documents = Inr prepared"
    using sample_prepares by blast
  from patch_refines_edits [OF p sample_files_ok] obtain root ids where
    ids: "set ids = pe_documentId ` set (pp_edits sample_proposal)"
    and all: "list_all2 (\<lambda>i f. sample_documents i = Some (pf_document f)
       \<and> pf_before f = base_text sample_files root sample_documents i
       \<and> pf_after f = edited (base_text sample_files root sample_documents) (pp_edits sample_proposal) i) ids prepared"
    by blast
  have "set ids = {''doc_a'', ''doc_b''}" unfolding ids by (auto simp: sample_proposal_def)
  moreover have "list_all2 (\<lambda>i f. pf_after f =
      edited (base_text sample_files root sample_documents) (pp_edits sample_proposal) i) ids prepared"
    using all by (rule list_all2_mono) simp
  ultimately show ?thesis using p by blast
qed

theorem patch_stays_inside_witness:
  "\<exists>prepared f root. preparePatchedFiles sample_files [''p''] sample_proposal sample_documents = Inr prepared
     \<and> f \<in> set prepared \<and> strict_prefix root (resolve_path root (dc_relativePath (pf_document f)))"
proof -
  obtain prepared where p: "preparePatchedFiles sample_files [''p''] sample_proposal sample_documents = Inr prepared"
    and "map pf_after prepared = [''1 2'', ''text'']"
    using sample_prepares by (elim exE conjE) (rule that)
  then obtain f where f: "f \<in> set prepared" by (cases prepared) auto
  from patch_stays_inside [OF p sample_files_ok f] obtain root where
    "strict_prefix root (resolve_path root (dc_relativePath (pf_document f)))" unfolding Let_def by blast
  with p f show ?thesis by blast
qed

end
