(* ===== verification/Effects.thy ===== *)
theory Effects
  imports Prelude
begin

text \<open>
  Steps that read and change a state and may throw: a step maps the state to the state it leaves
  behind and its result, so the effects made before an exception stay visible. \<open>bindL\<close> is the
  sequence of two statements, \<open>catchL\<close> a \<open>try\<close> with its \<open>catch\<close> block, \<open>finallyL\<close> a \<open>try\<close> with a \<open>finally\<close>
  block, whose own exception wins, and \<open>each_step\<close> a \<open>for\<close> loop over an array.
\<close>

type_synonym ('s, 'a) act = "'s \<Rightarrow> 's \<times> 'a res"

definition bindL :: "('s, 'a) act \<Rightarrow> ('a \<Rightarrow> ('s, 'b) act) \<Rightarrow> ('s, 'b) act" where
  "bindL step f s = (case step s of (s', Inl e) \<Rightarrow> (s', Inl e) | (s', Inr x) \<Rightarrow> f x s')"

definition liftL :: "'a res \<Rightarrow> ('s, 'a) act" where
  "liftL r s = (s, r)"

definition catchL :: "('s, 'a) act \<Rightarrow> (js_error \<Rightarrow> ('s, 'a) act) \<Rightarrow> ('s, 'a) act" where
  "catchL step h s = (case step s of (s', Inl e) \<Rightarrow> h e s' | (s', Inr x) \<Rightarrow> (s', Inr x))"

definition finallyL :: "('s, 'a) act \<Rightarrow> ('s, unit) act \<Rightarrow> ('s, 'a) act" where
  "finallyL step cleanup s =
     (case step s of (s1, r) \<Rightarrow> (case cleanup s1 of (s2, Inl e) \<Rightarrow> (s2, Inl e) | (s2, Inr _) \<Rightarrow> (s2, r)))"

fun each_step :: "('a \<Rightarrow> ('s, unit) act) \<Rightarrow> 'a list \<Rightarrow> ('s, unit) act" where
  "each_step f [] = liftL (Inr ())"
| "each_step f (x # xs) = bindL (f x) (\<lambda>_. each_step f xs)"

text \<open>\<open>error.message\<close>; the runtime writes the messages of its own errors.\<close>

fun message_of :: "(js_error \<Rightarrow> string) \<Rightarrow> js_error \<Rightarrow> string" where
  "message_of engine (Error m) = m"
| "message_of engine (SemanticContractError c m) = m"
| "message_of engine (PiAdapterError c m) = m"
| "message_of engine (TuiSideChatStateError m) = m"
| "message_of engine (StateGoalError m) = m"
| "message_of engine (AggregateError es m) = m"
| "message_of engine e = engine e"

lemma bindL_split:
  assumes "bindL step f s = (s', r)"
  obtains (stop) e where "step s = (s', Inl e)" and "r = Inl e"
    | (go) s1 x where "step s = (s1, Inr x)" and "f x s1 = (s', r)"
  using assms by (auto simp: bindL_def split: prod.splits sum.splits)

lemma bindL_Inr: "bindL step f s = (s', Inr y) \<longleftrightarrow> (\<exists>s1 x. step s = (s1, Inr x) \<and> f x s1 = (s', Inr y))"
  by (auto simp: bindL_def split: prod.splits sum.splits)

lemma liftL_eq: "liftL r s = (s', y) \<longleftrightarrow> s' = s \<and> r = y"
  by (auto simp: liftL_def)

lemma catchL_split:
  assumes "catchL step h s = (s', r)"
  obtains (ok) x where "step s = (s', Inr x)" and "r = Inr x"
    | (caught) s1 e where "step s = (s1, Inl e)" and "h e s1 = (s', r)"
  using assms by (auto simp: catchL_def split: prod.splits sum.splits)

end
