(* ===== verification/PatchTransaction.thy ===== *)
theory PatchTransaction
  imports Patch Effects
begin

text \<open>
  Writing a patch: \<open>coding-runtime-patch-transaction.ts\<close>, \<open>coding-runtime-patch-descriptor.ts\<close>,
  \<open>ensurePatchParent\<close> and \<open>applyPreparedFiles\<close> of \<open>coding-runtime-patch-apply.ts\<close>, and the POSIX
  branch of \<open>coding-runtime-patch-windows.ts\<close>. The disk has directory entries and inodes; an open
  descriptor is its inode number, so it survives a rename or a removal of the name. Every system
  call that changes the disk may fail, and a write may accept only a part of the bytes: both are
  decided by the operating system, a parameter. No other process changes the disk meanwhile.
\<close>

section \<open>The disk\<close>

type_synonym bytes = "nat list"

record inode =
  in_kind :: file_kind
  in_dev :: nat
  in_nlink :: nat
  in_mode :: nat
  in_content :: bytes

record disk =
  ds_entry :: "path \<Rightarrow> nat option"
  ds_inode :: "nat \<Rightarrow> inode"
  ds_next :: nat
  ds_calls :: nat

datatype syscall = Mkdir | Create | OpenRead | Chmod | Truncate | WriteCall | Rename | LinkCall | Unlink

text \<open>
  The operating system: which call fails, how many bytes a write accepts, the random names, the
  mode a created file gets, what a path through a symbolic link resolves to, and the decoding of
  file contents to text.
\<close>

record os =
  os_fault :: "nat \<Rightarrow> syscall \<Rightarrow> string option"
  os_chunk :: "nat \<Rightarrow> nat"
  os_uuid :: "nat \<Rightarrow> string"
  os_pid :: string
  os_mode :: "nat \<Rightarrow> nat"
  os_through :: "path \<Rightarrow> path option"
  os_decode :: "bytes \<Rightarrow> string"

type_synonym 'a io = "(disk, 'a) act"

definition stats_of :: "disk \<Rightarrow> nat \<Rightarrow> file_stats" where
  "stats_of d i =
     \<lparr>st_kind = in_kind (ds_inode d i), st_dev = in_dev (ds_inode d i), st_ino = i, st_nlink = in_nlink (ds_inode d i)\<rparr>"

definition has_link :: "disk \<Rightarrow> path \<Rightarrow> bool" where
  "has_link d p = list_ex (\<lambda>q. case ds_entry d q of None \<Rightarrow> False | Some i \<Rightarrow> in_kind (ds_inode d i) = LinkKind) (prefixes p)"

definition files_of :: "os \<Rightarrow> disk \<Rightarrow> files" where
  "files_of os d =
     \<lparr>fs_lstat = (\<lambda>p. map_option (stats_of d) (ds_entry d p)),
      fs_realpath = (\<lambda>p. if has_link d p then os_through os p else if ds_entry d p = None then None else Some p),
      fs_read = (\<lambda>p. case ds_entry d p of
         None \<Rightarrow> None
       | Some i \<Rightarrow> if in_kind (ds_inode d i) = FileKind then Some (os_decode os (in_content (ds_inode d i))) else None)\<rparr>"

section \<open>System calls\<close>

definition sys :: "os \<Rightarrow> syscall \<Rightarrow> unit io" where
  "sys os c d =
     (d\<lparr>ds_calls := Suc (ds_calls d)\<rparr>, case os_fault os (ds_calls d) c of Some m \<Rightarrow> Inl (Error m) | None \<Rightarrow> Inr ())"

definition set_inode :: "nat \<Rightarrow> inode \<Rightarrow> disk \<Rightarrow> disk" where
  "set_inode i n d = d\<lparr>ds_inode := (ds_inode d)(i := n)\<rparr>"

definition set_entry :: "path \<Rightarrow> nat option \<Rightarrow> disk \<Rightarrow> disk" where
  "set_entry p e d = d\<lparr>ds_entry := (ds_entry d)(p := e)\<rparr>"

definition add_links :: "nat \<Rightarrow> int \<Rightarrow> disk \<Rightarrow> disk" where
  "add_links i k d = set_inode i ((ds_inode d i)\<lparr>in_nlink := nat (int (in_nlink (ds_inode d i)) + k)\<rparr>) d"

text \<open>A new name with a new inode, in an existing directory.\<close>

definition new_entry :: "file_kind \<Rightarrow> nat \<Rightarrow> path \<Rightarrow> nat io" where
  "new_entry kind mode p d =
     (case ds_entry d (butlast p) of
        None \<Rightarrow> (d, Inl (Error ''ENOENT''))
      | Some parent \<Rightarrow>
          if ds_entry d p \<noteq> None then (d, Inl (Error ''EEXIST''))
          else if p = [] \<or> in_kind (ds_inode d parent) \<noteq> DirKind then (d, Inl (Error ''ENOTDIR''))
          else
            (set_entry p (Some (ds_next d)) (set_inode (ds_next d)
               \<lparr>in_kind = kind, in_dev = in_dev (ds_inode d parent), in_nlink = 1, in_mode = mode, in_content = []\<rparr>
               (d\<lparr>ds_next := Suc (ds_next d)\<rparr>)), Inr (ds_next d)))"

definition mkdirSync :: "os \<Rightarrow> path \<Rightarrow> unit io" where
  "mkdirSync os p = bindL (sys os Mkdir) (\<lambda>_. bindL (new_entry DirKind (os_mode os 493) p) (\<lambda>_. liftL (Inr ())))"

text \<open>\<open>openSync\<close> with \<open>O_CREAT\<close> and \<open>O_EXCL\<close>, and for reading.\<close>

definition createSync :: "os \<Rightarrow> path \<Rightarrow> nat \<Rightarrow> nat io" where
  "createSync os p mode = bindL (sys os Create) (\<lambda>_. new_entry FileKind (os_mode os mode) p)"

definition openSync :: "os \<Rightarrow> path \<Rightarrow> nat io" where
  "openSync os p = bindL (sys os OpenRead) (\<lambda>_ d. (d, case ds_entry d p of None \<Rightarrow> Inl (Error ''ENOENT'') | Some i \<Rightarrow> Inr i))"

definition chmodSync :: "os \<Rightarrow> path \<Rightarrow> nat \<Rightarrow> unit io" where
  "chmodSync os p mode =
     bindL (sys os Chmod) (\<lambda>_ d.
       case ds_entry d p of
         None \<Rightarrow> (d, Inl (Error ''ENOENT''))
       | Some i \<Rightarrow> (set_inode i ((ds_inode d i)\<lparr>in_mode := mode\<rparr>) d, Inr ()))"

definition unlinkSync :: "os \<Rightarrow> path \<Rightarrow> unit io" where
  "unlinkSync os p =
     bindL (sys os Unlink) (\<lambda>_ d.
       case ds_entry d p of
         None \<Rightarrow> (d, Inl (Error ''ENOENT''))
       | Some i \<Rightarrow>
           if in_kind (ds_inode d i) = DirKind then (d, Inl (Error ''EPERM''))
           else (add_links i (- 1) (set_entry p None d), Inr ()))"

text \<open>\<open>rmSync\<close> with \<open>force\<close>.\<close>

definition rmForce :: "os \<Rightarrow> path \<Rightarrow> unit io" where
  "rmForce os p d = (if ds_entry d p = None then (d, Inr ()) else unlinkSync os p d)"

definition linkSync :: "os \<Rightarrow> path \<Rightarrow> path \<Rightarrow> unit io" where
  "linkSync os src dst =
     bindL (sys os LinkCall) (\<lambda>_ d.
       case ds_entry d src of
         None \<Rightarrow> (d, Inl (Error ''ENOENT''))
       | Some i \<Rightarrow>
           if ds_entry d dst \<noteq> None then (d, Inl (Error ''EEXIST''))
           else (add_links i 1 (set_entry dst (Some i) d), Inr ()))"

definition renameSync :: "os \<Rightarrow> path \<Rightarrow> path \<Rightarrow> unit io" where
  "renameSync os src dst =
     bindL (sys os Rename) (\<lambda>_ d.
       case ds_entry d src of
         None \<Rightarrow> (d, Inl (Error ''ENOENT''))
       | Some i \<Rightarrow>
           (case ds_entry d dst of
              None \<Rightarrow> (set_entry dst (Some i) (set_entry src None d), Inr ())
            | Some j \<Rightarrow>
                if j = i then (d, Inr ())
                else if in_kind (ds_inode d j) = DirKind then (d, Inl (Error ''EISDIR''))
                else (add_links j (- 1) (set_entry dst (Some i) (set_entry src None d)), Inr ())))"

section \<open>Descriptors\<close>

text \<open>The reads are repeated until the end of the file, so the whole content is compared.\<close>

definition readPatchDescriptor :: "nat \<Rightarrow> bytes io" where
  "readPatchDescriptor i d = (d, Inr (in_content (ds_inode d i)))"

definition write_at :: "nat \<Rightarrow> nat \<Rightarrow> bytes \<Rightarrow> disk \<Rightarrow> disk" where
  "write_at i offset bs d =
     (let n = ds_inode d i in
      set_inode i (n\<lparr>in_content := take offset (in_content n) @ bs @ drop (offset + length bs) (in_content n)\<rparr>) d)"

function write_loop :: "os \<Rightarrow> nat \<Rightarrow> bytes \<Rightarrow> nat \<Rightarrow> unit io" where
  "write_loop os i data offset d =
     (if length data \<le> offset then (d, Inr ())
      else case sys os WriteCall d of
        (d1, Inl e) \<Rightarrow> (d1, Inl e)
      | (d1, Inr _) \<Rightarrow>
          let written = min (os_chunk os (ds_calls d)) (length data - offset) in
          if written = 0 then (d1, Inl (Error ''Patch target write made no progress''))
          else write_loop os i data (offset + written) (write_at i offset (take written (drop offset data)) d1))"
  by auto

termination
  by (relation "measure (\<lambda>(os, i, data, offset, d). length data - offset)") auto

declare write_loop.simps [simp del]

definition writePatchDescriptor :: "os \<Rightarrow> nat \<Rightarrow> bytes \<Rightarrow> unit io" where
  "writePatchDescriptor os i data =
     bindL (sys os Truncate) (\<lambda>_ d. write_loop os i data 0 (set_inode i ((ds_inode d i)\<lparr>in_content := []\<rparr>) d))"

section \<open>One file\<close>

record transaction_file =
  tf_relativePath :: string
  tf_before :: bytes
  tf_after :: bytes
  tf_existedBefore :: bool

record stage =
  sg_descriptor :: nat
  sg_path :: path
  sg_stats :: file_stats

record applied_file =
  ap_existedBefore :: bool
  ap_path :: path
  ap_descriptor :: nat
  ap_stats :: file_stats
  ap_before :: bytes
  ap_after :: bytes
  ap_mode :: nat

definition verify :: "os \<Rightarrow> secure_root \<Rightarrow> path \<Rightarrow> file_stats option io" where
  "verify os root p d = (d, verifyPatchPath (files_of os d) root p)"

definition isSameFile :: "file_stats \<Rightarrow> file_stats option \<Rightarrow> bool" where
  "isSameFile l r = (case r of None \<Rightarrow> False | Some st \<Rightarrow> st_dev l = st_dev st \<and> st_ino l = st_ino st)"

definition patchTemporaryPath :: "os \<Rightarrow> nat \<Rightarrow> path \<Rightarrow> path" where
  "patchTemporaryPath os n p = butlast p @ [last p @ ''.'' @ os_pid os @ ''.'' @ os_uuid os n @ ''.patch'']"

definition fill_stage :: "os \<Rightarrow> nat \<Rightarrow> path \<Rightarrow> bytes \<Rightarrow> nat option \<Rightarrow> stage io" where
  "fill_stage os i temporary content mode =
     catchL
       (bindL (case mode of None \<Rightarrow> liftL (Inr ()) | Some m \<Rightarrow> chmodSync os temporary m) (\<lambda>_.
        bindL (writePatchDescriptor os i content) (\<lambda>_ d.
        (d, Inr \<lparr>sg_descriptor = i, sg_path = temporary, sg_stats = stats_of d i\<rparr>))))
       (\<lambda>e. bindL (rmForce os temporary) (\<lambda>_. liftL (Inl e)))"

definition openStage :: "os \<Rightarrow> path \<Rightarrow> bytes \<Rightarrow> nat option \<Rightarrow> stage io" where
  "openStage os p content mode d =
     (let temporary = patchTemporaryPath os (ds_calls d) p in
      bindL (createSync os temporary (case mode of None \<Rightarrow> 420 | Some m \<Rightarrow> m)) (\<lambda>i.
      fill_stage os i temporary content mode) d)"

definition linkNoReplace :: "os \<Rightarrow> path \<Rightarrow> path \<Rightarrow> unit io" where
  "linkNoReplace os src dst = bindL (linkSync os src dst) (\<lambda>_. unlinkSync os src)"

text \<open>\<open>ensurePatchParent\<close>, component by component.\<close>

fun ensure_parents :: "os \<Rightarrow> secure_root \<Rightarrow> path \<Rightarrow> string list \<Rightarrow> unit io" where
  "ensure_parents os root current [] = liftL (Inr ())"
| "ensure_parents os root current (s # ss) =
     bindL (verify os root (current @ [s])) (\<lambda>st.
     bindL (if st = None then mkdirSync os (current @ [s]) else liftL (Inr ())) (\<lambda>_.
     bindL (verify os root (current @ [s])) (\<lambda>st'.
     if map_option st_kind st' \<noteq> Some DirKind
       then liftL (Inl (Error (''Patch parent is not a directory: '' @ path_text (current @ [s]))))
     else ensure_parents os root (current @ [s]) ss)))"

definition ensurePatchParent :: "os \<Rightarrow> secure_root \<Rightarrow> path \<Rightarrow> unit io" where
  "ensurePatchParent os root p = ensure_parents os root (sr_path root) (relative_path (sr_path root) (butlast p))"

definition changed :: "string \<Rightarrow> path \<Rightarrow> js_error" where
  "changed m p = Error (''Patch target changed '' @ m @ '': '' @ path_text p)"

text \<open>The source of an existing target: the opened file is the verified one and has the expected content.\<close>

definition open_source :: "os \<Rightarrow> path \<Rightarrow> file_stats option \<Rightarrow> bytes \<Rightarrow> nat option io" where
  "open_source os p target expected =
     (case target of
        None \<Rightarrow> liftL (Inr None)
      | Some st \<Rightarrow>
          bindL (openSync os p) (\<lambda>i d.
          if in_nlink (ds_inode d i) \<noteq> 1 \<or> \<not> isSameFile (stats_of d i) (Some st) \<or> in_content (ds_inode d i) \<noteq> expected
            then (d, Inl (changed ''before apply'' p))
          else (d, Inr (Some i))))"

definition commit :: "os \<Rightarrow> secure_root \<Rightarrow> path \<Rightarrow> nat option \<Rightarrow> bytes \<Rightarrow> stage \<Rightarrow> unit io" where
  "commit os root p source expected staged =
     (case source of
        Some i \<Rightarrow>
          bindL (verify os root p) (\<lambda>st d.
          if \<not> isSameFile (stats_of d i) st \<or> in_content (ds_inode d i) \<noteq> expected then (d, Inl (changed ''before apply'' p))
          else renameSync os (sg_path staged) p d)
      | None \<Rightarrow>
          bindL (verify os root p) (\<lambda>st.
          if st \<noteq> None then liftL (Inl (changed ''before apply'' p))
          else linkNoReplace os (sg_path staged) p))"

text \<open>
  The result of \<open>applyOne\<close>: an exception before the commit, or the applied file together with the
  outcome of the last check (the \<open>CommittedPatchError\<close> of the source carries the applied file).
\<close>

definition confirm :: "os \<Rightarrow> secure_root \<Rightarrow> applied_file \<Rightarrow> (applied_file \<times> unit res) io" where
  "confirm os root a =
     bindL (verify os root (ap_path a)) (\<lambda>st.
     bindL (readPatchDescriptor (ap_descriptor a)) (\<lambda>content.
     liftL (Inr (a, if \<not> isSameFile (ap_stats a) st \<or> content \<noteq> ap_after a
                    then Inl (changed ''while applying'' (ap_path a)) else Inr ()))))"

definition replace_file :: "os \<Rightarrow> secure_root \<Rightarrow> path \<Rightarrow> transaction_file \<Rightarrow> nat option \<Rightarrow> (applied_file \<times> unit res) io" where
  "replace_file os root p f source d =
     (let mode = map_option (\<lambda>i. in_mode (ds_inode d i)) source in
      bindL (openStage os p (tf_after f) mode) (\<lambda>staged.
      bindL (catchL (commit os root p source (tf_before f) staged)
               (\<lambda>e. bindL (rmForce os (sg_path staged)) (\<lambda>_. liftL (Inl e)))) (\<lambda>_ d1.
      confirm os root
        \<lparr>ap_existedBefore = tf_existedBefore f, ap_path = p, ap_descriptor = sg_descriptor staged, ap_stats = sg_stats staged,
         ap_before = tf_before f, ap_after = tf_after f,
         ap_mode = (case mode of Some m \<Rightarrow> m | None \<Rightarrow> in_mode (ds_inode d1 (sg_descriptor staged)))\<rparr> d1)) d)"

definition applyOne :: "os \<Rightarrow> secure_root \<Rightarrow> transaction_file \<Rightarrow> (applied_file \<times> unit res) io" where
  "applyOne os root f d0 =
     bindL (liftL (patchPath (files_of os d0) root (tf_relativePath f))) (\<lambda>p.
     bindL (verify os root p) (\<lambda>target.
     if tf_existedBefore f \<noteq> (target \<noteq> None) then liftL (Inl (changed ''before apply'' p))
     else if (case target of None \<Rightarrow> False | Some st \<Rightarrow> st_kind st \<noteq> FileKind \<or> st_nlink st \<noteq> 1)
       then liftL (Inl (changed ''before apply'' p))
     else
       bindL (ensurePatchParent os root p) (\<lambda>_.
       bindL (open_source os p target (tf_before f)) (\<lambda>source.
       replace_file os root p f source)))) d0"

section \<open>Undoing\<close>

definition restore :: "os \<Rightarrow> secure_root \<Rightarrow> applied_file \<Rightarrow> stage \<Rightarrow> unit io" where
  "restore os root a staged =
     bindL (verify os root (ap_path a)) (\<lambda>st.
     bindL (readPatchDescriptor (ap_descriptor a)) (\<lambda>content.
     if \<not> isSameFile (ap_stats a) st \<or> content \<noteq> ap_after a then liftL (Inl (changed ''during rollback'' (ap_path a)))
     else
       bindL (renameSync os (sg_path staged) (ap_path a)) (\<lambda>_.
       bindL (verify os root (ap_path a)) (\<lambda>st'.
       if \<not> isSameFile (sg_stats staged) st' then liftL (Inl (changed ''during rollback'' (ap_path a)))
       else liftL (Inr ())))))"

definition rollback :: "os \<Rightarrow> secure_root \<Rightarrow> applied_file \<Rightarrow> unit io" where
  "rollback os root a =
     bindL (verify os root (ap_path a)) (\<lambda>st.
     if \<not> isSameFile (ap_stats a) st
       then liftL (Inl (Error (''Patch target changed while applying; rollback blocked: '' @ path_text (ap_path a))))
     else
       bindL (readPatchDescriptor (ap_descriptor a)) (\<lambda>content.
       if content \<noteq> ap_after a
         then liftL (Inl (Error (''Patch target changed after apply; rollback blocked: '' @ path_text (ap_path a))))
       else if \<not> ap_existedBefore a then
         bindL (verify os root (ap_path a)) (\<lambda>st'.
         if \<not> isSameFile (ap_stats a) st' then liftL (Inl (changed ''during rollback'' (ap_path a)))
         else unlinkSync os (ap_path a))
       else
         bindL (openStage os (ap_path a) (ap_before a) (Some (ap_mode a))) (\<lambda>staged.
         finallyL (restore os root a staged) (rmForce os (sg_path staged)))))"

section \<open>The transaction\<close>

fun apply_all :: "os \<Rightarrow> secure_root \<Rightarrow> transaction_file list \<Rightarrow> applied_file list \<Rightarrow> disk \<Rightarrow> disk \<times> applied_file list \<times> unit res" where
  "apply_all os root [] applied d = (d, applied, Inr ())"
| "apply_all os root (f # fs) applied d =
     (case applyOne os root f d of
        (d1, Inl e) \<Rightarrow> (d1, applied, Inl e)
      | (d1, Inr (a, Inl e)) \<Rightarrow> (d1, applied @ [a], Inl e)
      | (d1, Inr (a, Inr _)) \<Rightarrow> apply_all os root fs (applied @ [a]) d1)"

fun rollback_all :: "os \<Rightarrow> secure_root \<Rightarrow> applied_file list \<Rightarrow> disk \<Rightarrow> disk \<times> js_error list" where
  "rollback_all os root [] d = (d, [])"
| "rollback_all os root (a # applied) d =
     (case rollback os root a d of
        (d1, Inr _) \<Rightarrow> rollback_all os root applied d1
      | (d1, Inl e) \<Rightarrow> (case rollback_all os root applied d1 of (d2, es) \<Rightarrow> (d2, e # es)))"

definition applyPatchTransaction :: "os \<Rightarrow> (js_error \<Rightarrow> string) \<Rightarrow> secure_root \<Rightarrow> transaction_file list \<Rightarrow> unit io" where
  "applyPatchTransaction os engine root fs d =
     (case apply_all os root fs [] d of
        (d1, applied, Inr _) \<Rightarrow> (d1, Inr ())
      | (d1, applied, Inl e) \<Rightarrow>
          (case rollback_all os root (rev applied) d1 of
             (d2, []) \<Rightarrow> (d2, Inl e)
           | (d2, es) \<Rightarrow> (d2, Inl (AggregateError (e # es)
               (''Patch apply failed: '' @ message_of engine e @ ''; rollback incomplete'')))))"

text \<open>\<open>Buffer.from(text, "utf8")\<close> for the characters of the model.\<close>

definition utf8 :: "string \<Rightarrow> bytes" where
  "utf8 t = concat (map (\<lambda>c. let n = of_char c :: nat in if n < 128 then [n] else [192 + n div 64, 128 + n mod 64]) t)"

definition transaction_of :: "prepared_file \<Rightarrow> transaction_file" where
  "transaction_of f =
     \<lparr>tf_relativePath = dc_relativePath (pf_document f), tf_before = utf8 (pf_before f), tf_after = utf8 (pf_after f),
      tf_existedBefore = pf_existedBefore f\<rparr>"

definition applyPreparedFiles :: "os \<Rightarrow> (js_error \<Rightarrow> string) \<Rightarrow> path \<Rightarrow> prepared_file list \<Rightarrow> unit io" where
  "applyPreparedFiles os engine projectRoot fs d =
     bindL (liftL (secureProjectRoot (files_of os d) projectRoot)) (\<lambda>root.
     applyPatchTransaction os engine root (map transaction_of fs)) d"

end
