(* ===== verification/Frames.thy ===== *)
theory Frames
  imports Effects
begin

text \<open>
  What a sequence of steps keeps. A relation between the state before and after that is reflexive and
  transitive holds of a whole program when it holds of each of its steps, however the program ends;
  the steps may rely on an invariant that the relation keeps.
\<close>

locale step_relation =
  fixes inv :: "'s \<Rightarrow> bool" and rel :: "'s \<Rightarrow> 's \<Rightarrow> bool"
  assumes rel_refl: "inv s \<Longrightarrow> rel s s"
    and rel_trans: "rel s t \<Longrightarrow> rel t u \<Longrightarrow> rel s u"
    and rel_inv: "inv s \<Longrightarrow> rel s t \<Longrightarrow> inv t"
begin

definition obeys :: "('s, 'a) act \<Rightarrow> bool" where
  "obeys step = (\<forall>s s' r. inv s \<longrightarrow> step s = (s', r) \<longrightarrow> rel s s')"

lemma obeysI: "(\<And>s s' r. inv s \<Longrightarrow> step s = (s', r) \<Longrightarrow> rel s s') \<Longrightarrow> obeys step"
  unfolding obeys_def by blast

lemma obeysD: "obeys step \<Longrightarrow> step s = (s', r) \<Longrightarrow> inv s \<Longrightarrow> rel s s'"
  unfolding obeys_def by blast

lemma obeys_lift: "obeys (liftL r)"
  by (rule obeysI) (simp add: liftL_eq rel_refl)

lemma obeys_then:
  assumes "obeys step" and "step s = (s1, x)" and "inv s" and "f s1 = (s', r)" and "obeys f"
  shows "rel s s'"
proof -
  have "rel s s1" using assms(1-3) by (rule obeysD)
  moreover from this assms(3) have "inv s1" by (blast intro: rel_inv)
  with assms(4,5) have "rel s1 s'" by (blast intro: obeysD)
  ultimately show ?thesis by (rule rel_trans)
qed

lemma obeys_bind: "obeys step \<Longrightarrow> (\<And>x. obeys (f x)) \<Longrightarrow> obeys (bindL step f)"
  by (rule obeysI, erule bindL_split) (blast intro: obeysD obeys_then)+

lemma obeys_catch: "obeys step \<Longrightarrow> (\<And>e. obeys (h e)) \<Longrightarrow> obeys (catchL step h)"
  by (rule obeysI, erule catchL_split) (blast intro: obeysD obeys_then)+

lemma obeys_each: "(\<And>x. obeys (f x)) \<Longrightarrow> obeys (each_step f xs)"
  by (induction xs) (simp_all add: obeys_lift obeys_bind)

end

end
