(* ===== verification/PatchAtomic.thy ===== *)
theory PatchAtomic
  imports PatchTransaction Frames
begin

text \<open>
  Writing a patch is all or nothing: what each system call changes, what a stage, a commit and a
  rollback change, and the transaction over any sequence of files and faults.
\<close>

section \<open>What the calls change\<close>

definition removals_work :: "os \<Rightarrow> bool" where
  "removals_work os = (\<forall>n. os_fault os n Unlink = None)"

text \<open>Only the mode and the content of one inode differ.\<close>

definition touches :: "nat \<Rightarrow> disk \<Rightarrow> disk \<Rightarrow> bool" where
  "touches i d d' = (ds_entry d' = ds_entry d \<and> ds_next d' = ds_next d \<and> (\<forall>j. j \<noteq> i \<longrightarrow> ds_inode d' j = ds_inode d j)
     \<and> in_kind (ds_inode d' i) = in_kind (ds_inode d i) \<and> in_dev (ds_inode d' i) = in_dev (ds_inode d i)
     \<and> in_nlink (ds_inode d' i) = in_nlink (ds_inode d i))"

lemma touches_refl [simp]: "touches i d d" "touches i d (d\<lparr>ds_calls := n\<rparr>)"
  by (simp_all add: touches_def)

lemma touches_trans: "touches i d d' \<Longrightarrow> touches i d' d'' \<Longrightarrow> touches i d d''"
  by (simp add: touches_def)

lemma sys_eq: "sys os c d = (d', r) \<Longrightarrow> d' = d\<lparr>ds_calls := Suc (ds_calls d)\<rparr>"
  by (simp add: sys_def)

lemma sys_unlink: "removals_work os \<Longrightarrow> sys os Unlink d = (d\<lparr>ds_calls := Suc (ds_calls d)\<rparr>, Inr ())"
  by (simp add: sys_def removals_work_def)

lemma write_loop_touches:
  "write_loop os i data offset d = (d', r) \<Longrightarrow> in_content (ds_inode d i) = take offset data \<Longrightarrow> offset \<le> length data \<Longrightarrow>
     touches i d d' \<and> in_mode (ds_inode d' i) = in_mode (ds_inode d i) \<and> (r = Inr () \<longrightarrow> in_content (ds_inode d' i) = data)"
proof (induction os i data offset d rule: write_loop.induct)
  case (1 os i data offset d)
  show ?case
  proof (cases "length data \<le> offset")
    case True
    with 1 show ?thesis by (auto simp: write_loop.simps)
  next
    case False
    obtain d1 r1 where s: "sys os WriteCall d = (d1, r1)" by fastforce
    note d1 = sys_eq [OF s]
    show ?thesis
    proof (cases r1)
      case (Inl e)
      with 1 False s d1 show ?thesis by (auto simp: write_loop.simps [of os i data offset d])
    next
      case (Inr u)
      let ?w = "min (os_chunk os (ds_calls d)) (length data - offset)"
      let ?d = "write_at i offset (take ?w (drop offset data)) d1"
      show ?thesis
      proof (cases "?w = 0")
        case True
        with 1 False s d1 Inr show ?thesis by (auto simp: write_loop.simps [of os i data offset d])
      next
        case w: False
        have step: "write_loop os i data (offset + ?w) ?d = (d', r)"
          using "1.prems"(1) False s Inr w by (simp add: write_loop.simps [of os i data offset d] Let_def)
        have t: "touches i d ?d" "in_mode (ds_inode ?d i) = in_mode (ds_inode d i)"
          by (simp_all add: touches_def d1 write_at_def set_inode_def Let_def)
        have "in_content (ds_inode ?d i) = take (offset + ?w) data" "offset + ?w \<le> length data"
          using "1.prems"(2,3) by (simp_all add: d1 write_at_def set_inode_def Let_def take_add)
        from "1.IH" [OF False s [symmetric] Inr refl w step this] t show ?thesis
          using touches_trans by metis
      qed
    qed
  qed
qed

lemma writePatchDescriptor_touches:
  assumes "writePatchDescriptor os i data d = (d', r)"
  shows "touches i d d' \<and> in_mode (ds_inode d' i) = in_mode (ds_inode d i) \<and> (r = Inr () \<longrightarrow> in_content (ds_inode d' i) = data)"
  using assms unfolding writePatchDescriptor_def
proof (cases rule: bindL_split)
  case (stop e)
  then show ?thesis by (auto dest: sys_eq)
next
  case (go d1 x)
  let ?d = "set_inode i ((ds_inode d1 i)\<lparr>in_content := []\<rparr>) d1"
  have "touches i d ?d" "in_mode (ds_inode ?d i) = in_mode (ds_inode d i)" "in_content (ds_inode ?d i) = take 0 data"
    using sys_eq [OF go(1)] by (simp_all add: touches_def set_inode_def)
  with write_loop_touches [OF go(2)] show ?thesis using touches_trans by (metis le0)
qed

lemma chmodSync_touches:
  assumes "chmodSync os p m d = (d', r)" and "ds_entry d p = Some i"
  shows "touches i d d' \<and> in_content (ds_inode d' i) = in_content (ds_inode d i) \<and> (r = Inr () \<longrightarrow> in_mode (ds_inode d' i) = m)"
  using assms(1) unfolding chmodSync_def
proof (cases rule: bindL_split)
  case (stop e)
  then show ?thesis by (auto dest: sys_eq)
next
  case (go d1 x)
  then show ?thesis using assms(2) by (auto simp: touches_def set_inode_def dest!: sys_eq)
qed

lemma rmForce_ok:
  assumes "removals_work os" and "ds_entry d p = Some i" and "in_kind (ds_inode d i) \<noteq> DirKind"
  shows "\<exists>d'. rmForce os p d = (d', Inr ()) \<and> ds_entry d' = (ds_entry d)(p := None) \<and> ds_next d' = ds_next d
     \<and> (\<forall>j. j \<noteq> i \<longrightarrow> ds_inode d' j = ds_inode d j)
     \<and> ds_inode d' i = (ds_inode d i)\<lparr>in_nlink := nat (int (in_nlink (ds_inode d i)) - 1)\<rparr>"
  using assms by (simp add: rmForce_def unlinkSync_def bindL_def sys_unlink add_links_def set_inode_def set_entry_def)

lemma fill_stage_result:
  assumes "fill_stage os i t content mode d = (d', r)" and "removals_work os" and t: "ds_entry d t = Some i" and k: "in_kind (ds_inode d i) \<noteq> DirKind"
  shows "case r of
       Inr sg \<Rightarrow> sg = \<lparr>sg_descriptor = i, sg_path = t, sg_stats = stats_of d' i\<rparr> \<and> touches i d d'
         \<and> in_content (ds_inode d' i) = content \<and> in_mode (ds_inode d' i) = (case mode of None \<Rightarrow> in_mode (ds_inode d i) | Some m \<Rightarrow> m)
     | Inl e \<Rightarrow> ds_entry d' = (ds_entry d)(t := None) \<and> ds_next d' = ds_next d \<and> (\<forall>j. j \<noteq> i \<longrightarrow> ds_inode d' j = ds_inode d j)"
proof -
  let ?chmod = "case mode of None \<Rightarrow> liftL (Inr ()) | Some m \<Rightarrow> chmodSync os t m"
  let ?body = "bindL ?chmod (\<lambda>_. bindL (writePatchDescriptor os i content) (\<lambda>_ d.
        (d, Inr \<lparr>sg_descriptor = i, sg_path = t, sg_stats = stats_of d i\<rparr>)))"
  have chmod: "touches i d d1 \<and> (x = Inr () \<longrightarrow> in_mode (ds_inode d1 i) = (case mode of None \<Rightarrow> in_mode (ds_inode d i) | Some m \<Rightarrow> m))"
    if "?chmod d = (d1, x)" for d1 x
    using that chmodSync_touches [OF _ t] by (cases mode) (auto simp: liftL_def)
  have body: "touches i d d1 \<and> (case x of Inr sg \<Rightarrow> sg = \<lparr>sg_descriptor = i, sg_path = t, sg_stats = stats_of d1 i\<rparr>
         \<and> in_content (ds_inode d1 i) = content \<and> in_mode (ds_inode d1 i) = (case mode of None \<Rightarrow> in_mode (ds_inode d i) | Some m \<Rightarrow> m)
     | Inl e \<Rightarrow> True)" if b: "?body d = (d1, x)" for d1 x
    using b
  proof (cases rule: bindL_split)
    case (stop e)
    with chmod show ?thesis by auto
  next
    case (go d2 u)
    note c = chmod [OF go(1)]
    from go(2) show ?thesis
    proof (cases rule: bindL_split)
      case (stop e)
      with c writePatchDescriptor_touches [OF stop(1)] show ?thesis by (auto intro: touches_trans)
    next
      case (go d3 v)
      with c writePatchDescriptor_touches [OF go(1)] show ?thesis by (auto intro: touches_trans)
    qed
  qed
  from assms(1) show ?thesis unfolding fill_stage_def
  proof (cases rule: catchL_split)
    case (ok x)
    with body [OF ok(1)] show ?thesis by auto
  next
    case (caught d1 e)
    then have tr: "touches i d d1" using body by blast
    then have "ds_entry d1 t = Some i" "in_kind (ds_inode d1 i) \<noteq> DirKind" using t k by (simp_all add: touches_def)
    from rmForce_ok [OF assms(2) this] tr caught(2) show ?thesis
      by (auto simp: bindL_def liftL_def touches_def)
  qed
qed

text \<open>
  A consistent disk: entries refer to allocated inodes, lie in directories and have no \<open>..\<close> segment.
  \<open>keeps\<close> says that the inodes of a disk are still what they were, up to their number of links.
\<close>

definition disk_ok :: "disk \<Rightarrow> bool" where
  "disk_ok d = ((\<forall>p i. ds_entry d p = Some i \<longrightarrow> i < ds_next d \<and> ''..'' \<notin> set p)
     \<and> (\<forall>p s. ds_entry d (p @ [s]) \<noteq> None \<longrightarrow> (\<exists>i. ds_entry d p = Some i \<and> in_kind (ds_inode d i) = DirKind)))"

definition node_of :: "inode \<Rightarrow> file_kind \<times> nat \<times> nat \<times> bytes" where
  "node_of n = (in_kind n, in_dev n, in_mode n, in_content n)"

definition keeps :: "disk \<Rightarrow> disk \<Rightarrow> bool" where
  "keeps d d' = (ds_next d \<le> ds_next d' \<and> (\<forall>i < ds_next d. node_of (ds_inode d' i) = node_of (ds_inode d i)))"

lemma keeps_refl [simp]: "keeps d d"
  by (simp add: keeps_def)

lemma keeps_trans: "keeps d d' \<Longrightarrow> keeps d' d'' \<Longrightarrow> keeps d d''"
  by (simp add: keeps_def)

text \<open>What the user sees at a path.\<close>

definition file_at :: "disk \<Rightarrow> path \<Rightarrow> (file_kind \<times> nat \<times> bytes) option" where
  "file_at d p = map_option (\<lambda>i. (in_kind (ds_inode d i), in_mode (ds_inode d i), in_content (ds_inode d i))) (ds_entry d p)"

lemma file_at_keeps:
  assumes "disk_ok d" and "keeps d d'" and "ds_entry d' p = ds_entry d p"
  shows "file_at d' p = file_at d p"
  using assms by (cases "ds_entry d p") (auto simp: file_at_def disk_ok_def keeps_def node_of_def)

lemma patchTemporaryPath_facts:
  "butlast (patchTemporaryPath os n p) = butlast p" "patchTemporaryPath os n p \<noteq> []"
  "p \<noteq> [] \<Longrightarrow> patchTemporaryPath os n p \<noteq> p" "''..'' \<notin> set p \<Longrightarrow> ''..'' \<notin> set (patchTemporaryPath os n p)"
proof -
  have l: "last (patchTemporaryPath os n p) = last p @ ''.'' @ os_pid os @ ''.'' @ os_uuid os n @ ''.patch''"
    by (simp add: patchTemporaryPath_def)
  show "butlast (patchTemporaryPath os n p) = butlast p" "patchTemporaryPath os n p \<noteq> []"
    by (simp_all add: patchTemporaryPath_def)
  show "patchTemporaryPath os n p \<noteq> p" if "p \<noteq> []" using l by (metis append_self_conv list.discI append_Cons)
  have "last p @ ''.'' @ os_pid os @ ''.'' @ os_uuid os n @ ''.patch'' \<noteq> ''..''"
  proof
    assume "last p @ ''.'' @ os_pid os @ ''.'' @ os_uuid os n @ ''.patch'' = ''..''"
    then have "length (last p @ ''.'' @ os_pid os @ ''.'' @ os_uuid os n @ ''.patch'') = length ''..''" by (rule arg_cong)
    then show False by simp
  qed
  then show "''..'' \<notin> set (patchTemporaryPath os n p)" if "''..'' \<notin> set p"
    using that by (auto simp: patchTemporaryPath_def dest: in_set_butlastD)
qed

lemma patchTemporaryPath_length: "p \<noteq> [] \<Longrightarrow> length (patchTemporaryPath os n p) = length p"
  by (simp add: patchTemporaryPath_def)

lemma new_entry_result:
  assumes "new_entry kind mode p d = (d', r)"
  shows "case r of
       Inl e \<Rightarrow> d' = d
     | Inr i \<Rightarrow> i = ds_next d \<and> p \<noteq> [] \<and> ds_entry d p = None \<and> ds_entry d' = (ds_entry d)(p := Some i)
         \<and> ds_next d' = Suc i \<and> (\<forall>j. j \<noteq> i \<longrightarrow> ds_inode d' j = ds_inode d j)
         \<and> in_kind (ds_inode d' i) = kind \<and> in_nlink (ds_inode d' i) = 1 \<and> in_mode (ds_inode d' i) = mode
         \<and> (\<exists>k. ds_entry d (butlast p) = Some k \<and> in_kind (ds_inode d k) = DirKind)"
  using assms
  by (auto simp: new_entry_def set_entry_def set_inode_def split: option.splits if_splits)

text \<open>A stage is a new file beside its target; a failed one leaves no name behind.\<close>

lemma openStage_result:
  assumes "openStage os p content mode d = (d', r)" and "removals_work os"
  shows "case r of
       Inl e \<Rightarrow> ds_entry d' = ds_entry d \<and> ds_next d \<le> ds_next d' \<and> (\<forall>j < ds_next d. ds_inode d' j = ds_inode d j)
     | Inr sg \<Rightarrow> sg_path sg = patchTemporaryPath os (ds_calls d) p \<and> sg_descriptor sg = ds_next d
         \<and> sg_stats sg = stats_of d' (ds_next d) \<and> ds_entry d (sg_path sg) = None
         \<and> ds_entry d' = (ds_entry d)(sg_path sg := Some (ds_next d)) \<and> ds_next d' = Suc (ds_next d)
         \<and> (\<forall>j. j \<noteq> ds_next d \<longrightarrow> ds_inode d' j = ds_inode d j)
         \<and> in_kind (ds_inode d' (ds_next d)) = FileKind \<and> in_nlink (ds_inode d' (ds_next d)) = 1
         \<and> in_content (ds_inode d' (ds_next d)) = content
         \<and> in_mode (ds_inode d' (ds_next d)) = (case mode of None \<Rightarrow> os_mode os 420 | Some m \<Rightarrow> m)
         \<and> (\<exists>k. ds_entry d (butlast p) = Some k \<and> in_kind (ds_inode d k) = DirKind)"
proof -
  let ?t = "patchTemporaryPath os (ds_calls d) p"
  from assms(1) have "bindL (createSync os ?t (case mode of None \<Rightarrow> 420 | Some m \<Rightarrow> m))
      (\<lambda>i. fill_stage os i ?t content mode) d = (d', r)" by (simp add: openStage_def Let_def)
  then show ?thesis
  proof (cases rule: bindL_split)
    case (stop e)
    then show ?thesis unfolding createSync_def
      by (auto simp: stop(2) elim!: bindL_split dest!: sys_eq new_entry_result)
  next
    case (go d1 i)
    from go(1) obtain d0 where d0: "d0 = d\<lparr>ds_calls := Suc (ds_calls d)\<rparr>"
      and n: "new_entry FileKind (os_mode os (case mode of None \<Rightarrow> 420 | Some m \<Rightarrow> m)) ?t d0 = (d1, Inr i)"
      unfolding createSync_def by (auto elim!: bindL_split dest!: sys_eq)
    note n = new_entry_result [OF n, simplified]
    have "ds_entry d1 ?t = Some i" "in_kind (ds_inode d1 i) \<noteq> DirKind" using n by auto
    from fill_stage_result [OF go(2) assms(2) this] n d0 show ?thesis
      by (cases r; cases mode) (auto simp: touches_def patchTemporaryPath_facts)
  qed
qed

lemma verify_eq: "verify os root p d = (d', r) \<longleftrightarrow> d' = d \<and> r = verifyPatchPath (files_of os d) root p"
  by (auto simp: verify_def)

lemma renameSync_result:
  assumes "renameSync os t p d = (d', r)" and "ds_entry d t = Some i" and "ds_entry d p \<noteq> Some i"
  shows "case r of
       Inl e \<Rightarrow> ds_entry d' = ds_entry d \<and> ds_next d' = ds_next d \<and> ds_inode d' = ds_inode d
     | Inr _ \<Rightarrow> ds_entry d' = (ds_entry d)(t := None, p := Some i) \<and> ds_next d' = ds_next d
         \<and> (\<forall>j. node_of (ds_inode d' j) = node_of (ds_inode d j)) \<and> ds_inode d' i = ds_inode d i
         \<and> (\<forall>j. ds_entry d p = Some j \<longrightarrow> in_kind (ds_inode d j) \<noteq> DirKind)"
  using assms(1) unfolding renameSync_def
proof (cases rule: bindL_split)
  case (stop e)
  then show ?thesis by (auto dest: sys_eq)
next
  case (go d1 x)
  then show ?thesis using assms(2,3)
    by (auto simp: set_entry_def set_inode_def add_links_def node_of_def dest!: sys_eq split: option.splits if_splits)
qed

lemma linkNoReplace_result:
  assumes "linkNoReplace os t p d = (d', r)" and "removals_work os" and "ds_entry d t = Some i" and "t \<noteq> p"
    and "in_nlink (ds_inode d i) = 1" and "in_kind (ds_inode d i) \<noteq> DirKind"
  shows "case r of
       Inl e \<Rightarrow> ds_entry d' = ds_entry d \<and> ds_next d' = ds_next d \<and> ds_inode d' = ds_inode d
     | Inr _ \<Rightarrow> ds_entry d' = (ds_entry d)(t := None, p := Some i) \<and> ds_next d' = ds_next d
         \<and> (\<forall>j. node_of (ds_inode d' j) = node_of (ds_inode d j)) \<and> ds_inode d' i = ds_inode d i"
  using assms(1) unfolding linkNoReplace_def
proof (cases rule: bindL_split)
  case (stop e)
  then show ?thesis
    by (auto simp: linkSync_def elim!: bindL_split dest!: sys_eq split: option.splits if_splits)
next
  case (go d1 x)
  from go(1) have d1: "ds_entry d1 = (ds_entry d)(p := Some i)" "ds_next d1 = ds_next d"
      "ds_inode d1 = (ds_inode d)(i := (ds_inode d i)\<lparr>in_nlink := 2\<rparr>)"
    using assms(3,5) unfolding linkSync_def
    by (auto simp: add_links_def set_inode_def set_entry_def elim!: bindL_split dest!: sys_eq split: option.splits if_splits)
  have "ds_entry d1 t = Some i" using d1 assms(3,4) by simp
  with go(2) d1 show ?thesis using assms(2-6)
    by (auto simp: unlinkSync_def bindL_def sys_unlink add_links_def set_inode_def set_entry_def node_of_def
        fun_upd_twist)
qed

lemma commit_result:
  assumes "commit os root p source expected sg d = (d', r)" and "removals_work os" and "ds_entry d (sg_path sg) = Some i"
    and "sg_path sg \<noteq> p" and "ds_entry d p \<noteq> Some i" and "in_nlink (ds_inode d i) = 1" and "in_kind (ds_inode d i) \<noteq> DirKind"
  shows "case r of
       Inl e \<Rightarrow> ds_entry d' = ds_entry d \<and> ds_next d' = ds_next d \<and> ds_inode d' = ds_inode d
     | Inr _ \<Rightarrow> ds_entry d' = (ds_entry d)(sg_path sg := None, p := Some i) \<and> ds_next d' = ds_next d
         \<and> (\<forall>j. node_of (ds_inode d' j) = node_of (ds_inode d j)) \<and> ds_inode d' i = ds_inode d i
         \<and> (\<exists>st. verifyPatchPath (files_of os d) root p = Inr st)"
proof (cases source)
  case None
  with assms(1) have "bindL (verify os root p) (\<lambda>st. if st \<noteq> None then liftL (Inl (changed ''before apply'' p))
      else linkNoReplace os (sg_path sg) p) d = (d', r)" by (simp add: commit_def)
  then show ?thesis
  proof (cases rule: bindL_split)
    case (stop e)
    then show ?thesis by (auto simp: verify_eq)
  next
    case (go d1 st)
    then have "d1 = d" "verifyPatchPath (files_of os d) root p = Inr st" by (simp_all add: verify_eq)
    with go(2) linkNoReplace_result [of os "sg_path sg" p d d' r i] assms show ?thesis
      by (cases r) (auto simp: liftL_def split: if_splits)
  qed
next
  case (Some j)
  with assms(1) have "bindL (verify os root p) (\<lambda>st d.
      if \<not> isSameFile (stats_of d j) st \<or> in_content (ds_inode d j) \<noteq> expected then (d, Inl (changed ''before apply'' p))
      else renameSync os (sg_path sg) p d) d = (d', r)" by (simp add: commit_def)
  then show ?thesis
  proof (cases rule: bindL_split)
    case (stop e)
    then show ?thesis by (auto simp: verify_eq)
  next
    case (go d1 st)
    then have "d1 = d" "verifyPatchPath (files_of os d) root p = Inr st" by (simp_all add: verify_eq)
    with go(2) renameSync_result [of os "sg_path sg" p d d' r i] assms show ?thesis
      by (cases r) (auto split: if_splits)
  qed
qed

section \<open>Checking a path again\<close>

text \<open>Links resolve to canonical paths.\<close>

definition os_ok :: "os \<Rightarrow> bool" where
  "os_ok os = (\<forall>p q. os_through os p = Some q \<longrightarrow> ''..'' \<notin> set q)"

lemma has_link_iff:
  "has_link d p \<longleftrightarrow> (\<exists>q i. prefix q p \<and> ds_entry d q = Some i \<and> in_kind (ds_inode d i) = LinkKind)"
  by (auto simp: has_link_def list_ex_iff split: option.splits)

lemma files_of_ok:
  assumes "disk_ok d" and "os_ok os"
  shows "files_ok (files_of os d)"
proof -
  have "fs_lstat (files_of os d) p \<noteq> None" if "fs_lstat (files_of os d) (p @ [s]) \<noteq> None" for p s
    using that assms(1) by (simp add: files_of_def disk_ok_def) blast
  moreover have "''..'' \<notin> set q" if "fs_realpath (files_of os d) p = Some q" for p q
    using that assms by (auto simp: files_of_def disk_ok_def os_ok_def split: if_splits)
  ultimately show ?thesis unfolding files_ok_def by blast
qed

lemma walk_all:
  assumes "fs_lstat fs p = Some st" and "st_kind st = FileKind" and "st_nlink st = 1"
  shows "p = cur @ ss \<Longrightarrow> ss \<noteq> [] \<Longrightarrow>
     (\<And>q. strict_prefix cur q \<Longrightarrow> strict_prefix q p \<Longrightarrow> \<exists>sq. fs_lstat fs q = Some sq \<and> st_kind sq \<noteq> LinkKind) \<Longrightarrow>
     walk fs p cur target ss = Inr (Some st)"
proof (induction ss arbitrary: cur target)
  case Nil
  then show ?case by simp
next
  case (Cons s ss)
  show ?case
  proof (cases "ss = []")
    case True
    with Cons assms show ?thesis by simp
  next
    case False
    with Cons.prems(1) have "strict_prefix (cur @ [s]) p" by (auto simp: strict_prefix_def prefix_def)
    moreover have "strict_prefix cur (cur @ [s])" by (simp add: strict_prefix_def)
    ultimately obtain sq where sq: "fs_lstat fs (cur @ [s]) = Some sq" "st_kind sq \<noteq> LinkKind"
      using Cons.prems(3) by blast
    have "\<exists>sq. fs_lstat fs q = Some sq \<and> st_kind sq \<noteq> LinkKind" if "strict_prefix (cur @ [s]) q" "strict_prefix q p" for q
    proof (rule Cons.prems(3) [OF _ that(2)])
      show "strict_prefix cur q" using that(1) by (auto simp: strict_prefix_def prefix_def)
    qed
    with Cons.IH [of "cur @ [s]"] Cons.prems(1) False sq show ?thesis by auto
  qed
qed

lemma ancestors_exist:
  assumes "disk_ok d" and "ds_entry d p = Some i" and "prefix q p"
  shows "\<exists>j. ds_entry d q = Some j \<and> (q = p \<or> in_kind (ds_inode d j) = DirKind)"
  using assms(2,3)
proof (induction p arbitrary: i rule: rev_induct)
  case Nil
  then show ?case by simp
next
  case (snoc s p)
  show ?case
  proof (cases "q = p @ [s]")
    case True
    with snoc show ?thesis by simp
  next
    case False
    with snoc.prems have q: "prefix q p" by (metis prefix_snoc)
    obtain j where j: "ds_entry d p = Some j" "in_kind (ds_inode d j) = DirKind"
      using assms(1) snoc.prems(1) unfolding disk_ok_def by blast
    from snoc.IH [OF j(1) q] j show ?thesis by auto
  qed
qed

lemma strict_prefix_butlast: "strict_prefix q p \<longleftrightarrow> p \<noteq> [] \<and> prefix q (butlast p)"
  by (cases p rule: rev_cases) (auto simp: strict_prefix_def)

text \<open>
  When a target passed its check and then becomes a plain file, while everything above it stays as
  it is, it passes the check again.
\<close>

lemma verify_again:
  assumes v: "verifyPatchPath (files_of os d) root p = Inr st" and ok: "disk_ok d" "os_ok os" and dots: "''..'' \<notin> set p"
    and parent: "ds_entry d (butlast p) = Some k" "in_kind (ds_inode d k) = DirKind"
    and same: "\<And>q. strict_prefix q p \<Longrightarrow> ds_entry d' q = ds_entry d q"
      "\<And>j. j \<noteq> i \<Longrightarrow> node_of (ds_inode d' j) = node_of (ds_inode d j)"
    and new: "ds_entry d' p = Some i" "in_kind (ds_inode d' i) = FileKind" "in_nlink (ds_inode d' i) = 1"
      "\<And>q. strict_prefix q p \<Longrightarrow> ds_entry d q \<noteq> Some i"
  shows "verifyPatchPath (files_of os d') root p = Inr (Some (stats_of d' i))"
proof -
  let ?fs = "files_of os d" let ?fs' = "files_of os d'" let ?r = "sr_path root"
  note inr = verifyPatchPath_Inr [OF v files_of_ok [OF ok] dots]
  from inr have pre: "strict_prefix ?r p" and free: "link_free ?fs ?r p" by blast+
  then obtain ss where ss: "p = ?r @ ss" "ss \<noteq> []" by (auto simp: strict_prefix_def prefix_def)
  from v have vr: "verifyProjectRoot ?fs root = Inr ()" and con: "isPathContained ?r p" "p \<noteq> ?r"
    by (auto simp: verifyPatchPath_def res_simps split: if_splits)
  have above: "\<exists>j. ds_entry d q = Some j \<and> ds_entry d' q = Some j \<and> in_kind (ds_inode d' j) = DirKind
      \<and> in_kind (ds_inode d j) = DirKind \<and> in_dev (ds_inode d' j) = in_dev (ds_inode d j)" if q: "strict_prefix q p" for q
  proof -
    have "prefix q (butlast p)" using q by (simp add: strict_prefix_butlast)
    from ancestors_exist [OF ok(1) parent(1) this] parent obtain j
      where j: "ds_entry d q = Some j" "in_kind (ds_inode d j) = DirKind" by auto
    then have "node_of (ds_inode d' j) = node_of (ds_inode d j)" using same(2) new(4) [OF q] by metis
    with j same(1) [OF q] show ?thesis by (auto simp: node_of_def)
  qed
  have nolink: "\<not> has_link d' p"
  proof
    assume "has_link d' p"
    then obtain q j where q: "prefix q p" "ds_entry d' q = Some j" "in_kind (ds_inode d' j) = LinkKind"
      by (auto simp: has_link_iff)
    then show False using above [of q] new by (cases "q = p") (auto simp: strict_prefix_def)
  qed
  have nolink_root: "\<not> has_link d ?r" "\<not> has_link d' ?r"
  proof -
    have "strict_prefix q p" if "prefix q ?r" for q using that pre by (metis prefix_order.le_less_trans)
    then show "\<not> has_link d ?r" "\<not> has_link d' ?r" using above by (fastforce simp: has_link_iff)+
  qed
  have "verifyProjectRoot ?fs' root = Inr ()"
    using vr above [OF pre] nolink_root
    by (auto simp: verifyProjectRoot_def files_of_def stats_of_def split: option.splits if_splits)
  moreover have "walk ?fs' p ?r None ss = Inr (Some (stats_of d' i))"
  proof (rule walk_all [OF _ _ _ ss])
    show "fs_lstat ?fs' p = Some (stats_of d' i)" using new by (simp add: files_of_def)
    show "st_kind (stats_of d' i) = FileKind" "st_nlink (stats_of d' i) = 1" using new by (simp_all add: stats_of_def)
    show "\<exists>sq. fs_lstat ?fs' q = Some sq \<and> st_kind sq \<noteq> LinkKind" if "strict_prefix q p" for q
      using above [OF that] by (auto simp: files_of_def stats_of_def)
  qed
  moreover have "relative_path ?r p = ss" using ss by (simp add: relative_prefix)
  moreover have "existing_ancestor ?fs' ?r p = p" using new by (simp add: existing_ancestor.simps files_of_def)
  moreover have "fs_realpath ?fs' p = Some p" using new nolink by (simp add: files_of_def)
  ultimately show ?thesis using con by (simp add: verifyPatchPath_def)
qed

section \<open>Applying one file\<close>

lemma fun_upd_absent: "f t = None \<Longrightarrow> (f(t := Some i))(t := None) = f"
  by auto

lemma disk_ok_upd:
  assumes ok: "disk_ok d" "keeps d d'" and e: "ds_entry d' = (ds_entry d)(p := Some i)" "i < ds_next d'" "''..'' \<notin> set p"
    and parent: "ds_entry d (butlast p) = Some k" "in_kind (ds_inode d k) = DirKind" "p \<noteq> []"
    and leaf: "\<And>j. ds_entry d p = Some j \<Longrightarrow> in_kind (ds_inode d j) \<noteq> DirKind"
  shows "disk_ok d'"
proof -
  have old: "j < ds_next d \<and> ''..'' \<notin> set q" if "ds_entry d q = Some j" for q j
    using ok(1) that unfolding disk_ok_def by blast
  then have kind: "in_kind (ds_inode d' j) = in_kind (ds_inode d j)" if "ds_entry d q = Some j" for q j
    using ok(2) that by (auto simp: keeps_def node_of_def)
  have "j < ds_next d' \<and> ''..'' \<notin> set q" if "ds_entry d' q = Some j" for q j
    using that e old [of q j] ok(2) by (cases "q = p") (auto simp: keeps_def)
  moreover have "\<exists>j. ds_entry d' q = Some j \<and> in_kind (ds_inode d' j) = DirKind" if qs: "ds_entry d' (q @ [s]) \<noteq> None" for q s
  proof (cases "q @ [s] = p")
    case True
    then have q: "q = butlast p" "q \<noteq> p" by auto
    with parent kind [OF parent(1)] e(1) show ?thesis by auto
  next
    case False
    with qs e(1) have "ds_entry d (q @ [s]) \<noteq> None" by simp
    then obtain j where j: "ds_entry d q = Some j" "in_kind (ds_inode d j) = DirKind"
      using ok(1) unfolding disk_ok_def by blast
    with leaf have "q \<noteq> p" by blast
    with j kind [OF j(1)] e(1) show ?thesis by auto
  qed
  ultimately show ?thesis unfolding disk_ok_def by blast
qed

lemma replace_file_result:
  assumes run: "replace_file os root p f source d = (d', r)" and rm: "removals_work os" and ok: "disk_ok d" "os_ok os"
    and p: "''..'' \<notin> set p" "p \<noteq> []"
  shows "case r of
       Inl e \<Rightarrow> ds_entry d' = ds_entry d \<and> keeps d d'
     | Inr (a, x) \<Rightarrow> x = Inr () \<and> ap_path a = p \<and> ap_before a = tf_before f \<and> ap_after a = tf_after f
         \<and> ap_existedBefore a = tf_existedBefore f \<and> (\<forall>j. source = Some j \<longrightarrow> ap_mode a = in_mode (ds_inode d j))
         \<and> ap_descriptor a = ds_next d \<and> ds_entry d' = (ds_entry d)(p := Some (ds_next d)) \<and> ds_next d < ds_next d' \<and> keeps d d'
         \<and> in_kind (ds_inode d' (ds_next d)) = FileKind \<and> in_mode (ds_inode d' (ds_next d)) = ap_mode a
         \<and> in_content (ds_inode d' (ds_next d)) = tf_after f
         \<and> (\<exists>k. ds_entry d (butlast p) = Some k \<and> in_kind (ds_inode d k) = DirKind)"
proof -
  let ?mode = "map_option (\<lambda>i. in_mode (ds_inode d i)) source"
  let ?i = "ds_next d"
  let ?a = "\<lambda>sg d1. \<lparr>ap_existedBefore = tf_existedBefore f, ap_path = p, ap_descriptor = sg_descriptor sg, ap_stats = sg_stats sg,
         ap_before = tf_before f, ap_after = tf_after f,
         ap_mode = (case ?mode of Some m \<Rightarrow> m | None \<Rightarrow> in_mode (ds_inode d1 (sg_descriptor sg)))\<rparr>"
  from run have "bindL (openStage os p (tf_after f) ?mode) (\<lambda>staged.
      bindL (catchL (commit os root p source (tf_before f) staged)
               (\<lambda>e. bindL (rmForce os (sg_path staged)) (\<lambda>_. liftL (Inl e)))) (\<lambda>_ d1. confirm os root (?a staged d1) d1)) d = (d', r)"
    by (simp only: replace_file_def Let_def)
  then show ?thesis
  proof (cases rule: bindL_split)
    case (stop e)
    with openStage_result [OF stop(1) rm] show ?thesis by (auto simp: keeps_def)
  next
    case (go d1 sg)
    let ?t = "sg_path sg"
    note st = openStage_result [OF go(1) rm, simplified]
    have t: "?t \<noteq> p" "ds_entry d ?t = None" "ds_entry d1 = (ds_entry d)(?t := Some ?i)" "ds_next d1 = Suc ?i"
        "\<And>j. j \<noteq> ?i \<Longrightarrow> ds_inode d1 j = ds_inode d j" "in_nlink (ds_inode d1 ?i) = 1"
        "in_kind (ds_inode d1 ?i) \<noteq> DirKind"
      using st p(2) patchTemporaryPath_facts(3) by auto
    have e: "ds_entry d1 ?t = Some ?i" "ds_entry d1 p \<noteq> Some ?i"
      using t ok(1) by (auto simp: disk_ok_def)
    from go(2) show ?thesis
    proof (cases rule: bindL_split)
      case (stop e')
      from stop(1) show ?thesis
      proof (cases rule: catchL_split)
        case (ok x)
        with stop show ?thesis by simp
      next
        case (caught d2 e2)
        note c = commit_result [OF caught(1) rm e(1) t(1) e(2) t(6,7), simplified]
        then have "ds_entry d2 ?t = Some ?i" "in_kind (ds_inode d2 ?i) \<noteq> DirKind" using e t(7) by simp_all
        from rmForce_ok [OF rm this] caught(2) stop(2) c t show ?thesis
          by (auto simp: bindL_def liftL_def keeps_def fun_upd_absent)
      qed
    next
      case (go d2 u)
      from go(1) have "commit os root p source (tf_before f) sg d1 = (d2, Inr u)"
      proof (cases rule: catchL_split)
        case (caught d3 e3)
        then show ?thesis by (auto simp: bindL_def liftL_def split: prod.splits sum.splits)
      qed auto
      note c = commit_result [OF this rm e(1) t(1) e(2) t(6,7), simplified]
      have d2: "ds_entry d2 = (ds_entry d)(p := Some ?i)" using c t(1,2,3) by (auto simp: fun_upd_twist)
      have i: "ds_inode d2 ?i = ds_inode d1 ?i" using c by simp
      have fd: "sg_descriptor sg = ?i" "sg_stats sg = stats_of d1 ?i" "in_kind (ds_inode d1 ?i) = FileKind"
          "in_content (ds_inode d1 ?i) = tf_after f" "\<exists>k. ds_entry d (butlast p) = Some k \<and> in_kind (ds_inode d k) = DirKind"
          "\<And>j. source = Some j \<Longrightarrow> in_mode (ds_inode d1 ?i) = in_mode (ds_inode d j)"
        using st by auto
      obtain k where k: "ds_entry d (butlast p) = Some k" "in_kind (ds_inode d k) = DirKind" using fd(5) by blast
      have tf: "butlast ?t = butlast p" "?t \<noteq> []" "''..'' \<notin> set ?t"
        using st p patchTemporaryPath_facts by auto
      have ok1: "disk_ok d1"
      proof (rule disk_ok_upd [OF ok(1) _ t(3) _ tf(3) _ k(2) tf(2)])
        show "keeps d d1" using t(4,5) by (simp add: keeps_def)
        show "ds_entry d (butlast ?t) = Some k" using tf(1) k(1) by simp
      qed (use t(2,4) in auto)
      obtain st where v: "verifyPatchPath (files_of os d1) root p = Inr st" using c by blast
      have "length ?t = length p" using st p(2) patchTemporaryPath_length by auto
      then have above: "q \<noteq> ?t \<and> q \<noteq> p" if "strict_prefix q p" for q
        using that prefix_length_less by fastforce
      have "verifyPatchPath (files_of os d2) root p = Inr (Some (stats_of d2 ?i))"
      proof (rule verify_again [OF v ok1 ok(2) p(1)])
        show "ds_entry d1 (butlast p) = Some k" using k(1) t(2,3) by auto
        have "k \<noteq> ?i" using k(1) ok(1) by (auto simp: disk_ok_def)
        then show "in_kind (ds_inode d1 k) = DirKind" using k(2) t(5) by simp
        show "ds_entry d2 q = ds_entry d1 q" "ds_entry d1 q \<noteq> Some ?i" if "strict_prefix q p" for q
          using above [OF that] d2 t(3) ok(1) by (auto simp: disk_ok_def)
      qed (use c d2 fd i t in auto)
      then have "r = Inr (?a sg d2, Inr ())" "d' = d2"
        using go(2) fd i by (auto simp: confirm_def bindL_def verify_def readPatchDescriptor_def liftL_def isSameFile_def stats_of_def)
      then show ?thesis using c d2 i fd t(4,5) st
        by (auto simp: keeps_def split: option.split)
    qed
  qed
qed

text \<open>The disk has at most gained directories at the given places.\<close>

definition grown :: "(path \<Rightarrow> bool) \<Rightarrow> disk \<Rightarrow> disk \<Rightarrow> bool" where
  "grown P d d' = (disk_ok d' \<and> keeps d d' \<and> (\<forall>q. ds_entry d' q = ds_entry d q \<or>
     (ds_entry d q = None \<and> P q \<and> (\<exists>i. ds_entry d' q = Some i \<and> in_kind (ds_inode d' i) = DirKind))))"

lemma disk_ok_calls [simp]: "disk_ok (d\<lparr>ds_calls := n\<rparr>) = disk_ok d"
  by (simp add: disk_ok_def)

lemma grown_refl: "disk_ok d \<Longrightarrow> grown P d d"
  by (simp add: grown_def)

lemma grown_trans:
  assumes "grown P d d'" and "grown P d' d''"
  shows "grown P d d''"
proof -
  have kept: "in_kind (ds_inode d'' i) = in_kind (ds_inode d' i)" if "ds_entry d' q = Some i" for q i
    using assms that by (auto simp: grown_def disk_ok_def keeps_def node_of_def)
  have "ds_entry d'' q = ds_entry d q \<or>
      (ds_entry d q = None \<and> P q \<and> (\<exists>i. ds_entry d'' q = Some i \<and> in_kind (ds_inode d'' i) = DirKind))" for q
    using assms kept [of q] unfolding grown_def by metis
  with assms show ?thesis unfolding grown_def using keeps_trans by blast
qed

lemma grown_mono: "grown P d d' \<Longrightarrow> (\<And>q. P q \<Longrightarrow> Q q) \<Longrightarrow> grown Q d d'"
  unfolding grown_def by blast

lemma mkdirSync_grown:
  assumes "mkdirSync os p d = (d', r)" and "disk_ok d" and "''..'' \<notin> set p"
  shows "grown (\<lambda>q. q = p) d d'"
  using assms(1) unfolding mkdirSync_def
proof (cases rule: bindL_split)
  case (stop e)
  then show ?thesis using assms(2) by (auto simp: grown_def keeps_def dest!: sys_eq)
next
  case (go d1 x)
  note d1 = sys_eq [OF go(1)]
  from go(2) show ?thesis
  proof (cases rule: bindL_split)
    case (stop e)
    with new_entry_result [OF stop(1)] d1 show ?thesis using assms(2) by (auto simp: grown_def keeps_def)
  next
    case (go d2 i)
    note n = new_entry_result [OF go(1), simplified]
    have d': "d' = d2" using go(2) by (simp add: liftL_def)
    have k: "keeps d d2" using n d1 by (auto simp: keeps_def)
    have e: "ds_entry d2 = (ds_entry d)(p := Some i)" "i < ds_next d2" using n d1 by auto
    obtain k' where "ds_entry d (butlast p) = Some k'" "in_kind (ds_inode d k') = DirKind" "p \<noteq> []" using n d1 by auto
    then have "disk_ok d2" using disk_ok_upd [OF assms(2) k e assms(3)] n d1 by auto
    with k e n d1 show ?thesis unfolding d' grown_def by auto
  qed
qed

interpretation growing: step_relation disk_ok "grown P" for P
proof
  show "disk_ok s \<Longrightarrow> grown P s s" for s by (rule grown_refl)
  show "grown P s t \<Longrightarrow> grown P t u \<Longrightarrow> grown P s u" for s t u by (rule grown_trans)
  show "disk_ok s \<Longrightarrow> grown P s t \<Longrightarrow> disk_ok t" for s t by (simp add: grown_def)
qed

lemma verify_obeys: "growing.obeys P (verify os root p)"
  by (rule growing.obeysI) (simp add: verify_eq grown_refl)

lemma ensure_parents_obeys: "''..'' \<notin> set (cur @ ss) \<Longrightarrow> growing.obeys (\<lambda>q. prefix q (cur @ ss)) (ensure_parents os root cur ss)"
proof (induction ss arbitrary: cur)
  case Nil
  then show ?case by (simp add: growing.obeys_lift)
next
  case (Cons s ss)
  have "growing.obeys (\<lambda>q. prefix q (cur @ s # ss)) (mkdirSync os (cur @ [s]))"
  proof (rule growing.obeysI)
    fix d d' r
    assume "disk_ok d" and "mkdirSync os (cur @ [s]) d = (d', r)"
    with Cons.prems have "grown (\<lambda>q. q = cur @ [s]) d d'" by (intro mkdirSync_grown) auto
    then show "grown (\<lambda>q. prefix q (cur @ s # ss)) d d'" by (rule grown_mono) (simp add: prefix_def)
  qed
  moreover have "growing.obeys (\<lambda>q. prefix q (cur @ s # ss)) (ensure_parents os root (cur @ [s]) ss)"
    using Cons.IH [of "cur @ [s]"] Cons.prems by simp
  ultimately show ?case
    unfolding ensure_parents.simps
    by (intro growing.obeys_bind verify_obeys) (simp_all add: growing.obeys_lift)
qed

text \<open>The same on what the user sees.\<close>

definition gains :: "(path \<Rightarrow> bool) \<Rightarrow> (path \<Rightarrow> (file_kind \<times> nat \<times> bytes) option) \<Rightarrow>
    (path \<Rightarrow> (file_kind \<times> nat \<times> bytes) option) \<Rightarrow> bool" where
  "gains P V V' = (\<forall>q. V' q = V q \<or> (V q = None \<and> P q \<and> (\<exists>m c. V' q = Some (DirKind, m, c))))"

lemma grown_gains:
  assumes "disk_ok d" and "grown P d d'"
  shows "gains P (file_at d) (file_at d')"
  unfolding gains_def
proof
  fix q
  have k: "keeps d d'" using assms(2) by (simp add: grown_def)
  consider "ds_entry d' q = ds_entry d q" |
    i where "ds_entry d q = None" "P q" "ds_entry d' q = Some i" "in_kind (ds_inode d' i) = DirKind"
    using assms(2) unfolding grown_def by blast
  then show "file_at d' q = file_at d q \<or> (file_at d q = None \<and> P q \<and> (\<exists>m c. file_at d' q = Some (DirKind, m, c)))"
  proof cases
    case 1
    with file_at_keeps [OF assms(1) k] show ?thesis by simp
  next
    case (2 i)
    then show ?thesis by (auto simp: file_at_def)
  qed
qed

lemma disk_okD: "disk_ok d \<Longrightarrow> ds_entry d p = Some i \<Longrightarrow> i < ds_next d \<and> ''..'' \<notin> set p"
  unfolding disk_ok_def by blast

lemma keepsD:
  assumes "keeps d d'" and "i < ds_next d"
  shows "i < ds_next d'" "in_kind (ds_inode d' i) = in_kind (ds_inode d i)" "in_mode (ds_inode d' i) = in_mode (ds_inode d i)"
    "in_content (ds_inode d' i) = in_content (ds_inode d i)"
  using assms by (auto simp: keeps_def node_of_def)

lemma disk_ok_same:
  assumes "disk_ok d" and "keeps d d'" and "ds_entry d' = ds_entry d"
  shows "disk_ok d'"
proof -
  have "in_kind (ds_inode d' i) = in_kind (ds_inode d i) \<and> i < ds_next d' \<and> ''..'' \<notin> set q" if "ds_entry d q = Some i" for q i
    using disk_okD [OF assms(1) that] keepsD [OF assms(2)] by fastforce
  then show ?thesis using assms(1,3) unfolding disk_ok_def by metis
qed

lemma open_source_result:
  assumes "open_source os p target expected d = (d', r)"
  shows "ds_entry d' = ds_entry d \<and> ds_inode d' = ds_inode d \<and> ds_next d' = ds_next d \<and>
     (case r of Inl e \<Rightarrow> True
      | Inr None \<Rightarrow> target = None
      | Inr (Some i) \<Rightarrow> target \<noteq> None \<and> ds_entry d p = Some i \<and> in_content (ds_inode d i) = expected)"
  using assms
  by (auto simp: open_source_def openSync_def liftL_eq elim!: bindL_split dest!: sys_eq split: option.splits if_splits)

text \<open>Where a file of the transaction goes.\<close>

abbreviation patch_target :: "secure_root \<Rightarrow> transaction_file \<Rightarrow> path" where
  "patch_target root f \<equiv> resolve_path (sr_path root) (tf_relativePath f)"

definition old_view :: "applied_file \<Rightarrow> (file_kind \<times> nat \<times> bytes) option" where
  "old_view a = (if ap_existedBefore a then Some (FileKind, ap_mode a, ap_before a) else None)"

lemma apply_checked:
  assumes run: "bindL (ensurePatchParent os root p) (\<lambda>_. bindL (open_source os p target (tf_before f)) (\<lambda>source.
       replace_file os root p f source)) d = (d', r)"
    and rm: "removals_work os" and ok: "disk_ok d" "os_ok os"
    and p: "''..'' \<notin> set p" "strict_prefix (sr_path root) p" and target: "target = fs_lstat (files_of os d) p"
    and plain: "\<And>st. target = Some st \<Longrightarrow> st_kind st = FileKind" and before: "tf_existedBefore f = (target \<noteq> None)"
  shows "case r of
       Inl e \<Rightarrow> disk_ok d' \<and> gains (\<lambda>q. strict_prefix q p) (file_at d) (file_at d')
     | Inr (a, x) \<Rightarrow> disk_ok d' \<and> x = Inr () \<and> ap_path a = p \<and> file_at d p = old_view a
         \<and> file_at d' p = Some (FileKind, ap_mode a, tf_after f)
         \<and> ap_existedBefore a = tf_existedBefore f \<and> ap_before a = tf_before f
         \<and> gains (\<lambda>q. strict_prefix q p) (file_at d) ((file_at d')(p := file_at d p))"
proof -
  let ?P = "\<lambda>q. strict_prefix q p"
  have "p \<noteq> []" using p(2) by auto
  have rel: "sr_path root @ relative_path (sr_path root) (butlast p) = butlast p"
    using p(2) by (simp add: strict_prefix_butlast relative_prefix prefix_def) (metis append_eq_conv_conj)
  have "''..'' \<notin> set (butlast p)" using p(1) by (auto dest: in_set_butlastD)
  then have ens: "growing.obeys (\<lambda>q. prefix q (butlast p)) (ensurePatchParent os root p)"
    unfolding ensurePatchParent_def using ensure_parents_obeys [of "sr_path root"] rel by metis
  from run show ?thesis
  proof (cases rule: bindL_split)
    case (stop e)
    then have "grown (\<lambda>q. prefix q (butlast p)) d d'" using growing.obeysD [OF ens] ok(1) by blast
    then have g: "grown ?P d d'" by (rule grown_mono) (simp add: strict_prefix_butlast \<open>p \<noteq> []\<close>)
    with grown_gains [OF ok(1) g] stop show ?thesis by (simp add: grown_def)
  next
    case (go d1 u)
    then have "grown (\<lambda>q. prefix q (butlast p)) d d1" using growing.obeysD [OF ens] ok(1) by blast
    then have g: "grown ?P d d1" by (rule grown_mono) (simp add: strict_prefix_butlast \<open>p \<noteq> []\<close>)
    then have ok1: "disk_ok d1" and k1: "keeps d d1" and e1: "ds_entry d1 p = ds_entry d p"
      by (auto simp: grown_def)
    note v1 = grown_gains [OF ok(1) g]
    from go(2) show ?thesis
    proof (cases rule: bindL_split)
      case (stop e)
      with open_source_result [OF stop(1)] have "disk_ok d'" "file_at d' = file_at d1"
        using ok1 by (auto simp: disk_ok_def file_at_def fun_eq_iff)
      with v1 stop show ?thesis by simp
    next
      case (go d2 source)
      note src = open_source_result [OF go(1), simplified]
      have ok2: "disk_ok d2" using src ok1 by (simp add: disk_ok_def)
      have v2: "file_at d2 = file_at d1" using src by (simp add: file_at_def fun_eq_iff)
      note rep = replace_file_result [OF go(2) rm ok2 ok(2) p(1) \<open>p \<noteq> []\<close>]
      show ?thesis
      proof (cases r)
        case (Inl e)
        with rep have same: "ds_entry d' = ds_entry d2" "keeps d2 d'" by auto
        have "file_at d' q = file_at d2 q" for q by (rule file_at_keeps [OF ok2 same(2)]) (simp add: same(1))
        then have "file_at d' = file_at d2" ..
        moreover have "disk_ok d'" using same by (intro disk_ok_same [OF ok2])
        ultimately show ?thesis using v1 v2 Inl by simp
      next
        case (Inr ax)
        obtain a x where ax: "ax = (a, x)" by fastforce
        let ?i = "ds_next d2"
        have a: "x = Inr ()" "ap_path a = p" "ap_before a = tf_before f" "ap_existedBefore a = tf_existedBefore f"
            "\<And>j. source = Some j \<Longrightarrow> ap_mode a = in_mode (ds_inode d2 j)" "ds_entry d' = (ds_entry d2)(p := Some ?i)"
            "?i < ds_next d'" "keeps d2 d'" "in_kind (ds_inode d' ?i) = FileKind" "in_mode (ds_inode d' ?i) = ap_mode a"
            "in_content (ds_inode d' ?i) = tf_after f" "\<exists>k. ds_entry d2 (butlast p) = Some k \<and> in_kind (ds_inode d2 k) = DirKind"
          using rep Inr ax by auto
        have e2: "ds_entry d2 p = ds_entry d p" using src e1 by simp
        have kind: "in_kind (ds_inode d2 j) = FileKind" if "ds_entry d2 p = Some j" for j
        proof -
          have "ds_entry d p = Some j" using that e2 by simp
          then have "in_kind (ds_inode d j) = FileKind" "j < ds_next d"
            using plain target ok(1) by (auto simp: files_of_def stats_of_def disk_ok_def)
          then show ?thesis using k1 src by (auto simp: keeps_def node_of_def)
        qed
        have "file_at d p = file_at d2 p" using file_at_keeps [OF ok(1) k1 e1] v2 by simp
        also have "\<dots> = old_view a"
        proof (cases source)
          case None
          with src target before e2 a(4) show ?thesis by (auto simp: file_at_def old_view_def files_of_def)
        next
          case (Some j)
          with src have "ds_entry d2 p = Some j" "in_content (ds_inode d2 j) = tf_before f" "target \<noteq> None" by auto
          with kind [of j] a(3,4,5) before Some show ?thesis by (simp add: file_at_def old_view_def)
        qed
        finally have old: "file_at d p = old_view a" .
        have "disk_ok d'"
          using disk_ok_upd [OF ok2 a(8,6,7) p(1)] a(12) kind \<open>p \<noteq> []\<close> by fastforce
        moreover have "file_at d' p = Some (FileKind, ap_mode a, tf_after f)" using a by (simp add: file_at_def)
        moreover have "file_at d' q = file_at d1 q" if "q \<noteq> p" for q
          using file_at_keeps [OF ok2 a(8), of q] that a(6) v2 by simp
        then have "gains ?P (file_at d) ((file_at d')(p := file_at d p))"
          using v1 unfolding gains_def by auto
        ultimately show ?thesis using Inr ax a(1-4) old by simp
      qed
    qed
  qed
qed

lemma applyOne_result:
  assumes run: "applyOne os root f d = (d', r)" and rm: "removals_work os" and ok: "disk_ok d" "os_ok os"
    and root: "''..'' \<notin> set (sr_path root)"
  shows "case r of
       Inl e \<Rightarrow> disk_ok d' \<and> gains (\<lambda>q. strict_prefix q (patch_target root f)) (file_at d) (file_at d')
     | Inr (a, x) \<Rightarrow> disk_ok d' \<and> x = Inr () \<and> ap_path a = patch_target root f \<and> file_at d (patch_target root f) = old_view a
         \<and> file_at d' (patch_target root f) = Some (FileKind, ap_mode a, tf_after f)
         \<and> ap_existedBefore a = tf_existedBefore f \<and> ap_before a = tf_before f
         \<and> gains (\<lambda>q. strict_prefix q (patch_target root f)) (file_at d) ((file_at d')(patch_target root f := file_at d (patch_target root f)))"
proof -
  let ?p = "patch_target root f"
  have dots: "''..'' \<notin> set ?p" using root by (rule resolve_no_dots)
  have stay: ?thesis if "d' = d" and "r = Inl e" for e
    using that ok(1) by (simp add: gains_def)
  from run show ?thesis unfolding applyOne_def
  proof (cases rule: bindL_split)
    case (stop e)
    with stay show ?thesis by (simp add: liftL_eq)
  next
    case (go d1 p)
    then have d1: "d1 = d" and "patchPath (files_of os d) root (tf_relativePath f) = Inr p" by (simp_all add: liftL_eq)
    then have p: "p = ?p" by (simp add: patchPath_Inr)
    from go(2) show ?thesis
    proof (cases rule: bindL_split)
      case (stop e)
      with stay d1 show ?thesis by (simp add: verify_eq)
    next
      case (go d2 target)
      then have d2: "d2 = d" and v: "verifyPatchPath (files_of os d) root ?p = Inr target" using d1 p by (simp_all add: verify_eq)
      note inr = verifyPatchPath_Inr [OF v files_of_ok [OF ok] dots]
      show ?thesis
      proof (cases "tf_existedBefore f \<noteq> (target \<noteq> None) \<or> (case target of None \<Rightarrow> False | Some st \<Rightarrow> st_kind st \<noteq> FileKind \<or> st_nlink st \<noteq> 1)")
        case True
        with go(2) have "d' = d2 \<and> (\<exists>e. r = Inl e)" by (auto simp: liftL_eq split: if_splits)
        with stay d2 show ?thesis by blast
      next
        case False
        then have before: "tf_existedBefore f = (target \<noteq> None)" and plain: "\<And>st. target = Some st \<Longrightarrow> st_kind st = FileKind"
          by auto
        from go(2) False have "bindL (ensurePatchParent os root ?p) (\<lambda>_. bindL (open_source os ?p target (tf_before f)) (\<lambda>source.
            replace_file os root ?p f source)) d = (d', r)" unfolding p d2 by (auto split: if_splits)
        note c = apply_checked [OF this rm ok dots _ _ plain before]
        show ?thesis using c inr by (cases r) auto
      qed
    qed
  qed
qed

section \<open>Undoing the applied files\<close>

lemma file_at_upd:
  assumes "disk_ok d" and "keeps d d'" and "ds_entry d' = (ds_entry d)(p := e)"
  shows "file_at d' = (file_at d)(p := file_at d' p)"
proof
  fix q
  show "file_at d' q = ((file_at d)(p := file_at d' p)) q"
    using file_at_keeps [OF assms(1,2), of q] assms(3) by simp
qed

lemma disk_ok_remove:
  assumes "disk_ok d" and "keeps d d'" and "ds_entry d' = (ds_entry d)(p := None)"
    and "ds_entry d p = Some i" and "in_kind (ds_inode d i) \<noteq> DirKind"
  shows "disk_ok d'"
proof -
  have old: "i < ds_next d' \<and> in_kind (ds_inode d' i) = in_kind (ds_inode d i) \<and> ''..'' \<notin> set q" if "ds_entry d q = Some i" for q i
    using disk_okD [OF assms(1) that] keepsD [OF assms(2)] by fastforce
  have "\<exists>j. ds_entry d' q = Some j \<and> in_kind (ds_inode d' j) = DirKind" if "ds_entry d' (q @ [s]) \<noteq> None" for q s
  proof -
    from that assms(3) have "ds_entry d (q @ [s]) \<noteq> None" by (auto split: if_splits)
    then obtain j where j: "ds_entry d q = Some j" "in_kind (ds_inode d j) = DirKind"
      using assms(1) unfolding disk_ok_def by blast
    with assms(4,5) have "q \<noteq> p" by auto
    with j old assms(3) show ?thesis by auto
  qed
  moreover have "j < ds_next d' \<and> ''..'' \<notin> set q" if "ds_entry d' q = Some j" for q j
    using that old assms(3) by (auto split: if_splits)
  ultimately show ?thesis unfolding disk_ok_def by blast
qed

lemma restore_result:
  assumes "restore os root a sg d = (d', Inr u)" and "ds_entry d (sg_path sg) = Some i" and "ds_entry d (ap_path a) \<noteq> Some i"
  shows "ds_entry d' = (ds_entry d)(sg_path sg := None, ap_path a := Some i) \<and> ds_next d' = ds_next d
     \<and> (\<forall>j. node_of (ds_inode d' j) = node_of (ds_inode d j))
     \<and> (\<forall>j. ds_entry d (ap_path a) = Some j \<longrightarrow> in_kind (ds_inode d j) \<noteq> DirKind)"
proof -
  from assms(1) obtain d1 v where "renameSync os (sg_path sg) (ap_path a) d = (d1, Inr v)" and "d' = d1"
    unfolding restore_def
    by (auto simp: bindL_Inr verify_eq readPatchDescriptor_def liftL_eq split: if_splits)
  with renameSync_result [OF _ assms(2,3)] show ?thesis by fastforce
qed

lemma rollback_result:
  assumes run: "rollback os root a d = (d', Inr u)" and rm: "removals_work os" and ok: "disk_ok d"
    and p: "''..'' \<notin> set (ap_path a)" "ap_path a \<noteq> []"
  shows "disk_ok d' \<and> file_at d' = (file_at d)(ap_path a := old_view a)"
proof (cases "ap_existedBefore a")
  case False
  with run have "unlinkSync os (ap_path a) d = (d', Inr u)"
    unfolding rollback_def
    by (auto simp: bindL_Inr verify_eq readPatchDescriptor_def liftL_eq split: if_splits)
  then obtain i where i: "ds_entry d (ap_path a) = Some i" "in_kind (ds_inode d i) \<noteq> DirKind"
    and d': "ds_entry d' = (ds_entry d)(ap_path a := None)" "ds_next d' = ds_next d"
      "\<And>j. node_of (ds_inode d' j) = node_of (ds_inode d j)"
    unfolding unlinkSync_def
    by (auto simp: bindL_Inr sys_unlink [OF rm] add_links_def set_inode_def set_entry_def node_of_def split: option.splits if_splits)
  have k: "keeps d d'" using d' by (simp add: keeps_def)
  have "file_at d' (ap_path a) = None" using d' by (simp add: file_at_def)
  with disk_ok_remove [OF ok k d'(1) i] file_at_upd [OF ok k d'(1)] False show ?thesis by (simp add: old_view_def)
next
  case True
  let ?p = "ap_path a" let ?i = "ds_next d"
  from run True obtain d1 sg where st: "openStage os ?p (ap_before a) (Some (ap_mode a)) d = (d1, Inr sg)"
    and fin: "finallyL (restore os root a sg) (rmForce os (sg_path sg)) d1 = (d', Inr u)"
    unfolding rollback_def
    by (auto simp: bindL_Inr verify_eq readPatchDescriptor_def liftL_eq split: if_splits)
  note s = openStage_result [OF st rm, simplified]
  have t: "sg_path sg \<noteq> ?p" using s p(2) patchTemporaryPath_facts(3) by auto
  have none: "ds_entry d (sg_path sg) = None" and e1: "ds_entry d1 = (ds_entry d)(sg_path sg := Some ?i)"
    and n1: "ds_next d1 = Suc ?i" and same1: "\<And>j. j \<noteq> ?i \<Longrightarrow> ds_inode d1 j = ds_inode d j"
    and new1: "in_kind (ds_inode d1 ?i) = FileKind" "in_content (ds_inode d1 ?i) = ap_before a" "in_mode (ds_inode d1 ?i) = ap_mode a"
    and parent: "\<exists>k. ds_entry d (butlast ?p) = Some k \<and> in_kind (ds_inode d k) = DirKind"
    using s by auto
  have "ds_entry d1 (sg_path sg) = Some ?i" "ds_entry d1 ?p \<noteq> Some ?i" using e1 t disk_okD [OF ok] by auto
  moreover obtain d2 where res: "restore os root a sg d1 = (d2, Inr u)" and cl: "\<exists>v. rmForce os (sg_path sg) d2 = (d', Inr v)"
    using fin by (auto simp: finallyL_def split: prod.splits sum.splits)
  ultimately have d2: "ds_entry d2 = (ds_entry d1)(sg_path sg := None, ?p := Some ?i)" "ds_next d2 = ds_next d1"
      "\<And>j. node_of (ds_inode d2 j) = node_of (ds_inode d1 j)"
      "\<And>j. ds_entry d1 ?p = Some j \<Longrightarrow> in_kind (ds_inode d1 j) \<noteq> DirKind"
    using restore_result [of os root a sg d1 d2 u ?i] by auto
  have "d' = d2" using cl d2(1) t by (auto simp: rmForce_def)
  then have e: "ds_entry d' = (ds_entry d)(?p := Some ?i)"
    using d2(1) e1 none t by (auto simp: fun_upd_twist)
  have k: "keeps d d'" using d2 n1 same1 \<open>d' = d2\<close> by (simp add: keeps_def)
  have leaf: "in_kind (ds_inode d j) \<noteq> DirKind" if "ds_entry d ?p = Some j" for j
    using d2(4) [of j] e1 t same1 [of j] disk_okD [OF ok that] that by auto
  have "disk_ok d'"
    using parent disk_ok_upd [OF ok k e _ p(1) _ _ p(2) leaf] d2(2) n1 \<open>d' = d2\<close> by fastforce
  moreover have "file_at d' ?p = old_view a"
    using e d2(3) [of ?i] new1 \<open>d' = d2\<close> True by (simp add: file_at_def old_view_def node_of_def)
  ultimately show ?thesis using file_at_upd [OF ok k e] by simp
qed

definition undo :: "applied_file list \<Rightarrow> (path \<Rightarrow> (file_kind \<times> nat \<times> bytes) option) \<Rightarrow> path \<Rightarrow> (file_kind \<times> nat \<times> bytes) option" where
  "undo applied V = foldr (\<lambda>a V. V(ap_path a := old_view a)) applied V"

lemma undo_simps: "undo [] V = V" "undo (applied @ [a]) V = undo applied (V(ap_path a := old_view a))"
  by (simp_all add: undo_def)

lemma gains_refl: "gains P V V"
  by (simp add: gains_def)

lemma gains_trans: "gains P U V \<Longrightarrow> gains P V W \<Longrightarrow> gains P U W"
  unfolding gains_def by metis

lemma gains_mono: "gains P V W \<Longrightarrow> (\<And>q. P q \<Longrightarrow> Q q) \<Longrightarrow> gains Q V W"
  unfolding gains_def by blast

lemma gains_undo: "gains P V W \<Longrightarrow> gains P (undo applied V) (undo applied W)"
proof (induction applied arbitrary: V W rule: rev_induct)
  case Nil
  then show ?case by (simp add: undo_simps)
next
  case (snoc a applied)
  then have "gains P (V(ap_path a := old_view a)) (W(ap_path a := old_view a))" by (simp add: gains_def)
  with snoc.IH show ?case by (simp add: undo_simps)
qed

lemma rollback_all_result:
  "rollback_all os root (rev applied) d = (d', []) \<Longrightarrow> removals_work os \<Longrightarrow> disk_ok d \<Longrightarrow>
     \<forall>a \<in> set applied. ''..'' \<notin> set (ap_path a) \<and> ap_path a \<noteq> [] \<Longrightarrow> file_at d' = undo applied (file_at d)"
proof (induction applied arbitrary: d rule: rev_induct)
  case Nil
  then show ?case by (simp add: undo_simps)
next
  case (snoc a applied)
  from snoc.prems(1) obtain d1 where r: "rollback os root a d = (d1, Inr ())" "rollback_all os root (rev applied) d1 = (d', [])"
    by (auto split: prod.splits sum.splits)
  with rollback_result [OF r(1) snoc.prems(2,3)] snoc.prems(4) have "disk_ok d1" "file_at d1 = (file_at d)(ap_path a := old_view a)"
    by auto
  with snoc.IH [OF r(2) snoc.prems(2)] snoc.prems(4) show ?case by (simp add: undo_simps fun_upd_def)
qed

section \<open>All or nothing\<close>

definition above_target :: "secure_root \<Rightarrow> transaction_file list \<Rightarrow> path \<Rightarrow> bool" where
  "above_target root fs q = (\<exists>f \<in> set fs. strict_prefix q (patch_target root f))"

lemma patch_target_dots: "''..'' \<notin> set (sr_path root) \<Longrightarrow> ''..'' \<notin> set (patch_target root f)"
  by (rule resolve_no_dots)

lemma applyOne_target:
  assumes "applyOne os root f d = (d', Inr ax)" and "disk_ok d" and "os_ok os" and "''..'' \<notin> set (sr_path root)"
  shows "patch_target root f \<noteq> []"
proof -
  from assms(1) obtain target where "verifyPatchPath (files_of os d) root (patch_target root f) = Inr target"
    unfolding applyOne_def by (auto simp: bindL_Inr liftL_eq verify_eq patchPath_Inr)
  from verifyPatchPath_Inr [OF this files_of_ok [OF assms(2,3)] patch_target_dots [OF assms(4)]] show ?thesis by auto
qed

text \<open>Whatever was applied so far, undoing it leads back to the start, up to new directories.\<close>

lemma apply_all_undo:
  assumes "removals_work os" and "os_ok os" and "''..'' \<notin> set (sr_path root)"
  shows "apply_all os root fs applied d = (d', applied', r) \<Longrightarrow> disk_ok d \<Longrightarrow> \<forall>f \<in> set fs. \<forall>q. strict_prefix q (patch_target root f) \<longrightarrow> P q \<Longrightarrow>
     \<forall>a \<in> set applied. ''..'' \<notin> set (ap_path a) \<and> ap_path a \<noteq> [] \<Longrightarrow> gains P V (undo applied (file_at d)) \<Longrightarrow>
     disk_ok d' \<and> gains P V (undo applied' (file_at d')) \<and> (\<forall>a \<in> set applied'. ''..'' \<notin> set (ap_path a) \<and> ap_path a \<noteq> [])"
proof (induction fs arbitrary: applied d)
  case Nil
  then show ?case by simp
next
  case (Cons f fs)
  obtain d1 r1 where one: "applyOne os root f d = (d1, r1)" by fastforce
  note res = applyOne_result [OF one assms(1) Cons.prems(2) assms(2,3)]
  have P: "P q" if "strict_prefix q (patch_target root f)" for q using Cons.prems(3) that by auto
  show ?case
  proof (cases r1)
    case (Inl e)
    with Cons.prems(1) one have "d' = d1" "applied' = applied" by simp_all
    moreover from res Inl have "disk_ok d1" and g: "gains P (file_at d) (file_at d1)" using gains_mono P by auto
    moreover have "gains P V (undo applied (file_at d1))"
      using gains_trans [OF Cons.prems(5) gains_undo [OF g]] .
    ultimately show ?thesis using Cons.prems(4) by simp
  next
    case (Inr ax)
    obtain a x where ax: "ax = (a, x)" by fastforce
    with res Inr have a: "disk_ok d1" "x = Inr ()" "ap_path a = patch_target root f" "file_at d (patch_target root f) = old_view a"
      and "gains P (file_at d) ((file_at d1)(patch_target root f := file_at d (patch_target root f)))"
      using gains_mono P by auto
    then have g: "gains P (file_at d) ((file_at d1)(ap_path a := old_view a))" by simp
    have step: "apply_all os root fs (applied @ [a]) d1 = (d', applied', r)" using Cons.prems(1) one Inr ax a(2) by simp
    have pa: "\<forall>b \<in> set (applied @ [a]). ''..'' \<notin> set (ap_path b) \<and> ap_path b \<noteq> []"
      using Cons.prems(4) a(3) patch_target_dots [OF assms(3)] applyOne_target [of os root f d d1 ax] one Inr Cons.prems(2) assms(2,3)
      by auto
    have "gains P V (undo (applied @ [a]) (file_at d1))"
      using gains_trans [OF Cons.prems(5) gains_undo [OF g]] by (simp add: undo_simps)
    from Cons.IH [OF step a(1) _ pa this] Cons.prems(3) show ?thesis by simp
  qed
qed

text \<open>When every file was applied, every target has its new content and nothing else has changed.\<close>

definition replaced :: "disk \<Rightarrow> disk \<Rightarrow> path \<Rightarrow> transaction_file \<Rightarrow> bool" where
  "replaced d d' p f = (\<exists>m. file_at d' p = Some (FileKind, m, tf_after f)
     \<and> file_at d p = (if tf_existedBefore f then Some (FileKind, m, tf_before f) else None))"

lemma gains_updD: "gains P V (W(p := v)) \<Longrightarrow> q \<noteq> p \<Longrightarrow> W q = V q \<or> (V q = None \<and> P q \<and> (\<exists>m c. W q = Some (DirKind, m, c)))"
  unfolding gains_def by (metis fun_upd_other)

lemma apply_all_done:
  assumes "removals_work os" and "os_ok os" and "''..'' \<notin> set (sr_path root)"
  shows "apply_all os root fs applied d = (d', applied', Inr u) \<Longrightarrow> disk_ok d \<Longrightarrow> distinct (map (patch_target root) fs) \<Longrightarrow>
     (\<forall>f \<in> set fs. replaced d d' (patch_target root f) f)
     \<and> (\<forall>q. q \<notin> patch_target root ` set fs \<longrightarrow> file_at d' q = file_at d q \<or>
          (file_at d q = None \<and> above_target root fs q \<and> (\<exists>m c. file_at d' q = Some (DirKind, m, c))))"
proof (induction fs arbitrary: applied d)
  case Nil
  then show ?case by simp
next
  case (Cons f fs)
  let ?p = "patch_target root f"
  from Cons.prems(1) obtain d1 a where one: "applyOne os root f d = (d1, Inr (a, Inr ()))"
    and rest: "apply_all os root fs (applied @ [a]) d1 = (d', applied', Inr u)"
    by (auto split: prod.splits sum.splits)
  note res = applyOne_result [OF one assms(1) Cons.prems(2) assms(2,3), simplified]
  from res have ok1: "disk_ok d1" and old: "file_at d ?p = old_view a" and new: "file_at d1 ?p = Some (FileKind, ap_mode a, tf_after f)"
    and ab: "ap_existedBefore a = tf_existedBefore f" "ap_before a = tf_before f"
    and gains: "gains (\<lambda>q. strict_prefix q ?p) (file_at d) ((file_at d1)(?p := file_at d ?p))" by blast+
  note g = gains_updD [OF gains]
  note IH = Cons.IH [OF rest ok1]
  have dist: "distinct (map (patch_target root) fs)" "?p \<notin> patch_target root ` set fs" using Cons.prems(3) by auto
  have "file_at d' ?p = file_at d1 ?p" using IH dist new by fastforce
  then have "replaced d d' ?p f" using old new ab by (auto simp: replaced_def old_view_def)
  moreover have "replaced d d' (patch_target root h) h" if h: "h \<in> set fs" for h
  proof -
    have "replaced d1 d' (patch_target root h) h" using IH dist h by blast
    moreover have "patch_target root h \<noteq> ?p" using dist(2) h by (metis imageI)
    ultimately have "file_at d1 (patch_target root h) = file_at d (patch_target root h)"
      using g [of "patch_target root h"] by (auto simp: replaced_def split: if_splits)
    with \<open>replaced d1 d' (patch_target root h) h\<close> show ?thesis by (simp add: replaced_def)
  qed
  moreover have "file_at d' q = file_at d q \<or> (file_at d q = None \<and> above_target root (f # fs) q \<and> (\<exists>m c. file_at d' q = Some (DirKind, m, c)))"
    if q: "q \<notin> patch_target root ` set (f # fs)" for q
  proof -
    have mono: "above_target root (f # fs) q" if "strict_prefix q ?p \<or> above_target root fs q" using that by (auto simp: above_target_def)
    have "file_at d' q = file_at d1 q \<or> (file_at d1 q = None \<and> above_target root fs q \<and> (\<exists>m c. file_at d' q = Some (DirKind, m, c)))"
      using IH dist(1) q by simp
    moreover have "q \<noteq> ?p" using q by simp
    note g [OF this]
    ultimately show ?thesis using mono by (elim disjE conjE) simp_all
  qed
  ultimately show ?case by auto
qed

lemma transaction_outcome:
  assumes "applyPreparedFiles os engine projectRoot files d = (d', r)" and "removals_work os" and "os_ok os" and "disk_ok d"
  shows "case r of
       Inr _ \<Rightarrow> \<exists>root fs. secureProjectRoot (files_of os d) projectRoot = Inr root \<and> fs = map transaction_of files \<and>
         (distinct (map (patch_target root) fs) \<longrightarrow>
           (\<forall>f \<in> set fs. replaced d d' (patch_target root f) f) \<and>
           (\<forall>q. q \<notin> patch_target root ` set fs \<longrightarrow> file_at d' q = file_at d q \<or>
              (file_at d q = None \<and> above_target root fs q \<and> (\<exists>m c. file_at d' q = Some (DirKind, m, c)))))
     | Inl (AggregateError es m) \<Rightarrow> True
     | Inl e \<Rightarrow> file_at d' = file_at d \<or>
         (\<exists>root. secureProjectRoot (files_of os d) projectRoot = Inr root \<and>
            gains (above_target root (map transaction_of files)) (file_at d) (file_at d'))"
proof (cases "secureProjectRoot (files_of os d) projectRoot")
  case (Inl e)
  with assms(1) show ?thesis by (auto simp: applyPreparedFiles_def bindL_def liftL_def split: js_error.split)
next
  case (Inr root)
  let ?fs = "map transaction_of files"
  have dots: "''..'' \<notin> set (sr_path root)"
    using secureProjectRoot_Inr [OF Inr] files_of_ok [OF assms(4,3)] unfolding files_ok_def by blast
  from assms(1) Inr have run: "applyPatchTransaction os engine root ?fs d = (d', r)"
    by (simp add: applyPreparedFiles_def bindL_def liftL_def)
  obtain d1 applied x where all: "apply_all os root ?fs [] d = (d1, applied, x)" by (metis surj_pair)
  have P: "\<forall>f \<in> set ?fs. \<forall>q. strict_prefix q (patch_target root f) \<longrightarrow> above_target root ?fs q"
    by (auto simp: above_target_def)
  have un: "disk_ok d1" "gains (above_target root ?fs) (file_at d) (undo applied (file_at d1))"
      "\<forall>a \<in> set applied. ''..'' \<notin> set (ap_path a) \<and> ap_path a \<noteq> []"
    using apply_all_undo [OF assms(2,3) dots all assms(4) P, of "file_at d"] by (simp_all add: undo_simps gains_refl)
  show ?thesis
  proof (cases x)
    case (Inr u)
    then have "r = Inr ()" "d' = d1" using run all by (simp_all add: applyPatchTransaction_def)
    with apply_all_done [OF assms(2,3) dots _ assms(4)] all Inr \<open>secureProjectRoot (files_of os d) projectRoot = Inr root\<close>
    show ?thesis by auto
  next
    case (Inl e)
    obtain d2 es where rb: "rollback_all os root (rev applied) d1 = (d2, es)" by fastforce
    show ?thesis
    proof (cases es)
      case Nil
      with run all Inl rb have "r = Inl e" "d' = d2" by (simp_all add: applyPatchTransaction_def)
      moreover have "file_at d2 = undo applied (file_at d1)" using rollback_all_result rb Nil assms(2) un by blast
      ultimately show ?thesis using un(2) \<open>secureProjectRoot (files_of os d) projectRoot = Inr root\<close>
        by (auto split: js_error.split)
    next
      case (Cons e' es')
      with run all Inl rb have "\<exists>es m. r = Inl (AggregateError es m)" by (auto simp: applyPatchTransaction_def)
      then show ?thesis by auto
    qed
  qed
qed


text \<open>A project with one file, and a disk that is full at a given call.\<close>

definition sample_disk :: disk where
  "sample_disk =
     \<lparr>ds_entry = (\<lambda>p. if p = [] then Some 0 else if p = [''p''] then Some 1 else if p = [''p'', ''a''] then Some 2
        else None),
      ds_inode = (\<lambda>i. \<lparr>in_kind = (if i \<le> 1 then DirKind else FileKind), in_dev = 7, in_nlink = 1, in_mode = 420,
        in_content = (if i = 2 then utf8 ''x'' else [])\<rparr>),
      ds_next = 3, ds_calls = 0\<rparr>"

definition sample_os :: "nat option \<Rightarrow> os" where
  "sample_os full =
     \<lparr>os_fault = (\<lambda>n c. if Some n = full \<and> c \<noteq> Unlink then Some ''ENOSPC'' else None), os_chunk = (\<lambda>n. 8), os_uuid = (\<lambda>n. []),
      os_pid = [], os_mode = (\<lambda>m. m), os_through = (\<lambda>p. None), os_decode = map (\<lambda>n. char_of n)\<rparr>"

definition sample_prepared :: "string \<Rightarrow> string \<Rightarrow> string \<Rightarrow> prepared_file" where
  "sample_prepared name old new =
     \<lparr>pf_document = \<lparr>dc_id = ''doc_a'', dc_relativePath = name, dc_content = old, dc_sha256 = [], dc_virtual = False\<rparr>,
      pf_before = old, pf_after = new, pf_existedBefore = True\<rparr>"

definition sample_patch :: "prepared_file list" where
  "sample_patch = [sample_prepared ''a'' ''x'' ''xx'']"

lemma sample_disk_ok: "disk_ok sample_disk"
proof -
  have "\<exists>i. ds_entry sample_disk p = Some i \<and> in_kind (ds_inode sample_disk i) = DirKind"
    if "ds_entry sample_disk (p @ [s]) \<noteq> None" for p s
    using that by (cases p rule: rev_cases) (auto simp: sample_disk_def append_eq_Cons_conv split: if_splits)
  then show ?thesis by (auto simp: disk_ok_def sample_disk_def split: if_splits)
qed

lemma sample_os_ok: "os_ok (sample_os full)" "removals_work (sample_os full)"
  by (simp_all add: os_ok_def removals_work_def sample_os_def)

lemma sample_full:
  "snd (applyPreparedFiles (sample_os (Some 4)) (\<lambda>_. []) [''p''] sample_patch sample_disk) = Inl (Error ''ENOSPC'')"
  by code_simp

lemma sample_applied:
  "snd (applyPreparedFiles (sample_os None) (\<lambda>_. []) [''p''] sample_patch sample_disk) = Inr ()"
  by code_simp


end
