(* ===== verification/PatchWrites.thy ===== *)
theory PatchWrites
  imports PatchAtomic
begin

text \<open>
  The write loop of \<open>coding-runtime-patch-descriptor.ts\<close>: the operating system may accept only a part
  of the bytes of each call. The reference is one write of the whole content.
\<close>

lemma write_loop_reference:
  "write_loop os i data offset d = (d', Inr u) \<Longrightarrow> in_content (ds_inode d i) = take offset data \<Longrightarrow> offset \<le> length data \<Longrightarrow>
     d' = (set_inode i ((ds_inode d i)\<lparr>in_content := data\<rparr>) d)\<lparr>ds_calls := ds_calls d'\<rparr>"
proof (induction os i data offset d rule: write_loop.induct)
  case (1 os i data offset d)
  show ?case
  proof (cases "length data \<le> offset")
    case True
    with "1.prems" have "d' = d" "in_content (ds_inode d i) = data" by (simp_all add: write_loop.simps)
    moreover from this(2) have same: "(ds_inode d i)\<lparr>in_content := data\<rparr> = ds_inode d i" by auto
    have "set_inode i ((ds_inode d i)\<lparr>in_content := data\<rparr>) d = d" unfolding same by (simp add: set_inode_def)
    ultimately show ?thesis by simp
  next
    case False
    let ?w = "min (os_chunk os (ds_calls d)) (length data - offset)"
    from "1.prems"(1) False obtain d1 v where s: "sys os WriteCall d = (d1, Inr v)" and w: "?w \<noteq> 0"
      and step: "write_loop os i data (offset + ?w) (write_at i offset (take ?w (drop offset data)) d1) = (d', Inr u)"
      by (auto simp: write_loop.simps [of os i data offset d] Let_def split: prod.splits sum.splits if_splits)
    note d1 = sys_eq [OF s]
    let ?d = "write_at i offset (take ?w (drop offset data)) d1"
    have "in_content (ds_inode ?d i) = take (offset + ?w) data" "offset + ?w \<le> length data"
      using "1.prems"(2,3) by (simp_all add: d1 write_at_def set_inode_def Let_def take_add)
    note IH = "1.IH" [OF False s [symmetric] refl refl w step this]
    have "(set_inode i ((ds_inode ?d i)\<lparr>in_content := data\<rparr>) ?d)\<lparr>ds_calls := n\<rparr>
        = (set_inode i ((ds_inode d i)\<lparr>in_content := data\<rparr>) d)\<lparr>ds_calls := n\<rparr>" for n
      by (simp add: d1 write_at_def set_inode_def Let_def)
    with IH show ?thesis by simp
  qed
qed

lemma write_loop_returns:
  assumes "\<forall>n. os_fault os n WriteCall = None \<and> 0 < os_chunk os n"
  shows "\<exists>d'. write_loop os i data offset d = (d', Inr ()) \<and> ds_calls d' \<le> ds_calls d + (length data - offset)"
  using assms
proof (induction os i data offset d rule: write_loop.induct)
  case (1 os i data offset d)
  show ?case
  proof (cases "length data \<le> offset")
    case True
    then show ?thesis by (simp add: write_loop.simps)
  next
    case False
    let ?w = "min (os_chunk os (ds_calls d)) (length data - offset)"
    let ?d1 = "d\<lparr>ds_calls := Suc (ds_calls d)\<rparr>"
    have s: "sys os WriteCall d = (?d1, Inr ())" using "1.prems" by (simp add: sys_def)
    have w: "?w \<noteq> 0" using "1.prems" False by (simp add: min_def)
    from "1.IH" [OF False s [symmetric] refl refl w "1.prems"] obtain d' where
      "write_loop os i data (offset + ?w) (write_at i offset (take ?w (drop offset data)) ?d1) = (d', Inr ())"
      "ds_calls d' \<le> Suc (ds_calls d) + (length data - (offset + ?w))" by (auto simp: write_at_def set_inode_def Let_def)
    then show ?thesis using False s w by (simp add: write_loop.simps [of os i data offset d] Let_def)
  qed
qed

text \<open>C36: short writes do not show. However few bytes each call accepts, a write that returns leaves
  the disk exactly as one write of the whole content would.\<close>

theorem short_writes_equivalent:
  assumes "writePatchDescriptor os i data d = (d', Inr u)"
  shows "d' = (set_inode i ((ds_inode d i)\<lparr>in_content := data\<rparr>) d)\<lparr>ds_calls := ds_calls d'\<rparr>"
proof -
  from assms obtain d1 v where s: "sys os Truncate d = (d1, Inr v)"
    and w: "write_loop os i data 0 (set_inode i ((ds_inode d1 i)\<lparr>in_content := []\<rparr>) d1) = (d', Inr u)"
    by (auto simp: writePatchDescriptor_def bindL_Inr)
  let ?d = "set_inode i ((ds_inode d1 i)\<lparr>in_content := []\<rparr>) d1"
  have "d' = (set_inode i ((ds_inode ?d i)\<lparr>in_content := data\<rparr>) ?d)\<lparr>ds_calls := ds_calls d'\<rparr>"
    by (rule write_loop_reference [OF w]) (simp_all add: set_inode_def)
  moreover have "(set_inode i ((ds_inode ?d i)\<lparr>in_content := data\<rparr>) ?d)\<lparr>ds_calls := n\<rparr>
      = (set_inode i ((ds_inode d i)\<lparr>in_content := data\<rparr>) d)\<lparr>ds_calls := n\<rparr>" for n
    by (simp add: sys_eq [OF s] set_inode_def)
  ultimately show ?thesis by metis
qed

text \<open>C40: the write loop ends. As long as no call fails and each accepts at least one byte, the
  write returns after at most one call per byte and the truncation, with the whole content written.\<close>

theorem descriptor_write_terminates:
  assumes "\<forall>n. os_fault os n Truncate = None \<and> os_fault os n WriteCall = None \<and> 0 < os_chunk os n"
  shows "\<exists>d'. writePatchDescriptor os i data d = (d', Inr ()) \<and> ds_calls d' \<le> ds_calls d + length data + 1
     \<and> in_content (ds_inode d' i) = data"
proof -
  let ?d1 = "d\<lparr>ds_calls := Suc (ds_calls d)\<rparr>"
  have s: "sys os Truncate d = (?d1, Inr ())" using assms by (simp add: sys_def)
  obtain d' where "write_loop os i data 0 (set_inode i ((ds_inode ?d1 i)\<lparr>in_content := []\<rparr>) ?d1) = (d', Inr ())"
    "ds_calls d' \<le> Suc (ds_calls d) + length data"
    using write_loop_returns [of os i data 0 "set_inode i ((ds_inode ?d1 i)\<lparr>in_content := []\<rparr>) ?d1"] assms by (auto simp: set_inode_def)
  then have w: "writePatchDescriptor os i data d = (d', Inr ())" "ds_calls d' \<le> ds_calls d + length data + 1"
    using s by (simp_all add: writePatchDescriptor_def bindL_def)
  with writePatchDescriptor_touches [OF w(1)] show ?thesis by blast
qed

definition byte_os :: os where
  "byte_os = (sample_os None)\<lparr>os_chunk := (\<lambda>n. 1)\<rparr>"

theorem short_writes_equivalent_witness:
  "\<exists>d'. writePatchDescriptor byte_os 2 (utf8 ''abc'') sample_disk = (d', Inr ())
     \<and> d' = (set_inode 2 ((ds_inode sample_disk 2)\<lparr>in_content := utf8 ''abc''\<rparr>) sample_disk)\<lparr>ds_calls := ds_calls d'\<rparr>"
proof -
  have "snd (writePatchDescriptor byte_os 2 (utf8 ''abc'') sample_disk) = Inr ()" by code_simp
  then obtain d' where "writePatchDescriptor byte_os 2 (utf8 ''abc'') sample_disk = (d', Inr ())" by (metis prod.collapse)
  with short_writes_equivalent [OF this] show ?thesis by blast
qed

theorem descriptor_write_terminates_witness:
  "\<exists>d'. writePatchDescriptor byte_os 2 (utf8 ''abc'') sample_disk = (d', Inr ()) \<and> ds_calls d' \<le> 4"
  using descriptor_write_terminates [of byte_os 2 "utf8 ''abc''" sample_disk]
  by (auto simp: byte_os_def sample_os_def utf8_def sample_disk_def)

end
