(* ===== verification/Members.thy ===== *)
theory Members
  imports Json "HOL-Library.Sublist"
begin

text \<open>
  Objects that are built from optional members, as the sources do with spread expressions: the
  names that can occur form a fixed list, so the object has no name twice, and reading a property
  skips the members that are absent.
\<close>

named_theorems member_simps \<open>reading a property of an object built from parts\<close>

definition opt_member :: "bool \<Rightarrow> string \<Rightarrow> json \<Rightarrow> (string \<times> json) list" where
  "opt_member present k v = (if present then [(k, v)] else [])"

definition opt_text :: "string \<Rightarrow> string option \<Rightarrow> (string \<times> json) list" where
  "opt_text k v = (case v of None \<Rightarrow> [] | Some s \<Rightarrow> opt_member (s \<noteq> []) k (JStr s))"

lemma subseq_set: "subseq xs ys \<Longrightarrow> set xs \<subseteq> set ys"
  by (induction rule: list_emb.induct) auto

lemma subseq_distinct: "subseq xs ys \<Longrightarrow> distinct ys \<Longrightarrow> distinct xs"
  by (induction rule: list_emb.induct) (auto dest: subseq_set)

lemma is_json_members_append:
  "is_json_members (xs @ ys) \<longleftrightarrow> is_json_members xs \<and> is_json_members ys"
  by (auto simp: is_json_members_iff)

lemma is_json_obj_subseq:
  "subseq (map fst kvs) ks \<Longrightarrow> distinct ks \<Longrightarrow> is_json_members kvs \<Longrightarrow> is_json (JObj kvs)"
  by (simp add: subseq_distinct)

lemma opt_member_keys: "subseq (map fst (opt_member p k v)) [k]"
  by (simp add: opt_member_def)

lemma opt_text_keys: "subseq (map fst (opt_text k v)) [k]"
  by (simp add: opt_text_def opt_member_def split: option.split)

lemma opt_member_json: "is_json v \<Longrightarrow> is_json_members (opt_member p k v)"
  by (simp add: opt_member_def)

lemma opt_text_json: "is_json_members (opt_text k v)"
  by (simp add: opt_text_def opt_member_def split: option.split)

lemma get_prop_Nil [member_simps]: "get_prop [] k = JUndef"
  by (simp add: get_prop_def)

lemma get_prop_Cons [member_simps]: "get_prop ((k, v) # kvs) k' = (if k = k' then v else get_prop kvs k')"
  by (simp add: get_prop_def)

lemma get_prop_opt_member [member_simps]:
  "get_prop (opt_member p k v @ kvs) k' = (if p \<and> k = k' then v else get_prop kvs k')"
  by (simp add: get_prop_def opt_member_def)

lemma get_prop_opt_text [member_simps]:
  "k \<noteq> k' \<Longrightarrow> get_prop (opt_text k v @ kvs) k' = get_prop kvs k'"
  by (simp add: get_prop_def opt_text_def opt_member_def split: option.split)

lemma get_prop_opt_text_end [member_simps]:
  "get_prop (opt_text k v) k' = (if k = k' \<and> v \<noteq> None \<and> v \<noteq> Some [] then JStr (the v) else JUndef)"
  by (auto simp: get_prop_def opt_text_def opt_member_def split: option.split)

end
