(* ===== verification/Adapter.thy ===== *)
theory Adapter
  imports Prompt Effects
begin

text \<open>
  The provider adapter of \<open>packages/pi-adapter/src\<close>: \<open>adapter.ts\<close> (one semantic turn, with at
  most one repair), \<open>metrics.ts\<close> (the usage of a turn), \<open>types.ts\<close> and \<open>errors.ts\<close>. The provider
  is the parameter \<open>complete\<close>: it answers the n-th request of a turn with a message, or rejects.
  The two readings of the clock are arguments, an abort signal is an opaque handle, and the texts
  the JavaScript engine gives its own errors are the parameter \<open>engine\<close>.
\<close>

section \<open>Messages and usage\<close>

datatype stop_reason = StopPending | StopStop | StopLength | StopToolUse | StopError | StopAborted | StopDeferred

datatype message_part = TextContent string | ThinkingContent string | ToolCall string

record usage =
  us_input :: int
  us_output :: int
  us_cacheRead :: int
  us_cacheWrite :: int

record assistant_message =
  am_content :: "message_part list"
  am_provider :: string
  am_model :: string
  am_responseId :: "string option"
  am_usage :: usage
  am_stopReason :: stop_reason
  am_errorMessage :: "string option"

datatype cache_usage_support = Reported | UnsupportedUsage | UnknownUsage

datatype provider_number = Measured int | Unsupported string | Unmeasured string

record turn_usage =
  tu_input :: provider_number
  tu_output :: provider_number
  tu_cacheRead :: provider_number
  tu_cacheWrite :: provider_number

fun cacheMetric :: "string \<Rightarrow> int \<Rightarrow> cache_usage_support \<Rightarrow> provider_number" where
  "cacheMetric kind value Reported = Measured value"
| "cacheMetric kind value UnsupportedUsage = Unsupported (''provider does not report cache '' @ kind @ ''s'')"
| "cacheMetric kind value UnknownUsage = Unmeasured (''cache '' @ kind @ '' provenance is unknown'')"

definition add_usage :: "usage \<Rightarrow> usage \<Rightarrow> usage" where
  "add_usage acc u =
     \<lparr>us_input = us_input acc + us_input u, us_output = us_output acc + us_output u,
      us_cacheRead = us_cacheRead acc + us_cacheRead u, us_cacheWrite = us_cacheWrite acc + us_cacheWrite u\<rparr>"

definition summarizeUsage :: "usage list \<Rightarrow> cache_usage_support \<Rightarrow> cache_usage_support \<Rightarrow> turn_usage" where
  "summarizeUsage usages readSupport writeSupport =
     (let total = foldl add_usage \<lparr>us_input = 0, us_output = 0, us_cacheRead = 0, us_cacheWrite = 0\<rparr> usages in
      \<lparr>tu_input = Measured (us_input total), tu_output = Measured (us_output total),
       tu_cacheRead = cacheMetric ''read'' (us_cacheRead total) readSupport,
       tu_cacheWrite = cacheMetric ''write'' (us_cacheWrite total) writeSupport\<rparr>)"

section \<open>Reading a response\<close>

fun part_text :: "message_part \<Rightarrow> string" where
  "part_text (TextContent t) = t"
| "part_text _ = []"

definition message_text :: "assistant_message \<Rightarrow> string" where
  "message_text m = concat (map part_text (am_content m))"

definition is_tool_call :: "message_part \<Rightarrow> bool" where
  "is_tool_call p = (case p of ToolCall _ \<Rightarrow> True | _ \<Rightarrow> False)"

definition provider_failed :: "assistant_message \<Rightarrow> bool" where
  "provider_failed m = (am_stopReason m = StopError \<or> am_stopReason m = StopAborted)"

definition responseText :: "assistant_message \<Rightarrow> string res" where
  "responseText m =
     (if provider_failed m then
        (let detail = (case am_errorMessage m of None \<Rightarrow> [] | Some e \<Rightarrow> trim e) in
         Inl (PiAdapterError PROVIDER_ERROR (''Semantic provider request ''
           @ (if am_stopReason m = StopError then ''error'' else ''aborted'')
           @ (if detail = [] then [] else '': '' @ detail))))
      else if list_ex is_tool_call (am_content m) then
        Inl (PiAdapterError INVALID_SEMANTIC_OUTPUT ''Semantic provider returned a tool call'')
      else if message_text m = [] then
        Inl (PiAdapterError INVALID_SEMANTIC_OUTPUT ''Semantic provider returned no text'')
      else Inr (message_text m))"

datatype normalization = NoNormalization | TrailingDelimiter

record parsed_response =
  pr_output :: semantic_output
  pr_text :: string
  pr_normalization :: normalization

text \<open>\<open>JSON.parse\<close> of the text, or of the text without one trailing delimiter.\<close>

definition parse_text :: "(js_error \<Rightarrow> string) \<Rightarrow> string \<Rightarrow> (json \<times> normalization) res" where
  "parse_text engine t =
     (case JSON_parse t of
        Inr v \<Rightarrow> Inr (v, NoNormalization)
      | Inl e \<Rightarrow>
          (case (if t \<noteq> [] \<and> last t \<in> {CHR ''}'', CHR '']''} then JSON_parse (butlast t) else Inl e) of
             Inr v \<Rightarrow> Inr (v, TrailingDelimiter)
           | Inl _ \<Rightarrow> Inl (PiAdapterError INVALID_SEMANTIC_OUTPUT
               (''Semantic provider returned invalid JSON ('' @ message_of engine e @ ''): ''
                 @ quote_str (take 1000 t)))))"

definition read_envelope :: "(js_error \<Rightarrow> string) \<Rightarrow> string \<Rightarrow> json \<Rightarrow> normalization \<Rightarrow> parsed_response res" where
  "read_envelope engine t v n =
     (case parseSemanticOutput v of
        Inr out \<Rightarrow> Inr \<lparr>pr_output = out, pr_text = t, pr_normalization = n\<rparr>
      | Inl e \<Rightarrow> Inl (PiAdapterError INVALID_SEMANTIC_OUTPUT
          (''Semantic provider violated protocol v2 ('' @ message_of engine e @ ''): '' @ take 1000 t)))"

definition parseResponse :: "(js_error \<Rightarrow> string) \<Rightarrow> assistant_message \<Rightarrow> parsed_response res" where
  "parseResponse engine m =
     bindR (responseText m) (\<lambda>raw.
     bindR (parse_text engine (trim raw)) (\<lambda>parsed.
     read_envelope engine (trim raw) (fst parsed) (snd parsed)))"

text \<open>The loops over edits, claims and documents throw at the first undisclosed reference.\<close>

definition undisclosed :: "string \<Rightarrow> string \<Rightarrow> 'a res" where
  "undisclosed what ref = Inl (PiAdapterError INVALID_SEMANTIC_OUTPUT (what @ ref))"

fun require_all :: "string \<Rightarrow> string list \<Rightarrow> string list \<Rightarrow> unit res" where
  "require_all what disclosed [] = Inr ()"
| "require_all what disclosed (x # xs) =
     (if x \<notin> set disclosed then undisclosed what x else require_all what disclosed xs)"

fun target_check :: "disclosed_ids \<Rightarrow> semantic_target \<Rightarrow> unit res" where
  "target_check ids (SelectionTarget s) =
     require_all ''Intent references undisclosed selection '' (di_selectionIds ids) [s]"
| "target_check ids (DocumentsTarget ds h) =
     require_all ''Intent references undisclosed document '' (di_documentIds ids) ds"
| "target_check ids t = Inr ()"

fun reference_check :: "disclosed_ids \<Rightarrow> semantic_output \<Rightarrow> unit res" where
  "reference_check ids (PatchOutput p) =
     require_all ''Patch references undisclosed document '' (di_documentIds ids) (map pe_documentId (pp_edits p))"
| "reference_check ids (IntentOutput (CompleteIntent s cs)) =
     require_all ''Completion claim references undisclosed observation '' (di_observationIds ids)
       (map cc_observationRef cs)"
| "reference_check ids (IntentOutput (ClarifyIntent q r)) = Inr ()"
| "reference_check ids (IntentOutput (WorkIntent w)) = target_check ids (wi_target w)"

definition validateDisclosedReferences :: "semantic_output \<Rightarrow> turn_request \<Rightarrow> semantic_output res" where
  "validateDisclosedReferences out turn = bindR (reference_check (tr_disclosed turn) out) (\<lambda>_. Inr out)"

section \<open>A session\<close>

definition semanticProviderSessionId :: "string \<Rightarrow> string \<Rightarrow> bool \<Rightarrow> string" where
  "semanticProviderSessionId baseSessionId phase repair =
     baseSessionId @ ''-'' @ phase @ (if repair then ''-repair'' else [])"

record provider_model =
  md_id :: string
  md_api :: string

record connection_binding =
  cb_connectionId :: string
  cb_model :: provider_model
  cb_sessionId :: string
  cb_cacheRetention :: string
  cb_cacheRead :: cache_usage_support
  cb_cacheWrite :: cache_usage_support
  cb_stableContext :: "string option"
  cb_globalInstructions :: "string option"
  cb_maxTokens :: "int option"
  cb_reasoning :: "string option"

record stream_options =
  so_signal :: nat
  so_cacheRetention :: string
  so_sessionId :: string
  so_promptCacheKey :: string
  so_transport :: "string option"
  so_reasoning :: "string option"
  so_maxRetries :: int
  so_maxTokens :: int

record provider_call =
  pc_model :: provider_model
  pc_context :: model_context
  pc_options :: stream_options

record turn_result =
  re_output :: semantic_output
  re_attempts :: nat
  re_normalization :: normalization
  re_latencyMs :: int
  re_provider :: string
  re_model :: string
  re_responseId :: "string option"
  re_usage :: turn_usage

record semantic_session =
  ss_binding :: connection_binding
  ss_closed :: bool

definition turn_phase :: "turn_request \<Rightarrow> string" where
  "turn_phase turn = (if tr_mode turn = JStr ''followUp'' then ''followup'' else ''initial'')"

definition stream_options_of :: "connection_binding \<Rightarrow> turn_request \<Rightarrow> nat \<Rightarrow> bool \<Rightarrow> stream_options" where
  "stream_options_of b turn signal repair =
     (let key = semanticProviderSessionId (cb_sessionId b) (turn_phase turn) repair in
      \<lparr>so_signal = signal, so_cacheRetention = cb_cacheRetention b, so_sessionId = key, so_promptCacheKey = key,
       so_transport = (if md_api (cb_model b) = ''openai-codex-responses'' then Some ''websocket'' else None),
       so_reasoning = (if cb_reasoning b = Some [] then None else cb_reasoning b),
       so_maxRetries = 0,
       so_maxTokens = (case cb_maxTokens b of None \<Rightarrow> 4096 | Some n \<Rightarrow> n)\<rparr>)"

text \<open>The part of a turn inside \<open>try\<close>: parse the response, then check its references.\<close>

definition accept :: "(js_error \<Rightarrow> string) \<Rightarrow> turn_request \<Rightarrow> assistant_message \<Rightarrow> (semantic_output \<times> normalization) res" where
  "accept engine turn m =
     bindR (parseResponse engine m) (\<lambda>p.
     bindR (validateDisclosedReferences (pr_output p) turn) (\<lambda>out. Inr (out, pr_normalization p)))"

definition is_provider_error :: "js_error \<Rightarrow> bool" where
  "is_provider_error e = (case e of PiAdapterError PROVIDER_ERROR _ \<Rightarrow> True | _ \<Rightarrow> False)"

definition turn_result_of :: "connection_binding \<Rightarrow> assistant_message list \<Rightarrow> semantic_output \<times> normalization
    \<Rightarrow> int \<Rightarrow> int \<Rightarrow> turn_result" where
  "turn_result_of b messages accepted startedAt finishedAt =
     \<lparr>re_output = fst accepted, re_attempts = length messages, re_normalization = snd accepted,
      re_latencyMs = max 0 (finishedAt - startedAt),
      re_provider = am_provider (last messages), re_model = am_model (last messages),
      re_responseId = am_responseId (last messages),
      re_usage = summarizeUsage (map am_usage messages) (cb_cacheRead b) (cb_cacheWrite b)\<rparr>"

definition call_of :: "(string \<Rightarrow> nat list) \<Rightarrow> connection_binding \<Rightarrow> turn_request \<Rightarrow> nat \<Rightarrow> image_content list
    \<Rightarrow> (string \<times> string) option \<Rightarrow> provider_call res" where
  "call_of digest b turn signal images repair =
     bindR (createSemanticContext digest turn (map_option fst repair) (cb_stableContext b)
       (map_option snd repair) images (cb_globalInstructions b)) (\<lambda>cx.
     Inr \<lparr>pc_model = cb_model b, pc_context = cx, pc_options = stream_options_of b turn signal (repair \<noteq> None)\<rparr>)"

text \<open>
  \<open>submit\<close>, with the requests it made. The second request repairs a response that was read but
  rejected; a provider failure is thrown as it is, and so is anything the provider rejects with.
\<close>

definition repair_turn :: "(string \<Rightarrow> nat list) \<Rightarrow> (js_error \<Rightarrow> string) \<Rightarrow> (nat \<Rightarrow> provider_call \<Rightarrow> assistant_message res)
    \<Rightarrow> connection_binding \<Rightarrow> turn_request \<Rightarrow> nat \<Rightarrow> image_content list \<Rightarrow> provider_call \<Rightarrow> assistant_message \<Rightarrow> js_error
    \<Rightarrow> int \<Rightarrow> int \<Rightarrow> provider_call list \<times> turn_result res" where
  "repair_turn digest engine complete b turn signal images call1 first e startedAt finishedAt =
     (case call_of digest b turn signal images (Some (message_text first, take 1000 (message_of engine e))) of
        Inl e2 \<Rightarrow> ([call1], Inl e2)
      | Inr call2 \<Rightarrow>
          (case complete 1 call2 of
             Inl e2 \<Rightarrow> ([call1, call2], Inl e2)
           | Inr second \<Rightarrow>
               ([call1, call2],
                case accept engine turn second of
                  Inr a \<Rightarrow> Inr (turn_result_of b [first, second] a startedAt finishedAt)
                | Inl e2 \<Rightarrow>
                    if is_provider_error e2 then Inl e2
                    else Inl (PiAdapterError INVALID_SEMANTIC_OUTPUT
                      (''Semantic provider output remained invalid after one repair: '' @ message_of engine e2)))))"

definition submit :: "(string \<Rightarrow> nat list) \<Rightarrow> (js_error \<Rightarrow> string) \<Rightarrow> (nat \<Rightarrow> provider_call \<Rightarrow> assistant_message res)
    \<Rightarrow> semantic_session \<Rightarrow> turn_request \<Rightarrow> nat \<Rightarrow> image_content list \<Rightarrow> int \<Rightarrow> int
    \<Rightarrow> provider_call list \<times> turn_result res" where
  "submit digest engine complete s turn signal images startedAt finishedAt =
     (if ss_closed s then ([], Inl (PiAdapterError CLOSED ''Semantic model session is closed''))
      else case call_of digest (ss_binding s) turn signal images None of
        Inl e \<Rightarrow> ([], Inl e)
      | Inr call1 \<Rightarrow>
          (case complete 0 call1 of
             Inl e \<Rightarrow> ([call1], Inl e)
           | Inr first \<Rightarrow>
               (case accept engine turn first of
                  Inr a \<Rightarrow> ([call1], Inr (turn_result_of (ss_binding s) [first] a startedAt finishedAt))
                | Inl e \<Rightarrow>
                    if is_provider_error e then ([call1], Inl e)
                    else repair_turn digest engine complete (ss_binding s) turn signal images call1 first e
                      startedAt finishedAt)))"

definition close_session :: "semantic_session \<Rightarrow> semantic_session" where
  "close_session s = s\<lparr>ss_closed := True\<rparr>"

definition open_session :: "connection_binding \<Rightarrow> semantic_session" where
  "open_session b = \<lparr>ss_binding = b, ss_closed = False\<rparr>"

section \<open>Only disclosed references\<close>

fun target_discloses :: "disclosed_ids \<Rightarrow> semantic_target \<Rightarrow> bool" where
  "target_discloses ids (SelectionTarget s) = (s \<in> set (di_selectionIds ids))"
| "target_discloses ids (DocumentsTarget ds h) = (set ds \<subseteq> set (di_documentIds ids))"
| "target_discloses ids t = True"

text \<open>The specification: every identifier an output names was disclosed in the turn.\<close>

fun discloses :: "disclosed_ids \<Rightarrow> semantic_output \<Rightarrow> bool" where
  "discloses ids (PatchOutput p) = (pe_documentId ` set (pp_edits p) \<subseteq> set (di_documentIds ids))"
| "discloses ids (IntentOutput (CompleteIntent s cs)) =
     (cc_observationRef ` set cs \<subseteq> set (di_observationIds ids))"
| "discloses ids (IntentOutput (ClarifyIntent q r)) = True"
| "discloses ids (IntentOutput (WorkIntent w)) = target_discloses ids (wi_target w)"

lemma require_all_Inr: "require_all what ds xs = Inr u \<longleftrightarrow> set xs \<subseteq> set ds"
  by (induction xs) (auto simp: undisclosed_def)

lemma require_all_Inl: "require_all what ds xs = Inl e \<Longrightarrow> \<exists>x. e = PiAdapterError INVALID_SEMANTIC_OUTPUT (what @ x)"
  by (induction xs) (auto simp: undisclosed_def split: if_splits)

lemma reference_check_Inr: "reference_check ids out = Inr u \<longleftrightarrow> discloses ids out"
proof (induction ids out rule: reference_check.induct)
  case (4 ids w)
  then show ?case by (cases "wi_target w") (simp_all add: require_all_Inr del: require_all.simps)
qed (auto simp: require_all_Inr)

lemma reference_check_Inl:
  "reference_check ids out = Inl e \<Longrightarrow> \<exists>m. e = PiAdapterError INVALID_SEMANTIC_OUTPUT m"
proof (induction ids out rule: reference_check.induct)
  case (4 ids w)
  then show ?case
    by (cases "wi_target w") (auto dest: require_all_Inl simp del: require_all.simps)
qed (auto dest: require_all_Inl)

lemma validate_Inr: "validateDisclosedReferences out turn = Inr out' \<longleftrightarrow> out' = out \<and> discloses (tr_disclosed turn) out"
  by (auto simp: validateDisclosedReferences_def res_simps reference_check_Inr)

lemma responseText_Inl:
  "responseText m = Inl e \<Longrightarrow>
     \<exists>c t. e = PiAdapterError c t \<and> c = (if provider_failed m then PROVIDER_ERROR else INVALID_SEMANTIC_OUTPUT)"
  by (auto simp: responseText_def Let_def split: if_splits)

lemma responseText_Inr: "responseText m = Inr t \<Longrightarrow> \<not> provider_failed m"
  by (auto simp: responseText_def Let_def split: if_splits)

lemma parse_text_Inl: "parse_text engine t = Inl e \<Longrightarrow> \<exists>m. e = PiAdapterError INVALID_SEMANTIC_OUTPUT m"
  by (auto simp: parse_text_def split: sum.splits)

lemma read_envelope_Inl: "read_envelope engine t v n = Inl e \<Longrightarrow> \<exists>m. e = PiAdapterError INVALID_SEMANTIC_OUTPUT m"
  by (auto simp: read_envelope_def split: sum.splits)

lemma read_envelope_Inr: "read_envelope engine t v n = Inr p \<Longrightarrow> wf_output (pr_output p)"
  by (auto simp: read_envelope_def split: sum.splits dest: parse_output_wf)

lemma parseResponse_Inl:
  "parseResponse engine m = Inl e \<Longrightarrow>
     \<exists>c t. e = PiAdapterError c t \<and> c = (if provider_failed m then PROVIDER_ERROR else INVALID_SEMANTIC_OUTPUT)"
  unfolding parseResponse_def bindR_Inl_iff
  by (auto dest!: responseText_Inl responseText_Inr parse_text_Inl read_envelope_Inl)

lemma parseResponse_Inr: "parseResponse engine m = Inr p \<Longrightarrow> wf_output (pr_output p) \<and> \<not> provider_failed m"
  by (auto simp: parseResponse_def res_simps dest: read_envelope_Inr responseText_Inr)

lemma accept_Inr:
  "accept engine turn m = Inr (out, n) \<Longrightarrow>
     wf_output out \<and> discloses (tr_disclosed turn) out \<and> \<not> provider_failed m"
  by (auto simp: accept_def res_simps validate_Inr dest: parseResponse_Inr)

lemma accept_Inl:
  "accept engine turn m = Inl e \<Longrightarrow>
     \<exists>c t. e = PiAdapterError c t \<and> c = (if provider_failed m then PROVIDER_ERROR else INVALID_SEMANTIC_OUTPUT)"
  by (auto simp: accept_def bindR_Inl_iff validateDisclosedReferences_def
      dest!: parseResponse_Inl reference_check_Inl parseResponse_Inr)

lemma accept_provider_error: "accept engine turn m = Inl e \<Longrightarrow> is_provider_error e \<longleftrightarrow> provider_failed m"
  by (drule accept_Inl) (auto simp: is_provider_error_def split: if_splits)

section \<open>The requests of a turn\<close>

lemma context_ok:
  "\<exists>cx. createSemanticContext digest turn r c reason images g = Inr cx \<and> mc_tools cx = []"
proof (cases c)
  case None
  then show ?thesis by (simp add: createSemanticContext_def)
next
  case (Some t)
  obtain e where "bounded_evidence digest t = Inr e"
    using compactContext_Inr [of 4500 digest t] by (cases "18000 < length t") (auto simp: bounded_evidence_def)
  with Some show ?thesis by (simp add: createSemanticContext_def)
qed

lemma call_of_ok:
  obtains c where "call_of digest b turn signal images r = Inr c"
    and "pc_options c = stream_options_of b turn signal (r \<noteq> None)" and "mc_tools (pc_context c) = []"
proof -
  obtain cx where "createSemanticContext digest turn (map_option fst r) (cb_stableContext b)
      (map_option snd r) images (cb_globalInstructions b) = Inr cx" and "mc_tools cx = []"
    using context_ok by blast
  then show ?thesis using that [of "\<lparr>pc_model = cb_model b, pc_context = cx,
      pc_options = stream_options_of b turn signal (r \<noteq> None)\<rparr>"]
    by (simp add: call_of_def)
qed

text \<open>What every request of a turn has: no tools, no retries, a session of its own attempt.\<close>

definition call_ok :: "connection_binding \<Rightarrow> turn_request \<Rightarrow> bool \<Rightarrow> provider_call \<Rightarrow> bool" where
  "call_ok b turn repair c = (mc_tools (pc_context c) = [] \<and> so_maxRetries (pc_options c) = 0
     \<and> so_sessionId (pc_options c) = semanticProviderSessionId (cb_sessionId b) (turn_phase turn) repair)"

lemma call_of_call_ok: "call_of digest b turn signal images r = Inr c \<Longrightarrow> call_ok b turn (r \<noteq> None) c"
  by (rule call_of_ok [of digest b turn signal images r]) (simp add: call_ok_def stream_options_of_def Let_def)

text \<open>Every way a turn can end.\<close>

lemma submit_cases:
  assumes "submit digest engine complete s turn signal images t0 t1 = (calls, r)" and "\<not> ss_closed s"
  obtains (rejected) c e where "calls = [c]" "complete 0 c = Inl e" "r = Inl e"
    | (accepted) c m a where "calls = [c]" "complete 0 c = Inr m" "accept engine turn m = Inr a"
        "r = Inr (turn_result_of (ss_binding s) [m] a t0 t1)"
    | (failed) c m e where "calls = [c]" "complete 0 c = Inr m" "accept engine turn m = Inl e"
        "provider_failed m" "r = Inl e"
    | (rejected2) c d m e e2 where "calls = [c, d]" "complete 0 c = Inr m" "accept engine turn m = Inl e"
        "\<not> provider_failed m" "complete 1 d = Inl e2" "r = Inl e2"
    | (accepted2) c d m e m2 a where "calls = [c, d]" "complete 0 c = Inr m" "accept engine turn m = Inl e"
        "\<not> provider_failed m" "complete 1 d = Inr m2" "accept engine turn m2 = Inr a"
        "r = Inr (turn_result_of (ss_binding s) [m, m2] a t0 t1)"
    | (failed2) c d m e m2 e2 where "calls = [c, d]" "complete 0 c = Inr m" "accept engine turn m = Inl e"
        "\<not> provider_failed m" "complete 1 d = Inr m2" "accept engine turn m2 = Inl e2" "provider_failed m2"
        "r = Inl e2"
    | (invalid) c d m e m2 e2 where "calls = [c, d]" "complete 0 c = Inr m" "accept engine turn m = Inl e"
        "\<not> provider_failed m" "complete 1 d = Inr m2" "accept engine turn m2 = Inl e2" "\<not> provider_failed m2"
        "r = Inl (PiAdapterError INVALID_SEMANTIC_OUTPUT
           (''Semantic provider output remained invalid after one repair: '' @ message_of engine e2))"
proof -
  let ?b = "ss_binding s"
  obtain c where c: "call_of digest ?b turn signal images None = Inr c" by (rule call_of_ok)
  show ?thesis
  proof (cases "complete 0 c")
    case (Inl e)
    with assms c show ?thesis by (auto simp: submit_def intro: rejected)
  next
    case m: (Inr m)
    show ?thesis
    proof (cases "accept engine turn m")
      case (Inr a)
      with assms c m show ?thesis by (auto simp: submit_def intro: accepted)
    next
      case e: (Inl e)
      show ?thesis
      proof (cases "provider_failed m")
        case True
        with assms c m e show ?thesis by (auto simp: submit_def accept_provider_error intro: failed)
      next
        case False
        obtain d where d: "call_of digest ?b turn signal images
            (Some (message_text m, take 1000 (message_of engine e))) = Inr d" by (rule call_of_ok)
        have r: "repair_turn digest engine complete ?b turn signal images c m e t0 t1 = (calls, r)"
          using assms c m e False by (simp add: submit_def accept_provider_error)
        show ?thesis
        proof (cases "complete 1 d")
          case (Inl e2)
          with r d m e False show ?thesis by (auto simp: repair_turn_def intro: rejected2)
        next
          case m2: (Inr m2)
          show ?thesis
          proof (cases "accept engine turn m2")
            case (Inr a)
            with r d m e m2 False show ?thesis by (auto simp: repair_turn_def intro: accepted2)
          next
            case e2: (Inl e2)
            show ?thesis
            proof (cases "provider_failed m2")
              case True
              with r d m e m2 e2 False show ?thesis
                by (intro failed2 [of c d m e m2 e2]) (auto simp: repair_turn_def accept_provider_error)
            next
              case f: False
              with r d m e m2 e2 False show ?thesis
                by (intro invalid [of c d m e m2 e2]) (auto simp: repair_turn_def accept_provider_error)
            qed
          qed
        qed
      qed
    qed
  qed
qed

lemma submit_output_ok:
  assumes "submit digest engine complete s turn signal images t0 t1 = (calls, Inr r)"
  shows "wf_output (re_output r) \<and> discloses (tr_disclosed turn) (re_output r)"
proof -
  have "\<not> ss_closed s" using assms by (auto simp: submit_def)
  with assms show ?thesis
  proof (cases rule: submit_cases)
    case (accepted c m a)
    with accept_Inr [of engine turn m "fst a" "snd a"] show ?thesis by (simp add: turn_result_of_def)
  next
    case (accepted2 c d m e m2 a)
    with accept_Inr [of engine turn m2 "fst a" "snd a"] show ?thesis by (simp add: turn_result_of_def)
  qed simp_all
qed

lemma repair_calls:
  assumes "call_ok b turn False call1"
    and "repair_turn digest engine complete b turn signal images call1 m e t0 t1 = (calls, r)"
  shows "list_all2 (call_ok b turn) (take (length calls) [False, True]) calls"
proof -
  obtain d where d: "call_of digest b turn signal images
      (Some (message_text m, take 1000 (message_of engine e))) = Inr d" by (rule call_of_ok)
  then have "call_ok b turn True d" by (auto dest: call_of_call_ok)
  with assms d show ?thesis by (auto simp: repair_turn_def split: sum.splits)
qed

lemma submit_calls:
  assumes "submit digest engine complete s turn signal images t0 t1 = (calls, r)"
  shows "list_all2 (call_ok (ss_binding s) turn) (take (length calls) [False, True]) calls"
proof (cases "ss_closed s")
  case True
  with assms show ?thesis by (simp add: submit_def)
next
  case False
  obtain c where c: "call_of digest (ss_binding s) turn signal images None = Inr c" by (rule call_of_ok)
  then have ok: "call_ok (ss_binding s) turn False c" by (auto dest: call_of_call_ok)
  with assms c False show ?thesis
    by (auto simp: submit_def split: sum.splits if_splits dest: repair_calls [OF ok])
qed

lemma session_ids_differ: "semanticProviderSessionId b p False \<noteq> semanticProviderSessionId b p True"
  by (simp add: semanticProviderSessionId_def)


definition sample_binding :: connection_binding where
  "sample_binding = \<lparr>cb_connectionId = ''connection_p'', cb_model = \<lparr>md_id = ''m'', md_api = ''x''\<rparr>,
     cb_sessionId = ''s'', cb_cacheRetention = ''long'', cb_cacheRead = Reported, cb_cacheWrite = Reported,
     cb_stableContext = None, cb_globalInstructions = None, cb_maxTokens = None, cb_reasoning = None\<rparr>"

definition sample_message :: "string \<Rightarrow> assistant_message" where
  "sample_message t = \<lparr>am_content = [TextContent t], am_provider = ''p'', am_model = ''m'', am_responseId = None,
     am_usage = \<lparr>us_input = 1, us_output = 2, us_cacheRead = 3, us_cacheWrite = 4\<rparr>,
     am_stopReason = StopStop, am_errorMessage = None\<rparr>"

definition sample_answer :: semantic_output where
  "sample_answer = IntentOutput (CompleteIntent ''done'' [\<lparr>cc_observationRef = ''obs_1'', cc_claim = ''ok''\<rparr>])"

text \<open>A provider whose first answer is no JSON and whose second is a completion.\<close>

definition sample_complete :: "nat \<Rightarrow> provider_call \<Rightarrow> assistant_message res" where
  "sample_complete n c = Inr (sample_message (if n = 0 then ''not json'' else stringify (enc_output sample_answer)))"

lemma sample_answer_ok: "wf_output sample_answer" "discloses (tr_disclosed sample_turn) sample_answer"
  by (simp_all add: sample_answer_def wf_claim_def valid_id_def startsWith_def id_suffix_def alnum_def
      less_eq_char_def sample_turn_def MAX_LIST_def)

text \<open>Printed JSON, with or without a superfluous delimiter and surrounded by white space.\<close>

lemma trim_around:
  assumes "list_all js_space u" and "list_all js_space w" and "t \<noteq> []" and "\<not> js_space (hd t)" and "\<not> js_space (last t)"
  shows "trim (u @ t @ w) = t"
proof -
  have "dropWhile js_space (u @ t @ w) = t @ w"
    using assms(1,3,4) by (cases t) (auto simp: list_all_iff dropWhile_append2)
  moreover have "dropWhile js_space (rev w @ rev t) = dropWhile js_space (rev t)"
    using assms(2) by (intro dropWhile_append2) (simp add: list_all_iff)
  moreover have "dropWhile js_space (rev t) = rev t"
    using assms(3,5) by (cases t rule: rev_cases) auto
  ultimately show ?thesis by (simp add: trim_def)
qed

lemma obj_ends: "\<exists>b. stringify (JObj kvs) = CHR ''{'' # b @ [CHR ''}'']"
  by simp

lemma parse_text_exact: "is_json v \<Longrightarrow> parse_text engine (stringify v) = Inr (v, NoNormalization)"
  by (simp add: parse_text_def JSON_parse_stringify)

lemma parse_extra_delimiter:
  assumes "is_json v" and "c \<in> {CHR ''}'', CHR '']''}"
  shows "parse_text engine (stringify v @ [c]) = Inr (v, TrailingDelimiter)"
proof -
  have "parse_value (Suc (length (stringify v @ [c]))) (stringify v @ [c]) = Some (v, [c])"
    using assms need_le_length(1) [OF assms(1)]
    by (intro parse_stringify(1)) (auto simp: no_digit_def is_digit_def)
  moreover have "\<not> json_space c" using assms(2) by (auto simp: json_space_def)
  ultimately have "JSON_parse (stringify v @ [c]) = Inl SyntaxError"
    by (simp add: JSON_parse_def del: parse_value.simps)
  with assms show ?thesis by (auto simp: parse_text_def JSON_parse_stringify)
qed

lemma accept_answer:
  assumes "wf_output out" and "discloses (tr_disclosed turn) out"
    and "\<not> provider_failed m" and "\<not> list_ex is_tool_call (am_content m)"
    and "list_all js_space u" and "list_all js_space w" and "extra \<in> {[], ''}'', '']''}"
    and "message_text m = u @ (stringify (enc_output out) @ extra) @ w"
  shows "accept engine turn m = Inr (out, if extra = [] then NoNormalization else TrailingDelimiter)"
proof -
  have j: "is_json (enc_output out)" by (rule enc_output_json [OF assms(1)])
  obtain kvs where kvs: "enc_output out = JObj kvs" by (cases out) auto
  then obtain b where b: "stringify (enc_output out) = CHR ''{'' # b @ [CHR ''}'']" using obj_ends by metis
  have "trim (message_text m) = stringify (enc_output out) @ extra"
    unfolding assms(8) using assms(5-7) by (intro trim_around) (auto simp: b js_space_def)
  moreover have "responseText m = Inr (message_text m)"
    using assms(3,4,8) b by (simp add: responseText_def)
  moreover have "parse_text engine (stringify (enc_output out) @ extra)
      = Inr (enc_output out, if extra = [] then NoNormalization else TrailingDelimiter)"
    using assms(7) parse_text_exact [OF j] parse_extra_delimiter [OF j] by auto
  ultimately have "parseResponse engine m = Inr \<lparr>pr_output = out, pr_text = stringify (enc_output out) @ extra,
      pr_normalization = (if extra = [] then NoNormalization else TrailingDelimiter)\<rparr>"
    by (simp add: parseResponse_def read_envelope_def parse_output_enc [OF assms(1)])
  moreover have "validateDisclosedReferences out turn = Inr out" using assms(2) by (simp add: validate_Inr)
  ultimately show ?thesis by (simp add: accept_def)
qed

text \<open>A correct answer is accepted. When the text of a completed message without tool calls is a
  printed well-formed output that names only disclosed identifiers, surrounded by any white space,
  the adapter returns that output; one superfluous closing delimiter is dropped and reported.\<close>

theorem adapter_accepts_answer:
  assumes "wf_output out" and "discloses (tr_disclosed turn) out"
    and "\<not> provider_failed m" and "\<not> list_ex is_tool_call (am_content m)"
    and "list_all js_space u" and "list_all js_space w" and "extra \<in> {[], ''}'', '']''}"
    and "message_text m = u @ (stringify (enc_output out) @ extra) @ w"
  shows "accept engine turn m = Inr (out, if extra = [] then NoNormalization else TrailingDelimiter)"
  using assms by (rule accept_answer)

theorem adapter_accepts_answer_witness:
  "accept (\<lambda>_. []) sample_turn (sample_message (stringify (enc_output sample_answer) @ ''}'' @ '' ''))
     = Inr (sample_answer, TrailingDelimiter)"
  using adapter_accepts_answer [OF sample_answer_ok, where u = "[]" and w = "'' ''" and extra = "''}''"
      and m = "sample_message (stringify (enc_output sample_answer) @ ''}'' @ '' '')" and engine = "\<lambda>_. []"]
  by (simp add: sample_message_def provider_failed_def is_tool_call_def message_text_def js_space_def)

lemma sample_first_rejected:
  "\<exists>e. accept engine sample_turn (sample_message ''not json'') = Inl e \<and> \<not> is_provider_error e"
proof -
  have "JSON_parse ''not json'' = Inl SyntaxError" by code_simp
  moreover have "trim ''not json'' = ''not json''" by code_simp
  ultimately show ?thesis
    by (simp add: accept_def parseResponse_def responseText_def sample_message_def provider_failed_def
        is_tool_call_def message_text_def parse_text_def is_provider_error_def)
qed

lemma sample_submit:
  "\<exists>calls r. submit sample_bytes engine sample_complete (open_session sample_binding) sample_turn 0 [] 5 9
     = (calls, Inr r) \<and> re_attempts r = 2"
proof -
  have a: "accept engine sample_turn (sample_message (stringify (enc_output sample_answer)))
      = Inr (sample_answer, NoNormalization)"
    using accept_answer [OF sample_answer_ok, where u = "[]" and w = "[]" and extra = "[]"
        and m = "sample_message (stringify (enc_output sample_answer))" and engine = engine]
    by (simp add: sample_message_def provider_failed_def is_tool_call_def message_text_def)
  obtain e where e: "accept engine sample_turn (sample_message ''not json'') = Inl e" "\<not> is_provider_error e"
    using sample_first_rejected by blast
  obtain c where c: "call_of sample_bytes sample_binding sample_turn 0 [] None = Inr c" by (rule call_of_ok)
  obtain d where d: "call_of sample_bytes sample_binding sample_turn 0 []
      (Some (message_text (sample_message ''not json''), take 1000 (message_of engine e))) = Inr d"
    by (rule call_of_ok)
  show ?thesis
    by (simp add: submit_def open_session_def c sample_complete_def e repair_turn_def d a turn_result_of_def)
qed


text \<open>Every failure of a turn is one of four. The session was closed and nothing was sent; the
  provider rejected the last request and its error is passed on; the provider reported a failure or
  an abort, and no repair follows; or the response was still invalid after the one repair. So an
  invalid response alone never fails a turn, and a provider failure is never repaired.\<close>

theorem adapter_failures:
  assumes "submit digest engine complete s turn signal images t0 t1 = (calls, Inl e)"
  shows "if ss_closed s then calls = [] \<and> e = PiAdapterError CLOSED ''Semantic model session is closed''
     else length calls \<in> {1, 2} \<and>
       (complete (length calls - 1) (last calls) = Inl e
        \<or> (\<exists>m t. complete (length calls - 1) (last calls) = Inr m \<and> provider_failed m
             \<and> e = PiAdapterError PROVIDER_ERROR t)
        \<or> (\<exists>m t. length calls = 2 \<and> complete 1 (last calls) = Inr m \<and> \<not> provider_failed m
             \<and> e = PiAdapterError INVALID_SEMANTIC_OUTPUT t))"
proof (cases "ss_closed s")
  case True
  with assms show ?thesis by (simp add: submit_def)
next
  case False
  with assms show ?thesis
  proof (cases rule: submit_cases)
    case (failed c m e')
    with False accept_Inl [of engine turn m e'] show ?thesis by auto
  next
    case (failed2 c d m e' m2 e2)
    with False accept_Inl [of engine turn m2 e2] show ?thesis by auto
  qed (use False in auto)
qed

theorem adapter_failures_witness:
  "\<exists>calls t. submit sample_bytes (\<lambda>_. []) (\<lambda>n c. Inr (sample_message ''not json''))
       (open_session sample_binding) sample_turn 0 [] 5 9
     = (calls, Inl (PiAdapterError INVALID_SEMANTIC_OUTPUT t)) \<and> length calls = 2"
proof -
  let ?p = "\<lambda>n c. Inr (sample_message ''not json'')"
  obtain calls r where s: "submit sample_bytes (\<lambda>_. []) ?p (open_session sample_binding) sample_turn 0 [] 5 9
      = (calls, r)" by fastforce
  obtain e where "r = Inl e"
    using s sample_first_rejected [of "\<lambda>_. []"]
    by (cases rule: submit_cases [OF s]) (auto simp: open_session_def)
  with s adapter_failures [of sample_bytes "\<lambda>_. []" ?p "open_session sample_binding" sample_turn 0 "[]" 5 9 calls e]
  show ?thesis by (auto simp: open_session_def sample_message_def provider_failed_def)
qed

end
