(* ===== verification/Checkpoint.thy ===== *)
theory Checkpoint
  imports ImagePayload RunStore Members
begin

text \<open>
  The durable checkpoint of a coding task: \<open>coding-runtime-contracts.ts\<close> (its type) and
  \<open>coding-runtime-checkpoint.ts\<close> (the parser that decides whether a stored checkpoint may be
  resumed). A checkpoint is text in the state database; the fields the resumed run reads are kept
  typed when the parser checks them and as JSON values when it does not.
\<close>

section \<open>Checkpoints\<close>

datatype checkpoint_phase =
    ProviderReady | ProviderSettled | FollowupReady | FollowupSettled | PatchApproved | PatchApplied

fun phase_name :: "checkpoint_phase \<Rightarrow> string" where
  "phase_name ProviderReady = ''provider-ready''"
| "phase_name ProviderSettled = ''provider-settled''"
| "phase_name FollowupReady = ''followup-ready''"
| "phase_name FollowupSettled = ''followup-settled''"
| "phase_name PatchApproved = ''patch-approved''"
| "phase_name PatchApplied = ''patch-applied''"

definition phases :: "checkpoint_phase list" where
  "phases = [ProviderReady, ProviderSettled, FollowupReady, FollowupSettled, PatchApproved, PatchApplied]"

record persisted_result =
  ps_output :: semantic_output
  ps_responseId :: "json option"
  ps_usage :: json

record durable_checkpoint =
  dk_phase :: checkpoint_phase
  dk_projectRoot :: string
  dk_objective :: string
  dk_images :: json
  dk_approve :: bool
  dk_provider :: string
  dk_model :: string
  dk_accountId :: json
  dk_sessionId :: string
  dk_requestId :: string
  dk_fingerprint :: string
  dk_snapshotSha256 :: string
  dk_resourceContextDigest :: "string option"
  dk_snapshotRevision :: json
  dk_documents :: json
  dk_generation :: int
  dk_result :: "persisted_result option"
  dk_finalResult :: "persisted_result option"
  dk_observationIds :: "string list option"

section \<open>The parser\<close>

definition truthy :: "json \<Rightarrow> bool" where
  "truthy v = (case v of JUndef \<Rightarrow> False | JNull \<Rightarrow> False | JBool b \<Rightarrow> b | JNum n \<Rightarrow> n \<noteq> 0 | JNonFinite \<Rightarrow> True
     | JStr s \<Rightarrow> s \<noteq> [] | JArr _ \<Rightarrow> True | JObj _ \<Rightarrow> True)"

text \<open>A property of any value but \<open>null\<close> and \<open>undefined\<close>; only objects have the names read here.\<close>

definition member :: "json \<Rightarrow> string \<Rightarrow> json" where
  "member v k = (case v of JObj kvs \<Rightarrow> get_prop kvs k | _ \<Rightarrow> JUndef)"

definition phase_of :: "json \<Rightarrow> checkpoint_phase option" where
  "phase_of v = (case v of JStr s \<Rightarrow> List.find (\<lambda>p. phase_name p = s) phases | _ \<Rightarrow> None)"

fun str_of :: "json \<Rightarrow> string option" where
  "str_of (JStr s) = Some s"
| "str_of v = None"

fun bool_of :: "json \<Rightarrow> bool option" where
  "bool_of (JBool b) = Some b"
| "bool_of v = None"

definition MAX_SAFE_INTEGER :: int where
  "MAX_SAFE_INTEGER = 9007199254740991"

definition safe_integer_of :: "json \<Rightarrow> int option" where
  "safe_integer_of v = (case v of JNum n \<Rightarrow> if \<bar>n\<bar> \<le> MAX_SAFE_INTEGER then Some n else None | _ \<Rightarrow> None)"

text \<open>The first test of the source: the shape of every required field.\<close>

definition checkpoint_fields :: "json \<Rightarrow> durable_checkpoint option" where
  "checkpoint_fields c =
     (if member c ''version'' \<noteq> JNum 1 then None
      else if \<not> (member c ''resourceContextDigest'' = JUndef \<or> str_of (member c ''resourceContextDigest'') \<noteq> None) then None
      else if \<not> (member c ''images'' = JUndef \<or> isImagePayloads (member c ''images'')) then None
      else case (phase_of (member c ''phase''), str_of (member c ''projectRoot''), str_of (member c ''objective''),
          bool_of (member c ''approve''), str_of (member c ''provider''), str_of (member c ''model'')) of
        (Some ph, Some root, Some obj, Some app, Some prov, Some mdl) \<Rightarrow>
          (case (str_of (member c ''sessionId''), str_of (member c ''requestId''), str_of (member c ''fingerprint''),
              str_of (member c ''snapshotSha256''), safe_integer_of (member c ''generation'')) of
             (Some sid, Some rid, Some fp, Some sha, Some gen) \<Rightarrow>
               Some \<lparr>dk_phase = ph, dk_projectRoot = root, dk_objective = obj, dk_images = member c ''images'',
                 dk_approve = app, dk_provider = prov, dk_model = mdl, dk_accountId = member c ''accountId'',
                 dk_sessionId = sid, dk_requestId = rid, dk_fingerprint = fp, dk_snapshotSha256 = sha,
                 dk_resourceContextDigest = str_of (member c ''resourceContextDigest''),
                 dk_snapshotRevision = member c ''snapshotRevision'', dk_documents = member c ''documents'',
                 dk_generation = gen, dk_result = None, dk_finalResult = None, dk_observationIds = None\<rparr>
           | _ \<Rightarrow> None)
      | _ \<Rightarrow> None)"

definition same_identity :: "durable_checkpoint \<Rightarrow> resume_checkpoint \<Rightarrow> bool" where
  "same_identity d c = (dk_sessionId d = rc_sessionId c \<and> dk_requestId d = rc_requestId c
     \<and> dk_fingerprint d = rc_fingerprint c \<and> dk_projectRoot d = rc_projectPath c \<and> dk_generation d = rc_generation c)"

fun strs_of :: "json list \<Rightarrow> string list option" where
  "strs_of [] = Some []"
| "strs_of (v # vs) =
     (case (str_of v, strs_of vs) of (Some s, Some ss) \<Rightarrow> if s = [] then None else Some (s # ss) | _ \<Rightarrow> None)"

text \<open>The observations, or the single one that older checkpoints name.\<close>

definition durable_observations :: "json \<Rightarrow> string list option res" where
  "durable_observations c =
     (case member c ''observationIds'' of
        JUndef \<Rightarrow> Inr (case str_of (member c ''observationId'') of
          Some s \<Rightarrow> if s = [] then None else Some [s] | None \<Rightarrow> None)
      | JArr vs \<Rightarrow>
          (case strs_of vs of
             Some ids \<Rightarrow> if ids = [] then Inl (Error ''Follow-up checkpoint has invalid durable observations'') else Inr (Some ids)
           | None \<Rightarrow> Inl (Error ''Follow-up checkpoint has invalid durable observations''))
      | _ \<Rightarrow> Inl (Error ''Follow-up checkpoint has invalid durable observations''))"

definition durable_result :: "json \<Rightarrow> persisted_result option res" where
  "durable_result v =
     (if \<not> truthy v then Inr None
      else bindR (parseSemanticOutput (member v ''output'')) (\<lambda>out.
        Inr (Some \<lparr>ps_output = out,
          ps_responseId = (if truthy (member v ''responseId'') then Some (member v ''responseId'') else None),
          ps_usage = member v ''usage''\<rparr>)))"

definition ready_phase :: "checkpoint_phase \<Rightarrow> bool" where
  "ready_phase p = (p = ProviderReady \<or> p = FollowupReady)"

definition outbox_allows :: "bool \<Rightarrow> checkpoint_phase \<Rightarrow> run_outbox \<Rightarrow> unit res" where
  "outbox_allows explicitRestart phase outbox =
     (if explicitRestart \<and> outbox \<noteq> OxIndeterminate
        then Inl (Error ''Explicit restart requires an indeterminate provider receipt'')
      else if \<not> explicitRestart \<and> ((ready_phase phase \<and> outbox \<noteq> OxQueued) \<or> (\<not> ready_phase phase \<and> outbox \<noteq> OxSettled))
        then Inl (Error (''Checkpoint provider state is '' @ outbox_name outbox @ ''; automatic replay is blocked''))
      else Inr ())"

text \<open>The evidence each phase needs, in the order of the tests.\<close>

definition patch_phase :: "checkpoint_phase \<Rightarrow> bool" where
  "patch_phase p = (p = PatchApproved \<or> p = PatchApplied)"

definition phase_evidence :: "durable_checkpoint \<Rightarrow> unit res" where
  "phase_evidence d =
     (if (dk_phase d = FollowupReady \<or> dk_phase d = FollowupSettled) \<and> (dk_result d = None \<or> dk_observationIds d = None)
        then Inl (Error ''Follow-up checkpoint is missing its durable observation'')
      else if dk_phase d = FollowupSettled \<and> dk_finalResult d = None
        then Inl (Error ''Settled follow-up checkpoint has no durable response'')
      else if patch_phase (dk_phase d) \<and> (dk_result d = None \<or> str_of (dk_snapshotRevision d) = None
          \<or> (case dk_documents d of JArr ds \<Rightarrow> ds = [] | _ \<Rightarrow> True))
        then Inl (Error ''Patch checkpoint is missing its durable project evidence'')
      else Inr ())"

definition parseDurableCodingTaskCheckpoint :: "resume_checkpoint \<Rightarrow> bool \<Rightarrow> durable_checkpoint res" where
  "parseDurableCodingTaskCheckpoint checkpoint explicitRestart =
     bindR (JSON_parse (rc_payload checkpoint)) (\<lambda>candidate.
     if candidate = JNull then Inl TypeError
     else case checkpoint_fields candidate of
       None \<Rightarrow> Inl (Error ''Durable coding checkpoint is invalid or unsupported'')
     | Some d \<Rightarrow>
         if \<not> same_identity d checkpoint
           then Inl (Error ''Durable coding checkpoint identity does not match the state database'')
         else
           bindR (durable_observations candidate) (\<lambda>obs.
           bindR (outbox_allows explicitRestart (dk_phase d) (rc_outboxState checkpoint)) (\<lambda>_.
           bindR (durable_result (member candidate ''result'')) (\<lambda>result.
           if dk_phase d = ProviderSettled \<and> result = None
             then Inl (Error ''Settled provider checkpoint has no durable response'')
           else
             bindR (durable_result (member candidate ''finalResult'')) (\<lambda>finalResult.
             let d' = d\<lparr>dk_result := result, dk_finalResult := finalResult, dk_observationIds := obs\<rparr> in
             bindR (phase_evidence d') (\<lambda>_. Inr d'))))))"

section \<open>What the runtime writes\<close>

text \<open>
  The checkpoints of \<open>coding-runtime.ts\<close>, \<open>coding-runtime-semantic.ts\<close> and
  \<open>coding-runtime-patch-flow.ts\<close>: the members every checkpoint shares (\<open>durableBase\<close>), then the phase
  and what the phase has produced. A present optional value is one that is truthy.
\<close>

record durable_base =
  ba_projectRoot :: string
  ba_objective :: string
  ba_images :: "tui_image list"
  ba_approve :: bool
  ba_provider :: string
  ba_model :: string
  ba_accountId :: "string option"
  ba_sessionId :: string
  ba_requestId :: string
  ba_fingerprint :: string
  ba_snapshotSha256 :: string
  ba_resourceContextDigest :: string
  ba_snapshotRevision :: string
  ba_documents :: "json list"

definition base_members :: "durable_base \<Rightarrow> int \<Rightarrow> (string \<times> json) list" where
  "base_members b generation =
     [(''version'', JNum 1), (''projectRoot'', JStr (ba_projectRoot b)), (''objective'', JStr (ba_objective b))]
     @ opt_member (ba_images b \<noteq> []) ''images'' (JArr (map enc_image (ba_images b)))
     @ [(''approve'', JBool (ba_approve b)), (''provider'', JStr (ba_provider b)), (''model'', JStr (ba_model b))]
     @ opt_text ''accountId'' (ba_accountId b)
     @ [(''sessionId'', JStr (ba_sessionId b)), (''requestId'', JStr (ba_requestId b)),
        (''fingerprint'', JStr (ba_fingerprint b)), (''snapshotSha256'', JStr (ba_snapshotSha256 b)),
        (''resourceContextDigest'', JStr (ba_resourceContextDigest b)),
        (''snapshotRevision'', JStr (ba_snapshotRevision b)), (''documents'', JArr (ba_documents b)),
        (''generation'', JNum generation)]"

definition result_json :: "persisted_result \<Rightarrow> json" where
  "result_json p =
     JObj ([(''output'', enc_output (ps_output p))]
       @ (case ps_responseId p of None \<Rightarrow> [] | Some r \<Rightarrow> [(''responseId'', r)])
       @ [(''usage'', ps_usage p)])"

definition opt_result :: "string \<Rightarrow> persisted_result option \<Rightarrow> (string \<times> json) list" where
  "opt_result k r = (case r of None \<Rightarrow> [] | Some p \<Rightarrow> [(k, result_json p)])"

definition opt_ids :: "string \<Rightarrow> string list option \<Rightarrow> (string \<times> json) list" where
  "opt_ids k ids = (case ids of None \<Rightarrow> [] | Some xs \<Rightarrow> [(k, jstrs xs)])"

definition checkpoint_json :: "durable_base \<Rightarrow> int \<Rightarrow> checkpoint_phase \<Rightarrow> persisted_result option
    \<Rightarrow> persisted_result option \<Rightarrow> string list option \<Rightarrow> string option \<Rightarrow> json" where
  "checkpoint_json b generation phase result finalResult observationIds legacyId =
     JObj (base_members b generation @ [(''phase'', JStr (phase_name phase))]
       @ opt_result ''result'' result @ opt_result ''finalResult'' finalResult
       @ opt_ids ''observationIds'' observationIds
       @ opt_text ''observationId'' legacyId)"

section \<open>What is written is resumed\<close>

definition wf_persisted :: "persisted_result \<Rightarrow> bool" where
  "wf_persisted p = (wf_output (ps_output p) \<and> is_json (ps_usage p)
     \<and> (case ps_responseId p of None \<Rightarrow> True | Some r \<Rightarrow> truthy r \<and> is_json r))"

definition wf_base :: "durable_base \<Rightarrow> bool" where
  "wf_base b = (length (ba_images b) \<le> MAX_TUI_IMAGES
     \<and> list_all (\<lambda>i. parseImage (enc_image i) = Inr i) (ba_images b) \<and> list_all is_json (ba_documents b))"

lemma truthy_result: "truthy (result_json p)"
  by (simp add: truthy_def result_json_def)

lemma result_json_is_json: "wf_persisted p \<Longrightarrow> is_json (result_json p)"
  by (auto simp: result_json_def wf_persisted_def enc_output_json split: option.splits)

lemma durable_result_json: "wf_persisted p \<Longrightarrow> durable_result (result_json p) = Inr (Some p)"
  by (cases "ps_responseId p")
    (auto simp: durable_result_def truthy_result result_json_def member_def member_simps wf_persisted_def
      parse_output_enc truthy_def)

lemma opt_result_keys: "subseq (map fst (opt_result k r)) [k]"
  by (simp add: opt_result_def split: option.split)

lemma opt_result_json: "(\<And>p. r = Some p \<Longrightarrow> wf_persisted p) \<Longrightarrow> is_json_members (opt_result k r)"
  by (auto simp: opt_result_def result_json_is_json split: option.split)

lemma get_prop_opt_result [member_simps]:
  "get_prop (opt_result k r @ kvs) k' =
     (if k = k' \<and> r \<noteq> None then result_json (the r) else get_prop kvs k')"
  by (auto simp: get_prop_def opt_result_def split: option.split)

lemma get_prop_opt_ids [member_simps]:
  "get_prop (opt_ids k r @ kvs) k' = (if k = k' \<and> r \<noteq> None then jstrs (the r) else get_prop kvs k')"
  by (auto simp: get_prop_def opt_ids_def split: option.split)

definition base_keys :: "string list" where
  "base_keys = [''version'', ''projectRoot'', ''objective'', ''images'', ''approve'', ''provider'', ''model'',
     ''accountId'', ''sessionId'', ''requestId'', ''fingerprint'', ''snapshotSha256'', ''resourceContextDigest'',
     ''snapshotRevision'', ''documents'', ''generation'']"

lemma base_members_keys: "subseq (map fst (base_members b g)) base_keys"
proof -
  have "subseq (map fst (base_members b g))
      ([''version'', ''projectRoot'', ''objective''] @ [''images''] @ [''approve'', ''provider'', ''model''] @ [''accountId'']
       @ [''sessionId'', ''requestId'', ''fingerprint'', ''snapshotSha256'', ''resourceContextDigest'',
          ''snapshotRevision'', ''documents'', ''generation''])"
    unfolding base_members_def map_append
    by (intro list_emb_append_mono opt_member_keys opt_text_keys) simp_all
  then show ?thesis by (simp add: base_keys_def)
qed

lemma enc_image_json: "is_json (enc_image i)"
  by (simp add: enc_image_def)

lemma base_members_json: "wf_base b \<Longrightarrow> is_json_members (base_members b g)"
  unfolding base_members_def
  by (simp add: is_json_members_append opt_text_json opt_member_json is_json_list_iff enc_image_json
      wf_base_def list_all_iff)

lemma checkpoint_json_is_json:
  assumes "wf_base b" and "\<And>p. r = Some p \<Longrightarrow> wf_persisted p" and "\<And>p. f = Some p \<Longrightarrow> wf_persisted p"
  shows "is_json (checkpoint_json b g ph r f obs legacyId)"
proof -
  have "subseq (map fst (base_members b g @ [(''phase'', JStr (phase_name ph))]
       @ opt_result ''result'' r @ opt_result ''finalResult'' f @ opt_ids ''observationIds'' obs
       @ opt_text ''observationId'' legacyId))
      (base_keys @ [''phase''] @ [''result''] @ [''finalResult''] @ [''observationIds''] @ [''observationId''])"
    unfolding map_append
    by (intro list_emb_append_mono base_members_keys opt_result_keys opt_text_keys)
       (simp_all add: opt_ids_def split: option.split)
  moreover have "distinct (base_keys @ [''phase''] @ [''result''] @ [''finalResult''] @ [''observationIds''] @ [''observationId''])"
    by (simp add: base_keys_def)
  moreover have "is_json_members (base_members b g @ [(''phase'', JStr (phase_name ph))]
       @ opt_result ''result'' r @ opt_result ''finalResult'' f @ opt_ids ''observationIds'' obs
       @ opt_text ''observationId'' legacyId)"
    using assms
    by (simp add: is_json_members_append base_members_json opt_result_json opt_text_json opt_ids_def
        is_json_list_iff split: option.split)
  ultimately show ?thesis unfolding checkpoint_json_def by (rule is_json_obj_subseq)
qed

lemma checkpoint_members:
  fixes b g ph r f obs legacyId
  defines "c \<equiv> checkpoint_json b g ph r f obs legacyId"
  shows "member c ''version'' = JNum 1" "member c ''projectRoot'' = JStr (ba_projectRoot b)"
    "member c ''objective'' = JStr (ba_objective b)"
    "member c ''images'' = (if ba_images b = [] then JUndef else JArr (map enc_image (ba_images b)))"
    "member c ''approve'' = JBool (ba_approve b)" "member c ''provider'' = JStr (ba_provider b)"
    "member c ''model'' = JStr (ba_model b)" "member c ''sessionId'' = JStr (ba_sessionId b)"
    "member c ''requestId'' = JStr (ba_requestId b)" "member c ''fingerprint'' = JStr (ba_fingerprint b)"
    "member c ''snapshotSha256'' = JStr (ba_snapshotSha256 b)"
    "member c ''resourceContextDigest'' = JStr (ba_resourceContextDigest b)"
    "member c ''snapshotRevision'' = JStr (ba_snapshotRevision b)" "member c ''documents'' = JArr (ba_documents b)"
    "member c ''generation'' = JNum g" "member c ''phase'' = JStr (phase_name ph)"
    "member c ''result'' = (case r of None \<Rightarrow> JUndef | Some p \<Rightarrow> result_json p)"
    "member c ''finalResult'' = (case f of None \<Rightarrow> JUndef | Some p \<Rightarrow> result_json p)"
    "member c ''observationIds'' = (case obs of None \<Rightarrow> JUndef | Some ids \<Rightarrow> jstrs ids)"
    "member c ''observationId'' = (if legacyId \<noteq> None \<and> legacyId \<noteq> Some [] then JStr (the legacyId) else JUndef)"
  unfolding c_def checkpoint_json_def member_def json.case base_members_def append_assoc
  by (simp_all add: member_simps split: option.split)

lemma phase_of_name: "phase_of (JStr (phase_name ph)) = Some ph"
  by (cases ph) (simp_all add: phase_of_def phases_def)

lemma strs_of_strs: "list_all (\<lambda>s. s \<noteq> []) ids \<Longrightarrow> strs_of (map JStr ids) = Some ids"
  by (induction ids) auto

text \<open>What the run has to have produced when it writes a checkpoint of a phase.\<close>

definition phase_ready :: "checkpoint_phase \<Rightarrow> persisted_result option \<Rightarrow> persisted_result option \<Rightarrow> string list option
    \<Rightarrow> json list \<Rightarrow> bool" where
  "phase_ready ph r f obs documents =
     ((ph \<noteq> ProviderReady \<longrightarrow> r \<noteq> None) \<and> (ph \<in> {FollowupReady, FollowupSettled} \<longrightarrow> obs \<noteq> None)
      \<and> (ph = FollowupSettled \<longrightarrow> f \<noteq> None) \<and> (patch_phase ph \<longrightarrow> documents \<noteq> []))"

definition resume_row :: "durable_base \<Rightarrow> int \<Rightarrow> string \<Rightarrow> run_outbox \<Rightarrow> string \<Rightarrow> int \<Rightarrow> resume_checkpoint" where
  "resume_row b g payload outbox requestPayload updatedAt =
     \<lparr>rc_sessionId = ba_sessionId b, rc_projectPath = ba_projectRoot b, rc_payload = payload,
      rc_requestId = ba_requestId b, rc_requestPayload = requestPayload, rc_fingerprint = ba_fingerprint b,
      rc_generation = g, rc_outboxState = outbox, rc_updatedAt = updatedAt\<rparr>"

lemma checkpoint_fields_json:
  assumes "wf_base b" and "\<bar>g\<bar> \<le> MAX_SAFE_INTEGER"
  shows "checkpoint_fields (checkpoint_json b g ph r f obs legacyId) =
     Some \<lparr>dk_phase = ph, dk_projectRoot = ba_projectRoot b, dk_objective = ba_objective b,
       dk_images = (if ba_images b = [] then JUndef else JArr (map enc_image (ba_images b))),
       dk_approve = ba_approve b, dk_provider = ba_provider b, dk_model = ba_model b,
       dk_accountId = member (checkpoint_json b g ph r f obs legacyId) ''accountId'',
       dk_sessionId = ba_sessionId b, dk_requestId = ba_requestId b, dk_fingerprint = ba_fingerprint b,
       dk_snapshotSha256 = ba_snapshotSha256 b, dk_resourceContextDigest = Some (ba_resourceContextDigest b),
       dk_snapshotRevision = JStr (ba_snapshotRevision b), dk_documents = JArr (ba_documents b),
       dk_generation = g, dk_result = None, dk_finalResult = None, dk_observationIds = None\<rparr>"
proof -
  have "isImagePayloads (JArr (map enc_image (ba_images b)))"
    using assms(1) by (simp add: wf_base_def isImagePayloads_def parseImagePayloads_def is_ok_iff list_all_iff mapR_map_Inr)
  then show ?thesis
    using assms(2) by (simp add: checkpoint_fields_def checkpoint_members phase_of_name safe_integer_of_def)
qed

lemma written_resumes:
  assumes "wf_base b" and "\<bar>g\<bar> \<le> MAX_SAFE_INTEGER" and "phase_ready ph r f obs (ba_documents b)"
    and "\<forall>p. r = Some p \<or> f = Some p \<longrightarrow> wf_persisted p"
    and "\<forall>ids. obs = Some ids \<longrightarrow> ids \<noteq> [] \<and> list_all (\<lambda>s. s \<noteq> []) ids" and "obs = None \<or> legacyId = None"
    and "outbox = (if ready_phase ph then OxQueued else OxSettled)"
  shows "\<exists>d. parseDurableCodingTaskCheckpoint
       (resume_row b g (stringify (checkpoint_json b g ph r f obs legacyId)) outbox requestPayload updatedAt) False = Inr d
     \<and> dk_phase d = ph \<and> dk_generation d = g \<and> dk_result d = r \<and> dk_finalResult d = f
     \<and> dk_observationIds d = (case legacyId of None \<Rightarrow> obs | Some i \<Rightarrow> if i = [] then obs else Some [i])
     \<and> dk_documents d = JArr (ba_documents b) \<and> dk_snapshotRevision d = JStr (ba_snapshotRevision b)
     \<and> dk_projectRoot d = ba_projectRoot b \<and> dk_objective d = ba_objective b"
proof -
  let ?c = "checkpoint_json b g ph r f obs legacyId"
  let ?row = "resume_row b g (stringify ?c) outbox requestPayload updatedAt"
  have json: "JSON_parse (stringify ?c) = Inr ?c"
    using assms(1,4) by (intro JSON_parse_stringify checkpoint_json_is_json) auto
  have obs: "durable_observations ?c = Inr (case legacyId of None \<Rightarrow> obs | Some i \<Rightarrow> if i = [] then obs else Some [i])"
    using assms(5,6)
    by (cases obs; cases legacyId) (auto simp: durable_observations_def checkpoint_members strs_of_strs)
  have res: "durable_result (member ?c ''result'') = Inr r" "durable_result (member ?c ''finalResult'') = Inr f"
    using assms(4)
    by (cases r; cases f; simp add: checkpoint_members durable_result_json durable_result_def [of JUndef] truthy_def)+
  have out: "outbox_allows False ph (rc_outboxState ?row) = Inr ()"
    using assms(7) by (simp add: outbox_allows_def resume_row_def)
  have nn: "?c \<noteq> JNull" by (simp add: checkpoint_json_def)
  let ?o = "case legacyId of None \<Rightarrow> obs | Some i \<Rightarrow> if i = [] then obs else Some [i]"
  obtain d0 where d0: "checkpoint_fields ?c = Some d0" "dk_phase d0 = ph" "dk_generation d0 = g"
      "dk_documents d0 = JArr (ba_documents b)" "dk_snapshotRevision d0 = JStr (ba_snapshotRevision b)"
      "dk_projectRoot d0 = ba_projectRoot b" "dk_objective d0 = ba_objective b" "same_identity d0 ?row"
    using checkpoint_fields_json [OF assms(1,2), of ph r f obs legacyId]
    by (simp add: same_identity_def resume_row_def)
  let ?d = "d0\<lparr>dk_result := r, dk_finalResult := f, dk_observationIds := ?o\<rparr>"
  have "?o \<noteq> None" if "obs \<noteq> None" using that assms(6) by (auto split: option.split)
  then have ev: "phase_evidence ?d = Inr ()" using assms(3) d0
    by (auto simp: phase_evidence_def phase_ready_def patch_phase_def)
  have "\<not> (ph = ProviderSettled \<and> r = None)" using assms(3) by (auto simp: phase_ready_def)
  then have "parseDurableCodingTaskCheckpoint ?row False = Inr ?d"
    unfolding parseDurableCodingTaskCheckpoint_def
    using json nn d0 obs out res ev by (simp add: resume_row_def Let_def)
  with d0 show ?thesis by (intro exI [of _ ?d]) simp
qed

text \<open>A checkpoint the runtime wrote is resumed as it was written. Parsing the stored text of a
  checkpoint, with the identity it was stored under and the outbox state its phase leaves behind
  (queued while a request is to be sent, settled otherwise), succeeds and returns the phase, the
  generation, the results, the observations and the project evidence that were written.\<close>

theorem written_checkpoint_resumes:
  assumes "wf_base b" and "\<bar>g\<bar> \<le> MAX_SAFE_INTEGER" and "phase_ready ph r f obs (ba_documents b)"
    and "\<forall>p. r = Some p \<or> f = Some p \<longrightarrow> wf_persisted p"
    and "\<forall>ids. obs = Some ids \<longrightarrow> ids \<noteq> [] \<and> list_all (\<lambda>s. s \<noteq> []) ids" and "obs = None \<or> legacyId = None"
    and "outbox = (if ready_phase ph then OxQueued else OxSettled)"
  shows "\<exists>d. parseDurableCodingTaskCheckpoint
       (resume_row b g (stringify (checkpoint_json b g ph r f obs legacyId)) outbox requestPayload updatedAt) False = Inr d
     \<and> dk_phase d = ph \<and> dk_generation d = g \<and> dk_result d = r \<and> dk_finalResult d = f
     \<and> dk_observationIds d = (case legacyId of None \<Rightarrow> obs | Some i \<Rightarrow> if i = [] then obs else Some [i])
     \<and> dk_documents d = JArr (ba_documents b) \<and> dk_snapshotRevision d = JStr (ba_snapshotRevision b)
     \<and> dk_projectRoot d = ba_projectRoot b \<and> dk_objective d = ba_objective b"
  using assms by (rule written_resumes)

definition sample_base :: durable_base where
  "sample_base = \<lparr>ba_projectRoot = ''/p'', ba_objective = ''fix'', ba_images = [], ba_approve = False, ba_provider = ''a'',
     ba_model = ''m'', ba_accountId = None, ba_sessionId = ''s'', ba_requestId = ''r'', ba_fingerprint = ''f'',
     ba_snapshotSha256 = ''h'', ba_resourceContextDigest = ''d'', ba_snapshotRevision = ''v'', ba_documents = [JNull]\<rparr>"

definition sample_result :: persisted_result where
  "sample_result = \<lparr>ps_output = IntentOutput (ClarifyIntent ''q'' ''r''), ps_responseId = Some (JStr ''id''), ps_usage = JObj []\<rparr>"

lemma sample_base_wf: "wf_base sample_base" "wf_persisted sample_result"
  by (simp_all add: wf_base_def sample_base_def MAX_TUI_IMAGES_def wf_persisted_def sample_result_def truthy_def)

theorem written_checkpoint_resumes_witness:
  "\<exists>d. parseDurableCodingTaskCheckpoint (resume_row sample_base 2
       (stringify (checkpoint_json sample_base 2 FollowupReady (Some sample_result) None (Some [''obs_1'']) None))
       OxQueued [] 7) False = Inr d \<and> dk_observationIds d = Some [''obs_1''] \<and> dk_result d = Some sample_result"
  using written_checkpoint_resumes [of sample_base 2 FollowupReady "Some sample_result" None "Some [''obs_1'']" None OxQueued "[]" 7]
    sample_base_wf
  by (auto simp: MAX_SAFE_INTEGER_def phase_ready_def patch_phase_def ready_phase_def)

lemma durable_result_Inr: "durable_result v = Inr r \<Longrightarrow> r = Some p \<Longrightarrow> wf_output (ps_output p)"
  by (auto simp: durable_result_def res_simps parse_output_wf split: if_splits)

lemma outbox_allows_Inr:
  "outbox_allows restart ph ox = Inr u \<Longrightarrow>
     (if restart then ox = OxIndeterminate else ox = (if ready_phase ph then OxQueued else OxSettled))"
  by (auto simp: outbox_allows_def split: if_splits)



end
