(* ===== verification/SemanticLoop.thy ===== *)
theory SemanticLoop
  imports Adapter Checkpoint Patch Effects
begin

text \<open>
  The semantic loop of a coding task: \<open>coding-runtime-semantic.ts\<close> (\<open>runSemanticLoop\<close>) with the
  parts of \<open>coding-runtime-provider.ts\<close> and \<open>coding-runtime-evidence.ts\<close> it calls. It composes the
  adapter, the compiler, the observations and the durable run store. The loop is written over an
  explicit state: the run database, and a log with one entry per provider turn that holds the
  database at the start of the turn and the requests that were sent. What the loop does not control
  is its environment: the provider, the abort signal at each test, the effect journal, the race
  with the turn's time limit, the search capabilities, SHA-256 and the clock. Events for the
  observer are left out.
\<close>

section \<open>Steps with a state\<close>

record loop_state =
  ls_db :: run_db
  ls_turns :: "(run_db \<times> provider_call list) list"

type_synonym 'a loop = "(loop_state, 'a) act"

definition db_step :: "(run_db \<Rightarrow> run_db res) \<Rightarrow> unit loop" where
  "db_step f s = (case f (ls_db s) of Inl e \<Rightarrow> (s, Inl e) | Inr db \<Rightarrow> (s\<lparr>ls_db := db\<rparr>, Inr ()))"

record loop_env =
  en_digest :: "string \<Rightarrow> nat list"
  en_engine :: "js_error \<Rightarrow> string"
  en_complete :: "nat \<Rightarrow> nat \<Rightarrow> provider_call \<Rightarrow> assistant_message res"
  en_aborted :: "nat \<Rightarrow> nat \<Rightarrow> js_error option"
  en_boundary :: "nat \<Rightarrow> unit res"
  en_timeout :: "nat \<Rightarrow> js_error option"
  en_now :: int

record loop_options =
  lo_model :: provider_model
  lo_stableContext :: string
  lo_globalInstructions :: "string option"
  lo_providerSessionId :: string
  lo_images :: "image_content list"
  lo_objective :: string
  lo_documents :: "project_document list"
  lo_projectRoot :: string
  lo_projectId :: string
  lo_snapshotRevision :: string
  lo_recovered :: "durable_checkpoint option"
  lo_base :: durable_base
  lo_generation :: int
  lo_sessionId :: string
  lo_requestId :: string

record loop_result =
  lr_decision :: recipe_decision
  lr_first :: persisted_result
  lr_finalResult :: persisted_result
  lr_usage :: json
  lr_observationId :: "string option"
  lr_checkpointGeneration :: int

section \<open>Reading evidence\<close>

record read_outcome =
  ro_status :: outcome_status
  ro_summary :: string
  ro_matchCount :: int
  ro_outputHashInput :: string

definition digest_text :: "(string \<Rightarrow> nat list) \<Rightarrow> string \<Rightarrow> string" where
  "digest_text digest t = hex_text (digest t)"

text \<open>
  The disclosed documents are read here; every other capability goes to the executor of
  \<open>capability-executor.ts\<close>, which searches the project's files: the parameter \<open>search\<close>.
\<close>

definition document_of :: "project_document list \<Rightarrow> string \<Rightarrow> project_document option" where
  "document_of ds i = map_of (rev (map (\<lambda>d. (dc_id d, d)) ds)) i"

definition strings_in :: "json \<Rightarrow> string list" where
  "strings_in v = (case v of JArr vs \<Rightarrow> List.map_filter str_of vs | _ \<Rightarrow> [])"

definition executeTaskReadCapability :: "(capability_invocation \<Rightarrow> read_outcome) \<Rightarrow> project_document list
    \<Rightarrow> capability_invocation \<Rightarrow> read_outcome" where
  "executeTaskReadCapability search documents i =
     (if iv_capability i \<noteq> ReadRanges then search i
      else if \<not> (case iv_policy i of Allow _ \<Rightarrow> True | _ \<Rightarrow> False)
        then \<lparr>ro_status = FailedOutcome, ro_summary = ''readRanges was denied'', ro_matchCount = 0, ro_outputHashInput = []\<rparr>
      else
        let selected = filter (\<lambda>d. document_of documents d \<noteq> None) (strings_in (member (iv_input i) ''documentIds'')) in
        \<lparr>ro_status = (if selected \<noteq> [] then Succeeded else FailedOutcome),
         ro_summary = (if selected \<noteq> [] then ''Read '' @ nat_str (length selected) @ '' disclosed documents''
                       else ''No disclosed documents matched''),
         ro_matchCount = int (length selected),
         ro_outputHashInput = join [CHR 0x0A]
           (map (\<lambda>d. case document_of documents d of None \<Rightarrow> [] | Some x \<Rightarrow> dc_sha256 x) selected)\<rparr>)"

definition executeReadPlanInvocations :: "(string \<Rightarrow> nat list) \<Rightarrow> (capability_invocation \<Rightarrow> read_outcome)
    \<Rightarrow> project_document list \<Rightarrow> capability_invocation list \<Rightarrow> observation list res" where
  "executeReadPlanInvocations digest search documents =
     mapR (\<lambda>i. let r = executeTaskReadCapability search documents i in
       normalizeObservation digest i
         \<lparr>oc_status = ro_status r, oc_summary = ro_summary r,
          oc_facts = JObj [(''matchCount'', JNum (ro_matchCount r)),
            (''outputSha256'', JStr (digest_text digest (ro_outputHashInput r)))],
          oc_artifactRefs = []\<rparr>)"

definition observation_json :: "observation \<Rightarrow> json" where
  "observation_json x =
     JObj [(''observationId'', JStr (ob_observationId x)), (''invocationId'', JStr (ob_invocationId x)),
       (''status'', JStr (status_name (ob_status x))), (''summary'', JStr (ob_summary x)),
       (''facts'', ob_facts x), (''artifactRefs'', jstrs (ob_artifactRefs x)),
       (''projectRevision'', JStr (ob_projectRevision x))]"

section \<open>Provider turns\<close>

fun measured_json :: "provider_number \<Rightarrow> json" where
  "measured_json (Measured n) = JNum n"
| "measured_json _ = JNull"

definition semanticUsage :: "turn_usage \<Rightarrow> json" where
  "semanticUsage u =
     JObj [(''input'', measured_json (tu_input u)), (''output'', measured_json (tu_output u)),
       (''cacheRead'', measured_json (tu_cacheRead u)), (''cacheWrite'', measured_json (tu_cacheWrite u))]"

definition semanticOperationTurnIds :: "(string \<Rightarrow> nat list) \<Rightarrow> string \<Rightarrow> string \<Rightarrow> string \<Rightarrow> string \<times> string" where
  "semanticOperationTurnIds digest projectRoot objective revision =
     (let operation = digest_text digest (projectRoot @ [CHR 0x00] @ objective @ [CHR 0x00] @ revision) in
      (''turn_'' @ take 32 operation, ''turn_'' @ take 32 (digest_text digest (operation @ [CHR 0x00] @ ''followup''))))"

definition loop_binding :: "loop_options \<Rightarrow> connection_binding" where
  "loop_binding opts =
     \<lparr>cb_connectionId = ''connection_'' @ ba_provider (lo_base opts), cb_model = lo_model opts,
      cb_sessionId = lo_providerSessionId opts, cb_cacheRetention = ''long'', cb_cacheRead = Reported, cb_cacheWrite = Reported,
      cb_stableContext = Some (lo_stableContext opts),
      cb_globalInstructions = (if lo_globalInstructions opts = Some [] then None else lo_globalInstructions opts),
      cb_maxTokens = Some 2048, cb_reasoning = None\<rparr>"

definition request_json :: "loop_options \<Rightarrow> string \<Rightarrow> string \<Rightarrow> string list \<Rightarrow> json" where
  "request_json opts mode objective observationIds =
     JObj [(''protocolVersion'', JNum 2), (''mode'', JStr mode), (''objective'', JStr objective),
       (''disclosed'', JObj [(''selectionIds'', JArr []), (''documentIds'', jstrs (map dc_id (lo_documents opts))),
          (''observationIds'', jstrs observationIds)])]"

text \<open>
  \<open>runProviderTurn\<close> around \<open>submit\<close>: nothing is sent when the signal is aborted already or the
  request is invalid; otherwise the turn races with the abort and the time limit.
\<close>

definition run_turn :: "loop_env \<Rightarrow> loop_options \<Rightarrow> nat \<Rightarrow> json \<Rightarrow> image_content list \<Rightarrow> turn_result loop" where
  "run_turn env opts n request images s =
     (case en_aborted env n 2 of
        Some e \<Rightarrow> (s, Inl e)
      | None \<Rightarrow>
          (case parseSemanticTurnRequest request of
             Inl e \<Rightarrow> (s, Inl e)
           | Inr turn \<Rightarrow>
               (case submit (en_digest env) (en_engine env) (en_complete env n) (open_session (loop_binding opts)) turn n images
                   (en_now env) (en_now env) of
                  (calls, r) \<Rightarrow>
                    (s\<lparr>ls_turns := ls_turns s @ [(ls_db s, calls)]\<rparr>,
                     case en_timeout env n of Some e \<Rightarrow> Inl e | None \<Rightarrow> r))))"

definition throwIfAborted :: "loop_env \<Rightarrow> nat \<Rightarrow> nat \<Rightarrow> unit loop" where
  "throwIfAborted env n k = liftL (case en_aborted env n k of Some e \<Rightarrow> Inl e | None \<Rightarrow> Inr ())"

definition persisted_of :: "turn_result \<Rightarrow> persisted_result" where
  "persisted_of r =
     \<lparr>ps_output = re_output r,
      ps_responseId = (case re_responseId r of None \<Rightarrow> None | Some i \<Rightarrow> if i = [] then None else Some (JStr i)),
      ps_usage = semanticUsage (re_usage r)\<rparr>"

text \<open>One turn: the effect is journalled and the outbox marked before anything is sent, and the
  answer is settled together with its checkpoint.\<close>

definition dispatch_turn :: "loop_env \<Rightarrow> loop_options \<Rightarrow> nat \<Rightarrow> int \<Rightarrow> json \<Rightarrow> image_content list
    \<Rightarrow> (persisted_result \<Rightarrow> json) \<Rightarrow> persisted_result loop" where
  "dispatch_turn env opts n generation request images checkpoint =
     bindL (throwIfAborted env n 0) (\<lambda>_.
     bindL (liftL (en_boundary env n)) (\<lambda>_.
     bindL (throwIfAborted env n 1) (\<lambda>_.
     bindL (db_step (\<lambda>db. markDispatching db (lo_requestId opts) generation (en_now env))) (\<lambda>_.
     bindL (run_turn env opts n request images) (\<lambda>live.
     let p = persisted_of live in
     bindL (db_step (\<lambda>db. settleAndCheckpoint db (lo_requestId opts) (lo_sessionId opts) generation
         (re_responseId live) (stringify (checkpoint p)) (en_now env))) (\<lambda>_.
     liftL (Inr p)))))))"

section \<open>The loop\<close>

definition loop_context :: "loop_options \<Rightarrow> string \<Rightarrow> string list \<Rightarrow> compile_context" where
  "loop_context opts turnId observations =
     \<lparr>cx_projectId = lo_projectId opts, cx_turnId = turnId, cx_projectRevision = lo_snapshotRevision opts,
      cx_observationDigests = observations, cx_catalogVersion = None, cx_policyVersion = None\<rparr>"

definition compile_loop :: "loop_env \<Rightarrow> loop_options \<Rightarrow> string \<Rightarrow> string list \<Rightarrow> persisted_result \<Rightarrow> recipe_decision res" where
  "compile_loop env opts turnId observations p =
     compileSemanticOutput (en_digest env) (enc_output (ps_output p)) (loop_context opts turnId observations) WriteApproval"

text \<open>A resumed run past its first answer takes it from the checkpoint.\<close>

definition recovered_first :: "loop_options \<Rightarrow> persisted_result res option" where
  "recovered_first opts =
     (case lo_recovered opts of
        None \<Rightarrow> None
      | Some d \<Rightarrow>
          if dk_phase d = ProviderReady then None
          else Some (case dk_result d of None \<Rightarrow> Inl TypeError | Some p \<Rightarrow> Inr p))"

definition first_turn :: "loop_env \<Rightarrow> loop_options \<Rightarrow> persisted_result loop" where
  "first_turn env opts =
     (case recovered_first opts of
        Some r \<Rightarrow> liftL r
      | None \<Rightarrow> dispatch_turn env opts 0 (lo_generation opts) (request_json opts ''prompt'' (lo_objective opts) [])
          (lo_images opts)
          (\<lambda>p. checkpoint_json (lo_base opts) (lo_generation opts) ProviderSettled (Some p) None None None))"

definition recovered_ids :: "loop_options \<Rightarrow> string list" where
  "recovered_ids opts =
     (case lo_recovered opts of None \<Rightarrow> [] | Some d \<Rightarrow> (case dk_observationIds d of None \<Rightarrow> [] | Some ids \<Rightarrow> ids))"

definition exact_target :: "capability_invocation list \<Rightarrow> string" where
  "exact_target is =
     (case is of
        [i] \<Rightarrow> (case member (iv_input i) ''query'' of JStr q \<Rightarrow> quote_str q | _ \<Rightarrow> ''the disclosed bounded evidence'')
      | _ \<Rightarrow> ''the disclosed bounded evidence'')"

definition followup_generation :: "loop_options \<Rightarrow> int" where
  "followup_generation opts =
     (case lo_recovered opts of
        Some d \<Rightarrow> if dk_phase d = FollowupReady then dk_generation d else lo_generation opts + 1
      | None \<Rightarrow> lo_generation opts + 1)"

text \<open>The reads, unless a resumed run has their observations already, and the queued follow-up.\<close>

definition gather :: "loop_env \<Rightarrow> (capability_invocation \<Rightarrow> read_outcome) \<Rightarrow> loop_options \<Rightarrow> capability_invocation list
    \<Rightarrow> persisted_result \<Rightarrow> string list loop" where
  "gather env search opts is first =
     (if recovered_ids opts \<noteq> [] \<and> hd (recovered_ids opts) \<noteq> [] then liftL (Inr (recovered_ids opts))
      else
        bindL (liftL (executeReadPlanInvocations (en_digest env) search (lo_documents opts) is)) (\<lambda>observations.
        let ids = recovered_ids opts @ map ob_observationId observations in
        bindL (each_step (\<lambda>x. db_step (\<lambda>db. recordObservation db (lo_sessionId opts) (ob_observationId x)
            (stringify (observation_json x)) (en_now env))) observations) (\<lambda>_.
        bindL (db_step (\<lambda>db. prepareDispatch db (lo_requestId opts) (lo_sessionId opts) (followup_generation opts)
            (digest_text (en_digest env) (lo_objective opts @ [CHR 0x00] @ (case ids of [] \<Rightarrow> ''undefined'' | i # _ \<Rightarrow> i)))
            (stringify (checkpoint_json (lo_base opts) (followup_generation opts) FollowupReady (Some first) None (Some ids) None))
            (en_now env))) (\<lambda>_.
        liftL (Inr ids)))))"

definition recovered_final :: "loop_options \<Rightarrow> (persisted_result \<times> int) option" where
  "recovered_final opts =
     (case lo_recovered opts of None \<Rightarrow> None | Some d \<Rightarrow> map_option (\<lambda>p. (p, dk_generation d)) (dk_finalResult d))"

definition followup :: "loop_env \<Rightarrow> (capability_invocation \<Rightarrow> read_outcome) \<Rightarrow> loop_options \<Rightarrow> capability_invocation list
    \<Rightarrow> persisted_result \<Rightarrow> (string list \<times> persisted_result \<times> int) loop" where
  "followup env search opts is first =
     (case recovered_final opts of
        Some (p, g) \<Rightarrow> liftL (Inr (recovered_ids opts, p, g))
      | None \<Rightarrow>
          bindL (gather env search opts is first) (\<lambda>ids.
          bindL (dispatch_turn env opts 1 (followup_generation opts)
            (request_json opts ''followUp'' (''Successful observation: '' @ exact_target is @ ''.'') ids) []
            (\<lambda>p. checkpoint_json (lo_base opts) (followup_generation opts) FollowupSettled (Some first) (Some p) (Some ids) None)) (\<lambda>p.
          liftL (Inr (ids, p, followup_generation opts)))))"

definition loop_done :: "recipe_decision \<Rightarrow> persisted_result \<Rightarrow> persisted_result \<Rightarrow> string list \<Rightarrow> int \<Rightarrow> loop_result" where
  "loop_done decision first finalResult ids generation =
     \<lparr>lr_decision = decision, lr_first = first, lr_finalResult = finalResult, lr_usage = ps_usage finalResult,
      lr_observationId = (case ids of [] \<Rightarrow> None | i # _ \<Rightarrow> if i = [] then None else Some i),
      lr_checkpointGeneration = generation\<rparr>"

text \<open>What follows the first decision: a read plan is carried out and answered once more.\<close>

definition loop_rest :: "loop_env \<Rightarrow> (capability_invocation \<Rightarrow> read_outcome) \<Rightarrow> loop_options \<Rightarrow> string \<Rightarrow> int
    \<Rightarrow> persisted_result \<Rightarrow> recipe_decision \<Rightarrow> loop_result loop" where
  "loop_rest env search opts followupId generation first decision =
     (case decision of
        ReadPlan kind phase is \<Rightarrow>
          if is = [] then liftL (Inr (loop_done decision first first (recovered_ids opts) generation))
          else
            bindL (followup env search opts (take 4 is) first) (\<lambda>(ids, finalResult, gen).
            bindL (liftL (compile_loop env opts followupId ids finalResult)) (\<lambda>final.
            liftL (Inr (loop_done final first finalResult ids gen))))
      | _ \<Rightarrow> liftL (Inr (loop_done decision first first (recovered_ids opts) generation)))"

definition start_generation :: "loop_options \<Rightarrow> int" where
  "start_generation opts = (case lo_recovered opts of None \<Rightarrow> lo_generation opts | Some d \<Rightarrow> dk_generation d)"

definition runSemanticLoop :: "loop_env \<Rightarrow> (capability_invocation \<Rightarrow> read_outcome) \<Rightarrow> loop_options \<Rightarrow> loop_result loop" where
  "runSemanticLoop env search opts =
     (let turnIds = semanticOperationTurnIds (en_digest env) (lo_projectRoot opts) (lo_objective opts) (lo_snapshotRevision opts) in
      bindL (first_turn env opts) (\<lambda>first.
      bindL (liftL (compile_loop env opts (fst turnIds) [] first)) (\<lambda>decision.
      loop_rest env search opts (snd turnIds) (start_generation opts) first decision)))"

section \<open>What is sent\<close>

lemma db_step_Inr: "db_step f s = (s', Inr y) \<longleftrightarrow> (\<exists>db. f (ls_db s) = Inr db \<and> s' = s\<lparr>ls_db := db\<rparr>)"
  by (auto simp: db_step_def split: sum.splits)

text \<open>A step that sends at most \<open>n\<close> turns, each of which satisfies \<open>P\<close> when it starts.\<close>

definition sends :: "nat \<Rightarrow> (run_db \<times> provider_call list \<Rightarrow> bool) \<Rightarrow> 'a loop \<Rightarrow> bool" where
  "sends n P step = (\<forall>s. \<exists>ts. ls_turns (fst (step s)) = ls_turns s @ ts \<and> length ts \<le> n \<and> list_all P ts)"

lemma sends_mono: "sends n P step \<Longrightarrow> n \<le> k \<Longrightarrow> sends k P step"
  unfolding sends_def by (meson le_trans)

lemma sends_lift: "sends 0 P (liftL r)"
  by (simp add: sends_def liftL_def)

lemma sends_db: "sends 0 P (db_step f)"
  by (simp add: sends_def db_step_def split: sum.split)

lemma sends_bind:
  assumes "sends n P step" and "\<And>x. sends k P (f x)"
  shows "sends (n + k) P (bindL step f)"
  unfolding sends_def
proof
  fix s
  obtain ts where ts: "ls_turns (fst (step s)) = ls_turns s @ ts" "length ts \<le> n" "list_all P ts"
    using assms(1) by (auto simp: sends_def)
  show "\<exists>ts. ls_turns (fst (bindL step f s)) = ls_turns s @ ts \<and> length ts \<le> n + k \<and> list_all P ts"
  proof (cases "snd (step s)")
    case (Inl e)
    then have "fst (bindL step f s) = fst (step s)" by (cases "step s") (simp add: bindL_def)
    with ts show ?thesis by (intro exI [of _ ts]) simp
  next
    case (Inr x)
    then have b: "fst (bindL step f s) = fst (f x (fst (step s)))" by (cases "step s") (simp add: bindL_def)
    obtain us where "ls_turns (fst (f x (fst (step s)))) = ls_turns (fst (step s)) @ us" "length us \<le> k" "list_all P us"
      using assms(2) by (auto simp: sends_def)
    with ts b show ?thesis by (intro exI [of _ "ts @ us"]) simp
  qed
qed

lemma sends_bind0: "sends 0 P step \<Longrightarrow> (\<And>x. sends k P (f x)) \<Longrightarrow> sends k P (bindL step f)"
  using sends_bind [of 0 P step k f] by (simp only: add_0)

lemma sends_each: "(\<And>x. sends 0 P (f x)) \<Longrightarrow> sends 0 P (each_step f xs)"
  by (induction xs) (simp_all add: sends_lift sends_bind0)

text \<open>When a turn starts, the outbox record of the request is marked as dispatching.\<close>

definition turn_marked :: "loop_options \<Rightarrow> run_db \<times> provider_call list \<Rightarrow> bool" where
  "turn_marked opts t = (length (snd t) \<le> 2 \<and> list_all (\<lambda>c. mc_tools (pc_context c) = []) (snd t)
     \<and> list_ex (\<lambda>ox. ox_request ox = lo_requestId opts \<and> ox_state ox = OxDispatching) (rd_outbox (fst t)))"

lemma update_where_hit:
  assumes "count_where p rows = 1"
  obtains r where "r \<in> set rows" and "p r" and "f r \<in> set (update_where p f rows)"
proof -
  obtain r where r: "r \<in> set rows" "p r" using assms count_where_0 [of p rows] by auto
  then have "f r \<in> set (update_where p f rows)" unfolding set_update_where by (auto intro!: rev_image_eqI [of r])
  with r show ?thesis by (rule that)
qed

lemma markDispatching_marked:
  assumes "markDispatching db requestId g now = Inr db'"
  shows "\<exists>ox \<in> set (rd_outbox db'). ox_request ox = requestId \<and> ox_generation ox = g \<and> ox_state ox = OxDispatching"
proof -
  let ?hit = "\<lambda>ox. ox_request ox = requestId \<and> ox_generation ox = g \<and> ox_state ox = OxQueued"
  let ?f = "\<lambda>ox. ox\<lparr>ox_state := OxDispatching, ox_updated := now\<rparr>"
  from assms have c: "count_where ?hit (rd_outbox db) = 1"
    and db': "rd_outbox db' = update_where ?hit ?f (rd_outbox db)"
    by (auto simp: markDispatching_def Let_def split: if_splits option.splits)
  obtain ox where "?hit ox" and "?f ox \<in> set (rd_outbox db')"
    using update_where_hit [OF c, of ?f] unfolding db' by blast
  then show ?thesis by (intro bexI [of _ "?f ox"]) simp_all
qed

lemma submit_few_calls:
  assumes "submit digest engine provider s turn signal images t0 t1 = (calls, r)"
  shows "length calls \<le> 2 \<and> list_all (\<lambda>c. mc_tools (pc_context c) = []) calls"
proof -
  have c: "list_all2 (call_ok (ss_binding s) turn) (take (length calls) [False, True]) calls"
    by (rule submit_calls [OF assms])
  then have "length calls \<le> 2" by (auto dest: list_all2_lengthD)
  moreover have "mc_tools (pc_context x) = []" if "x \<in> set calls" for x
    using list_all2_right [OF c that] by (auto simp: call_ok_def)
  ultimately show ?thesis by (simp add: list_all_iff)
qed

lemma run_turn_adds:
  assumes "list_ex (\<lambda>ox. ox_request ox = lo_requestId opts \<and> ox_state ox = OxDispatching) (rd_outbox (ls_db s))"
  shows "\<exists>ts. ls_turns (fst (run_turn env opts n request images s)) = ls_turns s @ ts \<and> length ts \<le> 1
     \<and> list_all (turn_marked opts) ts"
  using assms
  by (auto simp: run_turn_def turn_marked_def split: option.split sum.split prod.split dest: submit_few_calls)

lemma dispatch_turn_sends: "sends 1 (turn_marked opts) (dispatch_turn env opts n g request images checkpoint)"
proof -
  let ?rest = "\<lambda>live. let p = persisted_of live in
     bindL (db_step (\<lambda>db. settleAndCheckpoint db (lo_requestId opts) (lo_sessionId opts) g
         (re_responseId live) (stringify (checkpoint p)) (en_now env))) (\<lambda>_. liftL (Inr p))"
  have rest: "sends 0 (turn_marked opts) (?rest live)" for live
    by (simp add: Let_def sends_bind0 sends_db sends_lift)
  let ?mark = "db_step (\<lambda>db. markDispatching db (lo_requestId opts) g (en_now env))"
  let ?send = "\<lambda>_ :: unit. bindL (run_turn env opts n request images) ?rest"
  have marked: "sends 1 (turn_marked opts) (bindL ?mark ?send)"
    unfolding sends_def
  proof
    fix s
    show "\<exists>ts. ls_turns (fst (bindL ?mark ?send s)) = ls_turns s @ ts \<and> length ts \<le> 1 \<and> list_all (turn_marked opts) ts"
    proof (cases "markDispatching (ls_db s) (lo_requestId opts) g (en_now env)")
      case (Inl e)
      then show ?thesis by (simp add: bindL_def db_step_def)
    next
      case (Inr db)
      let ?s = "s\<lparr>ls_db := db\<rparr>"
      have "list_ex (\<lambda>ox. ox_request ox = lo_requestId opts \<and> ox_state ox = OxDispatching) (rd_outbox (ls_db ?s))"
        using markDispatching_marked [OF Inr] by (auto simp: list_ex_iff)
      from run_turn_adds [OF this] obtain ts where
        ts: "ls_turns (fst (run_turn env opts n request images ?s)) = ls_turns s @ ts" "length ts \<le> 1"
          "list_all (turn_marked opts) ts" by (metis loop_state.select_convs(2) loop_state.surjective loop_state.update_convs(1))
      have go: "fst (bindL ?mark ?send s) = fst (bindL (run_turn env opts n request images) ?rest ?s)"
        using Inr by (simp add: bindL_def db_step_def)
      show ?thesis
      proof (cases "run_turn env opts n request images ?s")
        case (Pair s1 r)
        show ?thesis
        proof (cases r)
          case (Inl e)
          with Pair go ts show ?thesis by (simp add: bindL_def)
        next
          case (Inr live)
          obtain us where "ls_turns (fst (?rest live s1)) = ls_turns s1 @ us" "length us \<le> 0"
            using rest [of live] unfolding sends_def by blast
          with Pair Inr go ts show ?thesis by (simp add: bindL_def)
        qed
      qed
    qed
  qed
  show ?thesis unfolding dispatch_turn_def throwIfAborted_def
    by (intro sends_bind0 sends_lift marked)
qed

lemma gather_sends: "sends 0 P (gather env search opts is first)"
  unfolding gather_def Let_def by (auto intro!: sends_bind0 sends_lift sends_db sends_each)

definition turn_bound :: "loop_options \<Rightarrow> nat" where
  "turn_bound opts =
     (case lo_recovered opts of
        None \<Rightarrow> 2
      | Some d \<Rightarrow> (if dk_phase d = ProviderReady then 1 else 0) + (if dk_finalResult d = None then 1 else 0))"

lemma first_turn_sends: "sends (if recovered_first opts = None then 1 else 0) (turn_marked opts) (first_turn env opts)"
  unfolding first_turn_def using dispatch_turn_sends
  by (cases "recovered_first opts") (simp_all add: sends_lift)

lemma followup_sends:
  "sends (if recovered_final opts = None then 1 else 0) (turn_marked opts) (followup env search opts is first)"
proof (cases "recovered_final opts")
  case None
  have "sends (1 + 0) (turn_marked opts) (bindL (dispatch_turn env opts 1 (followup_generation opts)
      (request_json opts ''followUp'' (''Successful observation: '' @ exact_target is @ ''.'') ids) []
      (\<lambda>p. checkpoint_json (lo_base opts) (followup_generation opts) FollowupSettled (Some first) (Some p) (Some ids) None)) (\<lambda>p.
      liftL (Inr (ids, p, followup_generation opts))))" for ids
    by (rule sends_bind [OF dispatch_turn_sends sends_lift])
  then show ?thesis unfolding followup_def using None by (auto intro!: sends_bind0 [OF gather_sends])
next
  case (Some pg)
  then show ?thesis by (cases pg) (simp add: followup_def sends_lift)
qed

lemma loop_sends: "sends (turn_bound opts) (turn_marked opts) (runSemanticLoop env search opts)"
proof -
  let ?k = "if recovered_final opts = None then 1 else 0 :: nat"
  have tail: "sends ?k (turn_marked opts) (bindL (followup env search opts is first) (\<lambda>(ids, finalResult, gen).
      bindL (liftL (compile_loop env opts t ids finalResult)) (\<lambda>final. liftL (Inr (loop_done final first finalResult ids gen)))))"
    for "is" first t
  proof -
    have "sends 0 (turn_marked opts) (case x of (ids, finalResult, gen) \<Rightarrow>
        bindL (liftL (compile_loop env opts t ids finalResult)) (\<lambda>final. liftL (Inr (loop_done final first finalResult ids gen))))" for x
      by (cases x) (simp add: sends_bind0 sends_lift)
    from sends_bind [OF followup_sends this] show ?thesis by simp
  qed
  have rest: "sends ?k (turn_marked opts) (loop_rest env search opts t g first decision)" for decision first t g
    using tail sends_mono [OF sends_lift, of ?k] by (cases decision) (auto simp: loop_rest_def)
  have "sends ((if recovered_first opts = None then 1 else 0) + ?k) (turn_marked opts) (runSemanticLoop env search opts)"
    unfolding runSemanticLoop_def Let_def
    by (intro sends_bind [OF first_turn_sends] sends_bind0 [OF sends_lift] rest)
  then show ?thesis
    by (rule sends_mono)
       (auto simp: turn_bound_def recovered_first_def recovered_final_def split: option.splits)
qed

section \<open>What is stored\<close>

text \<open>The request is settled at a generation, and its session's checkpoint is the given text.\<close>

definition settled_at :: "loop_options \<Rightarrow> int \<Rightarrow> string \<Rightarrow> run_db \<Rightarrow> bool" where
  "settled_at opts g payload db =
     ((\<exists>ox \<in> set (rd_outbox db). ox_request ox = lo_requestId opts \<and> ox_generation ox = g \<and> ox_state ox = OxSettled)
      \<and> (\<forall>k \<in> set (rd_checkpoints db). cp_session k = lo_sessionId opts \<longrightarrow> cp_generation k = g \<and> cp_payload k = payload))"

lemma settleAndCheckpoint_settled:
  assumes "settleAndCheckpoint db (lo_requestId opts) (lo_sessionId opts) g provider payload now = Inr db'"
  shows "settled_at opts g payload db'"
proof -
  let ?hit = "\<lambda>ox. ox_request ox = lo_requestId opts \<and> ox_generation ox = g \<and> ox_state ox = OxDispatching"
  let ?f = "\<lambda>ox. ox\<lparr>ox_state := OxSettled, ox_provider := provider, ox_updated := now\<rparr>"
  from assms have c: "count_where ?hit (rd_outbox db) = 1"
    and db': "rd_outbox db' = update_where ?hit ?f (rd_outbox db)"
      "rd_checkpoints db' = update_where (\<lambda>c. cp_session c = lo_sessionId opts)
         (\<lambda>c. c\<lparr>cp_generation := g, cp_payload := payload, cp_updated := now\<rparr>) (rd_checkpoints db)"
    by (auto simp: settleAndCheckpoint_def Let_def writeCheckpoint_def split: if_splits)
  obtain ox where "?hit ox" and "?f ox \<in> set (rd_outbox db')"
    using update_where_hit [OF c, of ?f] unfolding db' by blast
  then have "\<exists>ox \<in> set (rd_outbox db'). ox_request ox = lo_requestId opts \<and> ox_generation ox = g \<and> ox_state ox = OxSettled"
    by (intro bexI [of _ "?f ox"]) simp_all
  moreover have "\<forall>k \<in> set (rd_checkpoints db'). cp_session k = lo_sessionId opts \<longrightarrow> cp_generation k = g \<and> cp_payload k = payload"
    unfolding db' by (auto simp: set_update_where)
  ultimately show ?thesis by (simp add: settled_at_def)
qed

lemma semanticUsage_json: "is_json (semanticUsage u)"
proof -
  have "is_json (measured_json x)" for x by (cases x) simp_all
  then show ?thesis by (simp add: semanticUsage_def)
qed

lemma persisted_of_wf: "wf_output (re_output r) \<Longrightarrow> wf_persisted (persisted_of r)"
  by (auto simp: wf_persisted_def persisted_of_def semanticUsage_json truthy_def split: option.split)

lemma run_turn_wf: "run_turn env opts n request images s = (s', Inr live) \<Longrightarrow> wf_output (re_output live)"
  by (auto simp: run_turn_def split: option.splits sum.splits prod.splits dest: submit_output_ok)

lemma dispatch_turn_Inr:
  assumes "dispatch_turn env opts n g request images checkpoint s = (s', Inr p)"
  shows "wf_persisted p \<and> settled_at opts g (stringify (checkpoint p)) (ls_db s')"
proof -
  from assms obtain s1 s2 live where live: "run_turn env opts n request images s1 = (s2, Inr live)"
    and p: "p = persisted_of live"
    and settle: "db_step (\<lambda>db. settleAndCheckpoint db (lo_requestId opts) (lo_sessionId opts) g
         (re_responseId live) (stringify (checkpoint p)) (en_now env)) s2 = (s', Inr ())"
    unfolding dispatch_turn_def Let_def by (auto simp: bindL_Inr liftL_eq)
  from settle have "settled_at opts g (stringify (checkpoint p)) (ls_db s')"
    by (auto simp: db_step_Inr dest: settleAndCheckpoint_settled)
  with run_turn_wf [OF live] show ?thesis by (simp add: p persisted_of_wf)
qed

lemma read_plan_ids:
  assumes "executeReadPlanInvocations digest search ds is = Inr obs" and "is \<noteq> []"
  shows "map ob_observationId obs \<noteq> [] \<and> list_all (\<lambda>i. i \<noteq> []) (map ob_observationId obs)"
proof -
  have "length obs = length is" using assms(1) by (simp add: executeReadPlanInvocations_def mapR_length)
  moreover have "ob_observationId x \<noteq> []" if "x \<in> set obs" for x
    using mapR_InrD [OF assms(1) [unfolded executeReadPlanInvocations_def] that]
    by (auto simp: normalizeObservation_def Let_def res_simps)
  ultimately show ?thesis using assms(2) by (auto simp: list_all_iff)
qed

lemma gather_fresh:
  assumes "gather env search opts is first s = (s', Inr ids)" and "lo_recovered opts = None" and "is \<noteq> []"
  shows "ids \<noteq> [] \<and> list_all (\<lambda>i. i \<noteq> []) ids"
proof -
  have "recovered_ids opts = []" using assms(2) by (simp add: recovered_ids_def)
  with assms(1) obtain obs where "executeReadPlanInvocations (en_digest env) search (lo_documents opts) is = Inr obs"
    and "ids = map ob_observationId obs"
    unfolding gather_def Let_def by (auto simp: bindL_Inr liftL_eq)
  with read_plan_ids assms(3) show ?thesis by simp
qed

text \<open>How a fresh run ends when it returns.\<close>

lemma fresh_loop_ends:
  assumes "runSemanticLoop env search opts s = (s', Inr r)" and "lo_recovered opts = None"
  obtains (one) "wf_persisted (lr_first r)" "lr_finalResult r = lr_first r" "lr_checkpointGeneration r = lo_generation opts"
      "settled_at opts (lo_generation opts) (stringify (checkpoint_json (lo_base opts) (lo_generation opts) ProviderSettled
         (Some (lr_first r)) None None None)) (ls_db s')"
    | (two) ids where "wf_persisted (lr_first r)" "wf_persisted (lr_finalResult r)"
      "lr_checkpointGeneration r = lo_generation opts + 1" "ids \<noteq> []" "list_all (\<lambda>i. i \<noteq> []) ids"
      "settled_at opts (lo_generation opts + 1) (stringify (checkpoint_json (lo_base opts) (lo_generation opts + 1) FollowupSettled
         (Some (lr_first r)) (Some (lr_finalResult r)) (Some ids) None)) (ls_db s')"
proof -
  have none: "recovered_first opts = None" "recovered_final opts = None" "followup_generation opts = lo_generation opts + 1"
    using assms(2) by (simp_all add: recovered_first_def recovered_final_def followup_generation_def)
  obtain t1 t2 where ids: "semanticOperationTurnIds (en_digest env) (lo_projectRoot opts) (lo_objective opts)
      (lo_snapshotRevision opts) = (t1, t2)" by fastforce
  from assms(1) obtain s1 first decision where
    f: "first_turn env opts s = (s1, Inr first)"
    and rest: "loop_rest env search opts t2 (start_generation opts) first decision s1 = (s', Inr r)"
    unfolding runSemanticLoop_def Let_def ids fst_conv snd_conv bindL_Inr liftL_eq by blast
  have gen: "start_generation opts = lo_generation opts" using assms(2) by (simp add: start_generation_def)
  have "dispatch_turn env opts 0 (lo_generation opts) (request_json opts ''prompt'' (lo_objective opts) [])
      (lo_images opts)
      (\<lambda>p. checkpoint_json (lo_base opts) (lo_generation opts) ProviderSettled (Some p) None None None) s = (s1, Inr first)"
    using f none by (simp add: first_turn_def)
  from dispatch_turn_Inr [OF this]
  have first: "wf_persisted first \<and> settled_at opts (lo_generation opts) (stringify (checkpoint_json (lo_base opts)
      (lo_generation opts) ProviderSettled (Some first) None None None)) (ls_db s1)" .
  show ?thesis
  proof (cases "\<exists>kind phase is. decision = ReadPlan kind phase is \<and> is \<noteq> []")
    case False
    with rest have "s' = s1" "r = loop_done decision first first (recovered_ids opts) (lo_generation opts)"
      by (auto simp: loop_rest_def gen liftL_eq split: recipe_decision.splits if_splits)
    with first show ?thesis by (intro one) (simp_all add: loop_done_def)
  next
    case True
    then obtain kind phase "is" where "is": "decision = ReadPlan kind phase is" "is \<noteq> []" by blast
    with rest obtain s2 ids p g final where fu: "followup env search opts (take 4 is) first s1 = (s2, Inr (ids, p, g))"
      and s': "s' = s2" "r = loop_done final first p ids g"
      by (auto simp: loop_rest_def bindL_Inr liftL_eq)
    from fu none obtain s3 where ga: "gather env search opts (take 4 is) first s1 = (s3, Inr ids)"
      and di: "dispatch_turn env opts 1 (lo_generation opts + 1)
        (request_json opts ''followUp'' (''Successful observation: '' @ exact_target (take 4 is) @ ''.'') ids) []
        (\<lambda>p. checkpoint_json (lo_base opts) (lo_generation opts + 1) FollowupSettled (Some first) (Some p) (Some ids) None) s3
        = (s2, Inr p)" and g: "g = lo_generation opts + 1"
      by (auto simp: followup_def bindL_Inr liftL_eq)
    have "take 4 is \<noteq> []" using "is"(2) by simp
    from gather_fresh [OF ga assms(2) this] dispatch_turn_Inr [OF di] first s' g show ?thesis
      by (intro two [of ids]) (simp_all add: loop_done_def)
  qed
qed

section \<open>Properties\<close>

text \<open>C1: the loop sends only what it has recorded. Every provider turn starts when the outbox record of
  the request is marked as dispatching, makes at most two requests and offers no tools. A fresh run
  takes at most two turns; a resumed one repeats no turn whose answer its checkpoint holds, and none
  when it holds both.\<close>

theorem loop_sends_only_marked:
  "length (ls_turns (fst (runSemanticLoop env search opts \<lparr>ls_db = db, ls_turns = []\<rparr>)))
     \<le> (case lo_recovered opts of
          None \<Rightarrow> 2
        | Some d \<Rightarrow> (if dk_phase d = ProviderReady then 1 else 0) + (if dk_finalResult d = None then 1 else 0))
   \<and> list_all (turn_marked opts) (ls_turns (fst (runSemanticLoop env search opts \<lparr>ls_db = db, ls_turns = []\<rparr>)))"
proof -
  let ?s = "\<lparr>ls_db = db, ls_turns = []\<rparr>"
  obtain ts where "ls_turns (fst (runSemanticLoop env search opts ?s)) = ls_turns ?s @ ts"
    and "length ts \<le> turn_bound opts" and "list_all (turn_marked opts) ts"
    using loop_sends [of opts env search] unfolding sends_def by blast
  then show ?thesis by (simp add: turn_bound_def)
qed


lemma loop_decides:
  assumes "runSemanticLoop env search opts s = (s', Inr r)"
  shows "\<exists>turnId ids. compile_loop env opts turnId ids (lr_finalResult r) = Inr (lr_decision r)"
proof -
  obtain t1 t2 where ids: "semanticOperationTurnIds (en_digest env) (lo_projectRoot opts) (lo_objective opts)
      (lo_snapshotRevision opts) = (t1, t2)" by fastforce
  from assms obtain s1 first decision where c: "compile_loop env opts t1 [] first = Inr decision"
    and rest: "loop_rest env search opts t2 (start_generation opts) first decision s1 = (s', Inr r)"
    unfolding runSemanticLoop_def Let_def ids fst_conv snd_conv bindL_Inr liftL_eq by blast
  show ?thesis
  proof (cases "\<exists>kind phase is. decision = ReadPlan kind phase is \<and> is \<noteq> []")
    case False
    with rest have "r = loop_done decision first first (recovered_ids opts) (start_generation opts)"
      by (auto simp: loop_rest_def liftL_eq split: recipe_decision.splits if_splits)
    with c show ?thesis by (auto simp: loop_done_def)
  next
    case True
    with rest obtain ids p g final where "compile_loop env opts t2 ids p = Inr final" and "r = loop_done final first p ids g"
      by (auto simp: loop_rest_def bindL_Inr liftL_eq)
    then show ?thesis by (auto simp: loop_done_def)
  qed
qed

text \<open>The loop decides nothing the compiler would not. The decision it returns is the compilation of
  the final answer for the pinned project revision, so reads are allowed by policy, a completion cites
  only observations of the run, and a change of files is only a well-formed proposal that requires
  approval.\<close>

theorem loop_decision_safe:
  assumes "runSemanticLoop env search opts s = (s', Inr r)"
  shows "\<exists>turnId ids. compile_loop env opts turnId ids (lr_finalResult r) = Inr (lr_decision r)
     \<and> decision_safe (loop_context opts turnId ids) WriteApproval (lr_decision r)"
  using loop_decides [OF assms] compile_decision_safe unfolding compile_loop_def by blast

section \<open>A run\<close>

definition clarify_answer :: semantic_output where
  "clarify_answer = IntentOutput (ClarifyIntent ''which?'' ''unclear'')"

definition sample_opts :: loop_options where
  "sample_opts = \<lparr>lo_model = \<lparr>md_id = ''m'', md_api = ''x''\<rparr>, lo_stableContext = ''ev'', lo_globalInstructions = None,
     lo_providerSessionId = ''ps'', lo_images = [], lo_objective = ''fix'', lo_documents = [], lo_projectRoot = ''/p'',
     lo_projectId = ''prj_a'', lo_snapshotRevision = ''v'', lo_recovered = None, lo_base = sample_base, lo_generation = 1,
     lo_sessionId = ''s'', lo_requestId = ''r''\<rparr>"

definition sample_env :: loop_env where
  "sample_env = \<lparr>en_digest = sample_bytes, en_engine = (\<lambda>_. []),
     en_complete = (\<lambda>n k c. Inr (sample_message (stringify (enc_output clarify_answer)))),
     en_aborted = (\<lambda>n k. None), en_boundary = (\<lambda>n. Inr ()), en_timeout = (\<lambda>n. None), en_now = 5\<rparr>"

definition sample_run_db :: run_db where
  "sample_run_db = \<lparr>rd_projects = [], rd_chats = [], rd_requests = [],
     rd_checkpoints = [\<lparr>cp_session = ''s'', cp_generation = 1, cp_payload = [], cp_updated = 0\<rparr>],
     rd_outbox = [\<lparr>ox_request = ''r'', ox_generation = 1, ox_state = OxQueued, ox_digest = [], ox_provider = None, ox_updated = 0\<rparr>],
     rd_observations = [], rd_links = [], rd_patches = []\<rparr>"

definition sample_search :: "capability_invocation \<Rightarrow> read_outcome" where
  "sample_search i = \<lparr>ro_status = FailedOutcome, ro_summary = ''none'', ro_matchCount = 0, ro_outputHashInput = []\<rparr>"

definition sample_request :: turn_request where
  "sample_request = \<lparr>tr_mode = JStr ''prompt'', tr_objective = ''fix'',
     tr_disclosed = \<lparr>di_selectionIds = [], di_documentIds = [], di_observationIds = []\<rparr>\<rparr>"

lemma sample_request_parses: "parseSemanticTurnRequest (request_json sample_opts ''prompt'' ''fix'' []) = Inr sample_request"
proof -
  have "request_json sample_opts ''prompt'' ''fix'' [] = enc_request sample_request"
    by (simp add: request_json_def enc_request_def enc_disclosed_def sample_request_def sample_opts_def)
  moreover have "wf_request sample_request"
    by (simp add: wf_request_def wf_disclosed_def sample_request_def turn_modes_def MAX_LIST_def)
  ultimately show ?thesis by (simp add: parse_request_enc)
qed

lemma clarify_wf: "wf_output clarify_answer"
  by (simp add: clarify_answer_def)

lemma sample_turn_accepted:
  "accept engine sample_request (sample_message (stringify (enc_output clarify_answer))) = Inr (clarify_answer, NoNormalization)"
  using accept_answer [OF clarify_wf, where turn = sample_request and u = "[]" and w = "[]" and extra = "[]"
      and m = "sample_message (stringify (enc_output clarify_answer))" and engine = engine]
  by (simp add: sample_message_def provider_failed_def is_tool_call_def message_text_def clarify_answer_def)

lemma sample_run_turn:
  "\<exists>calls r. run_turn sample_env sample_opts 0 (request_json sample_opts ''prompt'' ''fix'' []) [] s =
       (s\<lparr>ls_turns := ls_turns s @ [(ls_db s, calls)]\<rparr>, Inr r) \<and> re_output r = clarify_answer"
proof -
  obtain c where "call_of sample_bytes (loop_binding sample_opts) sample_request 0 [] None = Inr c" by (rule call_of_ok)
  then show ?thesis
    by (auto simp: run_turn_def sample_request_parses submit_def sample_env_def open_session_def sample_turn_accepted
        turn_result_of_def)
qed

lemma sample_loop:
  "\<exists>s' r. runSemanticLoop sample_env sample_search sample_opts \<lparr>ls_db = sample_run_db, ls_turns = []\<rparr> = (s', Inr r)
     \<and> lr_decision r = Clarify ''which?'' ''unclear'' \<and> (\<exists>k \<in> set (rd_checkpoints (ls_db s')). cp_session k = ''s'')"
proof -
  let ?hit = "\<lambda>ox. ox_request ox = ''r'' \<and> ox_generation ox = 1 \<and> ox_state ox = OxQueued"
  let ?db = "sample_run_db\<lparr>rd_outbox := [\<lparr>ox_request = ''r'', ox_generation = 1, ox_state = OxDispatching, ox_digest = [],
      ox_provider = None, ox_updated = 5\<rparr>]\<rparr>"
  let ?s = "\<lparr>ls_db = ?db, ls_turns = []\<rparr>"
  obtain calls r where run: "run_turn sample_env sample_opts 0 (request_json sample_opts ''prompt'' ''fix'' []) [] ?s =
      (?s\<lparr>ls_turns := [(?db, calls)]\<rparr>, Inr r)" and out: "re_output r = clarify_answer"
    using sample_run_turn [of ?s] by auto
  have mark: "markDispatching sample_run_db ''r'' 1 5 = Inr ?db"
    by (simp add: markDispatching_def sample_run_db_def count_where_def)
  have "\<exists>db'. settleAndCheckpoint ?db ''r'' ''s'' 1 (re_responseId r) payload 5 = Inr db'
      \<and> (\<exists>k \<in> set (rd_checkpoints db'). cp_session k = ''s'')" for payload
    by (simp add: settleAndCheckpoint_def sample_run_db_def count_where_def writeCheckpoint_def)
  then obtain db' where settle: "settleAndCheckpoint ?db ''r'' ''s'' 1 (re_responseId r)
      (stringify (checkpoint_json sample_base 1 ProviderSettled (Some (persisted_of r)) None None None)) 5 = Inr db'"
    and cps: "\<exists>k \<in> set (rd_checkpoints db'). cp_session k = ''s''" by blast
  have first: "first_turn sample_env sample_opts \<lparr>ls_db = sample_run_db, ls_turns = []\<rparr>
      = (\<lparr>ls_db = db', ls_turns = [(?db, calls)]\<rparr>, Inr (persisted_of r))"
    using run mark settle
    by (simp add: first_turn_def recovered_first_def dispatch_turn_def throwIfAborted_def bindL_def liftL_def db_step_def
        Let_def sample_opts_def sample_env_def)
  have comp: "compile_loop sample_env sample_opts t [] (persisted_of r) = Inr (Clarify ''which?'' ''unclear'')" for t
    using parse_output_enc [OF clarify_wf]
    by (simp add: compile_loop_def compileSemanticOutput_def persisted_of_def out assertVersions_def loop_context_def
        clarify_answer_def)
  have "runSemanticLoop sample_env sample_search sample_opts \<lparr>ls_db = sample_run_db, ls_turns = []\<rparr>
      = (\<lparr>ls_db = db', ls_turns = [(?db, calls)]\<rparr>, Inr (loop_done (Clarify ''which?'' ''unclear'') (persisted_of r) (persisted_of r)
          (recovered_ids sample_opts) (start_generation sample_opts)))"
    by (simp add: runSemanticLoop_def Let_def bindL_def first liftL_def comp loop_rest_def)
  with cps show ?thesis by (simp add: loop_done_def)
qed


theorem loop_decision_safe_witness:
  "\<exists>s' r turnId ids. runSemanticLoop sample_env sample_search sample_opts \<lparr>ls_db = sample_run_db, ls_turns = []\<rparr> = (s', Inr r)
     \<and> decision_safe (loop_context sample_opts turnId ids) WriteApproval (lr_decision r)"
  using sample_loop loop_decision_safe by metis

end
