(* ===== verification/Snapshot.thy ===== *)
theory Snapshot
  imports SemanticLoop "HOL-Library.Multiset"
begin

text \<open>
  The evidence of a task: \<open>project-files.ts\<close> (the listing of the project's files) and
  \<open>project-snapshot.ts\<close> (which files are disclosed to the model, and how much of each). What git and
  ripgrep print, what the directories hold, the size and the text of a file and the collation order of
  the locale are parameters.
\<close>

section \<open>Sorting and splitting\<close>

text \<open>\<open>array.sort(compare)\<close>, which is stable.\<close>

fun insert_by :: "('a \<Rightarrow> 'a \<Rightarrow> int) \<Rightarrow> 'a \<Rightarrow> 'a list \<Rightarrow> 'a list" where
  "insert_by cmp x [] = [x]"
| "insert_by cmp x (y # ys) = (if cmp x y \<le> 0 then x # y # ys else y # insert_by cmp x ys)"

definition sort_by :: "('a \<Rightarrow> 'a \<Rightarrow> int) \<Rightarrow> 'a list \<Rightarrow> 'a list" where
  "sort_by cmp xs = foldr (insert_by cmp) xs []"

text \<open>\<open>text.split(/[...]+/)\<close>: a run of separators is one separator.\<close>

function split_runs :: "(char \<Rightarrow> bool) \<Rightarrow> string \<Rightarrow> string list" where
  "split_runs sep [] = [[]]"
| "split_runs sep (c # cs) =
     (if sep c then [] # split_runs sep (dropWhile sep cs)
      else case split_runs sep cs of [] \<Rightarrow> [[c]] | w # ws \<Rightarrow> (c # w) # ws)"
  by pat_completeness auto

termination
  by (relation "measure (\<lambda>(sep, s). length s)") (auto simp: le_imp_less_Suc length_dropWhile_le)

text \<open>\<open>[...new Set(array)]\<close>.\<close>

definition unique_first :: "'a list \<Rightarrow> 'a list" where
  "unique_first xs = rev (remdups (rev xs))"

definition lower :: "char \<Rightarrow> char" where
  "lower c = (let n = of_char c :: nat in if 65 \<le> n \<and> n \<le> 90 \<or> 192 \<le> n \<and> n \<le> 222 \<and> n \<noteq> 215 then char_of (n + 32) else c)"

definition toLowerCase :: "string \<Rightarrow> string" where
  "toLowerCase = map lower"

definition str_includes :: "string \<Rightarrow> string \<Rightarrow> bool" where
  "str_includes t pat = (indexOf t pat 0 \<noteq> None)"

section \<open>Listing the files\<close>

text \<open>A directory that cannot be read is one without entries; neither a file nor a directory is \<open>OtherEntry\<close>.\<close>

datatype dir_entry = FileEntry string | DirEntry string "dir_entry list" | OtherEntry string

fun entry_name :: "dir_entry \<Rightarrow> string" where
  "entry_name (FileEntry n) = n"
| "entry_name (DirEntry n es) = n"
| "entry_name (OtherEntry n) = n"

definition SKIPPED_DIRECTORIES :: "string list" where
  "SKIPPED_DIRECTORIES = [''.git'', ''artifacts'', ''node_modules'']"

text \<open>The paths below one entry; the entries of a directory are visited in the order of their names.\<close>

fun visit :: "(string \<Rightarrow> string \<Rightarrow> int) \<Rightarrow> string \<Rightarrow> dir_entry \<Rightarrow> string list" where
  "visit collate directory (FileEntry n) =
     (if startsWith n ''.'' then [] else [if directory = [] then n else directory @ ''/'' @ n])"
| "visit collate directory (OtherEntry n) = []"
| "visit collate directory (DirEntry n es) =
     (if startsWith n ''.'' \<or> n \<in> set SKIPPED_DIRECTORIES then []
      else concat (map snd (sort_by (\<lambda>l r. collate (fst l) (fst r))
        (map (\<lambda>e. (entry_name e, visit collate (if directory = [] then n else directory @ ''/'' @ n) e)) es))))"

definition walkProjectFiles :: "(string \<Rightarrow> string \<Rightarrow> int) \<Rightarrow> dir_entry list \<Rightarrow> string list" where
  "walkProjectFiles collate es =
     concat (map snd (sort_by (\<lambda>l r. collate (fst l) (fst r)) (map (\<lambda>e. (entry_name e, visit collate [] e)) es)))"

text \<open>A finished process: its exit status (\<open>null\<close> when it was killed or could not start) and its output.\<close>

record process_result =
  px_status :: "int option"
  px_stdout :: "string option"
  px_stderr :: "string option"

record project_io =
  pj_ripgrep :: "process_result option"
  pj_tree :: "dir_entry list"
  pj_skills :: "string list"
  pj_exists :: "string \<Rightarrow> bool"
  pj_size :: "string \<Rightarrow> nat res"
  pj_text :: "string \<Rightarrow> string res"
  pj_head :: process_result
  pj_status :: process_result
  pj_diff :: process_result
  pj_collate :: "string \<Rightarrow> string \<Rightarrow> int"

definition listProjectFilePaths :: "project_io \<Rightarrow> string list res" where
  "listProjectFilePaths io =
     (case pj_ripgrep io of
        None \<Rightarrow> Inr (walkProjectFiles (pj_collate io) (pj_tree io))
      | Some result \<Rightarrow>
          if px_status result \<noteq> Some 0 \<and> px_status result \<noteq> Some 1 then
            Inl (Error (case px_stderr result of
               Some t \<Rightarrow> if trim t = [] then ''Project file listing failed'' else trim t
             | None \<Rightarrow> ''Project file listing failed''))
          else Inr (sort_by (pj_collate io) (filter (\<lambda>p. p \<noteq> [])
            (map trim (split_on (CHR 0x0A) (case px_stdout result of None \<Rightarrow> [] | Some t \<Rightarrow> t))))))"

section \<open>Which files may be disclosed\<close>

definition TEXT_EXTENSIONS :: "string list" where
  "TEXT_EXTENSIONS = [''.c'', ''.cc'', ''.css'', ''.go'', ''.h'', ''.html'', ''.java'', ''.js'', ''.json'', ''.jsx'', ''.md'', ''.mjs'',
     ''.py'', ''.rs'', ''.sh'', ''.sql'', ''.swift'', ''.toml'', ''.ts'', ''.tsx'', ''.txt'', ''.yaml'', ''.yml'']"

text \<open>\<open>extname\<close>: from the last dot of the name, unless the name begins with it.\<close>

definition extname :: "string \<Rightarrow> string" where
  "extname p =
     (let name = basename p; ending = rev (takeWhile (\<lambda>c. c \<noteq> CHR ''.'') (rev name)) in
      if length name \<le> Suc (length ending) \<or> name = ''..'' then [] else CHR ''.'' # ending)"

definition ACTIVE_DATA_DIRECTORY :: string where
  "ACTIVE_DATA_DIRECTORY = ''.3xhaust''"

definition skill_path :: "string \<Rightarrow> string" where
  "skill_path name = ACTIVE_DATA_DIRECTORY @ ''/skills/'' @ name @ ''/SKILL.md''"

definition listSkillFiles :: "project_io \<Rightarrow> string list" where
  "listSkillFiles io = sort (filter (pj_exists io) (map skill_path (pj_skills io)))"

definition listProjectFiles :: "project_io \<Rightarrow> string list res" where
  "listProjectFiles io =
     bindR (listProjectFilePaths io) (\<lambda>paths.
     Inr (sort (filter (\<lambda>p. toLowerCase (extname p) \<in> set TEXT_EXTENSIONS) paths @ listSkillFiles io)))"

text \<open>The characters of \<open>[\p{L}\p{N}_.-]\<close> below code 256.\<close>

definition term_char :: "char \<Rightarrow> bool" where
  "term_char c = (alnum c \<or> c \<in> {CHR ''_'', CHR ''.'', CHR ''-''}
     \<or> of_char c \<in> {170, 178, 179, 181, 185, 186, 188, 189, 190 :: nat}
     \<or> (192 \<le> (of_char c :: nat) \<and> of_char c \<noteq> (215 :: nat) \<and> of_char c \<noteq> (247 :: nat)))"

definition objectiveTerms :: "string \<Rightarrow> string list" where
  "objectiveTerms objective =
     unique_first (filter (\<lambda>t. 3 \<le> length t) (split_runs (\<lambda>c. \<not> term_char c) (toLowerCase objective)))"

section \<open>A new skill\<close>

definition skill_id :: "string \<Rightarrow> bool" where
  "skill_id s = list_all (\<lambda>w. w \<noteq> [] \<and> list_all (\<lambda>c. alnum c \<and> lower c = c) w) (split_on (CHR ''-'') s)"

text \<open>\<open>create\s+(?:a\s+)?skill\s+([^\s]+)\<close> at the start of a text: the name, and what follows the match.\<close>

definition skill_at :: "string \<Rightarrow> (string \<times> string) option" where
  "skill_at s =
     (let s1 = drop 6 s; s2 = dropWhile js_space s1;
          s3 = (if s2 \<noteq> [] \<and> hd s2 = CHR ''a'' \<and> tl s2 \<noteq> [] \<and> js_space (hd (tl s2)) then dropWhile js_space (tl s2) else s2);
          s4 = drop 5 s3; s5 = dropWhile js_space s4 in
      if startsWith s ''create'' \<and> s2 \<noteq> s1 \<and> startsWith s3 ''skill'' \<and> s5 \<noteq> s4 \<and> s5 \<noteq> []
        then Some (takeWhile (\<lambda>c. \<not> js_space c) s5, dropWhile (\<lambda>c. \<not> js_space c) s5)
      else None)"

text \<open>The first match of the pattern; \<open>after\<close> says that the character before is one of a word.\<close>

fun first_skill :: "bool \<Rightarrow> string \<Rightarrow> (string \<times> string) option" where
  "first_skill after [] = None"
| "first_skill after (c # cs) =
     (case (if after then None else skill_at (c # cs)) of
        Some m \<Rightarrow> Some m
      | None \<Rightarrow> first_skill (alnum c \<or> c = CHR ''_'') cs)"

text \<open>The other pattern of the source needs Hangul letters, which have no code below 256.\<close>

definition requestedSkillId :: "string \<Rightarrow> string option" where
  "requestedSkillId objective =
     (case first_skill False objective of
        None \<Rightarrow> None
      | Some (i, following) \<Rightarrow>
          let rest = hd (split_runs js_space (trim following)) in
          if skill_id i \<and> (rest = [] \<or> \<not> skill_id rest) then Some i else None)"

section \<open>The snapshot\<close>

record project_snapshot =
  sn_revision :: string
  sn_stableContext :: string
  sn_documents :: "project_document list"
  sn_sha256 :: string

record candidate =
  ca_relativePath :: string
  ca_content :: string
  ca_score :: nat

type_synonym new_file_slot = "string \<times> string"

definition html_marker :: "string \<Rightarrow> string" where
  "html_marker p = ''<!-- X3HAUSTPI_NEW_FILE: '' @ p @ '' -->''"

definition EMPTY_PROJECT_SLOTS :: "new_file_slot list" where
  "EMPTY_PROJECT_SLOTS =
     [(''README.md'', html_marker ''README.md''), (''index.html'', html_marker ''index.html''),
      (''package.json'', ''{\"threeXhaustpiNewFile\":\"package.json\"}''),
      (''src/app.js'', ''// X3HAUSTPI_NEW_FILE: src/app.js''),
      (''src/server.js'', ''// X3HAUSTPI_NEW_FILE: src/server.js''),
      (''src/styles.css'', ''/* X3HAUSTPI_NEW_FILE: src/styles.css */''),
      (''test/app.test.js'', ''// X3HAUSTPI_NEW_FILE: test/app.test.js'')]"

definition EXISTING_PROJECT_SLOTS :: "new_file_slot list" where
  "EXISTING_PROJECT_SLOTS = filter (\<lambda>s. fst s = ''src/server.js'') EMPTY_PROJECT_SLOTS"

definition score_of :: "string list \<Rightarrow> string \<Rightarrow> string \<Rightarrow> nat" where
  "score_of terms relativePath content =
     (let t = toLowerCase (relativePath @ [CHR 0x0A] @ content) in length (filter (str_includes t) terms))"

definition candidate_of :: "project_io \<Rightarrow> string list \<Rightarrow> string \<Rightarrow> candidate option res" where
  "candidate_of io terms relativePath =
     bindR (pj_size io relativePath) (\<lambda>size.
     if 262144 < size then Inr None
     else
       bindR (pj_text io relativePath) (\<lambda>content.
       Inr (Some \<lparr>ca_relativePath = relativePath, ca_content = content, ca_score = score_of terms relativePath content\<rparr>)))"

definition better :: "(string \<Rightarrow> string \<Rightarrow> int) \<Rightarrow> candidate \<Rightarrow> candidate \<Rightarrow> int" where
  "better collate l r =
     (if ca_score r \<noteq> ca_score l then int (ca_score r) - int (ca_score l) else collate (ca_relativePath l) (ca_relativePath r))"

definition candidates_of :: "project_io \<Rightarrow> string \<Rightarrow> candidate list res" where
  "candidates_of io objective =
     bindR (listProjectFiles io) (\<lambda>paths.
     bindR (mapR (candidate_of io (objectiveTerms objective)) paths) (\<lambda>cs.
     Inr (sort_by (better (pj_collate io)) (List.map_filter (\<lambda>c. c) cs))))"

definition document_id :: "(string \<Rightarrow> nat list) \<Rightarrow> string \<Rightarrow> string" where
  "document_id digest relativePath = ''doc_'' @ take 24 (digest_text digest relativePath)"

fun disclose :: "(string \<Rightarrow> nat list) \<Rightarrow> project_document list \<Rightarrow> int \<Rightarrow> candidate list \<Rightarrow> project_document list" where
  "disclose digest documents remaining [] = documents"
| "disclose digest documents remaining (c # cs) =
     (if 12 \<le> length documents \<or> remaining < 512 then documents
      else
        let content = take (nat (min 8000 (remaining - 256))) (ca_content c) in
        if content = [] then disclose digest documents remaining cs
        else disclose digest
          (documents @ [\<lparr>dc_id = document_id digest (ca_relativePath c), dc_relativePath = ca_relativePath c, dc_content = content,
             dc_sha256 = digest_text digest (ca_content c), dc_virtual = False\<rparr>])
          (remaining - (int (length content) + 200)) cs)"

fun add_slots :: "(string \<Rightarrow> nat list) \<Rightarrow> string list \<Rightarrow> project_document list \<Rightarrow> new_file_slot list \<Rightarrow> project_document list" where
  "add_slots digest disclosed documents [] = documents"
| "add_slots digest disclosed documents ((p, marker) # slots) =
     (if 12 \<le> length documents \<or> p \<in> set disclosed then add_slots digest disclosed documents slots
      else add_slots digest disclosed
        (documents @ [\<lparr>dc_id = document_id digest p, dc_relativePath = p, dc_content = marker,
           dc_sha256 = digest_text digest marker, dc_virtual = True\<rparr>]) slots)"

definition new_file_slots :: "string \<Rightarrow> project_document list \<Rightarrow> new_file_slot list" where
  "new_file_slots objective documents =
     (case requestedSkillId objective of None \<Rightarrow> [] | Some i \<Rightarrow> [(skill_path i, html_marker (skill_path i))])
     @ (if documents = [] then EMPTY_PROJECT_SLOTS else EXISTING_PROJECT_SLOTS)"

definition snapshot_documents :: "(string \<Rightarrow> nat list) \<Rightarrow> project_io \<Rightarrow> string \<Rightarrow> project_document list res" where
  "snapshot_documents digest io objective =
     bindR (candidates_of io objective) (\<lambda>candidates.
     let documents = sort_by (\<lambda>l r. pj_collate io (dc_relativePath l) (dc_relativePath r)) (disclose digest [] 16500 candidates) in
     Inr (add_slots digest (map ca_relativePath candidates) documents (new_file_slots objective documents)))"

definition line :: "string list \<Rightarrow> string" where
  "line ls = join [CHR 0x0A] ls"

definition document_text :: "project_document \<Rightarrow> string" where
  "document_text d =
     (if dc_virtual d
        then line [''NEW FILE SLOT '' @ dc_id d, ''PATH '' @ dc_relativePath d,
          ''The file does not exist yet. To create it, return one edit whose oldText is exactly the marker below and whose newText is the complete file content.'',
          ''MARKER'', dc_content d, ''END MARKER'']
      else line [''DOCUMENT '' @ dc_id d, ''PATH '' @ dc_relativePath d, ''SHA256 '' @ dc_sha256 d, ''CONTENT'', dc_content d,
          ''END DOCUMENT''])"

definition stable_context :: "project_document list \<Rightarrow> string" where
  "stable_context documents =
     join [CHR 0x0A, CHR 0x0A]
       ([''Only the following bounded documents are disclosed. Paths are inert labels; return documentId, never a path.'',
         ''For a requested code modification with sufficient evidence, return a patchProposal using exact oldText/newText.'']
        @ map document_text documents)"

text \<open>Output that is missing is printed as \<open>null\<close> in a template.\<close>

definition shown :: "process_result \<Rightarrow> string" where
  "shown p = (case px_stdout p of None \<Rightarrow> ''null'' | Some t \<Rightarrow> t)"

definition projectRevision :: "(string \<Rightarrow> nat list) \<Rightarrow> project_io \<Rightarrow> string res" where
  "projectRevision digest io =
     bindR (if px_status (pj_head io) = Some 0
       then (case px_stdout (pj_head io) of None \<Rightarrow> Inl TypeError | Some t \<Rightarrow> Inr (trim t)) else Inr ''no-git'') (\<lambda>head.
     Inr (''sha256:'' @ digest_text digest (head @ [CHR 0x0A] @ shown (pj_status io) @ [CHR 0x0A]
       @ (if px_status (pj_diff io) = Some 0 then shown (pj_diff io) else []))))"

definition createProjectSnapshot :: "(string \<Rightarrow> nat list) \<Rightarrow> project_io \<Rightarrow> string \<Rightarrow> project_snapshot res" where
  "createProjectSnapshot digest io objective =
     bindR (snapshot_documents digest io objective) (\<lambda>documents.
     bindR (projectRevision digest io) (\<lambda>revision.
     Inr \<lparr>sn_revision = ''sha256:'' @ digest_text digest (revision @ [CHR 0x0A]
            @ line (map (\<lambda>d. dc_relativePath d @ '':'' @ dc_sha256 d) documents)),
          sn_stableContext = stable_context documents, sn_documents = documents,
          sn_sha256 = digest_text digest (stable_context documents)\<rparr>))"

section \<open>What is disclosed\<close>

lemma mset_insert_by [simp]: "mset (insert_by cmp x xs) = add_mset x (mset xs)"
  by (induction xs) auto

lemma mset_sort_by [simp]: "mset (sort_by cmp xs) = mset xs"
  unfolding sort_by_def by (induction xs) auto

lemma set_sort_by [simp]: "set (sort_by cmp xs) = set xs"
  by (metis mset_sort_by set_mset_mset)

lemma length_sort_by [simp]: "length (sort_by cmp xs) = length xs"
  by (metis mset_sort_by size_mset)

lemma distinct_map_sort_by [simp]: "distinct (map f (sort_by cmp xs)) = distinct (map f xs)"
proof -
  have "mset (map f (sort_by cmp xs)) = mset (map f xs)" by simp
  then show ?thesis by (rule mset_eq_imp_distinct_iff)
qed

text \<open>A document that shows the beginning of a file.\<close>

definition shows_file :: "(string \<Rightarrow> nat list) \<Rightarrow> candidate \<Rightarrow> project_document \<Rightarrow> bool" where
  "shows_file digest c d = (dc_relativePath d = ca_relativePath c \<and> dc_id d = document_id digest (ca_relativePath c)
     \<and> prefix (dc_content d) (ca_content c) \<and> dc_content d \<noteq> [] \<and> length (dc_content d) \<le> 8000
     \<and> dc_sha256 d = digest_text digest (ca_content c) \<and> \<not> dc_virtual d)"

definition disclosed_size :: "project_document list \<Rightarrow> int" where
  "disclosed_size ds = (\<Sum>d \<leftarrow> ds. int (length (dc_content d)) + 200)"

lemma disclose_result:
  "56 \<le> remaining \<Longrightarrow> length documents \<le> 12 \<Longrightarrow>
     \<exists>more. disclose digest documents remaining cs = documents @ more \<and> length (documents @ more) \<le> 12
       \<and> disclosed_size more \<le> remaining - 56 \<and> subseq (map dc_relativePath more) (map ca_relativePath cs)
       \<and> (\<forall>d \<in> set more. \<exists>c \<in> set cs. shows_file digest c d)"
proof (induction digest documents remaining cs rule: disclose.induct)
  case (1 digest documents remaining)
  then show ?case by (simp add: disclosed_size_def)
next
  case (2 digest documents remaining c cs)
  let ?content = "take (nat (min 8000 (remaining - 256))) (ca_content c)"
  let ?d = "\<lparr>dc_id = document_id digest (ca_relativePath c), dc_relativePath = ca_relativePath c, dc_content = ?content,
    dc_sha256 = digest_text digest (ca_content c), dc_virtual = False\<rparr>"
  consider (stop) "12 \<le> length documents \<or> remaining < 512"
    | (skip) "\<not> (12 \<le> length documents \<or> remaining < 512)" "?content = []"
    | (add) "\<not> (12 \<le> length documents \<or> remaining < 512)" "?content \<noteq> []" by blast
  then show ?case
  proof cases
    case stop
    with 2(3,4) show ?thesis by (intro exI [of _ "[]"]) (simp add: disclosed_size_def)
  next
    case skip
    from 2(1) [OF skip(1) refl skip(2) 2(3,4)] obtain more where
      "disclose digest documents remaining cs = documents @ more \<and> length (documents @ more) \<le> 12
       \<and> disclosed_size more \<le> remaining - 56 \<and> subseq (map dc_relativePath more) (map ca_relativePath cs)
       \<and> (\<forall>d \<in> set more. \<exists>c \<in> set cs. shows_file digest c d)" by blast
    with skip show ?thesis by (intro exI [of _ more]) (auto simp: Let_def list_emb_Cons)
  next
    case add
    have len: "int (length ?content) \<le> remaining - 256" "length ?content \<le> 8000" using add(1) by auto
    have shown: "shows_file digest c ?d" using add(2) len(2) by (simp add: shows_file_def take_is_prefix)
    have "56 \<le> remaining - (int (length ?content) + 200)" "length (documents @ [?d]) \<le> 12" using len(1) add(1) by auto
    from 2(2) [OF add(1) refl add(2) this] obtain more where
      m: "disclose digest (documents @ [?d]) (remaining - (int (length ?content) + 200)) cs = (documents @ [?d]) @ more"
        "length ((documents @ [?d]) @ more) \<le> 12" "disclosed_size more \<le> remaining - (int (length ?content) + 200) - 56"
        "subseq (map dc_relativePath more) (map ca_relativePath cs)" "\<forall>d \<in> set more. \<exists>c \<in> set cs. shows_file digest c d" by blast
    have "disclose digest documents remaining (c # cs) = documents @ ?d # more" using add m(1) by (simp add: Let_def)
    moreover have "disclosed_size (?d # more) \<le> remaining - 56" using m(3) by (simp add: disclosed_size_def)
    ultimately show ?thesis using m(2,4,5) shown by (intro exI [of _ "?d # more"]) auto
  qed
qed

definition slot_document :: "(string \<Rightarrow> nat list) \<Rightarrow> new_file_slot \<Rightarrow> project_document" where
  "slot_document digest s = \<lparr>dc_id = document_id digest (fst s), dc_relativePath = fst s, dc_content = snd s,
     dc_sha256 = digest_text digest (snd s), dc_virtual = True\<rparr>"

lemma add_slots_result:
  "length documents \<le> 12 \<Longrightarrow>
     \<exists>used. add_slots digest disclosed documents slots = documents @ map (slot_document digest) used \<and> subseq used slots
       \<and> length documents + length used \<le> 12 \<and> (\<forall>s \<in> set used. fst s \<notin> set disclosed)
       \<and> (length documents + length used < 12 \<longrightarrow> (\<forall>s \<in> set slots. fst s \<in> set disclosed \<or> s \<in> set used))"
proof (induction digest disclosed documents slots rule: add_slots.induct)
  case (1 digest disclosed documents)
  then show ?case by simp
next
  case (2 digest disclosed documents p marker slots)
  show ?case
  proof (cases "12 \<le> length documents \<or> p \<in> set disclosed")
    case True
    with 2 obtain used where
      "add_slots digest disclosed documents slots = documents @ map (slot_document digest) used \<and> subseq used slots
       \<and> length documents + length used \<le> 12 \<and> (\<forall>s \<in> set used. fst s \<notin> set disclosed)
       \<and> (length documents + length used < 12 \<longrightarrow> (\<forall>s \<in> set slots. fst s \<in> set disclosed \<or> s \<in> set used))" by blast
    with True show ?thesis by (intro exI [of _ used]) (auto simp: list_emb_Cons)
  next
    case False
    let ?d = "slot_document digest (p, marker)"
    have d: "\<lparr>dc_id = document_id digest p, dc_relativePath = p, dc_content = marker, dc_sha256 = digest_text digest marker,
        dc_virtual = True\<rparr> = ?d" by (simp add: slot_document_def)
    from 2(2) [OF False] False obtain used where
      "add_slots digest disclosed (documents @ [?d]) slots = (documents @ [?d]) @ map (slot_document digest) used"
      "subseq used slots" "Suc (length documents) + length used \<le> 12" "\<forall>s \<in> set used. fst s \<notin> set disclosed"
      "Suc (length documents) + length used < 12 \<longrightarrow> (\<forall>s \<in> set slots. fst s \<in> set disclosed \<or> s \<in> set used)"
      unfolding d by auto
    with False show ?thesis unfolding add_slots.simps d by (intro exI [of _ "(p, marker) # used"]) auto
  qed
qed

lemma disclosed_size_mset: "mset xs = mset ys \<Longrightarrow> disclosed_size xs = disclosed_size ys"
  unfolding disclosed_size_def sum_mset_sum_list [symmetric] mset_map by simp

text \<open>The candidates are the listed files that are small enough, with their text.\<close>

lemma candidate_of_Inr:
  assumes "candidate_of io terms p = Inr r"
  shows "case r of
      Some c \<Rightarrow> ca_relativePath c = p \<and> pj_text io p = Inr (ca_content c) \<and> (\<exists>n \<le> 262144. pj_size io p = Inr n)
    | None \<Rightarrow> \<exists>n > 262144. pj_size io p = Inr n"
  using assms by (auto simp: candidate_of_def bindR_Inr_iff split: if_splits)

lemma read_candidates:
  "mapR (candidate_of io terms) paths = Inr rs \<Longrightarrow>
     subseq (map ca_relativePath (List.map_filter (\<lambda>c. c) rs)) paths
     \<and> (\<forall>c \<in> set (List.map_filter (\<lambda>c. c) rs). pj_text io (ca_relativePath c) = Inr (ca_content c))
     \<and> (\<forall>c \<in> set (List.map_filter (\<lambda>c. c) rs). \<exists>n \<le> 262144. pj_size io (ca_relativePath c) = Inr n)"
proof (induction paths arbitrary: rs)
  case Nil
  then show ?case by (simp add: map_filter_simps)
next
  case (Cons p paths)
  then obtain r rest where r: "candidate_of io terms p = Inr r" and rest: "mapR (candidate_of io terms) paths = Inr rest" and rs: "rs = r # rest"
    by (auto simp: bindR_Inr_iff)
  note IH = Cons.IH [OF rest]
  from candidate_of_Inr [OF r] IH show ?case unfolding rs by (cases r) (auto simp: map_filter_simps list_emb_Cons)
qed

lemma candidates_listed:
  assumes "candidates_of io objective = Inr cs"
  obtains paths where "listProjectFiles io = Inr paths" "distinct paths \<Longrightarrow> distinct (map ca_relativePath cs)"
    "\<And>c. c \<in> set cs \<Longrightarrow> ca_relativePath c \<in> set paths \<and> pj_text io (ca_relativePath c) = Inr (ca_content c)
       \<and> (\<exists>n \<le> 262144. pj_size io (ca_relativePath c) = Inr n)"
proof -
  from assms obtain paths rs where paths: "listProjectFiles io = Inr paths"
    and rs: "mapR (candidate_of io (objectiveTerms objective)) paths = Inr rs"
    and cs: "cs = sort_by (better (pj_collate io)) (List.map_filter (\<lambda>c. c) rs)"
    by (auto simp: candidates_of_def bindR_Inr_iff)
  note read = read_candidates [OF rs]
  show ?thesis
  proof (rule that [OF paths])
    show "distinct paths \<Longrightarrow> distinct (map ca_relativePath cs)" using read subseq_distinct unfolding cs by auto
    show "ca_relativePath c \<in> set paths \<and> pj_text io (ca_relativePath c) = Inr (ca_content c)
       \<and> (\<exists>n \<le> 262144. pj_size io (ca_relativePath c) = Inr n)" if "c \<in> set cs" for c
      using that read subseq_set [of "map ca_relativePath (List.map_filter (\<lambda>c. c) rs)" paths] unfolding cs by auto
  qed
qed

lemma snapshot_parts:
  assumes "createProjectSnapshot digest io objective = Inr sn"
  obtains cs more used where "candidates_of io objective = Inr cs" "disclose digest [] 16500 cs = more"
    "sn_documents sn = sort_by (\<lambda>l r. pj_collate io (dc_relativePath l) (dc_relativePath r)) more @ map (slot_document digest) used"
    "length more + length used \<le> 12" "disclosed_size more \<le> 16444" "subseq (map dc_relativePath more) (map ca_relativePath cs)"
    "\<And>d. d \<in> set more \<Longrightarrow> \<exists>c \<in> set cs. shows_file digest c d"
    "subseq used (new_file_slots objective (sort_by (\<lambda>l r. pj_collate io (dc_relativePath l) (dc_relativePath r)) more))"
    "\<And>s. s \<in> set used \<Longrightarrow> fst s \<notin> ca_relativePath ` set cs"
    "length more + length used < 12 \<Longrightarrow>
       \<forall>s \<in> set (new_file_slots objective (sort_by (\<lambda>l r. pj_collate io (dc_relativePath l) (dc_relativePath r)) more)).
         fst s \<in> ca_relativePath ` set cs \<or> s \<in> set used"
proof -
  from assms obtain cs where cs: "candidates_of io objective = Inr cs"
    and docs: "sn_documents sn = add_slots digest (map ca_relativePath cs)
      (sort_by (\<lambda>l r. pj_collate io (dc_relativePath l) (dc_relativePath r)) (disclose digest [] 16500 cs))
      (new_file_slots objective (sort_by (\<lambda>l r. pj_collate io (dc_relativePath l) (dc_relativePath r)) (disclose digest [] 16500 cs)))"
    by (auto simp: createProjectSnapshot_def snapshot_documents_def bindR_Inr_iff Let_def)
  obtain more where more: "disclose digest [] 16500 cs = more" "length more \<le> 12" "disclosed_size more \<le> 16444"
      "subseq (map dc_relativePath more) (map ca_relativePath cs)" "\<forall>d \<in> set more. \<exists>c \<in> set cs. shows_file digest c d"
    using disclose_result [of 16500 "[]" digest cs] by auto
  let ?sorted = "sort_by (\<lambda>l r. pj_collate io (dc_relativePath l) (dc_relativePath r)) more"
  have "length ?sorted \<le> 12" using more(2) by simp
  from add_slots_result [OF this, of digest "map ca_relativePath cs" "new_file_slots objective ?sorted"]
  obtain used where used: "add_slots digest (map ca_relativePath cs) ?sorted (new_file_slots objective ?sorted) = ?sorted @ map (slot_document digest) used"
      "subseq used (new_file_slots objective ?sorted)" "length more + length used \<le> 12"
      "\<forall>s \<in> set used. fst s \<notin> ca_relativePath ` set cs"
      "length more + length used < 12 \<longrightarrow> (\<forall>s \<in> set (new_file_slots objective ?sorted). fst s \<in> ca_relativePath ` set cs \<or> s \<in> set used)"
    by auto
  show ?thesis
    by (rule that [OF cs more(1) _ used(3) more(3,4) _ used(2)]) (use docs more(1,5) used in simp_all)
qed

text \<open>C19: what a snapshot discloses. At most twelve documents; a document of an existing file shows a
  non-empty beginning of a listed text file of at most 256 KiB, at most 8000 characters of it, with the
  digest of the whole file; all of them together stay within the budget, counting 200 characters of
  framing for each. Every other document is a slot for a new file with the digest of its marker. The
  identifier of a document is made from its path.\<close>

theorem snapshot_discloses_little:
  assumes "createProjectSnapshot digest io objective = Inr sn"
  shows "length (sn_documents sn) \<le> 12
     \<and> disclosed_size (filter (\<lambda>d. \<not> dc_virtual d) (sn_documents sn)) \<le> 16444
     \<and> (\<forall>d \<in> set (sn_documents sn). dc_id d = document_id digest (dc_relativePath d) \<and>
          (if dc_virtual d then dc_sha256 d = digest_text digest (dc_content d)
           else \<exists>paths t n. listProjectFiles io = Inr paths \<and> dc_relativePath d \<in> set paths \<and> pj_text io (dc_relativePath d) = Inr t
             \<and> pj_size io (dc_relativePath d) = Inr n \<and> n \<le> 262144 \<and> prefix (dc_content d) t \<and> dc_content d \<noteq> []
             \<and> length (dc_content d) \<le> 8000 \<and> dc_sha256 d = digest_text digest t))"
proof -
  obtain cs more used where parts: "candidates_of io objective = Inr cs"
    and docs: "sn_documents sn = sort_by (\<lambda>l r. pj_collate io (dc_relativePath l) (dc_relativePath r)) more @ map (slot_document digest) used"
    and len: "length more + length used \<le> 12" and size: "disclosed_size more \<le> 16444"
    and shown: "\<And>d. d \<in> set more \<Longrightarrow> \<exists>c \<in> set cs. shows_file digest c d"
    by (rule snapshot_parts [OF assms]) (rule that; assumption)
  obtain paths where paths: "listProjectFiles io = Inr paths"
    and listed: "\<And>c. c \<in> set cs \<Longrightarrow> ca_relativePath c \<in> set paths \<and> pj_text io (ca_relativePath c) = Inr (ca_content c)
       \<and> (\<exists>n \<le> 262144. pj_size io (ca_relativePath c) = Inr n)"
    by (rule candidates_listed [OF parts]) (rule that; assumption)
  have real: "\<not> dc_virtual d" if "d \<in> set more" for d using shown [OF that] by (auto simp: shows_file_def)
  let ?sorted = "sort_by (\<lambda>l r. pj_collate io (dc_relativePath l) (dc_relativePath r)) more"
  have "filter (\<lambda>d. \<not> dc_virtual d) (sn_documents sn) = ?sorted"
    unfolding docs using real by (simp add: slot_document_def comp_def)
  moreover have "disclosed_size ?sorted = disclosed_size more"
    by (rule disclosed_size_mset) simp
  moreover have "\<exists>paths t n. listProjectFiles io = Inr paths \<and> dc_relativePath d \<in> set paths \<and> pj_text io (dc_relativePath d) = Inr t
      \<and> pj_size io (dc_relativePath d) = Inr n \<and> n \<le> 262144 \<and> prefix (dc_content d) t \<and> dc_content d \<noteq> []
      \<and> length (dc_content d) \<le> 8000 \<and> dc_sha256 d = digest_text digest t" if "d \<in> set more" for d
    using shown [OF that] listed paths by (fastforce simp: shows_file_def)
  moreover have "dc_id d = document_id digest (dc_relativePath d)" if "d \<in> set more" for d
    using shown [OF that] by (auto simp: shows_file_def)
  ultimately show ?thesis using len size real by (auto simp: docs slot_document_def)
qed

section \<open>Documents are different files\<close>

lemma new_file_slots_distinct: "distinct (map fst (new_file_slots objective ds))"
  by (auto simp: new_file_slots_def EMPTY_PROJECT_SLOTS_def EXISTING_PROJECT_SLOTS_def skill_path_def ACTIVE_DATA_DIRECTORY_def
      split: option.split)

lemma snapshot_paths_distinct:
  assumes "createProjectSnapshot digest io objective = Inr sn" and "listProjectFiles io = Inr paths" and "distinct paths"
  shows "distinct (map dc_relativePath (sn_documents sn))"
proof -
  obtain cs more used where parts: "candidates_of io objective = Inr cs"
    and docs: "sn_documents sn = sort_by (\<lambda>l r. pj_collate io (dc_relativePath l) (dc_relativePath r)) more @ map (slot_document digest) used"
    and sub: "subseq (map dc_relativePath more) (map ca_relativePath cs)"
    and used: "subseq used (new_file_slots objective (sort_by (\<lambda>l r. pj_collate io (dc_relativePath l) (dc_relativePath r)) more))"
    and new: "\<And>s. s \<in> set used \<Longrightarrow> fst s \<notin> ca_relativePath ` set cs"
    by (rule snapshot_parts [OF assms(1)]) (rule that; assumption)
  have "distinct (map ca_relativePath cs)"
    by (rule candidates_listed [OF parts]) (use assms(2,3) in auto)
  then have "distinct (map dc_relativePath more)" using sub subseq_distinct by blast
  moreover have "distinct (map fst used)"
    using used subseq_map [of used _ fst] new_file_slots_distinct subseq_distinct by blast
  moreover have "dc_relativePath ` set more \<inter> fst ` set used = {}"
  proof (rule equals0I, elim IntE)
    fix p assume p: "p \<in> dc_relativePath ` set more" and "p \<in> fst ` set used"
    then obtain s where s: "s \<in> set used" "p = fst s" by (elim imageE)
    have "dc_relativePath ` set more \<subseteq> ca_relativePath ` set cs" using subseq_set [OF sub] by simp
    with p have "p \<in> ca_relativePath ` set cs" by (rule rev_subsetD)
    with new [OF s(1)] s(2) show False by simp
  qed
  moreover have "map dc_relativePath (map (slot_document digest) used) = map fst used" by (simp add: slot_document_def)
  ultimately show ?thesis unfolding docs by (simp add: slot_document_def comp_def image_image)
qed

text \<open>A relative path in normal form, as directory listings give it.\<close>

definition normal_path :: "string \<Rightarrow> bool" where
  "normal_path p = list_all (\<lambda>s. s \<noteq> [] \<and> s \<noteq> ''.'' \<and> s \<noteq> ''..'') (split_on (CHR ''/'') p)"

lemma join_split_on: "join [d] (split_on d p) = p"
  by (induction d p rule: split_on.induct) (auto split: list.splits simp: join_Cons)

lemma split_on_inject: "split_on d p = split_on d q \<longleftrightarrow> p = q"
  by (metis join_split_on)

lemma normalize_normal: "list_all (\<lambda>s. s \<noteq> [] \<and> s \<noteq> ''.'' \<and> s \<noteq> ''..'') ss \<Longrightarrow> normalize acc ss = acc @ ss"
  by (induction ss arbitrary: acc) auto

lemma resolve_normal: "normal_path p \<Longrightarrow> resolve_path base p = base @ split_on (CHR ''/'') p"
proof -
  assume p: "normal_path p"
  have "\<not> startsWith p ''/''" using p by (cases p) (auto simp: normal_path_def startsWith_def)
  with p show ?thesis by (simp add: resolve_path_def normalize_normal normal_path_def)
qed

lemma split_on_set: "set p \<subseteq> insert d (\<Union> (set ` set (split_on d p)))"
proof (induction d p rule: split_on.induct)
  case (2 d c cs)
  then show ?case by (cases "split_on d cs") (simp_all, blast+)
qed simp

lemma split_on_segment: "d \<notin> set a \<Longrightarrow> split_on d (a @ d # p) = a # split_on d p"
  by (induction a) auto

lemma split_on_last: "d \<notin> set a \<Longrightarrow> split_on d a = [a]"
  by (induction a) auto

lemma skill_path_normal:
  assumes "skill_id i"
  shows "normal_path (skill_path i)"
proof -
  have "set i \<subseteq> insert (CHR ''-'') (\<Union> (set ` set (split_on (CHR ''-'') i)))" by (rule split_on_set)
  then have chars: "c = CHR ''-'' \<or> alnum c" if "c \<in> set i" for c
    using assms that by (fastforce simp: skill_id_def list_all_iff)
  have i: "CHR ''/'' \<notin> set i" "i \<noteq> []" "CHR ''.'' \<notin> set i"
    using chars [of "CHR ''/''"] chars [of "CHR ''.''"] assms by (auto simp: alnum_def skill_id_def)
  have "skill_path i = ''.3xhaust'' @ CHR ''/'' # ''skills'' @ CHR ''/'' # i @ CHR ''/'' # ''SKILL.md''"
    by (simp add: skill_path_def ACTIVE_DATA_DIRECTORY_def)
  then have "split_on (CHR ''/'') (skill_path i) = [''.3xhaust'', ''skills'', i, ''SKILL.md'']"
    using i(1) by (simp add: split_on_segment split_on_last del: append_Cons split_on.simps)
  then show ?thesis using i by (auto simp: normal_path_def)
qed

lemma slots_normal: "s \<in> set (new_file_slots objective ds) \<Longrightarrow> normal_path (fst s)"
proof -
  have "list_all (\<lambda>s. normal_path (fst s)) EMPTY_PROJECT_SLOTS" by code_simp
  then have fixed: "s \<in> set EMPTY_PROJECT_SLOTS \<Longrightarrow> normal_path (fst s)" by (simp add: list_all_iff)
  have "normal_path (skill_path i)" if "requestedSkillId objective = Some i" for i
    using that by (auto simp: requestedSkillId_def Let_def intro: skill_path_normal split: option.splits if_splits)
  with fixed show "s \<in> set (new_file_slots objective ds) \<Longrightarrow> normal_path (fst s)"
    by (auto simp: new_file_slots_def EXISTING_PROJECT_SLOTS_def split: option.splits if_splits)
qed

lemma snapshot_normal:
  assumes "createProjectSnapshot digest io objective = Inr sn" and "listProjectFiles io = Inr paths"
    and "distinct paths" and "list_all normal_path paths" and "d \<in> set (sn_documents sn)"
  shows "normal_path (dc_relativePath d) \<and> dc_id d = document_id digest (dc_relativePath d)"
proof -
  obtain cs more used where parts: "candidates_of io objective = Inr cs"
    and docs: "sn_documents sn = sort_by (\<lambda>l r. pj_collate io (dc_relativePath l) (dc_relativePath r)) more @ map (slot_document digest) used"
    and shown: "\<And>d. d \<in> set more \<Longrightarrow> \<exists>c \<in> set cs. shows_file digest c d"
    and used: "subseq used (new_file_slots objective (sort_by (\<lambda>l r. pj_collate io (dc_relativePath l) (dc_relativePath r)) more))"
    by (rule snapshot_parts [OF assms(1)]) (rule that; assumption)
  have listed: "\<forall>c \<in> set cs. normal_path (ca_relativePath c)"
    by (rule candidates_listed [OF parts]) (use assms(2,4) in \<open>auto simp: list_all_iff\<close>)
  from assms(5) consider "d \<in> set more" | s where "s \<in> set used" "d = slot_document digest s" unfolding docs by auto
  then show ?thesis
  proof cases
    case 1
    with shown [OF this] listed show ?thesis by (auto simp: shows_file_def)
  next
    case 2
    then have "normal_path (fst s)" using subseq_set [OF used] slots_normal by blast
    with 2(2) show ?thesis by (simp add: slot_document_def)
  qed
qed


section \<open>What the walk lists\<close>

fun entry_ok :: "dir_entry \<Rightarrow> bool" where
  "entry_ok (FileEntry n) = (n \<noteq> [] \<and> CHR ''/'' \<notin> set n)"
| "entry_ok (OtherEntry n) = (n \<noteq> [] \<and> CHR ''/'' \<notin> set n)"
| "entry_ok (DirEntry n es) = (n \<noteq> [] \<and> CHR ''/'' \<notin> set n \<and> distinct (map entry_name es) \<and> list_all entry_ok es)"

lemma entry_ok_name: "entry_ok e \<Longrightarrow> entry_name e \<noteq> [] \<and> CHR ''/'' \<notin> set (entry_name e)"
  by (cases e) auto

lemma split_on_not_Nil [simp]: "split_on d p \<noteq> []"
  by (cases p) (auto split: list.split)

lemma split_on_append: "split_on d (a @ d # p) = split_on d a @ split_on d p"
proof (induction d a rule: split_on.induct)
  case (2 d c cs)
  then show ?case by (cases "split_on d cs") auto
qed simp

definition segments :: "string \<Rightarrow> string list" where
  "segments directory = (if directory = [] then [] else split_on (CHR ''/'') directory)"

definition below :: "string \<Rightarrow> string \<Rightarrow> string" where
  "below directory n = (if directory = [] then n else directory @ ''/'' @ n)"

lemma segments_below: "n \<noteq> [] \<Longrightarrow> CHR ''/'' \<notin> set n \<Longrightarrow> split_on (CHR ''/'') (below directory n) = segments directory @ [n]"
  by (simp add: below_def segments_def split_on_append split_on_last)

lemma below_not_Nil: "n \<noteq> [] \<Longrightarrow> below directory n \<noteq> []"
  by (simp add: below_def)

text \<open>The segments of a listed path: no hidden name, no empty one, and no skipped directory.\<close>

definition visible :: "string list \<Rightarrow> bool" where
  "visible ss = (ss \<noteq> [] \<and> list_all (\<lambda>s. s \<noteq> [] \<and> \<not> startsWith s ''.'') ss \<and> list_all (\<lambda>s. s \<notin> set SKIPPED_DIRECTORIES) (butlast ss))"

lemma visible_normal: "visible (split_on (CHR ''/'') p) \<Longrightarrow> normal_path p"
  by (auto simp: visible_def normal_path_def list_all_iff startsWith_def)

text \<open>The segments of the paths of the files below an entry, hidden or not.\<close>

inductive file_at :: "dir_entry \<Rightarrow> string list \<Rightarrow> bool" where
  leaf: "file_at (FileEntry n) [n]"
| inner: "e \<in> set es \<Longrightarrow> file_at e ss \<Longrightarrow> file_at (DirEntry n es) (n # ss)"

inductive_simps file_at_simps [simp]:
  "file_at (FileEntry n) ss" "file_at (OtherEntry n) ss" "file_at (DirEntry n es) ss"

lemma file_at_name: "file_at e ss \<Longrightarrow> \<exists>rest. ss = entry_name e # rest"
  by (cases e) auto

lemma visible_Cons: "ss \<noteq> [] \<Longrightarrow>
    visible (n # ss) \<longleftrightarrow> n \<noteq> [] \<and> \<not> startsWith n ''.'' \<and> n \<notin> set SKIPPED_DIRECTORIES \<and> visible ss"
  by (auto simp: visible_def)

lemma visit_iff:
  "entry_ok e \<Longrightarrow> p \<in> set (visit collate directory e) \<longleftrightarrow>
     (\<exists>ss. split_on (CHR ''/'') p = segments directory @ ss \<and> file_at e ss \<and> visible ss)"
proof (induction collate directory e arbitrary: p rule: visit.induct)
  case (1 collate directory n)
  then have n: "split_on (CHR ''/'') (below directory n) = segments directory @ [n]" "n \<noteq> []" by (simp_all add: segments_below)
  have "p \<in> set (visit collate directory (FileEntry n)) \<longleftrightarrow> p = below directory n \<and> \<not> startsWith n ''.''"
    by (auto simp: below_def)
  also have "p = below directory n \<longleftrightarrow> split_on (CHR ''/'') p = segments directory @ [n]"
    unfolding n(1) [symmetric] by (simp add: split_on_inject)
  finally show ?case using n(2) by (auto simp: visible_def)
next
  case (2 collate directory n)
  then show ?case by simp
next
  case (3 collate directory n es)
  then have n: "n \<noteq> []" "CHR ''/'' \<notin> set n" by simp_all
  have seg: "segments (below directory n) = segments directory @ [n]"
    using n segments_below [of n directory] below_not_Nil [of n directory] unfolding segments_def [of "below directory n"] by simp
  show ?case
  proof (cases "startsWith n ''.'' \<or> n \<in> set SKIPPED_DIRECTORIES")
    case True
    then have "\<not> visible (n # ss)" if "ss \<noteq> []" for ss using that by (auto simp: visible_Cons)
    with True show ?thesis by (auto dest: file_at_name)
  next
    case False
    have sub: "q \<in> set (visit collate (below directory n) e) \<longleftrightarrow>
        (\<exists>ss. split_on (CHR ''/'') q = segments (below directory n) @ ss \<and> file_at e ss \<and> visible ss)" if "e \<in> set es" for e q
      using 3(1) [OF False that] 3(2) that by (simp add: list_all_iff below_def)
    have vis: "visible (n # ss) \<longleftrightarrow> visible ss" if "file_at e ss" for e ss
      using file_at_name [OF that] False n(1) by (auto simp: visible_Cons)
    have "p \<in> set (visit collate directory (DirEntry n es)) \<longleftrightarrow> (\<exists>e \<in> set es. p \<in> set (visit collate (below directory n) e))"
      using False by (auto simp: below_def)
    also have "\<dots> \<longleftrightarrow> (\<exists>e \<in> set es. \<exists>ss. split_on (CHR ''/'') p = segments directory @ n # ss \<and> file_at e ss \<and> visible (n # ss))"
      using sub vis by (auto simp: seg)
    finally show ?thesis by auto
  qed
qed

lemma visit_paths:
  assumes "entry_ok e" and "p \<in> set (visit collate directory e)"
  shows "\<exists>ss. split_on (CHR ''/'') p = segments directory @ entry_name e # ss \<and> visible (entry_name e # ss)"
  using visit_iff [OF assms(1), of p collate directory] assms(2) file_at_name by blast

lemma distinct_groups:
  assumes "distinct (map fst xs)" and "\<And>k ps. (k, ps) \<in> set xs \<Longrightarrow> distinct ps"
    and "\<And>k ps p. (k, ps) \<in> set xs \<Longrightarrow> p \<in> set ps \<Longrightarrow> key p = k"
  shows "distinct (concat (map snd xs))"
  using assms
proof (induction xs)
  case Nil
  then show ?case by simp
next
  case (Cons x xs)
  obtain k ps where x: "x = (k, ps)" by fastforce
  have "distinct (concat (map snd xs))"
  proof (rule Cons.IH)
    show "distinct (map fst xs)" using Cons.prems(1) by simp
    show "distinct ps" if "(k, ps) \<in> set xs" for k ps using that by (intro Cons.prems(2) [of k]) simp
    show "key p = k" if "(k, ps) \<in> set xs" "p \<in> set ps" for k ps p using that by (intro Cons.prems(3) [of k ps]) simp_all
  qed
  moreover have "distinct ps" using Cons.prems(2) [of k ps] x by simp
  moreover have "p \<notin> set (concat (map snd xs))" if "p \<in> set ps" for p
  proof
    assume "p \<in> set (concat (map snd xs))"
    then obtain k' ps' where "(k', ps') \<in> set xs" "p \<in> set ps'" by auto
    then have "key p = k'" "k' \<in> fst ` set xs" using Cons.prems(3) [of k' ps' p] by force+
    moreover have "key p = k" using Cons.prems(3) [of k ps p] x that by simp
    ultimately show False using Cons.prems(1) x by simp
  qed
  ultimately show ?case using x by auto
qed

lemma grouped_distinct:
  assumes "distinct (map entry_name es)" and "\<And>e. e \<in> set es \<Longrightarrow> entry_ok e"
    and "\<And>e. e \<in> set es \<Longrightarrow> distinct (visit collate directory e)"
  shows "distinct (concat (map snd (sort_by cmp (map (\<lambda>e. (entry_name e, visit collate directory e)) es))))"
proof (rule distinct_groups)
  show "distinct (map fst (sort_by cmp (map (\<lambda>e. (entry_name e, visit collate directory e)) es)))"
    using assms(1) by (simp add: comp_def)
  show "distinct ps" if "(k, ps) \<in> set (sort_by cmp (map (\<lambda>e. (entry_name e, visit collate directory e)) es))" for k ps
    using that assms(3) by auto
  show "split_on (CHR ''/'') p ! length (segments directory) = k"
    if "(k, ps) \<in> set (sort_by cmp (map (\<lambda>e. (entry_name e, visit collate directory e)) es))" "p \<in> set ps" for k ps p
    using that assms(2) visit_paths [of _ p collate directory] by fastforce
qed

lemma visit_distinct: "entry_ok e \<Longrightarrow> distinct (visit collate directory e)"
proof (induction collate directory e rule: visit.induct)
  case (3 collate directory n es)
  show ?case
  proof (cases "startsWith n ''.'' \<or> n \<in> set SKIPPED_DIRECTORIES")
    case False
    have "distinct (visit collate (if directory = [] then n else directory @ ''/'' @ n) e)" if "e \<in> set es" for e
      using 3(1) [OF False that] 3(2) that by (simp add: list_all_iff)
    with False 3(2) show ?thesis unfolding visit.simps if_not_P [OF False]
      by (intro grouped_distinct) (simp_all add: list_all_iff)
  qed auto
qed auto

text \<open>C37: the walk lists each visible file once and nothing else. On any directory tree (names are not empty,
  have no slash, and are different within a directory) no path is listed twice, every listed path is in
  normal form, and a path is listed exactly when it leads to a file, no part of it begins with a dot and no
  directory on it is \<open>.git\<close>, \<open>artifacts\<close> or \<open>node_modules\<close>.\<close>

theorem walk_lists_visible_once:
  assumes "list_all entry_ok tree" and "distinct (map entry_name tree)"
  shows "distinct (walkProjectFiles collate tree)
     \<and> (\<forall>p. p \<in> set (walkProjectFiles collate tree) \<longleftrightarrow>
          (\<exists>e \<in> set tree. file_at e (split_on (CHR ''/'') p)) \<and> visible (split_on (CHR ''/'') p))
     \<and> list_all normal_path (walkProjectFiles collate tree)"
proof (intro conjI allI)
  show "distinct (walkProjectFiles collate tree)"
    unfolding walkProjectFiles_def using assms by (intro grouped_distinct visit_distinct) (simp_all add: list_all_iff)
  show listed: "p \<in> set (walkProjectFiles collate tree) \<longleftrightarrow>
      (\<exists>e \<in> set tree. file_at e (split_on (CHR ''/'') p)) \<and> visible (split_on (CHR ''/'') p)" for p
    using visit_iff [of _ p collate "[]"] assms(1) by (auto simp: walkProjectFiles_def list_all_iff segments_def)
  show "list_all normal_path (walkProjectFiles collate tree)"
    using listed visible_normal by (auto simp: list_all_iff)
qed

section \<open>An oversized file\<close>

text \<open>A file that is too large to be read is offered as a new one. When \<open>src/server.js\<close> exists but has
  more than 256 KiB, and the snapshot has room, it holds a slot for \<open>src/server.js\<close>, whose text tells the
  model that the file does not exist yet.\<close>

theorem oversized_file_offered_as_new:
  assumes "createProjectSnapshot digest io objective = Inr sn" and "pj_size io ''src/server.js'' = Inr n" and "262144 < n"
    and "length (sn_documents sn) < 12"
  shows "\<exists>d \<in> set (sn_documents sn). dc_relativePath d = ''src/server.js'' \<and> dc_virtual d
     \<and> dc_content d = ''// X3HAUSTPI_NEW_FILE: src/server.js''"
proof -
  obtain cs more used where parts: "candidates_of io objective = Inr cs"
    and docs: "sn_documents sn = sort_by (\<lambda>l r. pj_collate io (dc_relativePath l) (dc_relativePath r)) more @ map (slot_document digest) used"
    and room: "length more + length used < 12 \<Longrightarrow>
       \<forall>s \<in> set (new_file_slots objective (sort_by (\<lambda>l r. pj_collate io (dc_relativePath l) (dc_relativePath r)) more)).
         fst s \<in> ca_relativePath ` set cs \<or> s \<in> set used"
    by (rule snapshot_parts [OF assms(1)]) (rule that; assumption)
  let ?slot = "(''src/server.js'', ''// X3HAUSTPI_NEW_FILE: src/server.js'')"
  have "?slot \<in> set (new_file_slots objective ds)" for ds
    by (simp add: new_file_slots_def EXISTING_PROJECT_SLOTS_def EMPTY_PROJECT_SLOTS_def)
  moreover have "''src/server.js'' \<notin> ca_relativePath ` set cs"
    by (rule candidates_listed [OF parts]) (use assms(2,3) in fastforce)
  moreover have "length more + length used < 12" using assms(4) unfolding docs by simp
  ultimately have "?slot \<in> set used" using room by fastforce
  then have "slot_document digest ?slot \<in> set (sn_documents sn)" unfolding docs by (simp del: prod.collapse)
  then show ?thesis by (rule bexI [rotated]) (simp add: slot_document_def)
qed

section \<open>A project\<close>

definition sample_tree :: "dir_entry list" where
  "sample_tree = [FileEntry ''b.md'', FileEntry ''.env'', DirEntry ''src'' [FileEntry ''server.js'', FileEntry ''a.ts''],
     DirEntry ''node_modules'' [FileEntry ''x.js''], OtherEntry ''s'']"

definition sample_io :: project_io where
  "sample_io = \<lparr>pj_ripgrep = None, pj_tree = sample_tree, pj_skills = [], pj_exists = (\<lambda>p. False),
     pj_size = (\<lambda>p. Inr (if p = ''src/server.js'' then 300000 else 3)), pj_text = (\<lambda>p. Inr ''abc''),
     pj_head = \<lparr>px_status = Some 0, px_stdout = Some ''h'', px_stderr = Some []\<rparr>,
     pj_status = \<lparr>px_status = Some 0, px_stdout = Some [], px_stderr = Some []\<rparr>,
     pj_diff = \<lparr>px_status = Some 0, px_stdout = Some [], px_stderr = Some []\<rparr>,
     pj_collate = (\<lambda>l r. if l < r then - 1 else if r < l then 1 else 0)\<rparr>"

lemma sample_walk: "walkProjectFiles (pj_collate sample_io) sample_tree = [''b.md'', ''src/a.ts'', ''src/server.js'']"
  by code_simp

lemma sample_listing: "listProjectFiles sample_io = Inr [''b.md'', ''src/a.ts'', ''src/server.js'']"
  by code_simp

lemma sample_paths_normal: "list_all normal_path [''b.md'', ''src/a.ts'', ''src/server.js'']"
  by code_simp

lemma sample_scores: "objectiveTerms ''fix'' = [''fix'']" "score_of [''fix''] ''b.md'' ''abc'' = 0" "score_of [''fix''] ''src/a.ts'' ''abc'' = 0"
    "requestedSkillId ''fix'' = None"
  by code_simp+

lemma sample_candidates:
  "candidates_of sample_io ''fix'' = Inr [\<lparr>ca_relativePath = ''b.md'', ca_content = ''abc'', ca_score = 0\<rparr>,
     \<lparr>ca_relativePath = ''src/a.ts'', ca_content = ''abc'', ca_score = 0\<rparr>]"
proof -
  have "candidate_of sample_io [''fix''] ''src/server.js'' = Inr None" by (simp add: candidate_of_def sample_io_def)
  moreover have "candidate_of sample_io [''fix''] ''b.md'' = Inr (Some \<lparr>ca_relativePath = ''b.md'', ca_content = ''abc'', ca_score = 0\<rparr>)"
    "candidate_of sample_io [''fix''] ''src/a.ts'' = Inr (Some \<lparr>ca_relativePath = ''src/a.ts'', ca_content = ''abc'', ca_score = 0\<rparr>)"
    using sample_scores(2,3) by (simp_all add: candidate_of_def sample_io_def)
  moreover have "pj_collate sample_io ''b.md'' ''src/a.ts'' \<le> 0" by code_simp
  ultimately show ?thesis
    by (simp add: candidates_of_def sample_listing sample_scores(1) map_filter_simps sort_by_def better_def)
qed

lemma sample_documents:
  "\<exists>ds. snapshot_documents digest sample_io ''fix'' = Inr ds \<and> length ds = 3"
proof -
  have "pj_collate sample_io ''b.md'' ''src/a.ts'' \<le> 0" by code_simp
  then show ?thesis
    by (simp add: snapshot_documents_def Let_def sample_candidates sort_by_def new_file_slots_def sample_scores(4)
        EXISTING_PROJECT_SLOTS_def EMPTY_PROJECT_SLOTS_def)
qed

lemma sample_snapshot:
  obtains sn where "createProjectSnapshot digest sample_io ''fix'' = Inr sn" "length (sn_documents sn) = 3"
proof -
  obtain ds where "snapshot_documents digest sample_io ''fix'' = Inr ds" "length ds = 3" using sample_documents by blast
  with that show ?thesis by (simp add: createProjectSnapshot_def projectRevision_def sample_io_def)
qed

theorem snapshot_discloses_little_witness:
  "\<exists>sn. createProjectSnapshot sample_bytes sample_io ''fix'' = Inr sn
     \<and> disclosed_size (filter (\<lambda>d. \<not> dc_virtual d) (sn_documents sn)) \<le> 16444"
proof -
  obtain sn where "createProjectSnapshot sample_bytes sample_io ''fix'' = Inr sn" by (rule sample_snapshot)
  with snapshot_discloses_little [OF this] show ?thesis by blast
qed


theorem walk_lists_visible_once_witness:
  "distinct (walkProjectFiles (pj_collate sample_io) sample_tree) \<and> ''src/a.ts'' \<in> set (walkProjectFiles (pj_collate sample_io) sample_tree)
     \<and> visible (split_on (CHR ''/'') ''src/a.ts'') \<and> ''.env'' \<notin> set (walkProjectFiles (pj_collate sample_io) sample_tree)"
proof -
  have "list_all entry_ok sample_tree" "distinct (map entry_name sample_tree)" by code_simp+
  note walk = walk_lists_visible_once [OF this, of "pj_collate sample_io"]
  have "''src/a.ts'' \<in> set (walkProjectFiles (pj_collate sample_io) sample_tree)" by (simp add: sample_walk)
  moreover have "\<not> visible (split_on (CHR ''/'') ''.env'')" by code_simp
  ultimately show ?thesis using walk by blast
qed

theorem oversized_file_offered_as_new_witness:
  "\<exists>sn. createProjectSnapshot sample_bytes sample_io ''fix'' = Inr sn
     \<and> (\<exists>d \<in> set (sn_documents sn). dc_relativePath d = ''src/server.js'' \<and> dc_virtual d)"
proof -
  obtain sn where sn: "createProjectSnapshot sample_bytes sample_io ''fix'' = Inr sn" "length (sn_documents sn) = 3"
    by (rule sample_snapshot)
  have "pj_size sample_io ''src/server.js'' = Inr 300000" by (simp add: sample_io_def)
  from oversized_file_offered_as_new [OF sn(1) this] sn show ?thesis by auto
qed

end
