(* ===== verification/CodingTask.thy ===== *)
theory CodingTask
  imports Snapshot PatchAtomic
begin

text \<open>
  A coding task from its start to its end: \<open>coding-runtime.ts\<close> (\<open>runCodingTask\<close>),
  \<open>coding-runtime-project.ts\<close> (\<open>prepareProjectEvidence\<close>), \<open>coding-runtime-patch-flow.ts\<close> (\<open>runPatchFlow\<close>)
  and \<open>coding-runtime-resume.ts\<close> (\<open>resumeCodingTaskWith\<close>). The state is the run database with the log of
  provider turns, and the disk. What the task does not control is its environment: the snapshot of
  the project's files, the user's approval, the diagnostics command (which may change the disk), the
  provider's authentication and model, the loaded resources, the random identifiers and the abort
  signal. Events for the observer are left out.
\<close>

section \<open>State and environment\<close>

record task_state =
  ts_loop :: loop_state
  ts_disk :: disk

type_synonym 'a task = "(task_state, 'a) act"

definition on_loop :: "'a loop \<Rightarrow> 'a task" where
  "on_loop step s = (case step (ts_loop s) of (l, r) \<Rightarrow> (s\<lparr>ts_loop := l\<rparr>, r))"

definition on_disk :: "'a io \<Rightarrow> 'a task" where
  "on_disk step s = (case step (ts_disk s) of (d, r) \<Rightarrow> (s\<lparr>ts_disk := d\<rparr>, r))"

definition on_db :: "(run_db \<Rightarrow> run_db res) \<Rightarrow> unit task" where
  "on_db f = on_loop (db_step f)"

definition read_disk :: "(disk \<Rightarrow> 'a res) \<Rightarrow> 'a task" where
  "read_disk f s = (s, f (ts_disk s))"

record task_resources =
  rs_enabled :: bool
  rs_contextDigest :: string
  rs_skillContext :: string
  rs_globalInstructions :: "string option"

record task_env =
  te_loop :: loop_env
  te_search :: "capability_invocation \<Rightarrow> read_outcome"
  te_os :: os
  te_snapshot :: "string \<Rightarrow> string \<Rightarrow> disk \<Rightarrow> project_snapshot res"
  te_approval :: "patch_view \<Rightarrow> bool res"
  te_aborted :: "nat \<Rightarrow> js_error option"
  te_diagnostics :: "disk \<Rightarrow> disk \<times> (bool \<times> string) res"
  te_authenticated :: "string \<Rightarrow> bool res"
  te_model :: "string \<Rightarrow> string \<Rightarrow> provider_model res"
  te_resources :: "string \<Rightarrow> task_resources res"
  te_python :: "unit res"
  te_uuid :: "nat \<Rightarrow> string"

section \<open>The patch flow\<close>

record flow_options =
  fo_proposal :: patch_proposal
  fo_proposalDigest :: string
  fo_approve :: bool
  fo_sessionId :: string
  fo_requestId :: string
  fo_projectRoot :: string
  fo_objective :: string
  fo_revision :: string
  fo_documents :: "project_document list"
  fo_phase :: "checkpoint_phase option"
  fo_base :: durable_base
  fo_generation :: int
  fo_first :: persisted_result
  fo_final :: persisted_result
  fo_observationId :: "string option"
  fo_usage :: json

datatype task_outcome = TaskCompleted | TaskRejected

record task_result =
  rt_sessionId :: string
  rt_outcome :: task_outcome
  rt_decision :: string
  rt_usage :: json
  rt_patchId :: "string option"
  rt_diagnostics :: "(bool \<times> string) option"

definition patch_id :: "string \<Rightarrow> string" where
  "patch_id digest = ''patch_'' @ drop (length digest - 24) digest"

definition proposal_json :: "patch_proposal \<Rightarrow> string \<Rightarrow> json" where
  "proposal_json p digest =
     JObj [(''edits'', JArr (map enc_edit (pp_edits p))), (''assumptions'', jstrs (pp_assumptions p)),
       (''verificationGoals'', jstrs (pp_verificationGoals p)), (''proposalDigest'', JStr digest)]"

text \<open>\<open>resumesApprovedPatch\<close>: the recovered checkpoint is one of an approved patch.\<close>

definition resumes_patch :: "checkpoint_phase option \<Rightarrow> bool" where
  "resumes_patch ph = (case ph of None \<Rightarrow> False | Some p \<Rightarrow> patch_phase p)"

definition journal :: "task_env \<Rightarrow> flow_options \<Rightarrow> patch_state \<Rightarrow> unit task" where
  "journal env opts state =
     on_db (\<lambda>db. recordPatch db (fo_sessionId opts) (patch_id (fo_proposalDigest opts)) (fo_revision opts) state
       (stringify (proposal_json (fo_proposal opts) (fo_proposalDigest opts))) (en_now (te_loop env)))"

definition save_phase :: "task_env \<Rightarrow> flow_options \<Rightarrow> checkpoint_phase \<Rightarrow> unit task" where
  "save_phase env opts phase =
     on_db (\<lambda>db. updateCheckpoint db (fo_sessionId opts) (fo_generation opts)
       (stringify (checkpoint_json (fo_base opts) (fo_generation opts) phase (Some (fo_first opts)) (Some (fo_final opts)) None
          (fo_observationId opts))) (en_now (te_loop env)))"

definition complete_task :: "task_env \<Rightarrow> string \<Rightarrow> string \<Rightarrow> bool \<Rightarrow> unit task" where
  "complete_task env sessionId requestId completed =
     on_db (\<lambda>db. Inr (complete_run db sessionId requestId completed (en_now (te_loop env))))"

definition task_aborted :: "task_env \<Rightarrow> nat \<Rightarrow> unit task" where
  "task_aborted env k = liftL (case te_aborted env k of Some e \<Rightarrow> Inl e | None \<Rightarrow> Inr ())"

definition check_revision :: "task_env \<Rightarrow> flow_options \<Rightarrow> unit task" where
  "check_revision env opts =
     bindL (read_disk (te_snapshot env (fo_projectRoot opts) (fo_objective opts))) (\<lambda>current.
     if sn_revision current \<noteq> fo_revision opts
       then bindL (journal env opts PsConflict) (\<lambda>_.
         liftL (Inl (Error ''Project revision changed after proposal; patch blocked as stale'')))
     else liftL (Inr ()))"

definition ask_approval :: "task_env \<Rightarrow> flow_options \<Rightarrow> patch_view \<Rightarrow> bool res" where
  "ask_approval env opts view =
     (if resumes_patch (fo_phase opts) \<or> fo_approve opts then Inr True else te_approval env view)"

definition authorise :: "task_env \<Rightarrow> flow_options \<Rightarrow> unit task" where
  "authorise env opts =
     (if \<not> resumes_patch (fo_phase opts) then
        bindL (check_revision env opts) (\<lambda>_.
        bindL (journal env opts PsApproved) (\<lambda>_.
        save_phase env opts PatchApproved))
      else journal env opts (if fo_phase opts = Some PatchApplied then PsApplied else PsApproved))"

definition write_files :: "task_env \<Rightarrow> flow_options \<Rightarrow> prepared_file list \<Rightarrow> unit task" where
  "write_files env opts fs =
     bindL (task_aborted env 1) (\<lambda>_.
     bindL (on_disk (applyPreparedFiles (te_os env) (en_engine (te_loop env)) (resolve_path [] (fo_projectRoot opts)) fs)) (\<lambda>_.
     bindL (journal env opts PsApplied) (\<lambda>_.
     save_phase env opts PatchApplied)))"

definition prepare_step :: "task_env \<Rightarrow> flow_options \<Rightarrow> prepared_file list task" where
  "prepare_step env opts =
     read_disk (\<lambda>d. preparePatchedFiles (files_of (te_os env) d) (resolve_path [] (fo_projectRoot opts)) (fo_proposal opts)
       (document_of (fo_documents opts)))"

definition apply_step :: "task_env \<Rightarrow> flow_options \<Rightarrow> unit task" where
  "apply_step env opts =
     bindL (prepare_step env opts) (\<lambda>prepared.
     let changed = filter (\<lambda>f. pf_before f \<noteq> pf_after f) prepared in
     bindL (if resumes_patch (fo_phase opts) \<and> length changed = length prepared then check_revision env opts
            else liftL (Inr ())) (\<lambda>_.
     if fo_phase opts = Some PatchApplied then liftL (Inr ()) else write_files env opts changed))"

definition flow_result :: "flow_options \<Rightarrow> task_outcome \<Rightarrow> (bool \<times> string) option \<Rightarrow> task_result" where
  "flow_result opts outcome diagnostics =
     \<lparr>rt_sessionId = fo_sessionId opts, rt_outcome = outcome, rt_decision = ''mutationProposal'', rt_usage = fo_usage opts,
      rt_patchId = Some (patch_id (fo_proposalDigest opts)), rt_diagnostics = diagnostics\<rparr>"

definition finish_patch :: "task_env \<Rightarrow> flow_options \<Rightarrow> task_result task" where
  "finish_patch env opts =
     bindL (on_disk (te_diagnostics env)) (\<lambda>diagnostics.
     if \<not> fst diagnostics then liftL (Inl (Error (''Diagnostics failed: '' @ snd diagnostics)))
     else
       bindL (complete_task env (fo_sessionId opts) (fo_requestId opts) True) (\<lambda>_.
       liftL (Inr (flow_result opts TaskCompleted (Some diagnostics)))))"

definition reject_patch :: "task_env \<Rightarrow> flow_options \<Rightarrow> task_result task" where
  "reject_patch env opts =
     bindL (journal env opts PsRejected) (\<lambda>_.
     bindL (complete_task env (fo_sessionId opts) (fo_requestId opts) True) (\<lambda>_.
     liftL (Inr (flow_result opts TaskRejected None))))"

definition patch_view_of :: "flow_options \<Rightarrow> patch_view res" where
  "patch_view_of opts =
     createPatchProposal (patch_id (fo_proposalDigest opts)) (fo_revision opts) (fo_proposal opts) (document_of (fo_documents opts))"

definition runPatchFlow :: "task_env \<Rightarrow> flow_options \<Rightarrow> task_result task" where
  "runPatchFlow env opts =
     bindL (journal env opts PsProposed) (\<lambda>_.
     bindL (liftL (patch_view_of opts)) (\<lambda>view.
     bindL (liftL (ask_approval env opts view)) (\<lambda>approved.
     bindL (task_aborted env 0) (\<lambda>_.
     if \<not> approved then reject_patch env opts
     else
       bindL (authorise env opts) (\<lambda>_.
       bindL (apply_step env opts) (\<lambda>_.
       finish_patch env opts))))))"

section \<open>Evidence\<close>

record evidence =
  ev_stableContext :: string
  ev_documents :: "project_document list"
  ev_revision :: string
  ev_sha256 :: string

definition document_json :: "project_document \<Rightarrow> json" where
  "document_json d =
     JObj ([(''id'', JStr (dc_id d)), (''relativePath'', JStr (dc_relativePath d)), (''content'', JStr (dc_content d)),
       (''sha256'', JStr (dc_sha256 d))] @ opt_member (dc_virtual d) ''virtual'' (JBool True))"

text \<open>The documents of a checkpoint are read as they were written; anything else is outside the model.\<close>

definition document_of_json :: "json \<Rightarrow> project_document res" where
  "document_of_json v =
     (case (str_of (member v ''id''), str_of (member v ''relativePath''), str_of (member v ''content''), str_of (member v ''sha256'')) of
        (Some i, Some p, Some c, Some h) \<Rightarrow>
          Inr \<lparr>dc_id = i, dc_relativePath = p, dc_content = c, dc_sha256 = h, dc_virtual = truthy (member v ''virtual'')\<rparr>
      | _ \<Rightarrow> Inl TypeError)"

definition recovered_documents :: "durable_checkpoint \<Rightarrow> project_document list res" where
  "recovered_documents d = (case dk_documents d of JArr vs \<Rightarrow> mapR document_of_json vs | _ \<Rightarrow> Inl TypeError)"

definition combined_context :: "project_snapshot \<Rightarrow> string \<Rightarrow> string" where
  "combined_context snapshot skillContext =
     (let budget = 18000 - length (sn_stableContext snapshot) - 2 in
      if 0 < budget \<and> skillContext \<noteq> []
        then sn_stableContext snapshot @ [CHR 0x0A, CHR 0x0A] @ take budget skillContext
      else sn_stableContext snapshot)"

definition prepareProjectEvidence :: "(string \<Rightarrow> nat list) \<Rightarrow> project_snapshot \<Rightarrow> string \<Rightarrow> durable_checkpoint option \<Rightarrow> evidence res" where
  "prepareProjectEvidence digest snapshot skillContext recovered =
     bindR (compactContext digest (combined_context snapshot skillContext) 4500) (\<lambda>stable.
     let resumes = resumes_patch (map_option dk_phase recovered) in
     if (case recovered of None \<Rightarrow> False | Some d \<Rightarrow> \<not> resumes \<and> dk_snapshotSha256 d \<noteq> sn_sha256 snapshot)
       then Inl (Error ''Project evidence changed after the checkpoint; resume blocked as stale'')
     else
       bindR (case recovered of Some d \<Rightarrow> if resumes then recovered_documents d else Inr (sn_documents snapshot)
                | None \<Rightarrow> Inr (sn_documents snapshot)) (\<lambda>documents.
       Inr \<lparr>ev_stableContext = stable, ev_documents = documents,
         ev_revision = (case recovered of
            Some d \<Rightarrow> (case str_of (dk_snapshotRevision d) of Some r \<Rightarrow> r | None \<Rightarrow> sn_revision snapshot) | None \<Rightarrow> sn_revision snapshot),
         ev_sha256 = (case recovered of Some d \<Rightarrow> dk_snapshotSha256 d | None \<Rightarrow> sn_sha256 snapshot)\<rparr>))"

section \<open>The task\<close>

record task_input =
  ti_projectRoot :: string
  ti_objective :: string
  ti_images :: "tui_image list"
  ti_approve :: bool
  ti_provider :: "string option"
  ti_model :: "string option"
  ti_accountId :: "string option"
  ti_sessionId :: "string option"
  ti_resume :: "resume_checkpoint option"

definition DEFAULT_PROVIDER :: string where "DEFAULT_PROVIDER = ''openai-codex''"
definition DEFAULT_MODEL :: string where "DEFAULT_MODEL = ''gpt-5.6-terra''"

record task_plan =
  tp_recovered :: "durable_checkpoint option"
  tp_opts :: loop_options

definition or_else :: "'a option \<Rightarrow> 'a \<Rightarrow> 'a" where
  "or_else x y = (case x of None \<Rightarrow> y | Some z \<Rightarrow> z)"

text \<open>\<open>recovered?.field ?? value\<close>.\<close>

definition pick :: "durable_checkpoint option \<Rightarrow> (durable_checkpoint \<Rightarrow> 'a) \<Rightarrow> 'a \<Rightarrow> 'a" where
  "pick recovered f x = (case recovered of Some d \<Rightarrow> f d | None \<Rightarrow> x)"

definition image_of :: "tui_image \<Rightarrow> image_content" where
  "image_of i = \<lparr>ic_data = im_data i, ic_mimeType = mime_name (im_mimeType i)\<rparr>"

definition task_images :: "task_input \<Rightarrow> durable_checkpoint option \<Rightarrow> tui_image list res" where
  "task_images input recovered =
     (case recovered of
        Some d \<Rightarrow> if dk_images d = JUndef then Inr (ti_images input) else parseImagePayloads (dk_images d)
      | None \<Rightarrow> Inr (ti_images input))"

definition task_account :: "task_input \<Rightarrow> durable_checkpoint option \<Rightarrow> string option" where
  "task_account input recovered =
     (case recovered of
        Some d \<Rightarrow> (case str_of (dk_accountId d) of Some a \<Rightarrow> Some a | None \<Rightarrow> ti_accountId input)
      | None \<Rightarrow> ti_accountId input)"

definition needs_provider :: "durable_checkpoint option \<Rightarrow> bool" where
  "needs_provider recovered = (case recovered of None \<Rightarrow> True | Some d \<Rightarrow> ready_phase (dk_phase d))"

definition providerCacheSessionId :: "(string \<Rightarrow> nat list) \<Rightarrow> string \<Rightarrow> string \<Rightarrow> string \<Rightarrow> string \<Rightarrow> string option \<Rightarrow> string" where
  "providerCacheSessionId digest projectRoot provider model objective resourceDigest =
     ''3xhaustpi-semantic-'' @ take 24 (digest_text digest (X3HAUST_SEMANTIC_STABLE_PREFIX
       @ (case resourceDigest of None \<Rightarrow> [] | Some r \<Rightarrow> if r = [] then [] else [CHR 0x00] @ ''resource-context:'' @ r)
       @ [CHR 0x00] @ projectRoot @ [CHR 0x00] @ provider @ [CHR 0x00] @ model @ [CHR 0x00] @ objective))"

text \<open>The resources may not change once the model has reasoned under them.\<close>

definition resources_changed :: "task_resources \<Rightarrow> durable_checkpoint option \<Rightarrow> bool" where
  "resources_changed resources recovered =
     (case recovered of
        None \<Rightarrow> False
      | Some d \<Rightarrow> (case dk_resourceContextDigest d of None \<Rightarrow> False | Some r \<Rightarrow> r \<noteq> rs_contextDigest resources)
          \<and> dk_phase d \<in> {ProviderSettled, FollowupReady, FollowupSettled})"

definition recovered_of :: "task_input \<Rightarrow> durable_checkpoint option res" where
  "recovered_of input =
     (case ti_resume input of
        None \<Rightarrow> Inr None
      | Some ck \<Rightarrow> bindR (parseDurableCodingTaskCheckpoint ck False) (\<lambda>d. Inr (Some d)))"

text \<open>Everything \<open>runCodingTask\<close> settles before it touches the database.\<close>

definition prepareTask :: "task_env \<Rightarrow> task_input \<Rightarrow> disk \<Rightarrow> task_plan res" where
  "prepareTask env input disk =
     (let digest = en_digest (te_loop env) in
      bindR (recovered_of input) (\<lambda>recovered.
      let projectRoot = pick recovered dk_projectRoot (ti_projectRoot input);
          objective = pick recovered dk_objective (ti_objective input);
          provider = pick recovered dk_provider (or_else (ti_provider input) DEFAULT_PROVIDER);
          modelId = pick recovered dk_model (or_else (ti_model input) DEFAULT_MODEL) in
      bindR (task_images input recovered) (\<lambda>images.
      bindR (te_resources env projectRoot) (\<lambda>resources.
      bindR (if needs_provider recovered then te_authenticated env provider else Inr True) (\<lambda>authenticated.
      if \<not> authenticated then Inl (Error (''Provider is not authenticated: '' @ provider))
      else
        bindR (te_model env provider modelId) (\<lambda>model.
        bindR (te_snapshot env projectRoot objective disk) (\<lambda>snapshot.
        bindR (prepareProjectEvidence digest snapshot (rs_skillContext resources) recovered) (\<lambda>evidence.
        bindR (projectId (JStr (''prj_'' @ take 24 (digest_text digest projectRoot)))) (\<lambda>pid.
        let sessionId = pick recovered dk_sessionId (or_else (ti_sessionId input) (''session_'' @ te_uuid env 0));
            requestId = pick recovered dk_requestId (''req_'' @ te_uuid env 1);
            fingerprint = pick recovered dk_fingerprint (digest_text digest (projectRoot @ [CHR 0x00] @ objective));
            generation = pick recovered dk_generation 1 in
        if resources_changed resources recovered
          then Inl (Error ''Global system prompt or resolved skills changed after semantic reasoning; start a new coding task'')
        else
          bindR (te_python env) (\<lambda>_.
          Inr \<lparr>tp_recovered = recovered,
            tp_opts = \<lparr>lo_model = model, lo_stableContext = ev_stableContext evidence,
              lo_globalInstructions = rs_globalInstructions resources,
              lo_providerSessionId = providerCacheSessionId digest projectRoot provider modelId objective
                (if rs_enabled resources then Some (rs_contextDigest resources) else None),
              lo_images = map image_of images, lo_objective = objective, lo_documents = ev_documents evidence,
              lo_projectRoot = projectRoot, lo_projectId = pid, lo_snapshotRevision = ev_revision evidence,
              lo_recovered = recovered,
              lo_base = \<lparr>ba_projectRoot = projectRoot, ba_objective = objective, ba_images = images,
                ba_approve = ti_approve input, ba_provider = provider, ba_model = modelId,
                ba_accountId = (case task_account input recovered of Some a \<Rightarrow> if a = [] then None else Some a | None \<Rightarrow> None),
                ba_sessionId = sessionId, ba_requestId = requestId, ba_fingerprint = fingerprint,
                ba_snapshotSha256 = ev_sha256 evidence, ba_resourceContextDigest = rs_contextDigest resources,
                ba_snapshotRevision = ev_revision evidence, ba_documents = map document_json (ev_documents evidence)\<rparr>,
              lo_generation = generation, lo_sessionId = sessionId, lo_requestId = requestId\<rparr>\<rparr>))))))))))"

definition begin_input_of :: "loop_options \<Rightarrow> begin_input" where
  "begin_input_of opts =
     \<lparr>bi_projectId = lo_projectId opts, bi_projectPath = lo_projectRoot opts, bi_sessionId = lo_sessionId opts,
      bi_requestId = lo_requestId opts, bi_fingerprint = ba_fingerprint (lo_base opts),
      bi_payload = stringify (JObj [(''objective'', JStr (lo_objective opts))]),
      bi_checkpoint = stringify (checkpoint_json (lo_base opts) (lo_generation opts) ProviderReady None None None None),
      bi_generation = lo_generation opts\<rparr>"

definition flow_of :: "task_input \<Rightarrow> task_plan \<Rightarrow> loop_result \<Rightarrow> patch_proposal \<Rightarrow> string \<Rightarrow> flow_options" where
  "flow_of input plan semantic proposal digest =
     (let opts = tp_opts plan in
      \<lparr>fo_proposal = proposal, fo_proposalDigest = digest, fo_approve = ti_approve input, fo_sessionId = lo_sessionId opts,
       fo_requestId = lo_requestId opts, fo_projectRoot = lo_projectRoot opts, fo_objective = lo_objective opts,
       fo_revision = lo_snapshotRevision opts, fo_documents = lo_documents opts,
       fo_phase = map_option dk_phase (tp_recovered plan), fo_base = lo_base opts,
       fo_generation = lr_checkpointGeneration semantic, fo_first = lr_first semantic, fo_final = lr_finalResult semantic,
       fo_observationId = lr_observationId semantic, fo_usage = lr_usage semantic\<rparr>)"

definition conclude :: "task_env \<Rightarrow> task_plan \<Rightarrow> loop_result \<Rightarrow> task_result task" where
  "conclude env plan semantic =
     (let opts = tp_opts plan;
          done = (\<lambda>kind. \<lparr>rt_sessionId = lo_sessionId opts, rt_outcome = TaskCompleted, rt_decision = kind,
             rt_usage = lr_usage semantic, rt_patchId = None, rt_diagnostics = None\<rparr>) in
      bindL (complete_task env (lo_sessionId opts) (lo_requestId opts) True) (\<lambda>_.
      liftL (case lr_decision semantic of
          CompletionSuggestion _ _ \<Rightarrow> Inr (done ''completionSuggestion'')
        | Clarify _ _ \<Rightarrow> Inr (done ''clarify'')
        | Blocked _ \<Rightarrow> Inl (Error ''Coding task ended without a patch proposal: blocked'')
        | ReadPlan _ _ _ \<Rightarrow> Inl (Error ''Coding task ended without a patch proposal: readPlan'')
        | MutationProposal _ _ _ \<Rightarrow> Inl (Error ''Coding task ended without a patch proposal: mutationProposal''))))"

definition task_body :: "task_env \<Rightarrow> task_input \<Rightarrow> task_plan \<Rightarrow> task_result task" where
  "task_body env input plan =
     bindL (on_loop (runSemanticLoop (te_loop env) (te_search env) (tp_opts plan))) (\<lambda>semantic.
     case lr_decision semantic of
       MutationProposal proposal digest _ \<Rightarrow> runPatchFlow env (flow_of input plan semantic proposal digest)
     | _ \<Rightarrow> conclude env plan semantic)"

definition begin_task :: "task_env \<Rightarrow> task_plan \<Rightarrow> unit task" where
  "begin_task env plan =
     (if tp_recovered plan = None
        then on_db (\<lambda>db. begin_run db (begin_input_of (tp_opts plan)) (en_now (te_loop env)))
      else liftL (Inr ()))"

definition runCodingTask :: "task_env \<Rightarrow> task_input \<Rightarrow> task_result task" where
  "runCodingTask env input =
     bindL (read_disk (prepareTask env input)) (\<lambda>plan.
     bindL (begin_task env plan) (\<lambda>_.
     catchL (task_body env input plan) (\<lambda>e.
       bindL (complete_task env (lo_sessionId (tp_opts plan)) (lo_requestId (tp_opts plan)) False) (\<lambda>_. liftL (Inl e)))))"

text \<open>Resuming: what was interrupted is recovered, one checkpoint is claimed, and the task runs again
  from it, or from its start when the receipt of its request is unknown.\<close>

record resume_input =
  ri_approve :: bool
  ri_sessionId :: "string option"
  ri_projectRoot :: "string option"

definition resumed_input :: "resume_input \<Rightarrow> resume_claim \<Rightarrow> task_input res" where
  "resumed_input input c =
     (case c of
        ResumeCheckpoint ck \<Rightarrow>
          Inr \<lparr>ti_projectRoot = rc_projectPath ck, ti_objective = [], ti_images = [], ti_approve = ri_approve input,
            ti_provider = None, ti_model = None, ti_accountId = None, ti_sessionId = None, ti_resume = Some ck\<rparr>
      | ResumeRestart ck \<Rightarrow>
          bindR (parseDurableCodingTaskCheckpoint ck True) (\<lambda>d.
          Inr \<lparr>ti_projectRoot = dk_projectRoot d, ti_objective = dk_objective d, ti_images = [], ti_approve = ri_approve input,
            ti_provider = Some (dk_provider d), ti_model = Some (dk_model d), ti_accountId = None, ti_sessionId = None,
            ti_resume = None\<rparr>))"

definition resumeCodingTaskWith :: "task_env \<Rightarrow> resume_input \<Rightarrow> (task_input \<Rightarrow> task_result task) \<Rightarrow> task_result option task" where
  "resumeCodingTaskWith env input run s =
     (let db = recoverInterrupted (ls_db (ts_loop s));
          s1 = s\<lparr>ts_loop := (ts_loop s)\<lparr>ls_db := db\<rparr>\<rparr> in
      case claimExplicit db (ri_sessionId input) (ri_projectRoot input) (en_now (te_loop env)) of
        Inl e \<Rightarrow> (s1, Inl e)
      | Inr (db', None) \<Rightarrow> (s1, Inr None)
      | Inr (db', Some c) \<Rightarrow>
          bindL (liftL (resumed_input input c)) (\<lambda>task. bindL (run task) (\<lambda>r. liftL (Inr (Some r))))
            (s\<lparr>ts_loop := (ts_loop s)\<lparr>ls_db := db'\<rparr>\<rparr>))"

section \<open>How a run ends\<close>

definition run_status_is :: "string \<Rightarrow> run_status \<Rightarrow> task_state \<Rightarrow> bool" where
  "run_status_is requestId status s =
     (\<forall>r \<in> set (rd_requests (ls_db (ts_loop s))). rr_id r = requestId \<longrightarrow> rr_status r = status)"

lemma complete_task_status:
  assumes "complete_task env sid rid b s = (s', r)"
  shows "r = Inr () \<and> run_status_is rid (if b then RnCompleted else RnFailed) s'"
proof -
  from assms have r: "r = Inr ()" and db: "ls_db (ts_loop s') = complete_run (ls_db (ts_loop s)) sid rid b (en_now (te_loop env))"
    by (auto simp: complete_task_def on_db_def on_loop_def db_step_def)
  have "rr_status q = (if b then RnCompleted else RnFailed)"
    if "q \<in> set (rd_requests (ls_db (ts_loop s')))" and "rr_id q = rid" for q
  proof -
    have "q \<in> (\<lambda>r. if rr_id r = rid then r\<lparr>rr_status := (if b then RnCompleted else RnFailed)\<rparr> else r)
        ` set (rd_requests (ls_db (ts_loop s)))"
      using that(1) by (simp add: db complete_run_def set_update_where)
    then obtain q0 :: run_row where
      "q = (if rr_id q0 = rid then q0\<lparr>rr_status := (if b then RnCompleted else RnFailed)\<rparr> else q0)" by (rule imageE)
    then show ?thesis using that(2) by (simp split: if_splits)
  qed
  with r show ?thesis by (simp add: run_status_is_def)
qed

definition completes :: "string \<Rightarrow> 'a task \<Rightarrow> bool" where
  "completes rid step = (\<forall>s s' x. step s = (s', Inr x) \<longrightarrow> run_status_is rid RnCompleted s')"

lemma completes_bind: "(\<And>x. completes rid (f x)) \<Longrightarrow> completes rid (bindL step f)"
  by (simp add: completes_def bindL_Inr) metis

lemma completes_last: "completes rid (bindL (complete_task env sid rid True) (\<lambda>_. liftL r))"
  by (auto simp: completes_def bindL_Inr liftL_eq dest: complete_task_status)

lemma completes_fail: "completes rid (liftL (Inl e))"
  by (simp add: completes_def liftL_eq)

lemma finish_completes: "completes (fo_requestId opts) (finish_patch env opts)"
  unfolding finish_patch_def by (intro completes_bind) (simp add: completes_last completes_fail)

lemma reject_completes: "completes (fo_requestId opts) (reject_patch env opts)"
  unfolding reject_patch_def by (intro completes_bind [of _ "\<lambda>_. bindL _ _"] completes_last)

lemma runPatchFlow_completes: "completes (fo_requestId opts) (runPatchFlow env opts)"
proof -
  have "completes (fo_requestId opts) (if \<not> approved then reject_patch env opts
      else bindL (authorise env opts) (\<lambda>_. bindL (apply_step env opts) (\<lambda>_. finish_patch env opts)))" for approved
    by (simp add: reject_completes completes_bind finish_completes)
  then show ?thesis unfolding runPatchFlow_def by (intro completes_bind)
qed

lemma task_body_completes: "completes (lo_requestId (tp_opts plan)) (task_body env input plan)"
proof -
  have flow: "completes (lo_requestId (tp_opts plan)) (runPatchFlow env (flow_of input plan semantic p d))" for semantic p d
    using runPatchFlow_completes [of "flow_of input plan semantic p d" env] by (simp add: flow_of_def Let_def)
  have "completes (lo_requestId (tp_opts plan)) (conclude env plan semantic)" for semantic
    unfolding conclude_def Let_def by (rule completes_last)
  with flow show ?thesis unfolding task_body_def
    by (intro completes_bind) (simp split: recipe_decision.split)
qed


section \<open>What a patch may do to the disk\<close>

interpretation disk_frame: step_relation "\<lambda>_. True" "\<lambda>s s'. ts_disk s' = ts_disk s"
  by unfold_locales simp_all

lemma obeys_read: "disk_frame.obeys (read_disk f)" and obeys_db: "disk_frame.obeys (on_db g)"
  by (auto intro!: disk_frame.obeysI simp: read_disk_def on_db_def on_loop_def split: prod.splits)

lemmas disk_frame_steps = disk_frame.obeys_bind disk_frame.obeys_lift obeys_read obeys_db

lemma disk_frame_flow:
  "disk_frame.obeys (journal env opts st)" "disk_frame.obeys (save_phase env opts ph)" "disk_frame.obeys (complete_task env sid rid b)"
  "disk_frame.obeys (task_aborted env k)" "disk_frame.obeys (check_revision env opts)" "disk_frame.obeys (reject_patch env opts)"
  "disk_frame.obeys (authorise env opts)" "disk_frame.obeys (prepare_step env opts)"
proof -
  show j: "disk_frame.obeys (journal env opts st)" "disk_frame.obeys (save_phase env opts ph)" "disk_frame.obeys (complete_task env sid rid b)"
      "disk_frame.obeys (task_aborted env k)" "disk_frame.obeys (prepare_step env opts)" for st ph sid rid b k
    by (simp_all add: journal_def save_phase_def complete_task_def task_aborted_def prepare_step_def disk_frame_steps)
  show c: "disk_frame.obeys (check_revision env opts)"
    unfolding check_revision_def by (intro disk_frame.obeys_bind obeys_read) (simp add: j disk_frame_steps)
  show "disk_frame.obeys (reject_patch env opts)"
    unfolding reject_patch_def by (intro disk_frame.obeys_bind disk_frame.obeys_lift j)
  show "disk_frame.obeys (authorise env opts)"
    unfolding authorise_def by (simp add: j c disk_frame.obeys_bind)
qed

text \<open>How the flow runs up to the point where it may write.\<close>

lemma runPatchFlow_cases:
  assumes "runPatchFlow env opts s = (s', r)"
  obtains (stopped) e where "ts_disk s' = ts_disk s" "r = Inl e"
    | (rejected) view where "ts_disk s' = ts_disk s" "patch_view_of opts = Inr view" "ask_approval env opts view = Inr False"
        "\<And>x. r = Inr x \<Longrightarrow> rt_outcome x = TaskRejected"
    | (approved) view s1 where "patch_view_of opts = Inr view" "ask_approval env opts view = Inr True" "ts_disk s1 = ts_disk s"
        "bindL (authorise env opts) (\<lambda>_. bindL (apply_step env opts) (\<lambda>_. finish_patch env opts)) s1 = (s', r)"
  using assms unfolding runPatchFlow_def
proof (cases rule: bindL_split)
  case (stop e)
  with disk_frame.obeysD [OF disk_frame_flow(1) stop(1)] stopped show ?thesis by simp
next
  case (go s1 x)
  note d1 = disk_frame.obeysD [OF disk_frame_flow(1) go(1)]
  from go(2) show ?thesis
  proof (cases rule: bindL_split)
    case (stop e)
    with d1 stopped show ?thesis by (simp add: liftL_eq)
  next
    case (go s2 view)
    then have s2: "s2 = s1" and view: "patch_view_of opts = Inr view" by (simp_all add: liftL_eq)
    from go(2) show ?thesis
    proof (cases rule: bindL_split)
      case (stop e)
      with d1 s2 stopped show ?thesis by (simp add: liftL_eq)
    next
      case (go s3 ok)
      then have s3: "s3 = s1" and ask: "ask_approval env opts view = Inr ok" using s2 by (simp_all add: liftL_eq)
      from go(2) show ?thesis
      proof (cases rule: bindL_split)
        case (stop e)
        with d1 s3 disk_frame.obeysD [OF disk_frame_flow(4) stop(1)] stopped show ?thesis by simp
      next
        case (go s4 u)
        with d1 s3 disk_frame.obeysD [OF disk_frame_flow(4) go(1)] have d4: "ts_disk s4 = ts_disk s" by simp
        show ?thesis
        proof (cases ok)
          case True
          with go(2) view ask d4 approved show ?thesis by simp
        next
          case False
          with go(2) have rej: "reject_patch env opts s4 = (s', r)" by simp
          with disk_frame.obeysD [OF disk_frame_flow(6) rej] d4 have d: "ts_disk s' = ts_disk s" by simp
          have out: "rt_outcome x = TaskRejected" if "r = Inr x" for x
            using rej that by (auto simp: reject_patch_def bindL_Inr liftL_eq flow_result_def)
          show ?thesis using rejected [OF d view _ out] ask False by simp
        qed
      qed
    qed
  qed
qed

lemma check_revision_Inr:
  assumes "check_revision env opts s = (s', Inr u)"
  shows "\<exists>sn. te_snapshot env (fo_projectRoot opts) (fo_objective opts) (ts_disk s) = Inr sn \<and> sn_revision sn = fo_revision opts"
  using assms by (auto simp: check_revision_def bindL_Inr read_disk_def liftL_eq split: if_splits)

lemma authorise_Inr:
  assumes "authorise env opts s = (s', Inr u)" and "\<not> resumes_patch (fo_phase opts)"
  shows "\<exists>sn. te_snapshot env (fo_projectRoot opts) (fo_objective opts) (ts_disk s) = Inr sn \<and> sn_revision sn = fo_revision opts"
proof -
  from assms obtain s1 v where "check_revision env opts s = (s1, Inr v)" by (auto simp: authorise_def bindL_Inr)
  then show ?thesis by (rule check_revision_Inr)
qed


section \<open>What an approved patch leaves on the disk\<close>

lemma write_files_Inr:
  assumes "write_files env opts fs s = (s', Inr u)"
  shows "applyPreparedFiles (te_os env) (en_engine (te_loop env)) (resolve_path [] (fo_projectRoot opts)) fs (ts_disk s)
     = (ts_disk s', Inr ())"
proof -
  from assms obtain s1 s2 s3 v where "task_aborted env 1 s = (s1, Inr ())"
    and w: "on_disk (applyPreparedFiles (te_os env) (en_engine (te_loop env)) (resolve_path [] (fo_projectRoot opts)) fs) s1 = (s2, Inr ())"
    and j: "journal env opts PsApplied s2 = (s3, Inr ())" "save_phase env opts PatchApplied s3 = (s', Inr v)"
    unfolding write_files_def by (auto simp: bindL_Inr)
  then have "s1 = s" by (simp add: task_aborted_def liftL_eq)
  moreover have "ts_disk s' = ts_disk s2"
    using disk_frame.obeysD [OF disk_frame_flow(1) j(1)] disk_frame.obeysD [OF disk_frame_flow(2) j(2)] by simp
  ultimately show ?thesis using w by (auto simp: on_disk_def split: prod.splits)
qed

lemma finish_patch_Inr:
  assumes "finish_patch env opts s = (s', Inr x)"
  shows "\<exists>c. te_diagnostics env (ts_disk s) = (ts_disk s', Inr (True, c))"
proof -
  from assms obtain s1 diag where d: "on_disk (te_diagnostics env) s = (s1, Inr diag)" "fst diag"
    and "\<exists>s2 v. complete_task env (fo_sessionId opts) (fo_requestId opts) True s1 = (s2, Inr v) \<and> s' = s2"
    unfolding finish_patch_def by (auto simp: bindL_Inr liftL_eq split: if_splits)
  then have "ts_disk s' = ts_disk s1" using disk_frame.obeysD [OF disk_frame_flow(3)] by blast
  with d show ?thesis by (cases diag) (auto simp: on_disk_def split: prod.splits)
qed

lemma apply_step_Inr:
  assumes "apply_step env opts s = (s', Inr u)" and "fo_phase opts \<noteq> Some PatchApplied"
  shows "\<exists>prepared. preparePatchedFiles (files_of (te_os env) (ts_disk s)) (resolve_path [] (fo_projectRoot opts))
       (fo_proposal opts) (document_of (fo_documents opts)) = Inr prepared
     \<and> applyPreparedFiles (te_os env) (en_engine (te_loop env)) (resolve_path [] (fo_projectRoot opts))
         (filter (\<lambda>f. pf_before f \<noteq> pf_after f) prepared) (ts_disk s) = (ts_disk s', Inr ())"
proof -
  from assms obtain s1 s2 prepared v where p: "prepare_step env opts s = (s1, Inr prepared)"
    and c: "(if resumes_patch (fo_phase opts) \<and> length (filter (\<lambda>f. pf_before f \<noteq> pf_after f) prepared) = length prepared
       then check_revision env opts else liftL (Inr ())) s1 = (s2, Inr v)"
    and w: "write_files env opts (filter (\<lambda>f. pf_before f \<noteq> pf_after f) prepared) s2 = (s', Inr u)"
    unfolding apply_step_def Let_def by (auto simp: bindL_Inr)
  have s1: "s1 = s" "preparePatchedFiles (files_of (te_os env) (ts_disk s)) (resolve_path [] (fo_projectRoot opts))
      (fo_proposal opts) (document_of (fo_documents opts)) = Inr prepared"
    using p by (auto simp: prepare_step_def read_disk_def)
  have "ts_disk s2 = ts_disk s"
    using c s1(1) disk_frame.obeysD [OF disk_frame_flow(5)] by (auto simp: liftL_eq split: if_splits)
  with write_files_Inr [OF w] s1(2) show ?thesis by auto
qed

lemma flow_completed:
  assumes "runPatchFlow env opts s = (s', Inr x)" and "rt_outcome x = TaskCompleted" and "fo_phase opts \<noteq> Some PatchApplied"
  obtains prepared d c where
    "preparePatchedFiles (files_of (te_os env) (ts_disk s)) (resolve_path [] (fo_projectRoot opts))
       (fo_proposal opts) (document_of (fo_documents opts)) = Inr prepared"
    "applyPreparedFiles (te_os env) (en_engine (te_loop env)) (resolve_path [] (fo_projectRoot opts))
       (filter (\<lambda>f. pf_before f \<noteq> pf_after f) prepared) (ts_disk s) = (d, Inr ())"
    "te_diagnostics env d = (ts_disk s', Inr (True, c))"
  using assms(1)
proof (cases rule: runPatchFlow_cases)
  case (rejected view)
  with assms(2) show ?thesis by simp
next
  case (approved view s1)
  then obtain s2 s3 u v where a: "authorise env opts s1 = (s2, Inr u)" and st: "apply_step env opts s2 = (s3, Inr v)"
    and fin: "finish_patch env opts s3 = (s', Inr x)" by (auto simp: bindL_Inr)
  have "ts_disk s2 = ts_disk s" using disk_frame.obeysD [OF disk_frame_flow(7) a] approved(3) by simp
  with apply_step_Inr [OF st assms(3)] obtain prepared where
    "preparePatchedFiles (files_of (te_os env) (ts_disk s)) (resolve_path [] (fo_projectRoot opts))
       (fo_proposal opts) (document_of (fo_documents opts)) = Inr prepared"
    "applyPreparedFiles (te_os env) (en_engine (te_loop env)) (resolve_path [] (fo_projectRoot opts))
       (filter (\<lambda>f. pf_before f \<noteq> pf_after f) prepared) (ts_disk s) = (ts_disk s3, Inr ())" by auto
  moreover obtain c where "te_diagnostics env (ts_disk s3) = (ts_disk s', Inr (True, c))"
    using finish_patch_Inr [OF fin] by blast
  ultimately show ?thesis by (rule that)
qed simp

text \<open>What the list of prepared files says, file by file.\<close>

definition prepared_from :: "files \<Rightarrow> secure_root \<Rightarrow> (string \<Rightarrow> project_document option) \<Rightarrow> proposed_edit list \<Rightarrow> string list
    \<Rightarrow> prepared_file list \<Rightarrow> bool" where
  "prepared_from fs root docs edits ids prepared =
     (distinct ids \<and> set ids = pe_documentId ` set edits \<and>
      list_all2 (\<lambda>i f. pending_ok fs root docs i f \<and> pf_after f = edited (base_text fs root docs) edits i) ids prepared)"

lemma prepared_nth:
  assumes "prepared_from fs root docs edits ids prepared" and "n < length prepared"
  shows "docs (ids ! n) = Some (pf_document (prepared ! n))" "pf_before (prepared ! n) = base_text fs root docs (ids ! n)"
    "pf_after (prepared ! n) = edited (base_text fs root docs) edits (ids ! n)" "n < length ids" "ids ! n \<in> pe_documentId ` set edits"
proof -
  have len: "n < length ids" using assms by (auto simp: prepared_from_def dest: list_all2_lengthD)
  with assms show "docs (ids ! n) = Some (pf_document (prepared ! n))" "pf_before (prepared ! n) = base_text fs root docs (ids ! n)"
      "pf_after (prepared ! n) = edited (base_text fs root docs) edits (ids ! n)"
    by (simp_all add: prepared_from_def list_all2_conv_all_nth pending_ok_def)
  show "n < length ids" by (rule len)
  then have "ids ! n \<in> set ids" by simp
  then show "ids ! n \<in> pe_documentId ` set edits" using assms(1) by (simp add: prepared_from_def)
qed

lemma prepared_targets_distinct:
  assumes "prepared_from fs root docs edits ids prepared"
    and inj: "\<forall>i j di dj. docs i = Some di \<and> docs j = Some dj \<and> target_path root di = target_path root dj \<longrightarrow> i = j"
  shows "distinct (map (\<lambda>f. target_path root (pf_document f)) prepared)"
  unfolding distinct_conv_nth length_map
proof (intro allI impI)
  fix m n assume mn: "m < length prepared" "n < length prepared" "m \<noteq> n"
  note m = prepared_nth [OF assms(1) mn(1)] and n = prepared_nth [OF assms(1) mn(2)]
  have "ids ! m \<noteq> ids ! n" using nth_eq_iff_index_eq [of ids m n] assms(1) m(4) n(4) mn(3) by (simp add: prepared_from_def)
  then have "target_path root (pf_document (prepared ! m)) \<noteq> target_path root (pf_document (prepared ! n))" using inj m(1) n(1) by blast
  then show "map (\<lambda>f. target_path root (pf_document f)) prepared ! m \<noteq> map (\<lambda>f. target_path root (pf_document f)) prepared ! n"
    using mn by simp
qed

lemma patch_target_document: "patch_target root (transaction_of f) = target_path root (pf_document f)"
  by (simp add: transaction_of_def target_path_def)

lemma edited_on_disk:
  assumes "prepared_from fs root docs edits ids prepared" and "i \<in> pe_documentId ` set edits"
    and "edited (base_text fs root docs) edits i \<noteq> base_text fs root docs i"
    and "\<forall>f \<in> set (map transaction_of (filter (\<lambda>f. pf_before f \<noteq> pf_after f) prepared)). replaced d0 d (patch_target root f) f"
  shows "\<exists>doc m. docs i = Some doc \<and> file_at d (target_path root doc) = Some (FileKind, m, utf8 (edited (base_text fs root docs) edits i))"
proof -
  have "length ids = length prepared" "i \<in> set ids"
    using assms(1,2) by (auto simp: prepared_from_def dest: list_all2_lengthD)
  then obtain n where n: "n < length prepared" "ids ! n = i" by (metis in_set_conv_nth)
  note f = prepared_nth [OF assms(1) n(1), unfolded n(2)]
  then have "prepared ! n \<in> set (filter (\<lambda>f. pf_before f \<noteq> pf_after f) prepared)" using n assms(3) by simp
  then have "replaced d0 d (target_path root (pf_document (prepared ! n))) (transaction_of (prepared ! n))"
    using assms(4) patch_target_document by auto
  then show ?thesis using f(1,3) by (auto simp: replaced_def transaction_of_def)
qed

lemma untouched_targets:
  assumes "prepared_from fs root docs edits ids prepared"
    and "\<forall>e \<in> set edits. \<forall>doc. docs (pe_documentId e) = Some doc \<longrightarrow> q \<noteq> target_path root doc"
  shows "q \<notin> patch_target root ` set (map transaction_of (filter P prepared))"
proof
  assume "q \<in> patch_target root ` set (map transaction_of (filter P prepared))"
  then obtain f where f: "f \<in> set prepared" "q = target_path root (pf_document f)" using patch_target_document by auto
  then obtain n where n: "n < length prepared" "f = prepared ! n" by (metis in_set_conv_nth)
  note p = prepared_nth [OF assms(1) n(1)]
  with assms(2) f(2) n(2) show False by auto
qed

text \<open>C3: an approved patch is what reaches the disk. When a task completes with its patch, the
  diagnostics ran on a disk on which every edited document has exactly the text that its edits, one
  after the other, make of its text at the start of the flow, and on which nothing else differs
  from that start, except for directories that were created. The disk is consistent, temporary
  files can be removed, and no two documents are the same file.\<close>

theorem approved_patch_on_disk:
  assumes "runPatchFlow env opts s = (s', Inr x)" and "rt_outcome x = TaskCompleted" and "fo_phase opts \<noteq> Some PatchApplied"
    and os: "removals_work (te_os env)" "os_ok (te_os env)" and ok: "disk_ok (ts_disk s)"
    and inj: "\<forall>root i j di dj. document_of (fo_documents opts) i = Some di \<and> document_of (fo_documents opts) j = Some dj
        \<and> target_path root di = target_path root dj \<longrightarrow> i = j"
  shows "\<exists>root d c. secureProjectRoot (files_of (te_os env) (ts_disk s)) (resolve_path [] (fo_projectRoot opts)) = Inr root
     \<and> te_diagnostics env d = (ts_disk s', Inr (True, c))
     \<and> (\<forall>i. i \<in> pe_documentId ` set (pp_edits (fo_proposal opts)) \<and>
          edited (base_text (files_of (te_os env) (ts_disk s)) root (document_of (fo_documents opts))) (pp_edits (fo_proposal opts)) i
            \<noteq> base_text (files_of (te_os env) (ts_disk s)) root (document_of (fo_documents opts)) i \<longrightarrow>
          (\<exists>doc m. document_of (fo_documents opts) i = Some doc \<and> file_at d (target_path root doc) = Some (FileKind, m,
             utf8 (edited (base_text (files_of (te_os env) (ts_disk s)) root (document_of (fo_documents opts)))
               (pp_edits (fo_proposal opts)) i))))
     \<and> (\<forall>q. (\<forall>e \<in> set (pp_edits (fo_proposal opts)). \<forall>doc. document_of (fo_documents opts) (pe_documentId e) = Some doc \<longrightarrow>
            q \<noteq> target_path root doc) \<longrightarrow>
          file_at d q = file_at (ts_disk s) q \<or> (file_at (ts_disk s) q = None \<and> (\<exists>m c. file_at d q = Some (DirKind, m, c))))"
proof -
  let ?fs = "files_of (te_os env) (ts_disk s)" let ?path = "resolve_path [] (fo_projectRoot opts)"
  let ?docs = "document_of (fo_documents opts)" let ?edits = "pp_edits (fo_proposal opts)"
  obtain prepared d c where p: "preparePatchedFiles ?fs ?path (fo_proposal opts) ?docs = Inr prepared"
    and a: "applyPreparedFiles (te_os env) (en_engine (te_loop env)) ?path (filter (\<lambda>f. pf_before f \<noteq> pf_after f) prepared) (ts_disk s)
       = (d, Inr ())" and diag: "te_diagnostics env d = (ts_disk s', Inr (True, c))"
    using assms(1-3) by (rule flow_completed)
  let ?files = "filter (\<lambda>f. pf_before f \<noteq> pf_after f) prepared"
  obtain root ids where root: "secureProjectRoot ?fs ?path = Inr root" and from_ids: "prepared_from ?fs root ?docs ?edits ids prepared"
    by (rule prepared_files [OF p files_of_ok [OF ok os(2)]]) (auto simp: prepared_from_def)
  have "distinct (map (\<lambda>f. target_path root (pf_document f)) ?files)"
    by (rule distinct_map_filter [OF prepared_targets_distinct [OF from_ids]]) (use inj in blast)
  then have "distinct (map (patch_target root) (map transaction_of ?files))" by (simp add: patch_target_document comp_def)
  then have finished: "\<forall>f \<in> set (map transaction_of ?files). replaced (ts_disk s) d (patch_target root f) f"
    and frame: "\<forall>q. q \<notin> patch_target root ` set (map transaction_of ?files) \<longrightarrow> file_at d q = file_at (ts_disk s) q \<or>
      (file_at (ts_disk s) q = None \<and> above_target root (map transaction_of ?files) q \<and> (\<exists>m c. file_at d q = Some (DirKind, m, c)))"
    using transaction_outcome [OF a os ok] root by auto
  have "\<forall>q. (\<forall>e \<in> set ?edits. \<forall>doc. ?docs (pe_documentId e) = Some doc \<longrightarrow> q \<noteq> target_path root doc) \<longrightarrow>
      file_at d q = file_at (ts_disk s) q \<or> (file_at (ts_disk s) q = None \<and> (\<exists>m c. file_at d q = Some (DirKind, m, c)))"
    using frame untouched_targets [OF from_ids] by blast
  with edited_on_disk [OF from_ids _ _ finished] root diag show ?thesis by blast
qed

section \<open>An interrupted patch\<close>

lemma first_edit_found:
  assumes "preparePatchedFiles fs path proposal documents = Inr prepared" and "pp_edits proposal = e # es"
    and "secureProjectRoot fs path = Inr root" and "documents (pe_documentId e) = Some doc"
    and "verifyPatchPath fs root (target_path root doc) = Inr (Some st)" and "fs_read fs (target_path root doc) = Some t"
  shows "indexOf t (pe_oldText e) 0 \<noteq> None"
proof
  assume "indexOf t (pe_oldText e) 0 = None"
  with assms(2-) have "\<exists>err. prepare_edit fs root documents [] e = Inl err"
    by (simp add: prepare_edit_def patchPath_def target_path_def [symmetric] existed_before_def edit_source_def
        current_text_def replace_exact_def)
  then obtain err where "prepare_edit fs root documents [] e = Inl err" by blast
  with assms(1-3) show False by (simp add: preparePatchedFiles_def)
qed


section \<open>A patch that goes through\<close>

text \<open>The rows a run has once it has begun.\<close>

definition run_ready :: "string \<Rightarrow> task_state \<Rightarrow> bool" where
  "run_ready sid s =
     (list_ex (\<lambda>c. ct_session c = sid) (rd_chats (ls_db (ts_loop s)))
      \<and> count_where (\<lambda>c. cp_session c = sid) (rd_checkpoints (ls_db (ts_loop s))) = 1)"

lemma journal_ok:
  assumes "run_ready (fo_sessionId opts) s"
  obtains s' where "journal env opts st s = (s', Inr ())" "run_ready (fo_sessionId opts) s'" "ts_disk s' = ts_disk s"
proof -
  have "\<exists>db'. recordPatch db (fo_sessionId opts) pid rev st payload now = Inr db' \<and> rd_chats db' = rd_chats db
      \<and> rd_checkpoints db' = rd_checkpoints db" if "list_ex (\<lambda>c. ct_session c = fo_sessionId opts) (rd_chats db)"
    for db :: run_db and pid rev payload now using that by (simp add: recordPatch_def)
  with assms obtain db where db: "recordPatch (ls_db (ts_loop s)) (fo_sessionId opts) (patch_id (fo_proposalDigest opts))
        (fo_revision opts) st (stringify (proposal_json (fo_proposal opts) (fo_proposalDigest opts))) (en_now (te_loop env)) = Inr db"
      "rd_chats db = rd_chats (ls_db (ts_loop s))" "rd_checkpoints db = rd_checkpoints (ls_db (ts_loop s))"
    unfolding run_ready_def by blast
  with assms show ?thesis
    by (intro that [of "s\<lparr>ts_loop := (ts_loop s)\<lparr>ls_db := db\<rparr>\<rparr>"])
      (simp_all add: journal_def on_db_def on_loop_def db_step_def run_ready_def)
qed

lemma count_update_same:
  "(\<And>x. P x \<Longrightarrow> Q (f x) = Q x) \<Longrightarrow> count_where Q (update_where P f xs) = count_where Q xs"
  by (induction xs) (auto simp: count_where_def update_where_def)

lemma save_phase_ok:
  assumes "run_ready (fo_sessionId opts) s"
  obtains s' where "save_phase env opts ph s = (s', Inr ())" "run_ready (fo_sessionId opts) s'" "ts_disk s' = ts_disk s"
proof -
  let ?db = "writeCheckpoint (ls_db (ts_loop s)) (fo_sessionId opts) (fo_generation opts)
    (stringify (checkpoint_json (fo_base opts) (fo_generation opts) ph (Some (fo_first opts)) (Some (fo_final opts)) None
      (fo_observationId opts))) (en_now (te_loop env))"
  from assms show ?thesis
    by (intro that [of "s\<lparr>ts_loop := (ts_loop s)\<lparr>ls_db := ?db\<rparr>\<rparr>"])
      (simp_all add: save_phase_def on_db_def on_loop_def db_step_def run_ready_def updateCheckpoint_def writeCheckpoint_def
        count_update_same)
qed

lemma bindL_ok: "step s = (s1, Inr x) \<Longrightarrow> bindL step f s = f x s1"
  by (simp add: bindL_def)

lemma authorise_ok:
  assumes "run_ready (fo_sessionId opts) s"
    and "te_snapshot env (fo_projectRoot opts) (fo_objective opts) (ts_disk s) = Inr sn" "sn_revision sn = fo_revision opts"
  obtains s' where "authorise env opts s = (s', Inr ())" "run_ready (fo_sessionId opts) s'" "ts_disk s' = ts_disk s"
proof (cases "resumes_patch (fo_phase opts)")
  case True
  obtain s1 where "journal env opts (if fo_phase opts = Some PatchApplied then PsApplied else PsApproved) s = (s1, Inr ())"
      "run_ready (fo_sessionId opts) s1" "ts_disk s1 = ts_disk s" by (rule journal_ok [OF assms(1)])
  with True that show ?thesis by (simp add: authorise_def)
next
  case False
  have c: "check_revision env opts s = (s, Inr ())"
    using assms(2,3) by (simp add: check_revision_def bindL_def read_disk_def liftL_def)
  obtain s1 where j: "journal env opts PsApproved s = (s1, Inr ())" "run_ready (fo_sessionId opts) s1" "ts_disk s1 = ts_disk s"
    by (rule journal_ok [OF assms(1)])
  obtain s2 where "save_phase env opts PatchApproved s1 = (s2, Inr ())" "run_ready (fo_sessionId opts) s2" "ts_disk s2 = ts_disk s1"
    by (rule save_phase_ok [OF j(2)])
  with False that j c show ?thesis by (simp add: authorise_def bindL_ok)
qed

lemma write_files_ok:
  assumes "run_ready (fo_sessionId opts) s" and "te_aborted env 1 = None"
    and "applyPreparedFiles (te_os env) (en_engine (te_loop env)) (resolve_path [] (fo_projectRoot opts)) fs (ts_disk s) = (d, Inr ())"
  obtains s' where "write_files env opts fs s = (s', Inr ())" "ts_disk s' = d"
proof -
  let ?s = "s\<lparr>ts_disk := d\<rparr>"
  have w: "on_disk (applyPreparedFiles (te_os env) (en_engine (te_loop env)) (resolve_path [] (fo_projectRoot opts)) fs) s = (?s, Inr ())"
    using assms(3) by (simp add: on_disk_def)
  have "run_ready (fo_sessionId opts) ?s" using assms(1) by (simp add: run_ready_def)
  then obtain s1 where j: "journal env opts PsApplied ?s = (s1, Inr ())" "run_ready (fo_sessionId opts) s1" "ts_disk s1 = ts_disk ?s"
    by (rule journal_ok)
  obtain s2 where p: "save_phase env opts PatchApplied s1 = (s2, Inr ())" "ts_disk s2 = ts_disk s1"
    by (rule save_phase_ok [OF j(2)])
  have "task_aborted env 1 s = (s, Inr ())" using assms(2) by (simp add: task_aborted_def liftL_def)
  with w j(1) p(1) have "write_files env opts fs s = (s2, Inr ())" by (simp add: write_files_def bindL_ok)
  with p(2) j(3) that show ?thesis by simp
qed

lemma complete_task_ok:
  obtains s' where "complete_task env sid rid b s = (s', Inr ())" "ts_disk s' = ts_disk s"
proof -
  obtain s' r where c: "complete_task env sid rid b s = (s', r)" by fastforce
  from complete_task_status [OF c] have "r = Inr ()" by simp
  with that c disk_frame.obeysD [OF disk_frame_flow(3) c] show ?thesis by blast
qed

lemma flow_completes:
  assumes ready: "run_ready (fo_sessionId opts) s" and view: "patch_view_of opts = Inr view" "ask_approval env opts view = Inr True"
    and rev: "te_snapshot env (fo_projectRoot opts) (fo_objective opts) (ts_disk s) = Inr sn" "sn_revision sn = fo_revision opts"
    and ab: "te_aborted env 0 = None" "te_aborted env 1 = None"
    and prep: "preparePatchedFiles (files_of (te_os env) (ts_disk s)) (resolve_path [] (fo_projectRoot opts))
       (fo_proposal opts) (document_of (fo_documents opts)) = Inr prepared"
    and run: "applyPreparedFiles (te_os env) (en_engine (te_loop env)) (resolve_path [] (fo_projectRoot opts))
       (filter (\<lambda>f. pf_before f \<noteq> pf_after f) prepared) (ts_disk s) = (d, Inr ())"
    and diag: "te_diagnostics env d = (d', Inr (True, c))" and ph: "fo_phase opts \<noteq> Some PatchApplied"
  shows "\<exists>s'. runPatchFlow env opts s = (s', Inr (flow_result opts TaskCompleted (Some (True, c)))) \<and> ts_disk s' = d'"
proof -
  obtain s1 where j: "journal env opts PsProposed s = (s1, Inr ())" "run_ready (fo_sessionId opts) s1" and d1: "ts_disk s1 = ts_disk s"
    by (rule journal_ok [OF ready])
  obtain s2 where a: "authorise env opts s1 = (s2, Inr ())" "run_ready (fo_sessionId opts) s2" and d2: "ts_disk s2 = ts_disk s1"
    by (rule authorise_ok [OF j(2) rev [folded d1]])
  obtain s3 where w: "write_files env opts (filter (\<lambda>f. pf_before f \<noteq> pf_after f) prepared) s2 = (s3, Inr ())" and d3: "ts_disk s3 = d"
    by (rule write_files_ok [OF a(2) ab(2)]) (use run d1 d2 in simp_all)
  have p: "prepare_step env opts s2 = (s2, Inr prepared)" using prep d1 d2 by (simp add: prepare_step_def read_disk_def)
  have "check_revision env opts s2 = (s2, Inr ())"
    using rev d1 d2 by (simp add: check_revision_def bindL_def read_disk_def liftL_def)
  then have st: "apply_step env opts s2 = (s3, Inr ())"
    using w ph by (simp add: apply_step_def p Let_def bindL_def liftL_def)
  let ?s = "s3\<lparr>ts_disk := d'\<rparr>"
  obtain s4 where c: "complete_task env (fo_sessionId opts) (fo_requestId opts) True ?s = (s4, Inr ())" and d4: "ts_disk s4 = d'"
    using complete_task_ok [of env "fo_sessionId opts" "fo_requestId opts" True ?s] by auto
  have "on_disk (te_diagnostics env) s3 = (?s, Inr (True, c))" using diag d3 by (simp add: on_disk_def)
  then have "finish_patch env opts s3 = (s4, Inr (flow_result opts TaskCompleted (Some (True, c))))"
    using c by (simp add: finish_patch_def bindL_def liftL_def)
  then have "runPatchFlow env opts s = (s4, Inr (flow_result opts TaskCompleted (Some (True, c))))"
    using j(1) view ab(1) a(1) st by (simp add: runPatchFlow_def bindL_def liftL_def task_aborted_def)
  with d4 show ?thesis by blast
qed


section \<open>A task\<close>

definition sample_task_env :: task_env where
  "sample_task_env =
     \<lparr>te_loop = sample_env, te_search = sample_search, te_os = sample_os None,
      te_snapshot = (\<lambda>root objective d. Inr \<lparr>sn_revision = ''v'', sn_stableContext = ''ev'',
        sn_documents = [pf_document (sample_prepared ''a'' ''x'' [])], sn_sha256 = ''h''\<rparr>),
      te_approval = (\<lambda>view. Inr True), te_aborted = (\<lambda>k. None), te_diagnostics = (\<lambda>d. (d, Inr (True, ''npm run check''))),
      te_authenticated = (\<lambda>p. Inr True), te_model = (\<lambda>p m. Inr \<lparr>md_id = m, md_api = ''x''\<rparr>),
      te_resources = (\<lambda>root. Inr \<lparr>rs_enabled = False, rs_contextDigest = ''sha256:disabled'', rs_skillContext = [],
        rs_globalInstructions = None\<rparr>),
      te_python = Inr (), te_uuid = (\<lambda>n. ''u'')\<rparr>"

definition sample_flow :: "checkpoint_phase option \<Rightarrow> string \<Rightarrow> string \<Rightarrow> flow_options" where
  "sample_flow phase old new =
     \<lparr>fo_proposal = \<lparr>pp_edits = [\<lparr>pe_documentId = ''doc_a'', pe_oldText = old, pe_newText = new\<rparr>], pp_assumptions = [],
        pp_verificationGoals = []\<rparr>,
      fo_proposalDigest = ''sha256:d'', fo_approve = False, fo_sessionId = ''s'', fo_requestId = ''r'', fo_projectRoot = ''/p'',
      fo_objective = ''fix'', fo_revision = ''v'', fo_documents = [pf_document (sample_prepared ''a'' ''x'' [])],
      fo_phase = phase, fo_base = sample_base, fo_generation = 1, fo_first = sample_result, fo_final = sample_result,
      fo_observationId = None, fo_usage = JNull\<rparr>"

definition sample_task_state :: task_state where
  "sample_task_state =
     \<lparr>ts_loop = \<lparr>ls_db = sample_run_db\<lparr>rd_chats := [\<lparr>ct_session = ''s'', ct_project = ''prj_a'', ct_status = ChRunning, ct_created = 0,
        ct_updated = 0\<rparr>]\<rparr>, ls_turns = []\<rparr>, ts_disk = sample_disk\<rparr>"

lemma sample_ready: "run_ready ''s'' sample_task_state"
  by (simp add: run_ready_def sample_task_state_def sample_run_db_def count_where_def)

lemma sample_flow_prepared:
  "preparePatchedFiles (files_of (sample_os None) sample_disk) (resolve_path [] ''/p'') (fo_proposal (sample_flow None ''x'' ''xx''))
     (document_of (fo_documents (sample_flow None ''x'' ''xx''))) = Inr sample_patch"
  by code_simp

lemma sample_root: "resolve_path [] ''/p'' = [''p'']"
  by code_simp

lemma sample_view: "\<exists>view. patch_view_of (sample_flow phase old new) = Inr view"
  by (simp add: patch_view_of_def sample_flow_def createPatchProposal_def edit_lines_def edit_path_def document_of_def sample_prepared_def)

lemma sample_flow_opts:
  "fo_sessionId (sample_flow ph old new) = ''s''" "fo_projectRoot (sample_flow ph old new) = ''/p''"
  "fo_revision (sample_flow ph old new) = ''v''" "fo_phase (sample_flow ph old new) = ph"
  "fo_approve (sample_flow ph old new) = False" "ts_disk sample_task_state = sample_disk"
  "te_os sample_task_env = sample_os None" "en_engine (te_loop sample_task_env) = (\<lambda>_. [])"
  by (simp_all add: sample_flow_def sample_task_state_def sample_task_env_def sample_env_def)

lemma sample_changed: "filter (\<lambda>f. pf_before f \<noteq> pf_after f) sample_patch = sample_patch"
  by (simp add: sample_patch_def sample_prepared_def)

lemma sample_patched:
  obtains d where "applyPreparedFiles (sample_os None) (\<lambda>_. []) [''p''] sample_patch sample_disk = (d, Inr ())"
    "d \<noteq> sample_disk"
proof -
  obtain d where d: "applyPreparedFiles (sample_os None) (\<lambda>_. []) [''p''] sample_patch sample_disk = (d, Inr ())"
    using sample_applied by (metis prod.collapse)
  have "d \<noteq> sample_disk"
  proof
    assume "d = sample_disk"
    with transaction_outcome [OF d sample_os_ok(2,1) sample_disk_ok] obtain root where
      "replaced sample_disk sample_disk (patch_target root (transaction_of (sample_prepared ''a'' ''x'' ''xx'')))
         (transaction_of (sample_prepared ''a'' ''x'' ''xx''))" by (auto simp: sample_patch_def)
    then show False by (auto simp: replaced_def transaction_of_def sample_prepared_def utf8_def)
  qed
  with d that show ?thesis by blast
qed


lemma sample_run:
  obtains s' x where "runPatchFlow sample_task_env (sample_flow None ''x'' ''xx'') sample_task_state = (s', Inr x)"
    "rt_outcome x = TaskCompleted" "ts_disk s' \<noteq> ts_disk sample_task_state"
proof -
  obtain d where d: "applyPreparedFiles (sample_os None) (\<lambda>_. []) [''p''] sample_patch sample_disk = (d, Inr ())"
    "d \<noteq> sample_disk" by (rule sample_patched)
  obtain view where view: "patch_view_of (sample_flow None ''x'' ''xx'') = Inr view" using sample_view by blast
  let ?sn = "\<lparr>sn_revision = ''v'', sn_stableContext = ''ev'', sn_documents = [pf_document (sample_prepared ''a'' ''x'' [])], sn_sha256 = ''h''\<rparr>"
  have "\<exists>s'. runPatchFlow sample_task_env (sample_flow None ''x'' ''xx'') sample_task_state
      = (s', Inr (flow_result (sample_flow None ''x'' ''xx'') TaskCompleted (Some (True, ''npm run check'')))) \<and> ts_disk s' = d"
    by (rule flow_completes [OF _ view, where sn = ?sn and prepared = sample_patch and d = d])
      (use d sample_ready sample_flow_prepared sample_root in
        \<open>simp_all add: sample_flow_opts ask_approval_def resumes_patch_def sample_changed, simp_all add: sample_task_env_def\<close>)
  then obtain s' where run: "runPatchFlow sample_task_env (sample_flow None ''x'' ''xx'') sample_task_state
      = (s', Inr (flow_result (sample_flow None ''x'' ''xx'') TaskCompleted (Some (True, ''npm run check''))))" "ts_disk s' = d" by blast
  show ?thesis by (rule that [OF run(1)]) (simp_all add: flow_result_def run(2) d(2) sample_flow_opts)
qed


definition sample_secure :: secure_root where
  "sample_secure = \<lparr>sr_path = [''p''], sr_device = 7, sr_inode = 1\<rparr>"

lemma sample_target: "secureProjectRoot (files_of (sample_os None) sample_disk) [''p''] = Inr sample_secure"
  by code_simp

lemma sample_verified:
  "verifyPatchPath (files_of (sample_os None) sample_disk) sample_secure
     (target_path sample_secure (pf_document (sample_prepared ''a'' ''x'' [])))
     = Inr (Some \<lparr>st_kind = FileKind, st_dev = 7, st_ino = 2, st_nlink = 1\<rparr>)"
  by code_simp

lemma sample_content:
  "fs_read (files_of (sample_os None) sample_disk)
     (target_path sample_secure (pf_document (sample_prepared ''a'' ''x'' []))) = Some ''x''"
  by code_simp


theorem approved_patch_on_disk_witness:
  "\<exists>s' x root d m. runPatchFlow sample_task_env (sample_flow None ''x'' ''xx'') sample_task_state = (s', Inr x)
     \<and> file_at d (target_path root (pf_document (sample_prepared ''a'' ''x'' []))) = Some (FileKind, m, utf8 ''xx'')"
proof -
  let ?docs = "document_of (fo_documents (sample_flow None ''x'' ''xx''))"
  let ?base = "base_text (files_of (sample_os None) sample_disk) sample_secure ?docs"
  let ?edits = "pp_edits (fo_proposal (sample_flow None ''x'' ''xx''))"
  have docs: "?docs i = (if i = ''doc_a'' then Some (pf_document (sample_prepared ''a'' ''x'' [])) else None)" for i
    by (simp add: sample_flow_def document_of_def sample_prepared_def)
  have base: "?base ''doc_a'' = ''x''" and edited: "edited ?base ?edits ''doc_a'' = ''xx''" by code_simp+
  have edit: "''doc_a'' \<in> pe_documentId ` set ?edits" by (simp add: sample_flow_def)
  obtain s' x where run: "runPatchFlow sample_task_env (sample_flow None ''x'' ''xx'') sample_task_state = (s', Inr x)"
    and out: "rt_outcome x = TaskCompleted" by (rule sample_run)
  have inj: "\<forall>root i j di dj. ?docs i = Some di \<and> ?docs j = Some dj \<and> target_path root di = target_path root dj \<longrightarrow> i = j"
    by (simp add: docs)
  note result = approved_patch_on_disk [OF run out, unfolded sample_flow_opts, OF _ sample_os_ok(2,1) sample_disk_ok inj,
      unfolded sample_root sample_target]
  then obtain d where "\<forall>i. i \<in> pe_documentId ` set ?edits \<and> edited ?base ?edits i \<noteq> ?base i \<longrightarrow>
      (\<exists>doc m. ?docs i = Some doc \<and> file_at d (target_path sample_secure doc)
         = Some (FileKind, m, utf8 (edited ?base ?edits i)))" by auto
  from this [rule_format, of "''doc_a''"] edit base edited docs run show ?thesis by auto
qed

definition sample_input :: task_input where
  "sample_input = \<lparr>ti_projectRoot = ''/p'', ti_objective = ''fix'', ti_images = [], ti_approve = False, ti_provider = None,
     ti_model = None, ti_accountId = None, ti_sessionId = None, ti_resume = None\<rparr>"

definition sample_start :: task_state where
  "sample_start = \<lparr>ts_loop = \<lparr>ls_db = \<lparr>rd_projects = [], rd_chats = [], rd_requests = [], rd_checkpoints = [], rd_outbox = [],
     rd_observations = [], rd_links = [], rd_patches = []\<rparr>, ls_turns = []\<rparr>, ts_disk = sample_disk\<rparr>"

lemma sample_project: "case projectId (JStr (''prj_'' @ take 24 (digest_text sample_bytes ''/p''))) of Inr p \<Rightarrow> True | Inl e \<Rightarrow> False"
  by code_simp

lemma sample_evidence:
  "compactContext sample_bytes (combined_context \<lparr>sn_revision = ''v'', sn_stableContext = ''ev'', sn_documents = ds, sn_sha256 = ''h''\<rparr> []) 4500
     = Inr ''ev''"
proof -
  have "int (estimateTokens ''ev'') \<le> 4500" by code_simp
  then show ?thesis by (simp add: combined_context_def compactContext_def)
qed

lemma sample_plan:
  obtains plan where "prepareTask sample_task_env sample_input sample_disk = Inr plan" "tp_recovered plan = None"
    "lo_requestId (tp_opts plan) = ''req_u''"
proof -
  obtain pid where "projectId (JStr (''prj_'' @ take 24 (digest_text sample_bytes ''/p''))) = Inr pid"
    using sample_project by (auto split: sum.splits)
  then have "\<exists>plan. prepareTask sample_task_env sample_input sample_disk = Inr plan \<and> tp_recovered plan = None
      \<and> lo_requestId (tp_opts plan) = ''req_u''"
    using sample_evidence
    by (simp add: prepareTask_def prepareProjectEvidence_def resumes_patch_def recovered_of_def pick_def or_else_def task_images_def
        resources_changed_def needs_provider_def Let_def sample_task_env_def sample_input_def sample_env_def)
  with that show ?thesis by blast
qed


end
