(* ===== verification/ReadExec.thy ===== *)
theory ReadExec
  imports Snapshot
begin

text \<open>
  Searching the project: \<open>searchProjectFiles\<close> of \<open>project-files.ts\<close>, with ripgrep or by reading the files, and
  the executor of \<open>capability-executor.ts\<close> with its cache of answers. What ripgrep prints, the clock, and the
  size and the decoded text of a file are parameters.
\<close>

section \<open>Searching files\<close>

definition MAX_MATCHES :: nat where "MAX_MATCHES = 200"
definition MAX_FILE_BYTES :: nat where "MAX_FILE_BYTES = 2 * 1024 * 1024"

datatype search_status = SearchCompleted | SearchFailed | SearchTimedOut

record search_result =
  sr_status :: search_status
  sr_lines :: "string list"
  sr_exitCode :: "int option"

record search_io =
  si_ripgrep :: "(process_result \<times> bool) option"
  si_tree :: "dir_entry list"
  si_collate :: "string \<Rightarrow> string \<Rightarrow> int"
  si_clock :: "nat \<Rightarrow> int"
  si_size :: "string \<Rightarrow> nat res"
  si_text :: "string \<Rightarrow> string res"

text \<open>\<open>replace(/\r\n?/gu, "\n")\<close>.\<close>

fun newlines :: "string \<Rightarrow> string" where
  "newlines [] = []"
| "newlines (c # cs) =
     (if c = CHR 0x0D then CHR 0x0A # newlines (if cs \<noteq> [] \<and> hd cs = CHR 0x0A then tl cs else cs) else c # newlines cs)"

definition trimEnd :: "string \<Rightarrow> string" where
  "trimEnd s = rev (dropWhile js_space (rev s))"

definition match_line :: "string \<Rightarrow> nat \<Rightarrow> string \<Rightarrow> string" where
  "match_line relativePath index l = ''./'' @ relativePath @ '':'' @ nat_str (Suc index) @ '':'' @ trimEnd l"

definition content_lines :: "string \<Rightarrow> string list" where
  "content_lines content = split_on (CHR 0x0A) (newlines content)"

definition file_matches :: "string \<Rightarrow> string \<Rightarrow> string \<Rightarrow> string list" where
  "file_matches query relativePath content =
     List.map_filter (\<lambda>(index, l). if str_includes l query then Some (match_line relativePath index l) else None)
       (enumerate 0 (content_lines content))"

text \<open>A file that is too large, or that cannot be read or decoded, is passed over.\<close>

definition searched :: "search_io \<Rightarrow> string \<Rightarrow> string \<Rightarrow> string list" where
  "searched io query relativePath =
     (case si_size io relativePath of
        Inl _ \<Rightarrow> []
      | Inr n \<Rightarrow>
          if MAX_FILE_BYTES < n then []
          else (case si_text io relativePath of Inl _ \<Rightarrow> [] | Inr content \<Rightarrow> file_matches query relativePath content))"

fun search_loop :: "search_io \<Rightarrow> string \<Rightarrow> int \<Rightarrow> nat \<Rightarrow> string list \<Rightarrow> string list \<Rightarrow> search_result" where
  "search_loop io query deadline k lines [] = \<lparr>sr_status = SearchCompleted, sr_lines = lines, sr_exitCode = None\<rparr>"
| "search_loop io query deadline k lines (p # ps) =
     (if deadline < si_clock io k then \<lparr>sr_status = SearchTimedOut, sr_lines = [], sr_exitCode = None\<rparr>
      else
        let found = lines @ searched io query p in
        if MAX_MATCHES \<le> length found
          then \<lparr>sr_status = SearchCompleted, sr_lines = take MAX_MATCHES found, sr_exitCode = None\<rparr>
        else search_loop io query deadline (Suc k) found ps)"

definition searchProjectFiles :: "search_io \<Rightarrow> string \<Rightarrow> int \<Rightarrow> search_result" where
  "searchProjectFiles io query timeoutMs =
     (case si_ripgrep io of
        Some (result, timedOut) \<Rightarrow>
          if timedOut then \<lparr>sr_status = SearchTimedOut, sr_lines = [], sr_exitCode = None\<rparr>
          else \<lparr>sr_status = (if px_status result = Some 0 \<or> px_status result = Some 1 then SearchCompleted else SearchFailed),
            sr_lines = filter (\<lambda>l. l \<noteq> []) (split_on (CHR 0x0A) (trim (case px_stdout result of None \<Rightarrow> [] | Some t \<Rightarrow> t))),
            sr_exitCode = px_status result\<rparr>
      | None \<Rightarrow> search_loop io query (si_clock io 0 + timeoutMs) 1 [] (walkProjectFiles (si_collate io) (si_tree io)))"

section \<open>The executor\<close>

record capability_execution = read_outcome +
  ex_executor :: "string option"
  ex_cacheHit :: "bool option"

type_synonym read_cache = "(string \<times> capability_execution) list"

definition plain_failure :: "outcome_status \<Rightarrow> string \<Rightarrow> capability_execution" where
  "plain_failure status summary = \<lparr>ro_status = status, ro_summary = summary, ro_matchCount = 0, ro_outputHashInput = [],
     ex_executor = None, ex_cacheHit = None\<rparr>"

definition queryOf :: "capability_invocation \<Rightarrow> string res" where
  "queryOf i =
     (case member (iv_input i) ''query'' of
        JStr q \<Rightarrow> if q = [] \<or> 512 < length q then Inl (Error (capability_name (iv_capability i) @ '' requires a bounded string query''))
          else Inr q
      | _ \<Rightarrow> Inl (Error (capability_name (iv_capability i) @ '' requires a bounded string query'')))"

definition cache_key :: "string \<Rightarrow> capability_id \<Rightarrow> string \<Rightarrow> string \<Rightarrow> string" where
  "cache_key projectRoot capability query revision =
     stringify (JArr [JStr projectRoot, JStr (capability_name capability), JStr query, JStr revision])"

definition exit_text :: "int option \<Rightarrow> string" where
  "exit_text code = (case code of None \<Rightarrow> ''unknown'' | Some n \<Rightarrow> int_str n)"

definition execution_of :: "(string \<Rightarrow> string \<Rightarrow> int) \<Rightarrow> search_result \<Rightarrow> capability_execution" where
  "execution_of collate result =
     (let lines = take 200 (sort_by collate (sr_lines result)); completed = (sr_status result = SearchCompleted) in
      \<lparr>ro_status = (if completed then Succeeded else FailedOutcome),
       ro_summary = (if completed
          then (if 0 < length lines then ''Found '' @ nat_str (length lines) @ '' exact matches'' else ''Search completed with no exact matches'')
          else ''Search failed with exit code '' @ exit_text (sr_exitCode result)),
       ro_matchCount = int (length lines), ro_outputHashInput = join [CHR 0x0A] lines,
       ex_executor = Some ''typescript'', ex_cacheHit = Some False\<rparr>)"

definition remember :: "read_cache \<Rightarrow> string \<Rightarrow> capability_execution \<Rightarrow> read_cache" where
  "remember cache key x = (let cache' = map_set cache key x in if 256 < length cache' then tl cache' else cache')"

definition clearReadCapabilityCache :: "read_cache \<Rightarrow> read_cache" where
  "clearReadCapabilityCache cache = []"

definition is_allow :: "policy_decision \<Rightarrow> bool" where
  "is_allow p = (case p of Allow _ \<Rightarrow> True | _ \<Rightarrow> False)"

definition search_or_cached :: "search_io \<Rightarrow> read_cache \<Rightarrow> string \<Rightarrow> string \<Rightarrow> int \<Rightarrow> read_cache \<times> capability_execution" where
  "search_or_cached io cache key query timeoutMs =
     (case map_of cache key of
        Some x \<Rightarrow> (cache, x\<lparr>ex_cacheHit := Some True\<rparr>)
      | None \<Rightarrow>
          let result = searchProjectFiles io query timeoutMs; x = execution_of (si_collate io) result in
          if sr_status result = SearchTimedOut then (cache, plain_failure TimedOut ''Search timed out'')
          else (remember cache key x, x))"

definition executeReadCapability :: "search_io \<Rightarrow> read_cache \<Rightarrow> capability_invocation \<Rightarrow> string \<Rightarrow> read_cache \<times> capability_execution res" where
  "executeReadCapability io cache i projectRoot =
     (if iv_effect i \<noteq> ReadEffect \<or> \<not> is_allow (iv_policy i)
        then (cache, Inr (plain_failure FailedOutcome ''Capability was not an allowed read''))
      else if iv_capability i \<noteq> SearchText \<and> iv_capability i \<noteq> SearchSymbol
        then (cache, Inr (plain_failure FailedOutcome
          (''Benchmark executor does not support '' @ capability_name (iv_capability i))))
      else case queryOf i of
        Inl e \<Rightarrow> (cache, Inl e)
      | Inr query \<Rightarrow>
          (case search_or_cached io cache (cache_key projectRoot (iv_capability i) query (iv_projectRevision i)) query (iv_timeoutMs i) of
             (cache', x) \<Rightarrow> (cache', Inr x)))"

section \<open>What a search reports\<close>

text \<open>The lines a search by reading would report without a limit.\<close>

definition all_matches :: "search_io \<Rightarrow> string \<Rightarrow> string list" where
  "all_matches io query = concat (map (searched io query) (walkProjectFiles (si_collate io) (si_tree io)))"

lemma search_loop_result:
  "length lines < MAX_MATCHES \<Longrightarrow> r = search_loop io query deadline k lines ps \<Longrightarrow>
     (sr_status r = SearchTimedOut \<and> sr_lines r = [])
     \<or> (sr_status r = SearchCompleted \<and> sr_lines r = take MAX_MATCHES (lines @ concat (map (searched io query) ps)))"
proof (induction io query deadline k lines ps arbitrary: r rule: search_loop.induct)
  case (2 io query deadline k lines p ps)
  consider "deadline < si_clock io k" | "\<not> deadline < si_clock io k" "MAX_MATCHES \<le> length (lines @ searched io query p)"
    | "\<not> deadline < si_clock io k" "\<not> MAX_MATCHES \<le> length (lines @ searched io query p)" by blast
  then show ?case
  proof cases
    case 1
    with 2(3) show ?thesis by simp
  next
    case c: 2
    with 2(3) show ?thesis by (simp add: Let_def)
  next
    case c: 3
    with 2(1) [OF c(1) refl c(2) _ refl] 2(3) show ?thesis by (simp add: Let_def)
  qed
qed simp


text \<open>What a reported line says is true. Every line of the search is the path of a walked file that could
  be read, the number of one of its lines, and that line, which contains the query.\<close>

lemma all_matches_sound:
  assumes "l \<in> set (all_matches io query)"
  shows "\<exists>p content n. p \<in> set (walkProjectFiles (si_collate io) (si_tree io)) \<and> si_text io p = Inr content
     \<and> n < length (content_lines content) \<and> str_includes (content_lines content ! n) query \<and> l = match_line p n (content_lines content ! n)"
proof -
  from assms obtain p where p: "p \<in> set (walkProjectFiles (si_collate io) (si_tree io))" "l \<in> set (searched io query p)"
    by (auto simp: all_matches_def)
  then obtain content where c: "si_text io p = Inr content" "l \<in> set (file_matches query p content)"
    by (auto simp: searched_def split: sum.splits if_splits)
  then show ?thesis using p(1)
    by (fastforce simp: file_matches_def map_filter_def in_set_enumerate_eq split: if_splits)
qed

section \<open>The cache\<close>

definition cache_inv :: "read_cache \<Rightarrow> bool" where
  "cache_inv cache = (distinct (map fst cache) \<and> length cache \<le> 256
     \<and> list_all (\<lambda>(k, x). ro_status x \<noteq> TimedOut \<and> ro_matchCount x \<le> 200 \<and> ex_cacheHit x = Some False) cache)"

type_synonym read_call = "search_io \<times> capability_invocation \<times> string"

definition cache_step :: "read_cache \<Rightarrow> read_call \<Rightarrow> read_cache res" where
  "cache_step cache call = (case call of (io, i, projectRoot) \<Rightarrow> Inr (fst (executeReadCapability io cache i projectRoot)))"

lemma cache_step_eq: "cache_step cache (io, i, root) = Inr (fst (executeReadCapability io cache i root))"
  by (simp add: cache_step_def)

lemma map_set_new: "map_of m k = None \<Longrightarrow> map_set m k v = m @ [(k, v)]"
  by (induction m k v rule: map_set.induct) (auto split: if_splits)

lemma execution_of_ok: "ro_status (execution_of c r) \<noteq> TimedOut" "ro_matchCount (execution_of c r) \<le> 200"
    "ex_cacheHit (execution_of c r) = Some False"
  by (simp_all add: execution_of_def Let_def)

lemma remember_new:
  assumes "map_of cache key = None"
  shows "set (remember cache key x) \<subseteq> insert (key, x) (set cache)" "cache_inv cache \<Longrightarrow> length (remember cache key x) \<le> 256"
    "distinct (map fst cache) \<Longrightarrow> distinct (map fst (remember cache key x))"
proof -
  have r: "remember cache key x = (if 256 < length (cache @ [(key, x)]) then tl (cache @ [(key, x)]) else cache @ [(key, x)])"
    by (simp add: remember_def map_set_new [OF assms] Let_def)
  show "set (remember cache key x) \<subseteq> insert (key, x) (set cache)"
    unfolding r by (cases cache) auto
  show "cache_inv cache \<Longrightarrow> length (remember cache key x) \<le> 256" unfolding r by (simp add: cache_inv_def)
  have "key \<notin> fst ` set cache" using assms by (simp add: map_of_eq_None_iff)
  then show "distinct (map fst cache) \<Longrightarrow> distinct (map fst (remember cache key x))"
    unfolding r by (auto simp: map_tl distinct_tl)
qed

text \<open>An execution answers without a search, from the cache, or by a search that it may remember.\<close>

lemma execute_cases:
  assumes "executeReadCapability io cache i projectRoot = (cache', r)"
  obtains (plain) "cache' = cache" "\<And>x. r = Inr x \<Longrightarrow> ex_cacheHit x = None"
    | (hit) query x where "queryOf i = Inr query" "cache' = cache" "r = Inr (x\<lparr>ex_cacheHit := Some True\<rparr>)"
        "(cache_key projectRoot (iv_capability i) query (iv_projectRevision i), x) \<in> set cache"
    | (search) query where "queryOf i = Inr query"
        "map_of cache (cache_key projectRoot (iv_capability i) query (iv_projectRevision i)) = None"
        "r = Inr (execution_of (si_collate io) (searchProjectFiles io query (iv_timeoutMs i)))"
        "cache' = remember cache (cache_key projectRoot (iv_capability i) query (iv_projectRevision i))
           (execution_of (si_collate io) (searchProjectFiles io query (iv_timeoutMs i)))"
proof (cases "(iv_effect i \<noteq> ReadEffect \<or> \<not> is_allow (iv_policy i)) \<or> (iv_capability i \<noteq> SearchText \<and> iv_capability i \<noteq> SearchSymbol)")
  case True
  with assms have "cache' = cache \<and> (\<exists>st m. r = Inr (plain_failure st m))"
    unfolding executeReadCapability_def by (auto split: if_splits)
  then show ?thesis by (intro plain) (auto simp: plain_failure_def)
next
  case False
  then have c: "(iv_effect i \<noteq> ReadEffect \<or> \<not> is_allow (iv_policy i)) = False"
    "(iv_capability i \<noteq> SearchText \<and> iv_capability i \<noteq> SearchSymbol) = False" by auto
  note run = assms [unfolded executeReadCapability_def c if_False]
  show ?thesis
  proof (cases "queryOf i")
    case (Inl e)
    with run show ?thesis by (intro plain) auto
  next
    case (Inr query)
    let ?key = "cache_key projectRoot (iv_capability i) query (iv_projectRevision i)"
    let ?result = "searchProjectFiles io query (iv_timeoutMs i)"
    obtain x where step: "search_or_cached io cache ?key query (iv_timeoutMs i) = (cache', x)" and r: "r = Inr x"
      using run Inr by (auto split: prod.splits)
    show ?thesis
    proof (cases "map_of cache ?key")
      case (Some y)
      with step r have "cache' = cache" "r = Inr (y\<lparr>ex_cacheHit := Some True\<rparr>)" by (simp_all add: search_or_cached_def)
      then show ?thesis using map_of_SomeD [OF Some] Inr by (intro hit)
    next
      case None
      show ?thesis
      proof (cases "sr_status ?result = SearchTimedOut")
        case True
        with step r None show ?thesis by (intro plain) (auto simp: search_or_cached_def plain_failure_def)
      next
        case False
        with step r None have "cache' = remember cache ?key (execution_of (si_collate io) ?result)"
            "r = Inr (execution_of (si_collate io) ?result)" by (auto simp: search_or_cached_def Let_def)
        then show ?thesis using None Inr by (intro search)
      qed
    qed
  qed
qed

lemma cache_step_inv: "cache_inv cache \<Longrightarrow> cache_step cache call = Inr cache' \<Longrightarrow> cache_inv cache'"
proof -
  assume ok: "cache_inv cache" and step: "cache_step cache call = Inr cache'"
  obtain io i root where call: "call = (io, i, root)" by (cases call) auto
  obtain r where "executeReadCapability io cache i root = (cache', r)"
    using step call by (cases "executeReadCapability io cache i root") (simp add: cache_step_def)
  then show ?thesis
  proof (cases rule: execute_cases)
    case (search query)
    note new = remember_new [OF search(2), of "execution_of (si_collate io) (searchProjectFiles io query (iv_timeoutMs i))"]
    have "\<forall>(k, x) \<in> set cache'. ro_status x \<noteq> TimedOut \<and> ro_matchCount x \<le> 200 \<and> ex_cacheHit x = Some False"
      using new(1) ok execution_of_ok unfolding search(4) cache_inv_def list_all_iff by fastforce
    then show ?thesis using new(2,3) ok unfolding search(4) cache_inv_def list_all_iff by simp
  qed (use ok in simp_all)
qed

interpretation reads: invariant_machine cache_step cache_inv
  by unfold_locales (rule cache_step_inv)

text \<open>The cache of searches stays small and clean. Under every sequence of calls it has at most 256
  entries with different keys, an answer that timed out is never in it, and no answer has more than two
  hundred matches.\<close>

theorem read_cache_invariant: "cache_inv (exec_ops cache_step [] calls)"
  by (rule reads.exec_inv) (simp add: cache_inv_def)

text \<open>A cleared cache answers nothing, and what follows keeps the invariant.\<close>

lemma cleared_cache: "cache_inv (exec_ops cache_step (clearReadCapabilityCache cache) calls)"
  "map_of (clearReadCapabilityCache cache) key = None"
  by (rule reads.exec_inv) (simp_all add: clearReadCapabilityCache_def cache_inv_def)

text \<open>Where the entries come from.\<close>

definition searched_by :: "read_call \<Rightarrow> string \<Rightarrow> capability_execution \<Rightarrow> bool" where
  "searched_by call key x = (case call of (io, i, root) \<Rightarrow>
     \<exists>query. queryOf i = Inr query \<and> key = cache_key root (iv_capability i) query (iv_projectRevision i)
       \<and> x = execution_of (si_collate io) (searchProjectFiles io query (iv_timeoutMs i)))"

lemma cache_origin:
  "(key, x) \<in> set (exec_ops cache_step cache calls) \<Longrightarrow> (key, x) \<in> set cache \<or> (\<exists>call \<in> set calls. searched_by call key x)"
proof (induction calls arbitrary: cache)
  case (Cons call calls)
  obtain io i root where call: "call = (io, i, root)" by (cases call) auto
  obtain cache' r where run: "executeReadCapability io cache i root = (cache', r)" by fastforce
  then have "(key, x) \<in> set (exec_ops cache_step cache' calls)" using Cons.prems call by (simp add: cache_step_eq)
  from Cons.IH [OF this] consider "(key, x) \<in> set cache'" | "\<exists>call \<in> set calls. searched_by call key x" by blast
  then show ?case
  proof cases
    case 1
    from run show ?thesis
    proof (cases rule: execute_cases)
      case (search query)
      with 1 remember_new(1) [OF search(2)] show ?thesis by (auto simp: searched_by_def call)
    qed (use 1 in simp_all)
  qed simp
qed simp

lemma cache_key_inject:
  "cache_key root c q v = cache_key root' c' q' v' \<longleftrightarrow> root = root' \<and> c = c' \<and> q = q' \<and> v = v'"
  unfolding cache_key_def
  using json_text.encode_inject [of "JArr [JStr root, JStr (capability_name c), JStr q, JStr v]"
      "JArr [JStr root', JStr (capability_name c'), JStr q', JStr v']"]
  by (auto simp: capability_name_inject)

text \<open>C21: a cached answer is the answer of a search. After any sequence of calls, an answer that is marked as
  taken from the cache is what a search gave earlier in the sequence for the same project, capability,
  query and revision.\<close>

theorem cached_answer_was_searched:
  assumes "executeReadCapability io (exec_ops cache_step [] calls) i root = (cache, Inr x)" and "ex_cacheHit x = Some True"
  shows "\<exists>io' i' query. (io', i', root) \<in> set calls \<and> queryOf i = Inr query \<and> queryOf i' = Inr query
     \<and> iv_capability i' = iv_capability i \<and> iv_projectRevision i' = iv_projectRevision i
     \<and> x = (execution_of (si_collate io') (searchProjectFiles io' query (iv_timeoutMs i')))\<lparr>ex_cacheHit := Some True\<rparr>"
  using assms(1)
proof (cases rule: execute_cases)
  case (hit query y)
  have "(\<exists>call \<in> set calls. searched_by call (cache_key root (iv_capability i) query (iv_projectRevision i)) y)"
    using cache_origin [OF hit(4)] by simp
  then obtain io' i' root' query' where "(io', i', root') \<in> set calls" "queryOf i' = Inr query'"
    "cache_key root (iv_capability i) query (iv_projectRevision i) = cache_key root' (iv_capability i') query' (iv_projectRevision i')"
    "y = execution_of (si_collate io') (searchProjectFiles io' query' (iv_timeoutMs i'))"
    by (auto simp: searched_by_def)
  then show ?thesis using hit(1,3) unfolding cache_key_inject by auto
next
  case (search query)
  with assms(2) execution_of_ok(3) show ?thesis by simp
qed (use assms(2) in auto)

text \<open>A failed search is remembered. When ripgrep fails once, the same query is answered with that
  failure, without a search, as long as the entry is in the cache, whatever a search would give now.\<close>

theorem failed_search_is_remembered:
  assumes "executeReadCapability io [] i root = (cache, Inr x)" and "iv_effect i = ReadEffect" and "is_allow (iv_policy i)"
    and "iv_capability i = SearchText" and "queryOf i = Inr query" and "sr_status (searchProjectFiles io query (iv_timeoutMs i)) = SearchFailed"
  shows "ro_status x = FailedOutcome \<and> executeReadCapability io' cache i root = (cache, Inr (x\<lparr>ex_cacheHit := Some True\<rparr>))"
proof -
  let ?key = "cache_key root SearchText query (iv_projectRevision i)"
  let ?x = "execution_of (si_collate io) (searchProjectFiles io query (iv_timeoutMs i))"
  have "executeReadCapability io [] i root = ([(?key, ?x)], Inr ?x)"
    using assms(2-6) by (simp add: executeReadCapability_def search_or_cached_def remember_def Let_def)
  then have "cache = [(?key, ?x)]" "x = ?x" using assms(1) by simp_all
  then show ?thesis using assms(2-6)
    by (simp add: executeReadCapability_def search_or_cached_def) (simp add: execution_of_def Let_def)
qed

section \<open>A search\<close>

definition sample_search_io :: "(process_result \<times> bool) option \<Rightarrow> search_io" where
  "sample_search_io rg = \<lparr>si_ripgrep = rg, si_tree = sample_tree, si_collate = pj_collate sample_io, si_clock = (\<lambda>k. 0),
     si_size = (\<lambda>p. Inr 3), si_text = (\<lambda>p. Inr ''abc'')\<rparr>"

definition sample_invocation :: capability_invocation where
  "sample_invocation = \<lparr>iv_invocationId = ''i'', iv_logicalCallId = ''l'', iv_capability = SearchText, iv_capabilityVersion = ''1'',
     iv_effect = ReadEffect, iv_cache = CacheRevision, iv_timeoutMs = 10, iv_maxAttempts = 1, iv_idempotencyKey = ''k'',
     iv_input = JObj [(''query'', JStr ''b'')], iv_projectRevision = ''v'', iv_observationDigests = [], iv_policy = Allow ''p''\<rparr>"

definition failed_ripgrep :: process_result where
  "failed_ripgrep = \<lparr>px_status = Some 2, px_stdout = Some [], px_stderr = Some []\<rparr>"

lemma sample_query: "queryOf sample_invocation = Inr ''b''"
  by (simp add: queryOf_def sample_invocation_def member_def get_prop_def)


lemma failed_search: "sr_status (searchProjectFiles (sample_search_io (Some (failed_ripgrep, False))) q t) = SearchFailed"
  by (simp add: searchProjectFiles_def sample_search_io_def failed_ripgrep_def)

lemma first_search:
  obtains cache x where "executeReadCapability (sample_search_io (Some (failed_ripgrep, False))) [] sample_invocation ''/p'' = (cache, Inr x)"
    "map_of cache (cache_key ''/p'' SearchText ''b'' ''v'') \<noteq> None"
proof -
  have "iv_effect sample_invocation = ReadEffect" "is_allow (iv_policy sample_invocation)" "iv_capability sample_invocation = SearchText"
      "iv_projectRevision sample_invocation = ''v''"
    by (simp_all add: sample_invocation_def is_allow_def)
  with that show ?thesis
    by (simp add: executeReadCapability_def search_or_cached_def remember_def sample_query failed_search Let_def)
qed

theorem failed_search_is_remembered_witness:
  "\<exists>cache x. executeReadCapability (sample_search_io (Some (failed_ripgrep, False))) [] sample_invocation ''/p'' = (cache, Inr x)
     \<and> executeReadCapability (sample_search_io None) cache sample_invocation ''/p'' = (cache, Inr (x\<lparr>ex_cacheHit := Some True\<rparr>))"
proof -
  obtain cache x where run: "executeReadCapability (sample_search_io (Some (failed_ripgrep, False))) [] sample_invocation ''/p'' = (cache, Inr x)"
    by (rule first_search)
  have "iv_effect sample_invocation = ReadEffect" "is_allow (iv_policy sample_invocation)" "iv_capability sample_invocation = SearchText"
    by (simp_all add: sample_invocation_def is_allow_def)
  from failed_search_is_remembered [OF run this sample_query failed_search] run show ?thesis by blast
qed

theorem cached_answer_was_searched_witness:
  "\<exists>cache x io' i' query. executeReadCapability (sample_search_io None)
       (exec_ops cache_step [] [(sample_search_io (Some (failed_ripgrep, False)), sample_invocation, ''/p'')]) sample_invocation ''/p'' = (cache, Inr x)
     \<and> (io', i', ''/p'') \<in> set [(sample_search_io (Some (failed_ripgrep, False)), sample_invocation, ''/p'')] \<and> queryOf i' = Inr query"
proof -
  let ?calls = "[(sample_search_io (Some (failed_ripgrep, False)), sample_invocation, ''/p'')]"
  obtain cache x where run: "executeReadCapability (sample_search_io (Some (failed_ripgrep, False))) [] sample_invocation ''/p'' = (cache, Inr x)"
    and hit: "map_of cache (cache_key ''/p'' SearchText ''b'' ''v'') \<noteq> None" by (rule first_search)
  have after: "exec_ops cache_step [] ?calls = cache" using run by (simp add: cache_step_eq)
  have fields: "iv_effect sample_invocation = ReadEffect" "is_allow (iv_policy sample_invocation)" "iv_capability sample_invocation = SearchText"
      "iv_projectRevision sample_invocation = ''v''" by (simp_all add: sample_invocation_def is_allow_def)
  obtain y where again: "executeReadCapability (sample_search_io None) (exec_ops cache_step [] ?calls) sample_invocation ''/p''
      = (cache, Inr (y\<lparr>ex_cacheHit := Some True\<rparr>))"
    using hit unfolding after by (auto simp: executeReadCapability_def search_or_cached_def sample_query fields)
  from cached_answer_was_searched [OF this] again show ?thesis by auto
qed

end
