(* ===== verification/Diagnostics.thy ===== *)
theory Diagnostics
  imports Snapshot
begin

text \<open>
  The check after a patch: \<open>coding-runtime-diagnostics.ts\<close>. Which command is run is decided by the options and
  the project's \<open>package.json\<close>; the process itself is a parameter.
\<close>

record diagnostics_invocation =
  di_command :: string
  di_executable :: string
  di_args :: "string list"

record diagnostics_options =
  do_strict :: bool
  do_windows :: bool
  do_comspec :: "string option"

record diagnostics_result =
  dr_success :: bool
  dr_command :: string
  dr_output :: string

definition whitespace_check :: diagnostics_invocation where
  "whitespace_check = \<lparr>di_command = ''git diff --check'', di_executable = ''git'', di_args = [''diff'', ''--check'']\<rparr>"

definition test_script :: "diagnostics_options \<Rightarrow> diagnostics_invocation" where
  "test_script opts =
     (if do_windows opts
        then \<lparr>di_command = ''npm test'', di_executable = (case do_comspec opts of Some c \<Rightarrow> c | None \<Rightarrow> ''cmd.exe''),
          di_args = [''/d'', ''/s'', ''/c'', ''npm test'']\<rparr>
      else \<lparr>di_command = ''npm test'', di_executable = ''npm'', di_args = [''test'']\<rparr>)"

text \<open>\<open>packageJson.scripts?.test\<close>: a property of \<open>null\<close> is an error.\<close>

definition has_test :: "json \<Rightarrow> bool res" where
  "has_test packageJson = (if packageJson = JNull then Inl TypeError else Inr (truthy (member (member packageJson ''scripts'') ''test'')))"

text \<open>\<open>package\<close> is the text of \<open>package.json\<close>, or \<open>None\<close> when there is none.\<close>

definition resolveDiagnosticsInvocation :: "string res option \<Rightarrow> diagnostics_options \<Rightarrow> diagnostics_invocation res" where
  "resolveDiagnosticsInvocation package opts =
     (case (if do_strict opts then None else package) of
        None \<Rightarrow> Inr whitespace_check
      | Some r \<Rightarrow>
          bindR r (\<lambda>t. bindR (JSON_parse t) (\<lambda>v. bindR (has_test v) (\<lambda>b.
          Inr (if b then test_script opts else whitespace_check)))))"

definition shown_text :: "string option \<Rightarrow> string" where
  "shown_text t = (case t of None \<Rightarrow> ''null'' | Some s \<Rightarrow> s)"

definition last_chars :: "nat \<Rightarrow> string \<Rightarrow> string" where
  "last_chars n s = drop (length s - n) s"

definition runDiagnostics :: "(diagnostics_invocation \<Rightarrow> process_result) \<Rightarrow> string res option \<Rightarrow> diagnostics_options \<Rightarrow> diagnostics_result res" where
  "runDiagnostics spawn package opts =
     bindR (resolveDiagnosticsInvocation package opts) (\<lambda>i.
     let result = spawn i in
     Inr \<lparr>dr_success = (px_status result = Some 0), dr_command = di_command i,
       dr_output = last_chars 16000 (trim (shown_text (px_stdout result) @ shown_text (px_stderr result)))\<rparr>)"

text \<open>A strict task never runs a script of the project. Whatever its \<open>package.json\<close> holds, even when it
  cannot be read, only \<open>git diff --check\<close> is spawned; without the option the project's own test script is
  spawned exactly when \<open>package.json\<close> names one. The output that is kept has at most 16000 characters.\<close>

theorem strict_runs_no_script:
  "(do_strict opts \<longrightarrow> runDiagnostics spawn package opts
      = Inr \<lparr>dr_success = (px_status (spawn whitespace_check) = Some 0), dr_command = ''git diff --check'',
          dr_output = last_chars 16000 (trim (shown_text (px_stdout (spawn whitespace_check)) @ shown_text (px_stderr (spawn whitespace_check))))\<rparr>)
   \<and> (resolveDiagnosticsInvocation package opts = Inr (test_script opts) \<longleftrightarrow>
      \<not> do_strict opts \<and> (\<exists>t v. package = Some (Inr t) \<and> JSON_parse t = Inr v \<and> has_test v = Inr True))
   \<and> (\<forall>r. runDiagnostics spawn package opts = Inr r \<longrightarrow> length (dr_output r) \<le> 16000)"
proof (intro conjI impI allI)
  show "runDiagnostics spawn package opts
      = Inr \<lparr>dr_success = (px_status (spawn whitespace_check) = Some 0), dr_command = ''git diff --check'',
          dr_output = last_chars 16000 (trim (shown_text (px_stdout (spawn whitespace_check)) @ shown_text (px_stderr (spawn whitespace_check))))\<rparr>"
    if "do_strict opts" using that by (simp add: runDiagnostics_def resolveDiagnosticsInvocation_def Let_def) (simp add: whitespace_check_def)
  have differ: "whitespace_check \<noteq> test_script opts" by (auto simp: whitespace_check_def test_script_def)
  show "resolveDiagnosticsInvocation package opts = Inr (test_script opts) \<longleftrightarrow>
      \<not> do_strict opts \<and> (\<exists>t v. package = Some (Inr t) \<and> JSON_parse t = Inr v \<and> has_test v = Inr True)"
    using differ by (auto simp: resolveDiagnosticsInvocation_def bindR_Inr_iff split: option.splits if_splits)
  show "length (dr_output r) \<le> 16000" if "runDiagnostics spawn package opts = Inr r" for r
    using that by (auto simp: runDiagnostics_def bindR_Inr_iff Let_def last_chars_def)
qed

theorem strict_runs_no_script_witness:
  "\<exists>r. runDiagnostics (\<lambda>i. \<lparr>px_status = Some 0, px_stdout = Some ''ok'', px_stderr = Some []\<rparr>) (Some (Inl TypeError))
       \<lparr>do_strict = True, do_windows = False, do_comspec = None\<rparr> = Inr r \<and> dr_command r = ''git diff --check'' \<and> dr_success r"
  using strict_runs_no_script [of "\<lparr>do_strict = True, do_windows = False, do_comspec = None\<rparr>"
      "\<lambda>i. \<lparr>px_status = Some 0, px_stdout = Some ''ok'', px_stderr = Some []\<rparr>" "Some (Inl TypeError)"]
  by simp

end
