(* ===== verification/SerialQueue.thy ===== *)
theory SerialQueue
  imports Prelude
begin

text \<open>
  The serial queue of \<open>project-serial-queue.ts\<close>, which the agent runtime uses to run one operation of a project at a
  time. A call of \<open>run\<close> makes a task that waits for the tail of its project and becomes the new tail; the
  event loop starts a task when its predecessor has settled, in whichever way, lets it settle, and removes
  the tail of a project when it has settled and is still the tail. These events interleave freely.
\<close>

section \<open>Tasks and events\<close>

datatype task_phase = Waiting | Running | Settled

record serial_task =
  st_project :: string
  st_previous :: "nat option"
  st_phase :: task_phase

record serial_queue =
  sq_tasks :: "serial_task list"
  sq_tails :: "string \<Rightarrow> nat option"

definition empty_queue :: serial_queue where
  "empty_queue = \<lparr>sq_tasks = [], sq_tails = (\<lambda>p. None)\<rparr>"

text \<open>\<open>run\<close>: the task is identified by its position.\<close>

definition run_task :: "string \<Rightarrow> serial_queue \<Rightarrow> serial_queue" where
  "run_task p q = q\<lparr>sq_tasks := sq_tasks q @ [\<lparr>st_project = p, st_previous = sq_tails q p, st_phase = Waiting\<rparr>],
     sq_tails := (sq_tails q)(p \<mapsto> length (sq_tasks q))\<rparr>"

definition phase_at :: "serial_queue \<Rightarrow> nat \<Rightarrow> task_phase" where
  "phase_at q i = st_phase (sq_tasks q ! i)"

definition set_phase :: "nat \<Rightarrow> task_phase \<Rightarrow> serial_queue \<Rightarrow> serial_queue" where
  "set_phase i ph q = q\<lparr>sq_tasks := (sq_tasks q)[i := (sq_tasks q ! i)\<lparr>st_phase := ph\<rparr>]\<rparr>"

definition ready :: "serial_queue \<Rightarrow> nat \<Rightarrow> bool" where
  "ready q i = (i < length (sq_tasks q) \<and> phase_at q i = Waiting \<and>
     (case st_previous (sq_tasks q ! i) of None \<Rightarrow> True | Some j \<Rightarrow> phase_at q j = Settled))"

definition drop_tail :: "nat \<Rightarrow> serial_queue \<Rightarrow> serial_queue" where
  "drop_tail i q = (let p = st_project (sq_tasks q ! i) in
     if sq_tails q p = Some i then q\<lparr>sq_tails := (sq_tails q)(p := None)\<rparr> else q)"

inductive queue_step :: "serial_queue \<Rightarrow> serial_queue \<Rightarrow> bool" where
  enter: "queue_step q (run_task p q)"
| start: "ready q i \<Longrightarrow> queue_step q (set_phase i Running q)"
| settle: "i < length (sq_tasks q) \<Longrightarrow> phase_at q i = Running \<Longrightarrow> queue_step q (set_phase i Settled q)"
| forget: "i < length (sq_tasks q) \<Longrightarrow> phase_at q i = Settled \<Longrightarrow> queue_step q (drop_tail i q)"

inductive_cases queue_step_from: "queue_step q q'"

section \<open>The invariant\<close>

definition earlier :: "serial_queue \<Rightarrow> nat \<Rightarrow> nat \<Rightarrow> bool" where
  "earlier q i j = (i < j \<and> j < length (sq_tasks q) \<and> st_project (sq_tasks q ! i) = st_project (sq_tasks q ! j))"

definition all_settled_before :: "serial_queue \<Rightarrow> nat \<Rightarrow> bool" where
  "all_settled_before q j = (\<forall>i. earlier q i j \<longrightarrow> phase_at q i = Settled)"

definition queue_inv :: "serial_queue \<Rightarrow> bool" where
  "queue_inv q =
     ((\<forall>j < length (sq_tasks q). phase_at q j \<noteq> Waiting \<longrightarrow> all_settled_before q j)
      \<and> (\<forall>j < length (sq_tasks q). st_previous (sq_tasks q ! j) = None \<longrightarrow> all_settled_before q j)
      \<and> (\<forall>j < length (sq_tasks q). \<forall>i. st_previous (sq_tasks q ! j) = Some i \<longrightarrow>
           earlier q i j \<and> (\<forall>k. earlier q k j \<longrightarrow> k \<le> i))
      \<and> (\<forall>j < length (sq_tasks q). sq_tails q (st_project (sq_tasks q ! j)) = None \<longrightarrow> phase_at q j = Settled)
      \<and> (\<forall>p i. sq_tails q p = Some i \<longrightarrow> i < length (sq_tasks q) \<and> st_project (sq_tasks q ! i) = p
           \<and> (\<forall>j < length (sq_tasks q). st_project (sq_tasks q ! j) = p \<longrightarrow> j \<le> i)))"

lemma queue_invD:
  assumes "queue_inv q"
  shows "j < length (sq_tasks q) \<Longrightarrow> phase_at q j \<noteq> Waiting \<Longrightarrow> all_settled_before q j"
    "j < length (sq_tasks q) \<Longrightarrow> st_previous (sq_tasks q ! j) = None \<Longrightarrow> all_settled_before q j"
    "j < length (sq_tasks q) \<Longrightarrow> st_previous (sq_tasks q ! j) = Some i \<Longrightarrow> earlier q i j \<and> (\<forall>k. earlier q k j \<longrightarrow> k \<le> i)"
    "j < length (sq_tasks q) \<Longrightarrow> sq_tails q (st_project (sq_tasks q ! j)) = None \<Longrightarrow> phase_at q j = Settled"
    "sq_tails q p = Some i \<Longrightarrow> i < length (sq_tasks q)" "sq_tails q p = Some i \<Longrightarrow> st_project (sq_tasks q ! i) = p"
    "sq_tails q p = Some i \<Longrightarrow> j < length (sq_tasks q) \<Longrightarrow> st_project (sq_tasks q ! j) = p \<Longrightarrow> j \<le> i"
  using assms unfolding queue_inv_def by blast+

lemma queue_invI:
  assumes "\<And>j. j < length (sq_tasks q) \<Longrightarrow> phase_at q j \<noteq> Waiting \<Longrightarrow> all_settled_before q j"
    and "\<And>j. j < length (sq_tasks q) \<Longrightarrow> st_previous (sq_tasks q ! j) = None \<Longrightarrow> all_settled_before q j"
    and "\<And>j i. j < length (sq_tasks q) \<Longrightarrow> st_previous (sq_tasks q ! j) = Some i \<Longrightarrow> earlier q i j \<and> (\<forall>k. earlier q k j \<longrightarrow> k \<le> i)"
    and "\<And>j. j < length (sq_tasks q) \<Longrightarrow> sq_tails q (st_project (sq_tasks q ! j)) = None \<Longrightarrow> phase_at q j = Settled"
    and "\<And>p i. sq_tails q p = Some i \<Longrightarrow> i < length (sq_tasks q) \<and> st_project (sq_tasks q ! i) = p
       \<and> (\<forall>j < length (sq_tasks q). st_project (sq_tasks q ! j) = p \<longrightarrow> j \<le> i)"
  shows "queue_inv q"
  using assms unfolding queue_inv_def by blast

lemma set_phase_length [simp]: "length (sq_tasks (set_phase i ph q)) = length (sq_tasks q)"
  and set_phase_tails [simp]: "sq_tails (set_phase i ph q) = sq_tails q"
  by (simp_all add: set_phase_def)

lemma set_phase_nth:
  assumes "i < length (sq_tasks q)"
  shows "sq_tasks (set_phase i ph q) ! k = (if k = i then (sq_tasks q ! i)\<lparr>st_phase := ph\<rparr> else sq_tasks q ! k)"
  using assms by (simp add: set_phase_def nth_list_update)

lemma set_phase_fields:
  assumes "i < length (sq_tasks q)"
  shows "st_project (sq_tasks (set_phase i ph q) ! k) = st_project (sq_tasks q ! k)"
    "st_previous (sq_tasks (set_phase i ph q) ! k) = st_previous (sq_tasks q ! k)"
    "phase_at (set_phase i ph q) k = (if k = i then ph else phase_at q k)"
  by (simp_all add: set_phase_nth [OF assms] phase_at_def)

lemma set_phase_earlier: "i < length (sq_tasks q) \<Longrightarrow> earlier (set_phase i ph q) k j = earlier q k j"
  by (simp add: earlier_def set_phase_fields)

lemma before_set_phase:
  assumes "i < length (sq_tasks q)" and "ph = Settled \<or> phase_at q i \<noteq> Settled" and "all_settled_before q j"
  shows "all_settled_before (set_phase i ph q) j"
  using assms by (auto simp: all_settled_before_def set_phase_fields set_phase_earlier)

lemma set_phase_inv:
  assumes "queue_inv q" and i: "i < length (sq_tasks q)" and new: "ph = Settled \<or> phase_at q i \<noteq> Settled"
    and go: "all_settled_before q i"
  shows "queue_inv (set_phase i ph q)"
proof (rule queue_invI, simp_all only: set_phase_length set_phase_tails set_phase_fields [OF i] set_phase_earlier [OF i])
  note inv = queue_invD [OF assms(1)] and keep = before_set_phase [OF i new]
  show "all_settled_before (set_phase i ph q) j" if "j < length (sq_tasks q)" "(if j = i then ph else phase_at q j) \<noteq> Waiting" for j
    using that inv(1) [of j] go by (intro keep) (cases "j = i", simp_all)
  show "all_settled_before (set_phase i ph q) j" if "j < length (sq_tasks q)" "st_previous (sq_tasks q ! j) = None" for j
    using that inv(2) by (intro keep)
  show "earlier q l j \<and> (\<forall>k. earlier q k j \<longrightarrow> k \<le> l)" if "j < length (sq_tasks q)" "st_previous (sq_tasks q ! j) = Some l" for j l
    using that by (rule inv(3))
  show "(if j = i then ph else phase_at q j) = Settled" if "j < length (sq_tasks q)" "sq_tails q (st_project (sq_tasks q ! j)) = None" for j
    using inv(4) [OF that] new by auto
  show "l < length (sq_tasks q) \<and> st_project (sq_tasks q ! l) = p \<and> (\<forall>j < length (sq_tasks q). st_project (sq_tasks q ! j) = p \<longrightarrow> j \<le> l)"
    if "sq_tails q p = Some l" for p l using that inv(5-7) by blast
qed

lemma ready_before:
  assumes "queue_inv q" and "ready q j"
  shows "all_settled_before q j"
proof (cases "st_previous (sq_tasks q ! j)")
  case None
  with queue_invD(2) [OF assms(1)] assms(2) show ?thesis by (simp add: ready_def)
next
  case (Some i)
  have j: "j < length (sq_tasks q)" "phase_at q i = Settled" using assms(2) Some by (simp_all add: ready_def)
  note i = conjunct1 [OF queue_invD(3) [OF assms(1) j(1) Some]] conjunct2 [OF queue_invD(3) [OF assms(1) j(1) Some]] j(2)
  then have "i < length (sq_tasks q)" by (simp add: earlier_def)
  then have before: "all_settled_before q i" using queue_invD(1) [OF assms(1)] i(3) by simp
  have "phase_at q k = Settled" if "earlier q k j" for k
  proof (cases "k = i")
    case False
    with i(2) that have "k < i" by (simp add: le_neq_implies_less)
    with i(1) that have "earlier q k i" by (simp add: earlier_def)
    with before show ?thesis by (simp add: all_settled_before_def)
  qed (simp add: i(3))
  then show ?thesis by (simp add: all_settled_before_def)
qed

lemma run_task_inv:
  assumes "queue_inv q"
  shows "queue_inv (run_task p q)"
proof -
  let ?n = "length (sq_tasks q)" and ?q = "run_task p q"
  have len: "length (sq_tasks ?q) = Suc ?n" by (simp add: run_task_def)
  have old: "sq_tasks ?q ! i = sq_tasks q ! i" if "i < ?n" for i using that by (simp add: run_task_def nth_append)
  have new: "sq_tasks ?q ! ?n = \<lparr>st_project = p, st_previous = sq_tails q p, st_phase = Waiting\<rparr>" by (simp add: run_task_def)
  have e_old: "earlier ?q i j = earlier q i j" if "j < ?n" for i j using that len old by (auto simp: earlier_def)
  have e_new: "earlier ?q i ?n \<longleftrightarrow> i < ?n \<and> st_project (sq_tasks q ! i) = p" for i
    using len old new by (auto simp: earlier_def)
  have ph: "phase_at ?q i = phase_at q i" if "i < ?n" for i using that old by (simp add: phase_at_def)
  have before_old: "all_settled_before ?q j = all_settled_before q j" if "j < ?n" for j
  proof -
    have "phase_at ?q i = phase_at q i" if "earlier q i j" for i using that \<open>j < ?n\<close> by (intro ph) (simp add: earlier_def)
    then show ?thesis unfolding all_settled_before_def e_old [OF that] by metis
  qed
  have tails: "sq_tails ?q = (sq_tails q)(p \<mapsto> ?n)" by (simp add: run_task_def)
  note inv = queue_invD [OF assms]
  show ?thesis
  proof (rule queue_invI, unfold len)
    fix j assume j: "j < Suc ?n"
    show "all_settled_before ?q j" if "phase_at ?q j \<noteq> Waiting"
    proof -
      have "j \<noteq> ?n" using that new by (auto simp: phase_at_def)
      then have "j < ?n" using j by simp
      with inv(1) that ph before_old show ?thesis by simp
    qed
    show "all_settled_before ?q j" if none: "st_previous (sq_tasks ?q ! j) = None"
    proof (cases "j = ?n")
      case True
      then have "sq_tails q p = None" using none new by simp
      then have "phase_at ?q i = Settled" if "earlier ?q i ?n" for i using that e_new inv(4) [of i] ph [of i] by simp
      with True show ?thesis by (simp add: all_settled_before_def)
    next
      case False
      then have "j < ?n" using j by simp
      with inv(2) none old before_old show ?thesis by simp
    qed
    show "earlier ?q i j \<and> (\<forall>k. earlier ?q k j \<longrightarrow> k \<le> i)" if some: "st_previous (sq_tasks ?q ! j) = Some i" for i
    proof (cases "j = ?n")
      case True
      then have t: "sq_tails q p = Some i" using some new by simp
      with inv(5-7) [OF t] True e_new show ?thesis by simp
    next
      case False
      then have "j < ?n" using j by simp
      with inv(3) some old e_old show ?thesis by simp
    qed
    show "phase_at ?q j = Settled" if "sq_tails ?q (st_project (sq_tasks ?q ! j)) = None"
    proof -
      have "j \<noteq> ?n" "st_project (sq_tasks ?q ! j) \<noteq> p" using that new tails by (auto split: if_splits)
      then have "j < ?n" using j by simp
      with inv(4) [of j] that old ph tails show ?thesis by (simp split: if_splits)
    qed
  next
    fix p' i assume t: "sq_tails ?q p' = Some i"
    show "i < Suc ?n \<and> st_project (sq_tasks ?q ! i) = p' \<and> (\<forall>j < Suc ?n. st_project (sq_tasks ?q ! j) = p' \<longrightarrow> j \<le> i)"
    proof (cases "p' = p")
      case True
      with t tails have "i = ?n" by simp
      with True new show ?thesis by simp
    next
      case False
      with t tails have t': "sq_tails q p' = Some i" by simp
      have "j \<le> i" if "j < Suc ?n" "st_project (sq_tasks ?q ! j) = p'" for j
      proof -
        have "j \<noteq> ?n" using that new False by auto
        with that have "j < ?n" by simp
        with inv(7) [OF t'] that old show ?thesis by simp
      qed
      with inv(5,6) [OF t'] old show ?thesis by simp
    qed
  qed
qed

lemma drop_tail_inv:
  assumes "queue_inv q" and "i < length (sq_tasks q)" and "phase_at q i = Settled"
  shows "queue_inv (drop_tail i q)"
proof (cases "sq_tails q (st_project (sq_tasks q ! i)) = Some i")
  case True
  let ?p = "st_project (sq_tasks q ! i)" and ?q = "drop_tail i q"
  note inv = queue_invD [OF assms(1)]
  have same: "sq_tasks ?q = sq_tasks q" "sq_tails ?q = (sq_tails q)(?p := None)" using True by (simp_all add: drop_tail_def)
  then have eq: "earlier ?q = earlier q" "phase_at ?q = phase_at q" "all_settled_before ?q = all_settled_before q"
    by (simp_all add: earlier_def phase_at_def all_settled_before_def fun_eq_iff)
  have done_all: "phase_at q j = Settled" if "j < length (sq_tasks q)" "st_project (sq_tasks q ! j) = ?p" for j
  proof (cases "j = i")
    case False
    have "earlier q j i" using inv(7) [OF True that] False that assms(2) by (simp add: earlier_def)
    with inv(1) [OF assms(2)] assms(3) show ?thesis by (simp add: all_settled_before_def)
  qed (use assms(3) in simp)
  show ?thesis
  proof (rule queue_invI, unfold same eq)
    show "phase_at q j = Settled" if "j < length (sq_tasks q)" "((sq_tails q)(?p := None)) (st_project (sq_tasks q ! j)) = None" for j
      using that done_all inv(4) by (cases "st_project (sq_tasks q ! j) = ?p") simp_all
    show "l < length (sq_tasks q) \<and> st_project (sq_tasks q ! l) = p \<and> (\<forall>j < length (sq_tasks q). st_project (sq_tasks q ! j) = p \<longrightarrow> j \<le> l)"
      if "((sq_tails q)(?p := None)) p = Some l" for p l
    proof -
      have "sq_tails q p = Some l" using that by (simp split: if_splits)
      then show ?thesis using inv(5-7) by blast
    qed
  qed (rule inv; assumption)+
qed (use assms(1) in \<open>simp add: drop_tail_def Let_def\<close>)

lemma queue_step_inv: "queue_step q q' \<Longrightarrow> queue_inv q \<Longrightarrow> queue_inv q'"
proof (induction rule: queue_step.induct)
  case (enter q p)
  then show ?case by (rule run_task_inv)
next
  case (start q i)
  then show ?case by (intro set_phase_inv ready_before) (auto simp: ready_def)
next
  case (settle i q)
  then have "all_settled_before q i" using queue_invD(1) by simp
  with settle show ?case by (intro set_phase_inv) auto
next
  case (forget i q)
  then show ?case by (intro drop_tail_inv)
qed

lemma reachable_inv: "queue_step\<^sup>*\<^sup>* empty_queue q \<Longrightarrow> queue_inv q"
proof (induction rule: rtranclp_induct)
  case base
  show ?case by (simp add: queue_inv_def empty_queue_def)
next
  case (step q q')
  then show ?case by (blast intro: queue_step_inv)
qed

section \<open>One at a time, in order\<close>

text \<open>C18: operations of a project never overlap and run in the order they were queued, however the events
  interleave and whether the operations before succeeded or failed: when an operation has started, every earlier
  one of its project has settled, and two running operations of one project are the same.\<close>

theorem serial_in_order:
  assumes "queue_step\<^sup>*\<^sup>* empty_queue q" and "j < length (sq_tasks q)" and "phase_at q j \<noteq> Waiting"
  shows "(\<forall>i < j. st_project (sq_tasks q ! i) = st_project (sq_tasks q ! j) \<longrightarrow> phase_at q i = Settled)
     \<and> (\<forall>i < length (sq_tasks q). phase_at q i = Running \<and> phase_at q j = Running
          \<and> st_project (sq_tasks q ! i) = st_project (sq_tasks q ! j) \<longrightarrow> i = j)"
proof -
  have inv: "queue_inv q" using assms(1) by (rule reachable_inv)
  then have before: "phase_at q i = Settled" if "earlier q i k" "k < length (sq_tasks q)" "phase_at q k \<noteq> Waiting" for i k
    using that queue_invD(1) [OF inv] by (simp add: all_settled_before_def)
  have "i = j" if "i < length (sq_tasks q)" "phase_at q i = Running" "phase_at q j = Running"
      "st_project (sq_tasks q ! i) = st_project (sq_tasks q ! j)" for i
    using before [of i j] before [of j i] that assms(2) by (cases i j rule: linorder_cases) (auto simp: earlier_def)
  then show ?thesis using before [of _ j] assms(2,3) by (auto simp: earlier_def)
qed

text \<open>The queue never stalls. While an operation waits, the first operation of its project that has
  not settled is running or can start.\<close>

theorem serial_progress:
  assumes "queue_step\<^sup>*\<^sup>* empty_queue q" and "j < length (sq_tasks q)" and "phase_at q j = Waiting"
  shows "\<exists>i \<le> j. st_project (sq_tasks q ! i) = st_project (sq_tasks q ! j) \<and> (phase_at q i = Running \<or> ready q i)"
proof -
  let ?open = "\<lambda>i. i < length (sq_tasks q) \<and> st_project (sq_tasks q ! i) = st_project (sq_tasks q ! j) \<and> phase_at q i \<noteq> Settled"
  define i where "i = (LEAST i. ?open i)"
  have i: "?open i" unfolding i_def by (rule LeastI [of _ j]) (use assms in simp)
  have le: "i \<le> j" unfolding i_def by (rule Least_le) (use assms in simp)
  have least: "phase_at q k = Settled" if "earlier q k i" for k
    using that i not_less_Least [of k ?open] unfolding i_def [symmetric] by (auto simp: earlier_def)
  have inv: "queue_inv q" using assms(1) by (rule reachable_inv)
  have "ready q i" if "phase_at q i = Waiting"
  proof (cases "st_previous (sq_tasks q ! i)")
    case (Some k)
    with queue_invD(3) [OF inv] i least that show ?thesis by (simp add: ready_def)
  qed (use i that in \<open>simp add: ready_def\<close>)
  with i le show ?thesis by (cases "phase_at q i") auto
qed

text \<open>Waiting for the tails is waiting for everything. \<open>idle\<close> awaits the tails of the projects; when
  those have settled, so has every operation that was queued.\<close>

theorem idle_waits_for_all:
  assumes "queue_step\<^sup>*\<^sup>* empty_queue q" and "\<forall>p i. sq_tails q p = Some i \<longrightarrow> phase_at q i = Settled" and "j < length (sq_tasks q)"
  shows "phase_at q j = Settled"
proof -
  have inv: "queue_inv q" using assms(1) by (rule reachable_inv)
  show ?thesis
  proof (cases "sq_tails q (st_project (sq_tasks q ! j))")
    case None
    with queue_invD(4) [OF inv assms(3)] show ?thesis by simp
  next
    case (Some i)
    note i = queue_invD(5-7) [OF inv Some]
    have settled: "phase_at q i = Settled" using assms(2) Some by blast
    show ?thesis
    proof (cases "j = i")
      case False
      have "earlier q j i" using i(3) [OF assms(3)] i(1,2) False by (simp add: earlier_def)
      with queue_invD(1) [OF inv i(1)] settled show ?thesis by (simp add: all_settled_before_def)
    qed (simp add: settled)
  qed
qed

section \<open>Two operations\<close>

definition two_tasks :: serial_queue where
  "two_tasks = run_task ''p'' (set_phase 0 Running (run_task ''p'' empty_queue))"

lemma two_tasks_reachable: "queue_step\<^sup>*\<^sup>* empty_queue two_tasks"
proof -
  have "queue_step empty_queue (run_task ''p'' empty_queue)" by (rule queue_step.enter)
  also have "queue_step\<^sup>*\<^sup>* (run_task ''p'' empty_queue) (set_phase 0 Running (run_task ''p'' empty_queue))"
    by (intro r_into_rtranclp queue_step.start) (simp add: ready_def phase_at_def run_task_def empty_queue_def)
  also have "queue_step (set_phase 0 Running (run_task ''p'' empty_queue)) two_tasks"
    unfolding two_tasks_def by (rule queue_step.enter)
  finally show ?thesis by (auto intro: rtranclp_trans converse_rtranclp_into_rtranclp)
qed

lemma two_tasks_phases: "length (sq_tasks two_tasks) = 2" "phase_at two_tasks 0 = Running" "phase_at two_tasks 1 = Waiting"
    "st_project (sq_tasks two_tasks ! 0) = ''p''" "st_project (sq_tasks two_tasks ! 1) = ''p''"
  by code_simp+

definition handed_over :: serial_queue where
  "handed_over = set_phase 1 Running (set_phase 0 Settled two_tasks)"

lemma handed_over_reachable: "queue_step\<^sup>*\<^sup>* empty_queue handed_over"
proof -
  have "queue_step two_tasks (set_phase 0 Settled two_tasks)"
    using two_tasks_phases by (intro queue_step.settle) simp_all
  moreover have "ready (set_phase 0 Settled two_tasks) 1" by code_simp
  then have "queue_step (set_phase 0 Settled two_tasks) handed_over" unfolding handed_over_def by (rule queue_step.start)
  ultimately show ?thesis using two_tasks_reachable by (meson rtranclp.rtrancl_into_rtrancl)
qed

theorem serial_in_order_witness: "phase_at handed_over 1 = Running \<and> phase_at handed_over 0 = Settled"
proof -
  have "length (sq_tasks handed_over) = 2" "phase_at handed_over 1 = Running" by code_simp+
  moreover have "st_project (sq_tasks handed_over ! 0) = st_project (sq_tasks handed_over ! 1)" by code_simp
  ultimately show ?thesis using serial_in_order [OF handed_over_reachable, of 1] by simp
qed

theorem serial_progress_witness:
  "phase_at two_tasks 1 = Waiting \<and> (\<exists>i \<le> 1. phase_at two_tasks i = Running \<or> ready two_tasks i)"
  using serial_progress [OF two_tasks_reachable, of 1] two_tasks_phases by auto

definition one_settled :: serial_queue where
  "one_settled = set_phase 0 Settled (set_phase 0 Running (run_task ''p'' empty_queue))"

lemma one_settled_reachable: "queue_step\<^sup>*\<^sup>* empty_queue one_settled"
proof -
  have "queue_step empty_queue (run_task ''p'' empty_queue)" by (rule queue_step.enter)
  moreover have "queue_step (run_task ''p'' empty_queue) (set_phase 0 Running (run_task ''p'' empty_queue))"
    by (intro queue_step.start) (simp add: ready_def phase_at_def run_task_def empty_queue_def)
  moreover have "queue_step (set_phase 0 Running (run_task ''p'' empty_queue)) one_settled"
    unfolding one_settled_def by (intro queue_step.settle) (simp_all add: set_phase_def phase_at_def run_task_def empty_queue_def)
  ultimately show ?thesis by (meson converse_rtranclp_into_rtranclp rtranclp.rtrancl_refl)
qed

theorem idle_waits_for_all_witness: "length (sq_tasks one_settled) = 1 \<and> phase_at one_settled 0 = Settled"
proof -
  have "length (sq_tasks one_settled) = 1" by code_simp
  moreover have "\<forall>p i. sq_tails one_settled p = Some i \<longrightarrow> phase_at one_settled i = Settled"
    by (simp add: one_settled_def set_phase_def phase_at_def run_task_def empty_queue_def)
  ultimately show ?thesis using idle_waits_for_all [OF one_settled_reachable, of 0] by simp
qed

end
