(* ===== verification/CommandLine.thy ===== *)
theory CommandLine
  imports Prelude
begin

text \<open>
  The command line of \<open>args.ts\<close>: \<open>parseCliArgs\<close> turns the arguments of the program into one command or throws a
  \<open>CliArgumentError\<close>. \<open>Number\<close> of the repetitions is a parameter that gives a safe integer or nothing.
\<close>

section \<open>Commands\<close>

datatype cli_error = CliArgumentError string

type_synonym 'a parsed = "cli_error + 'a"

datatype auth_type = Oauth | ApiKey

record run_options =
  ro_project :: "string option"
  ro_prompt :: "string option"
  ro_resume :: bool
  ro_approve :: bool
  ro_provider :: "string option"
  ro_model :: "string option"
  ro_hooks :: bool

record benchmark_options =
  bo_repetitions :: "int option"
  bo_real :: bool
  bo_provider :: "string option"
  bo_model :: "string option"
  bo_project :: "string option"

datatype cli_command =
    CmdHelp
  | CmdVersion
  | CmdDoctor
  | CmdModels
  | CmdBenchmark benchmark_options
  | CmdExtensionList
  | CmdResourceList
  | CmdSystemPromptInit
  | CmdAccountList
  | CmdAccountAdd "string option" "auth_type option"
  | CmdAccountUse string
  | CmdAccountDelete string
  | CmdSkillCreate string
  | CmdMcpAdd string string "string list"
  | CmdMcpTools string
  | CmdMcpCall string string "string option"
  | CmdUpdate
  | CmdRun run_options

definition argument_error :: "string \<Rightarrow> 'a parsed" where
  "argument_error m = Inl (CliArgumentError m)"

text \<open>A text that is present and not empty.\<close>

definition given :: "string \<Rightarrow> string option" where
  "given s = (if s = [] then None else Some s)"

text \<open>\<open>args[i]\<close> as far as its truth value matters.\<close>

definition arg :: "string list \<Rightarrow> nat \<Rightarrow> string option" where
  "arg args i = (if i < length args then given (args ! i) else None)"

text \<open>\<open>valueAfter\<close>, on the arguments that follow the flag.\<close>

definition valueAfter :: "string list \<Rightarrow> string \<Rightarrow> string parsed" where
  "valueAfter rest flag =
     (case rest of [] \<Rightarrow> argument_error (flag @ '' requires a value'')
      | v # _ \<Rightarrow> if v = [] \<or> startsWith v ''-'' then argument_error (flag @ '' requires a value'') else Inr v)"

section \<open>Subcommands\<close>

definition parse_account :: "string list \<Rightarrow> cli_command parsed" where
  "parse_account args =
     (if length args = 1 then Inr CmdAccountList
      else if arg args 1 = Some ''add'' \<and> length args \<le> 4 then
        (let authType = (if arg args 3 = Some ''oauth'' then Some Oauth
             else if arg args 3 = Some ''api-key'' \<or> arg args 3 = Some ''api_key'' then Some ApiKey else None) in
         if arg args 3 \<noteq> None \<and> authType = None then argument_error ''account add auth method must be oauth or api-key''
         else Inr (CmdAccountAdd (arg args 2) authType))
      else if length args = 3 \<and> arg args 1 = Some ''use'' \<and> arg args 2 \<noteq> None then Inr (CmdAccountUse (args ! 2))
      else if length args = 3 \<and> arg args 1 = Some ''delete'' \<and> arg args 2 \<noteq> None then Inr (CmdAccountDelete (args ! 2))
      else argument_error ''account supports \"account\", \"account add [provider] [oauth|api-key]\", \"account use <id>\", or \"account delete <id>\"'')"

definition parse_mcp :: "string list \<Rightarrow> cli_command parsed" where
  "parse_mcp args =
     (if arg args 1 = Some ''add'' then
        (if length args < 4 then argument_error ''mcp add requires \"mcp add <name> <command> [args...]\"''
         else Inr (CmdMcpAdd (args ! 2) (args ! 3) (drop 4 args)))
      else if arg args 1 = Some ''tools'' then
        (if length args \<noteq> 3 then argument_error ''mcp tools requires \"mcp tools <server>\"'' else Inr (CmdMcpTools (args ! 2)))
      else if arg args 1 = Some ''call'' then
        (if length args < 4 \<or> 5 < length args then argument_error ''mcp call requires \"mcp call <server> <tool> [json-args]\"''
         else Inr (CmdMcpCall (args ! 2) (args ! 3) (arg args 4)))
      else argument_error ''mcp supports \"mcp add\", \"mcp tools\", and \"mcp call\"'')"

definition exactly :: "string list \<Rightarrow> string \<Rightarrow> string \<Rightarrow> cli_command \<Rightarrow> cli_command parsed" where
  "exactly args word message command =
     (if arg args 1 \<noteq> Some word \<or> length args \<noteq> 2 then argument_error message else Inr command)"

definition parse_skill :: "string list \<Rightarrow> cli_command parsed" where
  "parse_skill args =
     (if arg args 1 \<noteq> Some ''create'' \<or> length args \<noteq> 3 then argument_error ''skill currently supports \"skill create <name>\"''
      else Inr (CmdSkillCreate (args ! 2)))"

fun benchmark_loop :: "(string \<Rightarrow> int option) \<Rightarrow> benchmark_options \<Rightarrow> string list \<Rightarrow> benchmark_options parsed" where
  "benchmark_loop number opts [] = Inr opts"
| "benchmark_loop number opts (a # rest) =
     (if a = ''--real'' then benchmark_loop number (opts\<lparr>bo_real := True\<rparr>) rest
      else if a \<notin> {''--repetitions'', ''--provider'', ''--model'', ''--project''} then argument_error (''Unknown benchmark option: '' @ a)
      else case valueAfter rest a of
        Inl e \<Rightarrow> Inl e
      | Inr v \<Rightarrow>
          if a = ''--repetitions'' then
            (case number v of
               Some n \<Rightarrow> if 1 \<le> n \<and> n \<le> 100000 then benchmark_loop number (opts\<lparr>bo_repetitions := Some n\<rparr>) (tl rest)
                 else argument_error ''--repetitions must be an integer between 1 and 100000''
             | None \<Rightarrow> argument_error ''--repetitions must be an integer between 1 and 100000'')
          else if a = ''--provider'' then benchmark_loop number (opts\<lparr>bo_provider := Some v\<rparr>) (tl rest)
          else if a = ''--model'' then benchmark_loop number (opts\<lparr>bo_model := Some v\<rparr>) (tl rest)
          else benchmark_loop number (opts\<lparr>bo_project := Some v\<rparr>) (tl rest))"

definition no_benchmark :: benchmark_options where
  "no_benchmark = \<lparr>bo_repetitions = None, bo_real = False, bo_provider = None, bo_model = None, bo_project = None\<rparr>"

definition parse_benchmark :: "(string \<Rightarrow> int option) \<Rightarrow> string list \<Rightarrow> cli_command parsed" where
  "parse_benchmark number args =
     (case benchmark_loop number no_benchmark (drop 1 args) of
        Inl e \<Rightarrow> Inl e
      | Inr opts \<Rightarrow> Inr (CmdBenchmark (opts\<lparr>bo_repetitions :=
          Some (case bo_repetitions opts of Some n \<Rightarrow> n | None \<Rightarrow> if bo_real opts then 20 else 1000)\<rparr>)))"

section \<open>Running\<close>

text \<open>The options without a value, and the ones with a value.\<close>

definition set_flag :: "string \<Rightarrow> run_options \<Rightarrow> run_options option" where
  "set_flag a opts =
     (if a = ''--resume'' then Some (opts\<lparr>ro_resume := True\<rparr>)
      else if a = ''--approve'' then Some (opts\<lparr>ro_approve := True\<rparr>)
      else if a = ''--allow-project-hooks'' then Some (opts\<lparr>ro_hooks := True\<rparr>)
      else None)"

definition takes_value :: "string \<Rightarrow> bool" where
  "takes_value a = (a \<in> {''--project'', ''--provider'', ''--model'', ''--print'', ''-p''})"

definition set_value :: "string \<Rightarrow> string \<Rightarrow> run_options \<Rightarrow> run_options" where
  "set_value a v opts =
     (if a = ''--project'' then opts\<lparr>ro_project := Some v\<rparr>
      else if a = ''--provider'' then opts\<lparr>ro_provider := Some v\<rparr>
      else if a = ''--model'' then opts\<lparr>ro_model := Some v\<rparr>
      else opts\<lparr>ro_prompt := Some v\<rparr>)"

fun run_loop :: "run_options \<Rightarrow> string list \<Rightarrow> string list \<Rightarrow> (run_options \<times> string list) parsed" where
  "run_loop opts messages [] = Inr (opts, messages)"
| "run_loop opts messages (a # rest) =
     (case set_flag a opts of
        Some opts' \<Rightarrow> run_loop opts' messages rest
      | None \<Rightarrow>
          if takes_value a then
            (case valueAfter rest a of Inl e \<Rightarrow> Inl e | Inr v \<Rightarrow> run_loop (set_value a v opts) messages (tl rest))
          else if startsWith a ''-'' then argument_error (''Unknown option: '' @ a)
          else run_loop opts (messages @ [a]) rest)"

definition no_run :: run_options where
  "no_run = \<lparr>ro_project = None, ro_prompt = None, ro_resume = False, ro_approve = False, ro_provider = None, ro_model = None, ro_hooks = False\<rparr>"

definition parse_run :: "string list \<Rightarrow> cli_command parsed" where
  "parse_run args =
     (case run_loop no_run [] args of
        Inl e \<Rightarrow> Inl e
      | Inr (opts, messages) \<Rightarrow>
          if ro_prompt opts \<noteq> None \<and> messages \<noteq> [] then argument_error ''Use either -p or a positional prompt, not both''
          else Inr (CmdRun (if ro_prompt opts = None \<and> messages \<noteq> [] then opts\<lparr>ro_prompt := given (join '' '' messages)\<rparr> else opts)))"

definition parseCliArgs :: "(string \<Rightarrow> int option) \<Rightarrow> string list \<Rightarrow> cli_command parsed" where
  "parseCliArgs number args =
     (if args = [] then Inr (CmdRun no_run)
      else if args ! 0 = ''help'' \<or> ''--help'' \<in> set args \<or> ''-h'' \<in> set args then Inr CmdHelp
      else if ''--version'' \<in> set args \<or> ''-v'' \<in> set args then Inr CmdVersion
      else if args ! 0 = ''doctor'' then Inr CmdDoctor
      else if args ! 0 = ''models'' then Inr CmdModels
      else if args ! 0 = ''update'' then Inr CmdUpdate
      else if args ! 0 = ''account'' then parse_account args
      else if args ! 0 = ''resource'' then exactly args ''list'' ''resource currently supports exactly \"resource list\"'' CmdResourceList
      else if args ! 0 = ''system-prompt''
        then exactly args ''init'' ''system-prompt currently supports exactly \"system-prompt init\"'' CmdSystemPromptInit
      else if args ! 0 = ''skill'' then parse_skill args
      else if args ! 0 = ''mcp'' then parse_mcp args
      else if args ! 0 = ''npm''
        then argument_error ''Local npm login and publish are disabled; use the repository's reviewed Trusted Publishing workflow''
      else if args ! 0 = ''extension'' then exactly args ''list'' ''extension currently supports exactly \"extension list\"'' CmdExtensionList
      else if args ! 0 = ''auth'' then argument_error ''Provider login moved to \"account add [provider]\"''
      else if args ! 0 = ''benchmark'' then parse_benchmark number args
      else parse_run args)"

section \<open>Nothing is implied\<close>

lemma run_loop_flags:
  "run_loop opts messages args = Inr (opts', messages') \<Longrightarrow>
     (ro_approve opts' \<longrightarrow> ro_approve opts \<or> ''--approve'' \<in> set args) \<and> (ro_hooks opts' \<longrightarrow> ro_hooks opts \<or> ''--allow-project-hooks'' \<in> set args)
     \<and> (ro_resume opts' \<longrightarrow> ro_resume opts \<or> ''--resume'' \<in> set args)"
proof (induction opts messages args rule: run_loop.induct)
  case (2 opts messages a rest)
  show ?case
  proof (cases "set_flag a opts")
    case (Some o')
    have "(ro_approve o' \<longrightarrow> ro_approve opts \<or> a = ''--approve'') \<and> (ro_hooks o' \<longrightarrow> ro_hooks opts \<or> a = ''--allow-project-hooks'')
        \<and> (ro_resume o' \<longrightarrow> ro_resume opts \<or> a = ''--resume'')"
      using Some by (auto simp: set_flag_def split: if_splits)
    with 2(3) [OF Some] 2(4) Some show ?thesis by auto
  next
    case None
    have same: "ro_approve (set_value a v opts) = ro_approve opts" "ro_hooks (set_value a v opts) = ro_hooks opts"
        "ro_resume (set_value a v opts) = ro_resume opts" for v by (simp_all add: set_value_def)
    show ?thesis
    proof (cases "takes_value a")
      case True
      with 2(4) None obtain v where v: "valueAfter rest a = Inr v" and run: "run_loop (set_value a v opts) messages (tl rest) = Inr (opts', messages')"
        by (auto split: sum.splits)
      have "set (tl rest) \<subseteq> set rest" by (cases rest) auto
      with 2(1) [OF None True v run] same show ?thesis by auto
    next
      case False
      with 2(4) None have "\<not> startsWith a ''-''" "run_loop opts (messages @ [a]) rest = Inr (opts', messages')"
        by (auto simp: argument_error_def split: if_splits)
      with 2(2) [OF None False] show ?thesis by auto
    qed
  qed
qed simp

lemma parse_run_flags:
  assumes "parse_run args = Inr c"
  shows "\<exists>o'. c = CmdRun o' \<and> (ro_approve o' \<longrightarrow> ''--approve'' \<in> set args) \<and> (ro_hooks o' \<longrightarrow> ''--allow-project-hooks'' \<in> set args)
     \<and> (ro_resume o' \<longrightarrow> ''--resume'' \<in> set args)"
proof -
  from assms obtain opts messages where run: "run_loop no_run [] args = Inr (opts, messages)"
    and c: "c = CmdRun (if ro_prompt opts = None \<and> messages \<noteq> [] then opts\<lparr>ro_prompt := given (join '' '' messages)\<rparr> else opts)"
    by (auto simp: parse_run_def argument_error_def split: sum.splits if_splits)
  show ?thesis using run_loop_flags [OF run] unfolding c by (auto simp: no_run_def)
qed

lemma other_commands:
  "parse_account args \<noteq> Inr (CmdRun r)" "parse_mcp args \<noteq> Inr (CmdRun r)" "parse_skill args \<noteq> Inr (CmdRun r)"
  "parse_benchmark number args \<noteq> Inr (CmdRun r)" "exactly args w m CmdResourceList \<noteq> Inr (CmdRun r)"
  "exactly args w m CmdSystemPromptInit \<noteq> Inr (CmdRun r)" "exactly args w m CmdExtensionList \<noteq> Inr (CmdRun r)"
  by (auto simp: parse_account_def parse_mcp_def parse_skill_def parse_benchmark_def exactly_def argument_error_def Let_def split: sum.splits)

text \<open>C39: the command line grants nothing by itself. A run that applies patches without asking, runs the
  hooks of the project or resumes an interrupted task was started with the option that says so.\<close>

theorem cli_grants_nothing:
  assumes "parseCliArgs number args = Inr (CmdRun r)"
  shows "(ro_approve r \<longrightarrow> ''--approve'' \<in> set args) \<and> (ro_hooks r \<longrightarrow> ''--allow-project-hooks'' \<in> set args)
     \<and> (ro_resume r \<longrightarrow> ''--resume'' \<in> set args)"
proof (cases "args = []")
  case True
  with assms show ?thesis by (auto simp: parseCliArgs_def no_run_def)
next
  case False
  with assms other_commands have "parse_run args = Inr (CmdRun r)"
    by (simp add: parseCliArgs_def argument_error_def split: if_splits)
  from parse_run_flags [OF this] show ?thesis by simp
qed

section \<open>Writing a command line\<close>

definition value_args :: "string \<Rightarrow> string option \<Rightarrow> string list" where
  "value_args flag x = (case x of None \<Rightarrow> [] | Some v \<Rightarrow> [flag, v])"

definition flag_args :: "string \<Rightarrow> bool \<Rightarrow> string list" where
  "flag_args flag b = (if b then [flag] else [])"

definition run_args :: "run_options \<Rightarrow> string list" where
  "run_args r = value_args ''--project'' (ro_project r) @ value_args ''--provider'' (ro_provider r) @ value_args ''--model'' (ro_model r)
     @ flag_args ''--resume'' (ro_resume r) @ flag_args ''--approve'' (ro_approve r) @ flag_args ''--allow-project-hooks'' (ro_hooks r)
     @ value_args ''-p'' (ro_prompt r)"

definition plain_value :: "string option \<Rightarrow> bool" where
  "plain_value x = (case x of None \<Rightarrow> True | Some v \<Rightarrow> v \<noteq> [] \<and> \<not> startsWith v ''-'')"

definition plain_run :: "run_options \<Rightarrow> bool" where
  "plain_run r = (plain_value (ro_project r) \<and> plain_value (ro_provider r) \<and> plain_value (ro_model r) \<and> plain_value (ro_prompt r))"

lemma run_loop_value:
  assumes "takes_value a" and "plain_value x"
  shows "run_loop opts ms (value_args a x @ rest) = run_loop (case x of None \<Rightarrow> opts | Some v \<Rightarrow> set_value a v opts) ms rest"
proof -
  have "set_flag a opts = None" using assms(1) by (auto simp: takes_value_def set_flag_def)
  with assms show ?thesis by (cases x) (simp_all add: value_args_def plain_value_def valueAfter_def)
qed

lemma run_loop_flag:
  "run_loop opts ms (flag_args ''--resume'' b @ rest) = run_loop (if b then opts\<lparr>ro_resume := True\<rparr> else opts) ms rest"
  "run_loop opts ms (flag_args ''--approve'' b @ rest) = run_loop (if b then opts\<lparr>ro_approve := True\<rparr> else opts) ms rest"
  "run_loop opts ms (flag_args ''--allow-project-hooks'' b @ rest) = run_loop (if b then opts\<lparr>ro_hooks := True\<rparr> else opts) ms rest"
  by (simp_all add: flag_args_def set_flag_def)

lemma run_loop_args:
  assumes "plain_run r"
  shows "run_loop no_run [] (run_args r) = Inr (r, [])"
proof -
  have tv: "takes_value ''--project''" "takes_value ''--provider''" "takes_value ''--model''" "takes_value ''-p''"
    by (simp_all add: takes_value_def)
  have plain: "plain_value (ro_project r)" "plain_value (ro_provider r)" "plain_value (ro_model r)" "plain_value (ro_prompt r)"
    using assms by (simp_all add: plain_run_def)
  let ?o1 = "case ro_project r of None \<Rightarrow> no_run | Some v \<Rightarrow> set_value ''--project'' v no_run"
  let ?o2 = "case ro_provider r of None \<Rightarrow> ?o1 | Some v \<Rightarrow> set_value ''--provider'' v ?o1"
  let ?o3 = "case ro_model r of None \<Rightarrow> ?o2 | Some v \<Rightarrow> set_value ''--model'' v ?o2"
  let ?o4 = "if ro_resume r then ?o3\<lparr>ro_resume := True\<rparr> else ?o3"
  let ?o5 = "if ro_approve r then ?o4\<lparr>ro_approve := True\<rparr> else ?o4"
  let ?o6 = "if ro_hooks r then ?o5\<lparr>ro_hooks := True\<rparr> else ?o5"
  let ?o7 = "case ro_prompt r of None \<Rightarrow> ?o6 | Some v \<Rightarrow> set_value ''-p'' v ?o6"
  have "run_loop no_run [] (run_args r @ []) = run_loop ?o7 [] []"
    unfolding run_args_def append_assoc
    by (simp only: run_loop_value [OF tv(1) plain(1)] run_loop_value [OF tv(2) plain(2)] run_loop_value [OF tv(3) plain(3)]
        run_loop_flag run_loop_value [OF tv(4) plain(4)])
  moreover have "?o7 = r"
    by (cases r) (simp add: no_run_def set_value_def split: option.split)
  ultimately show ?thesis by simp
qed

lemma run_args_words:
  assumes "plain_run r" and "w \<in> set (run_args r)"
  shows "w \<noteq> ''--help'' \<and> w \<noteq> ''-h'' \<and> w \<noteq> ''--version'' \<and> w \<noteq> ''-v''"
  using assms by (auto simp: run_args_def value_args_def flag_args_def plain_run_def plain_value_def startsWith_def split: option.splits if_splits)

lemma run_args_first:
  assumes "run_args r \<noteq> []"
  shows "startsWith (run_args r ! 0) ''-''"
  using assms by (auto simp: run_args_def value_args_def flag_args_def startsWith_def nth_append split: option.splits if_splits)

text \<open>A run can be written as a command line. Any combination of options whose texts are not empty and do not
  begin with a dash is what the parser reads from the arguments that spell it.\<close>

theorem run_command_round_trip:
  assumes "plain_run r"
  shows "parseCliArgs number (run_args r) = Inr (CmdRun r)"
proof (cases "run_args r = []")
  case True
  then have "r = no_run" using run_loop_args [OF assms] by simp
  with True show ?thesis by (simp add: parseCliArgs_def)
next
  case False
  have "parse_run (run_args r) = Inr (CmdRun r)" by (simp add: parse_run_def run_loop_args [OF assms])
  moreover have "parseCliArgs number (run_args r) = parse_run (run_args r)"
    using False run_args_first [OF False] run_args_words [OF assms] by (auto simp: parseCliArgs_def startsWith_def)
  ultimately show ?thesis by simp
qed

text \<open>An argument of an MCP server can be taken for one of the program. Adding a server whose own arguments
  hold \<open>-v\<close>, \<open>--version\<close>, \<open>-h\<close> or \<open>--help\<close> does not add it: the help or the version is printed.\<close>

theorem server_argument_swallowed:
  assumes "set server_args \<inter> {''-v'', ''--version'', ''-h'', ''--help''} \<noteq> {}"
  shows "parseCliArgs number ([''mcp'', ''add'', name, command] @ server_args) \<in> {Inr CmdHelp, Inr CmdVersion}"
  using assms by (auto simp: parseCliArgs_def)

theorem cli_grants_nothing_witness:
  "\<exists>r. parseCliArgs (\<lambda>s. None) [''--approve'', ''fix''] = Inr (CmdRun r) \<and> ro_approve r \<and> ''--approve'' \<in> set [''--approve'', ''fix'']"
proof -
  have "parseCliArgs (\<lambda>s. None) [''--approve'', ''fix''] = Inr (CmdRun (no_run\<lparr>ro_approve := True, ro_prompt := Some ''fix''\<rparr>))" by code_simp
  with cli_grants_nothing [OF this] show ?thesis by simp
qed

theorem run_command_round_trip_witness:
  "parseCliArgs (\<lambda>s. None) (run_args (no_run\<lparr>ro_prompt := Some ''fix it'', ro_approve := True\<rparr>))
     = Inr (CmdRun (no_run\<lparr>ro_prompt := Some ''fix it'', ro_approve := True\<rparr>))"
  by (rule run_command_round_trip) code_simp

theorem server_argument_swallowed_witness:
  "parseCliArgs (\<lambda>s. None) ([''mcp'', ''add'', ''db'', ''docker''] @ [''run'', ''-v'', ''/data:/data'']) \<in> {Inr CmdHelp, Inr CmdVersion}"
  by (rule server_argument_swallowed) simp

end
