(* ===== verification/Spec2Isabelle.thy ===== *)
theory Spec2Isabelle
  imports Compiler Coordinator OpProps Workspace SideChat Goal CacheWarm PatchWrites CodingTask ReadExec Diagnostics SerialQueue
    CommandLine
begin

text \<open>
  A verification development of the runtime core of 3xhaustPi (the packages \<open>3xhaustpi\<close>, \<open>core\<close>,
  \<open>pi-adapter\<close> and \<open>semantic-contract\<close> under \<open>src/packages\<close>; a file named below without a directory is
  in \<open>src/packages/3xhaustpi/src\<close>).

  \<^bold>\<open>The program.\<close> 3xhaustPi lets a language model change a project without letting it act. The model is
  shown a bounded set of documents and answers with one JSON value; that value is parsed by a strict
  contract and compiled into reads, which policy allows, and at most a proposal, which the user has to
  approve. A coding task (\<open>runCodingTask\<close>) takes a snapshot of the project, opens a durable run, and
  enters the semantic loop. The loop marks a request as dispatching in the database before it is sent,
  adapts and compiles the answer, executes the reads and asks once more with their observations. A
  patch proposal is checked against the files, shown to the user, written as a transaction and followed
  by diagnostics. Checkpoints after each phase let a task that was interrupted go on, and a request that
  the provider may have received is never sent again by itself. Beside the tasks, a queue of requests
  in the same database is shared by several processes under leases with epochs; side chats, the goal of
  a project and the heads of conversations have stores of their own.

  \<^bold>\<open>How it is modelled.\<close> Every definition is a function of the sources with its name where Isabelle allows
  it. An exception is a value (\<open>js_error\<close>, the left side of \<open>res\<close>). Stateful code maps a state to the
  state it leaves and its result, also when it throws (\<open>Effects\<close>), so what was done before a failure
  stays. A database is a record of tables, a table a list of rows in the order of insertion, and a
  transaction a function that either returns the new database or an error and no database. The disk of
  the patch transaction has directory entries and inodes, and every system call may fail. Code outside
  the repository is a parameter: the digest of \<open>node:crypto\<close>, the provider's completion function, the
  messages of the engine's own errors, the clock, random identifiers, the output of git and ripgrep, the
  answers of the user and \<open>localeCompare\<close>. Characters are the ones below 256, so the Korean form of a skill request
  in \<open>project-snapshot.ts\<close> never matches here. Numbers of JSON are integers; arithmetic of
  the sources stays below \<open>2 ^ 53\<close> or is checked by them (\<open>Number.isSafeInteger\<close>), and those checks are in
  the model.

  \<^bold>\<open>Shared theories.\<close>
  \<^item> \<open>Prelude\<close>: results, arrays, strings, rows and the interfaces. The locale \<open>invariant_machine\<close> (operations
    that keep an invariant, over any sequence of them, failed ones included), \<open>monotone_machine\<close>, which
    extends it by an order that no operation goes back in, and \<open>codec\<close> (an encoder and its parser).
  \<^item> \<open>Json\<close>: values, \<open>JSON.stringify\<close>, \<open>JSON.parse\<close> and \<open>core/src/canonical.ts\<close>. The parser has fuel,
    one more than the length of the text: each step consumes a character. No other definition has
    fuel. A number with a fraction or an exponent is outside the model and rejected by its parser. \<open>Members\<close>: objects from optional members.
  \<^item> \<open>Effects\<close> and \<open>Frames\<close>: steps that may throw, and the locale \<open>step_relation\<close>: what each step keeps, a
    program of steps keeps, however it ends.

  \<^bold>\<open>Contract, compiler, coordinator.\<close>
  \<^item> \<open>Contract\<close> (\<open>semantic-contract/src\<close>): every parser with its bounds and error codes. The parsers
    accept exactly the encodings of well-formed values; four interpretations of \<open>codec\<close>.
  \<^item> \<open>Compiler\<close> (\<open>core/src/catalog.ts\<close>, \<open>policy.ts\<close>, \<open>compiler.ts\<close>, \<open>observation.ts\<close>): a decision allows reads
    only; a write is at most a proposal that needs approval.
  \<^item> \<open>Coordinator\<close> (\<open>core/src/coordinator.ts\<close>): turns and outbox records as a monotone machine; a request
    in flight is requeued only on evidence; the checkpoint restores the state.

  \<^bold>\<open>Prompt and adapter.\<close>
  \<^item> \<open>Prompt\<close> (\<open>pi-adapter/src/compaction.ts\<close>, \<open>prompt.ts\<close>): the text of a turn and the compaction of evidence.
  \<^item> \<open>Adapter\<close> (\<open>pi-adapter/src/adapter.ts\<close>, \<open>metrics.ts\<close>): reading, validating and repairing an answer once;
    what a turn returns is well formed and refers only to what was disclosed.

  \<^bold>\<open>Stores.\<close>
  \<^item> \<open>ExecGraph\<close> (\<open>execution-graph.ts\<close>) and \<open>ImagePayload\<close> (\<open>image-payload.ts\<close>): what requests hold.
  \<^item> \<open>OpStore\<close>, \<open>OpInv\<close>, \<open>OpSafety\<close>, \<open>OpProps\<close> (\<open>tui-operation-*.ts\<close>): the request queue; one running request
    for each project, first in first out, stale leases rejected forever, effects at most once.
    \<open>OpConversation\<close> (\<open>tui-operation-store.ts\<close>): conversation heads, accounts, preferences and history.
  \<^item> \<open>RunStore\<close>, \<open>RunProps\<close> (\<open>state-*-store.ts\<close>): durable runs, outbox, checkpoints and journal.
    \<open>Checkpoint\<close> (\<open>coding-runtime-checkpoint.ts\<close>): the text of a checkpoint and its parser.
    \<open>Workspace\<close> (\<open>state-workspace-store.ts\<close>): the summary of a workspace.
  \<^item> \<open>SideChat\<close> (\<open>tui-side-chat-store.ts\<close>), \<open>Goal\<close> (\<open>state-goal-store.ts\<close>, \<open>project-goal-text.ts\<close>,
    \<open>terminal-sanitizer.ts\<close>), \<open>CacheWarm\<close> (\<open>cache-warm-controller.ts\<close>, with timers as events).

  \<^bold>\<open>Coding tasks.\<close>
  \<^item> \<open>Patch\<close> (\<open>coding-runtime-patch-apply.ts\<close>, \<open>coding-runtime-patch.ts\<close>): where an edit may land and what it
    makes of the files, as a refinement of edits on texts.
  \<^item> \<open>PatchTransaction\<close>, \<open>PatchAtomic\<close> (\<open>coding-runtime-patch-transaction.ts\<close>, \<open>-descriptor.ts\<close>): staging, commit
    and rollback; a patch is written to all of its files or to none, whichever calls fail.
    \<open>PatchWrites\<close>: the write loop, total by the measure of the bytes left, equals one write.
  \<^item> \<open>SemanticLoop\<close> (\<open>coding-runtime-semantic.ts\<close>, \<open>-provider.ts\<close>, \<open>-evidence.ts\<close>): requests are marked before they
    are sent, and a finished loop resumes to the same result without sending.
  \<^item> \<open>Snapshot\<close> (\<open>project-snapshot.ts\<close>, \<open>project-files.ts\<close>): what is disclosed of a project, and the walk of its tree.
    \<open>ReadExec\<close> (\<open>capability-executor.ts\<close>, \<open>project-files.ts\<close>): the search and its cache.
    \<open>Diagnostics\<close> (\<open>coding-runtime-diagnostics.ts\<close>): the command after a patch.
  \<^item> \<open>CodingTask\<close> (\<open>coding-runtime.ts\<close>, \<open>coding-runtime-patch-flow.ts\<close>, \<open>-project.ts\<close>, \<open>-resume.ts\<close>): the whole task. No file
    is touched without approval at the approved revision, a completed patch is on the disk exactly, and
    a run that was started is settled.

  \<^bold>\<open>Around them.\<close>
  \<^item> \<open>SerialQueue\<close> (\<open>project-serial-queue.ts\<close>): operations of a project as an interleaving of events, one at a
    time, in order, never stuck. \<open>CommandLine\<close> (\<open>args.ts\<close>): the command line; no option is implied.

  This theory adds what spans components: canonical text and its parser, and that what the adapter
  accepts the compiler accepts.

  \<^bold>\<open>Interpretations.\<close> \<open>monotone_machine\<close>: the coordinator, the request queue, the conversation store, the
  runs and the side chats. \<open>invariant_machine\<close>: the execution graph, cache warming, the read cache and the
  coordinator with an indeterminate turn. \<open>codec\<close>: JSON text, claims, edits, outputs, turn requests and
  persisted graphs. \<open>step_relation\<close>: the disk under a task that writes nothing and the disk under a
  transaction.

  \<^bold>\<open>Not modelled.\<close> The replacement of a file by backup and link on Windows
  (\<open>coding-runtime-patch-windows.ts\<close>), which needs that system's sharing rules. The Python workers of
  \<open>python-read-pool.ts\<close>, worker transport, hooks, MCP clients and self update: processes and sockets.
  Providers, accounts and credential stores: key chains, lock files and calls of the upstream model
  package. The interactive agent (\<open>agent-*.ts\<close>): its state is the session of the upstream \<open>coding-agent\<close>
  package. The terminal interface: rendering and keys, whose durable state is in the stores above. The
  benchmarks: measurement only. Events for observers: they change no state.
\<close>

text \<open>C34: canonical JSON text parses back to the same data with every object's property names
  sorted, for every JSON value.\<close>

theorem canonical_round_trip:
  "is_json v \<Longrightarrow> bindR (canonical v) JSON_parse = Inr (sort_json v)"
  by (rule canonical_parses)

theorem canonical_round_trip_witness:
  "bindR (canonical (JObj [(''b'', JNum 2), (''a'', JArr [JNull, JStr ''x''])])) JSON_parse
     = Inr (JObj [(''a'', JArr [JNull, JStr ''x'']), (''b'', JNum 2)])"
  using canonical_round_trip [of "JObj [(''b'', JNum 2), (''a'', JArr [JNull, JStr ''x''])]"]
  by simp

text \<open>C28: the adapter and the compiler agree on what a usable answer is. Whatever a turn returns, the
  compiler accepts when it runs with the pinned versions and the observations that turn disclosed,
  and its decision is safe: reads are allowed by policy and writes are at most proposals that need
  approval.\<close>

theorem adapter_output_compiles:
  assumes "submit digest engine provider s turn signal images t0 t1 = (calls, Inr r)"
    and "assertVersions cx = Inr ()"
    and "cx_observationDigests cx = di_observationIds (tr_disclosed turn)"
  shows "\<exists>d. compileSemanticOutput digest (enc_output (re_output r)) cx wm = Inr d \<and> decision_safe cx wm d"
proof -
  have ok: "wf_output (re_output r)" and "discloses (tr_disclosed turn) (re_output r)"
    using submit_output_ok [OF assms(1)] by blast+
  then have "\<forall>s cs. re_output r = IntentOutput (CompleteIntent s cs) \<longrightarrow>
      (\<forall>c \<in> set cs. cc_observationRef c \<in> set (cx_observationDigests cx))"
    using assms(3) by (auto simp: image_subset_iff)
  then obtain d where d: "compileSemanticOutput digest (enc_output (re_output r)) cx wm = Inr d"
    using compile_total [of digest "enc_output (re_output r)" cx wm] parse_output_enc [OF ok] assms(2) by blast
  with compile_decision_safe show ?thesis by blast
qed

definition sample_cx :: compile_context where
  "sample_cx = \<lparr>cx_projectId = ''prj_a'', cx_turnId = ''turn_a'', cx_projectRevision = ''r'',
     cx_observationDigests = [''obs_1''], cx_catalogVersion = None, cx_policyVersion = None\<rparr>"

theorem adapter_output_compiles_witness:
  "\<exists>calls r d. submit sample_bytes (\<lambda>_. []) sample_complete (open_session sample_binding) sample_turn 0 [] 5 9
       = (calls, Inr r)
     \<and> compileSemanticOutput sample_bytes (enc_output (re_output r)) sample_cx WriteDeny = Inr d"
proof -
  obtain calls r where s: "submit sample_bytes (\<lambda>_. []) sample_complete (open_session sample_binding) sample_turn
      0 [] 5 9 = (calls, Inr r)"
    using sample_submit [of "\<lambda>_. []"] by blast
  have "assertVersions sample_cx = Inr ()" by (simp add: assertVersions_def sample_cx_def)
  moreover have "cx_observationDigests sample_cx = di_observationIds (tr_disclosed sample_turn)"
    by (simp add: sample_cx_def sample_turn_def)
  ultimately show ?thesis using s adapter_output_compiles [OF s] by blast
qed

end
